(* ===== verification/Netstack_Prelude.thy ===== *)
theory Netstack_Prelude
  imports Main "HOL-Library.Word" "HOL-Library.Monad_Syntax"
begin

text \<open>
  Shared vocabulary of the development: machine integer types, C pointers and
  buffers, and the memory primitives every component is written with.

  A C computation that may touch memory is a value of type \<open>'a option\<close>, where
  \<open>None\<close> stands for undefined behaviour: a read or a write outside its array, or
  a dereferenced null pointer. A pointer argument is also an option, \<open>None\<close> being
  \<open>NULL\<close>, so that \<open>x \<leftarrow> p\<close> in a \<open>do\<close> block is the dereference \<open>*p\<close>.
  Proving that a function returns \<open>Some\<close> therefore proves that the call is memory
  safe, and every functional theorem below includes that fact.

  \<open>size_t\<close> values are natural numbers; \<^verbatim>\<open>size_add\<close> and \<^verbatim>\<open>size_sub\<close> write out
  the wrap-around at 64 bits where a source expression can overflow.
\<close>

unbundle bit_operations_syntax

section \<open>Types\<close>

type_synonym u8 = "8 word"
type_synonym u16 = "16 word"
type_synonym u32 = "32 word"
type_synonym u64 = "64 word"
type_synonym 'a ptr = "'a option"
type_synonym bytes = "u8 list"

named_theorems mem_simps \<open>memory primitives on buffers of a known shape\<close>
named_theorems const_defs \<open>the preprocessor constants of the headers\<close>

abbreviation SIZE_LIMIT :: nat where
  "SIZE_LIMIT \<equiv> 2 ^ 64"

definition size_add :: "nat \<Rightarrow> nat \<Rightarrow> nat" where
  "size_add a b = (a + b) mod SIZE_LIMIT"

lemma size_add_exact [simp]: "a + b < SIZE_LIMIT \<Longrightarrow> size_add a b = a + b"
  by (simp add: size_add_def)

definition size_sub :: "nat \<Rightarrow> nat \<Rightarrow> nat" where
  "size_sub a b = (if b \<le> a then a - b else a + SIZE_LIMIT - b)"

lemma size_sub_exact [simp]: "b \<le> a \<Longrightarrow> size_sub a b = a - b"
  by (simp add: size_sub_def)

lemma unat_word_less: "unat w < 2 ^ LENGTH('a)" for w :: "'a::len word"
  by (rule unsigned_less)

lemma unat_u8_less: "unat (b :: u8) < 256"
  using unat_word_less [of b] by simp

lemma unat_u16_less: "unat (w :: u16) < 65536"
  using unat_word_less [of w] by simp

lemma unat_inject: "unat a = unat b \<longleftrightarrow> a = b" for a b :: "'a::len word"
  by (simp add: word_unat_eq_iff)

section \<open>Memory primitives\<close>

text \<open>
  \<open>rd\<close> is \<open>p[i]\<close>, \<open>mem_read\<close> the source side and \<open>mem_write\<close> the destination
  side of \<open>memcpy\<close>; \<open>blit\<close> is the effect of an in-bounds write.
\<close>

definition rd :: "'a list \<Rightarrow> nat \<Rightarrow> 'a option" where
  "rd src i = (if i < length src then Some (src ! i) else None)"

definition mem_read :: "'a list \<Rightarrow> nat \<Rightarrow> nat \<Rightarrow> 'a list option" where
  "mem_read src off n = (if off + n \<le> length src then Some (take n (drop off src)) else None)"

definition blit :: "nat \<Rightarrow> 'a list \<Rightarrow> 'a list \<Rightarrow> 'a list" where
  "blit off bs dst = take off dst @ bs @ drop (off + length bs) dst"

definition mem_write :: "'a list \<Rightarrow> nat \<Rightarrow> 'a list \<Rightarrow> 'a list option" where
  "mem_write dst off bs = (if off + length bs \<le> length dst then Some (blit off bs dst) else None)"

definition wr :: "'a list \<Rightarrow> nat \<Rightarrow> 'a \<Rightarrow> 'a list option" where
  "wr dst i v = mem_write dst i [v]"

text \<open>\<open>memcpy(dst + doff, src + soff, n)\<close>\<close>

definition memcpy :: "'a list \<Rightarrow> nat \<Rightarrow> 'a list \<Rightarrow> nat \<Rightarrow> nat \<Rightarrow> 'a list option" where
  "memcpy dst doff src soff n = do { bs \<leftarrow> mem_read src soff n; mem_write dst doff bs }"

text \<open>\<open>memset(dst, v, n)\<close>\<close>

definition memset :: "'a list \<Rightarrow> 'a \<Rightarrow> nat \<Rightarrow> 'a list option" where
  "memset dst v n = mem_write dst 0 (replicate n v)"

lemma rd_Some [mem_simps]: "i < length src \<Longrightarrow> rd src i = Some (src ! i)"
  by (simp add: rd_def)

lemma mem_read_Some [mem_simps]:
  "off + n \<le> length src \<Longrightarrow> mem_read src off n = Some (take n (drop off src))"
  by (simp add: mem_read_def)

lemma mem_write_Some [mem_simps]:
  "off + length bs \<le> length dst \<Longrightarrow> mem_write dst off bs = Some (blit off bs dst)"
  by (simp add: mem_write_def)

lemma wr_Some [mem_simps]: "i < length dst \<Longrightarrow> wr dst i v = Some (blit i [v] dst)"
  by (simp add: wr_def mem_write_def)

lemma memcpy_Some [mem_simps]:
  "soff + n \<le> length src \<Longrightarrow> doff + n \<le> length dst \<Longrightarrow>
    memcpy dst doff src soff n = Some (blit doff (take n (drop soff src)) dst)"
  by (simp add: memcpy_def mem_read_def mem_write_def)

text \<open>\<^verbatim>\<open>if (n > 0) memcpy(dst + doff, src + soff, n)\<close>\<close>

lemma memcpy_if_Some [mem_simps]:
  "soff + n \<le> length src \<Longrightarrow> doff + n \<le> length dst \<Longrightarrow>
    (if 0 < n then memcpy dst doff src soff n else Some dst) =
      Some (blit doff (take n (drop soff src)) dst)"
  by (simp add: memcpy_Some) (simp add: blit_def)

lemma memset_Some [mem_simps]:
  "n \<le> length dst \<Longrightarrow> memset dst v n = Some (replicate n v @ drop n dst)"
  by (simp add: memset_def mem_write_def blit_def)

lemma length_blit [simp]: "off + length bs \<le> length dst \<Longrightarrow> length (blit off bs dst) = length dst"
  by (simp add: blit_def)

lemma mem_write_NoneD: "mem_write dst off bs = None \<longleftrightarrow> length dst < off + length bs"
  by (auto simp: mem_write_def)

text \<open>
  A write of a serializer lands behind the bytes already written: it passes over
  a written prefix and replaces the head of what follows.
\<close>

lemma blit_0 [mem_simps]: "blit 0 bs r = bs @ drop (length bs) r"
  by (simp add: blit_def)

lemma blit_append [mem_simps]:
  "length a \<le> off \<Longrightarrow> blit off bs (a @ r) = a @ blit (off - length a) bs r"
  by (simp add: blit_def)

lemma blit_Cons [mem_simps]: "0 < off \<Longrightarrow> blit off bs (x # r) = x # blit (off - 1) bs r"
  by (cases off) (simp_all add: blit_def)

lemma take_over_append: "length a \<le> n \<Longrightarrow> take n (a @ r) = a @ take (n - length a) r"
  by simp

lemma take_over_Cons: "0 < n \<Longrightarrow> take n (x # r) = x # take (n - 1) r"
  by (cases n) simp_all

lemmas take_over = take_over_append take_over_Cons

lemma blit_Nil [simp]: "blit off [] r = r"
  by (simp add: blit_def)

lemma blit_take: "off + length bs \<le> length r \<Longrightarrow> take off (blit off bs r) = take off r"
  by (simp add: blit_def)

lemma blit_drop: "off + length bs \<le> length r \<Longrightarrow>
    drop (off + length bs) (blit off bs r) = drop (off + length bs) r"
  by (simp add: blit_def)

lemma take_blit_end: "off + length bs \<le> length r \<Longrightarrow>
    take (off + length bs) (blit off bs r) = take off r @ bs"
  by (simp add: blit_def)

lemma blit_adjacent:
  assumes "off + length a + length b \<le> length d"
  shows "blit (off + length a) b (blit off a d) = blit off (a @ b) d"
proof -
  have "take (off + length a) (blit off a d) = take off d @ a"
    using assms by (intro take_blit_end) simp
  moreover have "drop (off + length a + length b) (blit off a d) =
      drop (off + length a + length b) d"
    using assms by (simp add: blit_def add_ac)
  ultimately show ?thesis
    by (simp add: blit_def [of _ b] blit_def [of _ "a @ b"] add.assoc)
qed

lemma drop_blit: "off + length bs \<le> m \<Longrightarrow> m \<le> length r \<Longrightarrow> drop m (blit off bs r) = drop m r"
  by (simp add: blit_def)

lemma nth_blit: "off < length r \<Longrightarrow> blit off [x] r ! off = x"
  by (simp add: blit_def nth_append)

section \<open>Lists of a known length\<close>

lemma list4: "length a = 4 \<Longrightarrow> a = [a ! 0, a ! 1, a ! 2, a ! 3]"
  by (rule nth_equalityI) (auto simp: less_Suc_eq numeral_eq_Suc)

lemma list6: "length m = 6 \<Longrightarrow> m = [m ! 0, m ! 1, m ! 2, m ! 3, m ! 4, m ! 5]"
  by (rule nth_equalityI) (auto simp: less_Suc_eq numeral_eq_Suc)

lemma take_8:
  "8 \<le> length d \<Longrightarrow> take 8 d = [d ! 0, d ! 1, d ! 2, d ! 3, d ! 4, d ! 5, d ! 6, d ! 7]"
  by (rule nth_equalityI) (auto simp: less_Suc_eq numeral_eq_Suc)

lemma take_12:
  "12 \<le> length d \<Longrightarrow> take 12 d = [d ! 0, d ! 1, d ! 2, d ! 3, d ! 4, d ! 5, d ! 6, d ! 7,
    d ! 8, d ! 9, d ! 10, d ! 11]"
  by (rule nth_equalityI) (auto simp: less_Suc_eq numeral_eq_Suc)

lemma take_then_drop: "take a d @ take b (drop a d) = take (a + b) d"
  by (simp add: take_add)

end
