(* ===== verification/Wire.thy ===== *)
theory Wire
  imports Netstack_Prelude
begin

text \<open>
  Big-endian integers on the wire. Every source file of the stack carries its own
  copy of these static helpers; the copies are identical up to layout and are
  modelled once. \<open>be16\<close> and \<open>be32\<close> are the expressions the readers compute,
  \<open>u16_bytes\<close> and \<open>u32_bytes\<close> the bytes the writers store.
\<close>

section \<open>Values and bytes\<close>

definition be16 :: "u8 \<Rightarrow> u8 \<Rightarrow> u16" where
  "be16 a b = push_bit 8 (ucast a) OR ucast b"

definition be32 :: "u8 \<Rightarrow> u8 \<Rightarrow> u8 \<Rightarrow> u8 \<Rightarrow> u32" where
  "be32 a b c d = push_bit 24 (ucast a) OR push_bit 16 (ucast b) OR push_bit 8 (ucast c) OR ucast d"

definition u16_bytes :: "u16 \<Rightarrow> bytes" where
  "u16_bytes v = [ucast (drop_bit 8 v AND 0xFF), ucast (v AND 0xFF)]"

definition u32_bytes :: "u32 \<Rightarrow> bytes" where
  "u32_bytes v = [ucast (drop_bit 24 v AND 0xFF), ucast (drop_bit 16 v AND 0xFF),
                  ucast (drop_bit 8 v AND 0xFF), ucast (v AND 0xFF)]"

definition read_u16_be :: "bytes \<Rightarrow> nat \<Rightarrow> u16 option" where
  "read_u16_be data off = do { a \<leftarrow> rd data off; b \<leftarrow> rd data (off + 1); Some (be16 a b) }"

definition read_u32_be :: "bytes \<Rightarrow> nat \<Rightarrow> u32 option" where
  "read_u32_be data off = do {
     a \<leftarrow> rd data off; b \<leftarrow> rd data (off + 1);
     c \<leftarrow> rd data (off + 2); d \<leftarrow> rd data (off + 3);
     Some (be32 a b c d) }"

definition write_u16_be :: "bytes \<Rightarrow> nat \<Rightarrow> u16 \<Rightarrow> bytes option" where
  "write_u16_be data off v = do {
     data \<leftarrow> wr data off (ucast (drop_bit 8 v AND 0xFF));
     wr data (off + 1) (ucast (v AND 0xFF)) }"

definition write_u32_be :: "bytes \<Rightarrow> nat \<Rightarrow> u32 \<Rightarrow> bytes option" where
  "write_u32_be data off v = do {
     data \<leftarrow> wr data off (ucast (drop_bit 24 v AND 0xFF));
     data \<leftarrow> wr data (off + 1) (ucast (drop_bit 16 v AND 0xFF));
     data \<leftarrow> wr data (off + 2) (ucast (drop_bit 8 v AND 0xFF));
     wr data (off + 3) (ucast (v AND 0xFF)) }"

section \<open>Lemmas\<close>

lemma length_u16_bytes [simp]: "length (u16_bytes v) = 2"
  by (simp add: u16_bytes_def)

lemma u16_bytes_0 [simp]: "u16_bytes 0 = [0, 0]"
  by (simp add: u16_bytes_def)

lemma length_u32_bytes [simp]: "length (u32_bytes v) = 4"
  by (simp add: u32_bytes_def)

lemma and_255: "x AND 255 = take_bit 8 x" for x :: "'a::len word"
  by (simp add: take_bit_eq_mask mask_eq_exp_minus_1)

lemma bit_u8_beyond: "8 \<le> n \<Longrightarrow> \<not> bit x n" for x :: u8
  by (auto dest: bit_imp_le_length)

lemmas byte_bits = bit_simps and_255 bit_u8_beyond

lemma be16_bytes [simp]:
  "be16 (ucast (drop_bit 8 v AND 0xFF)) (ucast (v AND 0xFF)) = v" for v :: u16
  unfolding be16_def and_255
  by (rule bit_word_eqI) (auto simp: byte_bits not_le)

lemma be32_bytes [simp]:
  "be32 (ucast (drop_bit 24 v AND 0xFF)) (ucast (drop_bit 16 v AND 0xFF))
        (ucast (drop_bit 8 v AND 0xFF)) (ucast (v AND 0xFF)) = v" for v :: u32
  unfolding be32_def and_255
proof (rule bit_word_eqI)
  fix n assume "n < LENGTH(32)"
  then consider "n < 8" | "8 \<le> n" "n < 16" | "16 \<le> n" "n < 24" | "24 \<le> n" "n < 32"
    by force
  then show "bit (push_bit 24 (ucast (ucast (take_bit 8 (drop_bit 24 v)) :: u8)) OR
      push_bit 16 (ucast (ucast (take_bit 8 (drop_bit 16 v)) :: u8)) OR
      push_bit 8 (ucast (ucast (take_bit 8 (drop_bit 8 v)) :: u8)) OR
      ucast (ucast (take_bit 8 v) :: u8) :: u32) n = bit v n"
    by cases (auto simp: byte_bits)
qed

lemma u16_bytes_be16 [simp]: "u16_bytes (be16 a b) = [a, b]"
  unfolding be16_def u16_bytes_def and_255
  by (auto intro!: bit_word_eqI simp: byte_bits)

lemma u32_bytes_be32 [simp]: "u32_bytes (be32 a b c d) = [a, b, c, d]"
  unfolding be32_def u32_bytes_def and_255
  by (auto intro!: bit_word_eqI simp: byte_bits)

lemma unat_be16: "unat (be16 a b) = 256 * unat a + unat b"
proof -
  have "push_bit 8 (ucast a :: u16) AND ucast b = 0"
    by (rule bit_word_eqI) (auto simp: byte_bits)
  then have "be16 a b = push_bit 8 (ucast a) + ucast b"
    by (simp add: be16_def disjunctive_add_eq_or)
  moreover have "unat a < 256" "unat b < 256"
    using unsigned_less [of a] unsigned_less [of b] by simp_all
  ultimately show ?thesis
    by (simp add: push_bit_eq_mult unat_word_ariths unsigned_ucast_eq take_bit_eq_mod)
qed

lemma be16_inject [simp]: "be16 a b = be16 c d \<longleftrightarrow> a = c \<and> b = d"
  by (metis list.inject u16_bytes_be16)

lemma be16_eq_iff: "be16 a b = v \<longleftrightarrow> u16_bytes v = [a, b]"
proof
  assume "u16_bytes v = [a, b]"
  then show "be16 a b = v"
    by (auto simp: u16_bytes_def)
qed auto

lemma u16_bytes_inject [simp]: "u16_bytes v = u16_bytes w \<longleftrightarrow> v = w"
proof
  assume "u16_bytes v = u16_bytes w"
  moreover obtain a b where "u16_bytes v = [a, b]" by (simp add: u16_bytes_def)
  ultimately have "be16 a b = v" "be16 a b = w" by (simp_all add: be16_eq_iff)
  then show "v = w" by simp
qed simp

lemma u16_bytes_nth [simp]:
  "be16 (u16_bytes v ! 0) (u16_bytes v ! Suc 0) = v"
  by (simp add: u16_bytes_def)

lemma read_u16_be_Some [mem_simps]:
  "off + 1 < length d \<Longrightarrow> read_u16_be d off = Some (be16 (d ! off) (d ! (off + 1)))"
  by (simp add: read_u16_be_def rd_def)

lemma read_u32_be_Some [mem_simps]:
  "off + 3 < length d \<Longrightarrow>
    read_u32_be d off = Some (be32 (d ! off) (d ! (off + 1)) (d ! (off + 2)) (d ! (off + 3)))"
  by (simp add: read_u32_be_def rd_def)

lemma write_u16_be_Some [mem_simps]:
  assumes "off + 2 \<le> length d"
  shows "write_u16_be d off v = Some (blit off (u16_bytes v) d)"
  using assms blit_adjacent [of off "[ucast (drop_bit 8 v AND 0xFF)]" "[ucast (v AND 0xFF)]" d]
  by (simp add: write_u16_be_def u16_bytes_def mem_simps)

lemma write_u32_be_Some [mem_simps]:
  assumes "off + 4 \<le> length d"
  shows "write_u32_be d off v = Some (blit off (u32_bytes v) d)"
proof -
  define a b c e where "a = (ucast (drop_bit 24 v AND 0xFF) :: u8)"
    and "b = (ucast (drop_bit 16 v AND 0xFF) :: u8)"
    and "c = (ucast (drop_bit 8 v AND 0xFF) :: u8)"
    and "e = (ucast (v AND 0xFF) :: u8)"
  have "blit (off + 1) [b] (blit off [a] d) = blit off [a, b] d"
    using assms blit_adjacent [of off "[a]" "[b]" d] by simp
  moreover have "blit (off + 2) [c] (blit off [a, b] d) = blit off [a, b, c] d"
    using assms blit_adjacent [of off "[a, b]" "[c]" d] by simp
  moreover have "blit (off + 3) [e] (blit off [a, b, c] d) = blit off [a, b, c, e] d"
    using assms blit_adjacent [of off "[a, b, c]" "[e]" d] by (simp add: numeral_3_eq_3)
  ultimately show ?thesis
    using assms
    by (simp add: write_u32_be_def u32_bytes_def mem_simps flip: a_def b_def c_def e_def)
qed

end
