(* ===== verification/Codec.thy ===== *)
theory Codec
  imports Wire
begin

text \<open>
  The contract every protocol header of the stack offers to the layers that carry
  it, as two locales. A \<open>codec\<close> has a parser, a serializer and a wire image:
  the serializer of a valid message writes exactly the wire image at the start of
  the buffer, and the parser maps the wire image back to the message. A
  \<open>canonical_codec\<close> moreover accepts nothing but wire images. The clients'
  lemmas (round trips, frame conditions, unambiguity) are proved once here.
\<close>

section \<open>Codecs\<close>

locale codec =
  fixes parse :: "bytes ptr \<Rightarrow> nat \<Rightarrow> 'm ptr \<Rightarrow> (int \<times> 'm ptr) option"
    and serialize :: "'m ptr \<Rightarrow> bytes ptr \<Rightarrow> nat \<Rightarrow> (nat \<times> bytes ptr) option"
    and wire :: "'m \<Rightarrow> bytes"
    and valid :: "'m \<Rightarrow> bool"
    and norm :: "'m \<Rightarrow> 'm"
  assumes serialize_wire:
    "valid m \<Longrightarrow> length (wire m) \<le> n \<Longrightarrow> n \<le> length buf \<Longrightarrow>
      serialize (Some m) (Some buf) n =
        Some (length (wire m), Some (wire m @ drop (length (wire m)) buf))"
    and serialize_small:
    "valid m \<Longrightarrow> n < length (wire m) \<Longrightarrow>
      serialize (Some m) (Some buf) n = Some (0, Some buf)"
    and parse_wire:
    "valid m \<Longrightarrow>
      parse (Some (wire m @ rest)) (length (wire m)) (Some g) = Some (0, Some (norm m))"
    and wire_nonempty: "valid m \<Longrightarrow> wire m \<noteq> []"
begin

lemma serialize_parse:
  assumes "valid m" and "length (wire m) \<le> n" and "n \<le> length buf"
  shows "do { (len, out) \<leftarrow> serialize (Some m) (Some buf) n; parse out len (Some g) } =
         Some (0, Some (norm m))"
  using assms by (simp add: serialize_wire parse_wire)

lemma serialize_safe:
  assumes "valid m" and "n \<le> length buf"
  shows "\<exists>len out. serialize (Some m) (Some buf) n = Some (len, Some out)
    \<and> length out = length buf \<and> drop len out = drop len buf
    \<and> (len = 0 \<longleftrightarrow> n < length (wire m)) \<and> len \<le> n"
proof (cases "n < length (wire m)")
  case True
  with assms show ?thesis by (simp add: serialize_small)
next
  case False
  with assms show ?thesis
    by (auto simp: serialize_wire wire_nonempty)
qed

lemma wire_unambiguous:
  assumes "valid m" and "valid m'" and "wire m = wire m'"
  shows "norm m = norm m'"
  using parse_wire [OF assms(1), of "[]" m] parse_wire [OF assms(2), of "[]" m] assms(3)
  by simp

end

locale canonical_codec = codec +
  assumes parse_sound:
    "n \<le> length d \<Longrightarrow> parse (Some d) n (Some g) = Some (0, Some m) \<Longrightarrow>
      valid m \<and> length (wire m) \<le> n \<and> take (length (wire m)) d = wire m"
begin

lemma parse_serialize:
  assumes "n \<le> length d" and "parse (Some d) n (Some g) = Some (0, Some m)"
    and "n \<le> k" and "k \<le> length buf"
  shows "\<exists>len. serialize (Some m) (Some buf) k = Some (len, Some (take len d @ drop len buf))
     \<and> 0 < len \<and> len \<le> n"
proof -
  from parse_sound [OF assms(1,2)]
  have "valid m" and len: "length (wire m) \<le> n" and eq: "take (length (wire m)) d = wire m"
    by auto
  then have "serialize (Some m) (Some buf) k =
      Some (length (wire m), Some (wire m @ drop (length (wire m)) buf))"
    using assms(3,4) by (intro serialize_wire) auto
  moreover have "0 < length (wire m)"
    using wire_nonempty [OF \<open>valid m\<close>] by simp
  ultimately show ?thesis
    using len eq by (intro exI [of _ "length (wire m)"]) simp
qed

end

end
