(* ===== verification/CString.thy ===== *)
theory CString
  imports Netstack_Prelude
begin

text \<open>
  The parts of the C library's string handling the stack uses: bounded formatted
  output with \<^verbatim>\<open>snprintf\<close> and the conversions \<^verbatim>\<open>%02X\<close> and \<^verbatim>\<open>%u\<close>, the searches
  \<^verbatim>\<open>strstr\<close> and \<^verbatim>\<open>strchr\<close>, and \<^verbatim>\<open>strtol\<close>. A
  \<^verbatim>\<open>char\<close> buffer is a list of characters.
\<close>

definition NUL :: char where "NUL = CHR 0x00"

text \<open>
  \<^verbatim>\<open>snprintf(buf, n, ...)\<close> with the formatted text given: it stores at most
  \<open>n - 1\<close> characters and a terminator, and returns the length of the whole text.
\<close>

definition snprintf :: "string \<Rightarrow> nat \<Rightarrow> string \<Rightarrow> (int \<times> string) option" where
  "snprintf buf n s =
    (if n = 0 then Some (int (length s), buf)
     else do { buf \<leftarrow> mem_write buf 0 (take (n - 1) s @ [NUL]); Some (int (length s), buf) })"

lemma snprintf_fits:
  assumes "length s < n" and "n \<le> length buf"
  shows "snprintf buf n s = Some (int (length s), s @ NUL # drop (Suc (length s)) buf)"
  using assms by (simp add: snprintf_def mem_simps)

lemma snprintf_truncates:
  assumes "0 < n" and "n \<le> length s" and "n \<le> length buf"
  shows "snprintf buf n s = Some (int (length s), take (n - 1) s @ NUL # drop n buf)"
  using assms by (cases n) (simp_all add: snprintf_def mem_simps)

definition hex_digit :: "nat \<Rightarrow> char" where
  "hex_digit n = ''0123456789ABCDEF'' ! n"

definition dec_digit :: "nat \<Rightarrow> char" where
  "dec_digit n = ''0123456789'' ! n"

definition fmt_02X :: "u8 \<Rightarrow> string" where
  "fmt_02X b = [hex_digit (unat b div 16), hex_digit (unat b mod 16)]"

fun fmt_u :: "nat \<Rightarrow> string" where
  "fmt_u n = (if n < 10 then [dec_digit n] else fmt_u (n div 10) @ [dec_digit (n mod 10)])"

declare fmt_u.simps [simp del]

lemma length_fmt_02X [simp]: "length (fmt_02X b) = 2"
  by (simp add: fmt_02X_def)

lemma hex_digit_inject:
  assumes "m < 16" and "n < 16" and "hex_digit m = hex_digit n"
  shows "m = n"
proof -
  have "distinct ''0123456789ABCDEF''" by simp
  with assms show ?thesis by (simp add: hex_digit_def nth_eq_iff_index_eq)
qed

lemma fmt_02X_inject [simp]: "fmt_02X a = fmt_02X b \<longleftrightarrow> a = b"
proof
  assume eq: "fmt_02X a = fmt_02X b"
  have "unat a < 256" "unat b < 256"
    using unsigned_less [of a] unsigned_less [of b] by simp_all
  then have "unat a div 16 < 16" "unat b div 16 < 16" by auto
  with eq have "unat a div 16 = unat b div 16" "unat a mod 16 = unat b mod 16"
    by (auto simp: fmt_02X_def intro: hex_digit_inject)
  then have "unat a = unat b"
    by (metis div_mult_mod_eq)
  then show "a = b" by (rule unsigned_word_eqI)
qed simp

lemma fmt_u_nonempty: "fmt_u n \<noteq> []"
  by (subst fmt_u.simps) simp

text \<open>A byte prints as one to three digits.\<close>

lemma length_fmt_u_byte: "n < 256 \<Longrightarrow> length (fmt_u n) = (if n < 10 then 1 else if n < 100 then 2 else 3)"
  by (cases "n < 10"; cases "n < 100")
    (auto simp: fmt_u.simps [of n] fmt_u.simps [of "n div 10"] fmt_u.simps [of "n div 10 div 10"])

lemma dec_digit_inject:
  assumes "m < 10" and "n < 10" and "dec_digit m = dec_digit n"
  shows "m = n"
proof -
  have "distinct ''0123456789''" by simp
  with assms show ?thesis by (simp add: dec_digit_def nth_eq_iff_index_eq)
qed

lemma dec_digit_not_dot:
  assumes "n < 10"
  shows "dec_digit n \<noteq> CHR ''.''"
proof -
  have "dec_digit n \<in> set ''0123456789''"
    using assms unfolding dec_digit_def by (intro nth_mem) simp
  then show ?thesis by auto
qed

lemma fmt_u_no_dot: "CHR ''.'' \<notin> set (fmt_u n)"
proof (induction n rule: fmt_u.induct)
  case (1 n)
  show ?case
  proof (cases "n < 10")
    case True
    then show ?thesis using dec_digit_not_dot [of n] by (subst fmt_u.simps) auto
  next
    case False
    with 1 show ?thesis
      using dec_digit_not_dot [of "n mod 10"] by (subst fmt_u.simps) auto
  qed
qed

lemma fmt_u_inject [simp]: "fmt_u m = fmt_u n \<longleftrightarrow> m = n"
proof (intro iffI)
  assume "fmt_u m = fmt_u n"
  then show "m = n"
  proof (induction m arbitrary: n rule: fmt_u.induct)
    case (1 m)
    have one: "length (fmt_u k) = 1 \<longleftrightarrow> k < 10" for k
      using fmt_u_nonempty [of "k div 10"] by (subst fmt_u.simps) auto
    show ?case
    proof (cases "m < 10")
      case True
      with "1.prems" one [of m] one [of n] have "n < 10" by simp
      with True "1.prems" show ?thesis
        by (simp add: fmt_u.simps [of m] fmt_u.simps [of n] dec_digit_inject)
    next
      case False
      with "1.prems" one [of m] one [of n] have "\<not> n < 10" by simp
      with False "1.prems" have "fmt_u (m div 10) = fmt_u (n div 10)"
        and "dec_digit (m mod 10) = dec_digit (n mod 10)"
        by (simp_all add: fmt_u.simps [of m] fmt_u.simps [of n])
      then have "m div 10 = n div 10" and "m mod 10 = n mod 10"
        using "1.IH" [OF False] by (auto intro: dec_digit_inject)
      then show ?thesis by (metis div_mult_mod_eq)
    qed
  qed
qed simp

text \<open>Splitting at a separator that the left part does not contain is unambiguous.\<close>

lemma append_sep_inject:
  assumes "c \<notin> set xs" and "c \<notin> set ys" and "xs @ c # as = ys @ c # bs"
  shows "xs = ys \<and> as = bs"
  using assms
proof (induction xs arbitrary: ys)
  case Nil
  then show ?case by (cases ys) auto
next
  case (Cons x xs)
  then show ?case by (cases ys) auto
qed

section \<open>Searching and converting\<close>

text \<open>An array with no terminator is not a string: the functions are undefined on it.\<close>

abbreviation CR :: char where "CR \<equiv> CHR 0x0D"
abbreviation LF :: char where "LF \<equiv> CHR 0x0A"
abbreviation TAB :: char where "TAB \<equiv> CHR 0x09"

definition CRLF :: string where "CRLF = [CR, LF]"

definition c_text :: "string \<Rightarrow> string option" where
  "c_text mem = (if NUL \<in> set mem then Some (takeWhile (\<lambda>c. c \<noteq> NUL) mem) else None)"

fun find_sub :: "string \<Rightarrow> string \<Rightarrow> nat option" where
  "find_sub needle [] = (if needle = [] then Some 0 else None)"
| "find_sub needle (c # cs) =
    (if take (length needle) (c # cs) = needle then Some 0 else map_option Suc (find_sub needle cs))"

fun find_char :: "char \<Rightarrow> string \<Rightarrow> nat option" where
  "find_char x [] = None"
| "find_char x (c # cs) = (if c = x then Some 0 else map_option Suc (find_char x cs))"

text \<open>\<^verbatim>\<open>strstr(mem + off, needle)\<close> and \<^verbatim>\<open>strchr(mem + off, x)\<close>, as offsets into \<open>mem\<close>\<close>

definition c_strstr :: "string \<Rightarrow> nat \<Rightarrow> string \<Rightarrow> nat option option" where
  "c_strstr mem off needle = do { t \<leftarrow> c_text (drop off mem); Some (map_option ((+) off) (find_sub needle t)) }"

definition c_strchr :: "string \<Rightarrow> nat \<Rightarrow> char \<Rightarrow> nat option option" where
  "c_strchr mem off x = do { t \<leftarrow> c_text (drop off mem); Some (map_option ((+) off) (find_char x t)) }"

text \<open>\<^verbatim>\<open>strncmp(mem, lit, strlen(lit)) == 0\<close>\<close>

definition c_has_prefix :: "string \<Rightarrow> string \<Rightarrow> bool option" where
  "c_has_prefix mem lit = do { t \<leftarrow> c_text mem; Some (take (length lit) t = lit) }"

definition c_isspace :: "char \<Rightarrow> bool" where
  "c_isspace c \<longleftrightarrow> c = CHR '' '' \<or> c = TAB \<or> c = LF \<or> c = CHR 0x0B \<or> c = CHR 0x0C \<or> c = CR"

definition c_isdigit :: "char \<Rightarrow> bool" where
  "c_isdigit c \<longleftrightarrow> 48 \<le> (of_char c :: nat) \<and> (of_char c :: nat) \<le> 57"

definition dec_number :: "string \<Rightarrow> nat" where
  "dec_number ds = foldl (\<lambda>v c. 10 * v + (of_char c - 48)) 0 ds"

text \<open>
  \<^verbatim>\<open>strtol(mem + off, &endptr, 10)\<close>: white space, a sign, digits; the value saturates at the
  limits of a 64-bit \<^verbatim>\<open>long\<close>. Without a digit \<^verbatim>\<open>endptr\<close> is the start.
\<close>

definition c_strtol :: "string \<Rightarrow> nat \<Rightarrow> (int \<times> nat) option" where
  "c_strtol mem off = do {
     t \<leftarrow> c_text (drop off mem);
     let spaces = length (takeWhile c_isspace t);
     let t = drop spaces t;
     let signs = (if t \<noteq> [] \<and> (hd t = CHR ''-'' \<or> hd t = CHR ''+'') then 1 else 0);
     let negative = (t \<noteq> [] \<and> hd t = CHR ''-'');
     let digits = takeWhile c_isdigit (drop signs t);
     let value = (if negative then - int (dec_number digits) else int (dec_number digits));
     Some (if digits = [] then (0, off)
           else (max (- (2 ^ 63)) (min (2 ^ 63 - 1) value), off + spaces + signs + length digits)) }"

definition c_tolower :: "char \<Rightarrow> char" where
  "c_tolower c = (if 65 \<le> (of_char c :: nat) \<and> (of_char c :: nat) \<le> 90 then char_of (of_char c + 32 :: nat) else c)"

lemma c_strstr_ge: "c_strstr d off n = Some (Some p) \<Longrightarrow> off \<le> p"
  by (auto simp: c_strstr_def bind_eq_Some_conv)

section \<open>Facts about the searches\<close>

lemma c_text_append: "NUL \<notin> set h \<Longrightarrow> c_text (h @ r) = map_option ((@) h) (c_text r)"
  by (auto simp: c_text_def takeWhile_append)

lemma c_text_terminated: "NUL \<notin> set t \<Longrightarrow> c_text (t @ NUL # post) = Some t"
  by (simp add: c_text_append) (simp add: c_text_def)

lemma find_sub_skip:
  "x \<notin> set a \<Longrightarrow> find_sub (x # n) (a @ r) = map_option ((+) (length a)) (find_sub (x # n) r)"
  by (induction a) (cases "find_sub (x # n) r"; auto)+

lemma find_sub_here: "find_sub n (n @ r) = Some 0"
proof (cases "n @ r")
  case (Cons c t)
  then have "take (length n) (c # t) = n" by (metis append_eq_conv_conj)
  with Cons show ?thesis by simp
qed simp

lemma find_sub_Some:
  assumes "find_sub n t = Some i"
  shows "i + length n \<le> length t \<and> take (length n) (drop i t) = n"
  using assms
proof (induction t arbitrary: i)
  case (Cons c t)
  show ?case
  proof (cases "take (length n) (c # t) = n")
    case True
    then have "length n \<le> length (c # t)" by (metis length_take min.cobounded1)
    with True Cons.prems show ?thesis by simp
  next
    case False
    with Cons.prems obtain k where "find_sub n t = Some k" "i = Suc k" by auto
    with Cons.IH [of k] show ?thesis by simp
  qed
qed (simp split: if_splits)

lemma find_char_skip:
  "x \<notin> set a \<Longrightarrow> find_char x (a @ r) = map_option ((+) (length a)) (find_char x r)"
  by (induction a) (cases "find_char x r"; auto)+

lemma find_char_Some: "find_char x t = Some i \<Longrightarrow> i < length t \<and> t ! i = x"
  by (induction t arbitrary: i) (auto split: if_splits)

lemma c_text_terminator:
  assumes "NUL \<in> set (drop off d)"
  shows "\<exists>t r. c_text (drop off d) = Some t \<and> drop off d = t @ NUL # r"
proof -
  have "drop off d = takeWhile (\<lambda>c. c \<noteq> NUL) (drop off d) @ dropWhile (\<lambda>c. c \<noteq> NUL) (drop off d)" by simp
  moreover obtain r where "dropWhile (\<lambda>c. c \<noteq> NUL) (drop off d) = NUL # r"
    using assms by (cases "dropWhile (\<lambda>c. c \<noteq> NUL) (drop off d)") (auto simp: dropWhile_eq_Nil_conv dropWhile_eq_Cons_conv)
  ultimately show ?thesis using assms by (auto simp: c_text_def)
qed

lemma drop_within: "drop off d = t @ r \<Longrightarrow> k \<le> length t \<Longrightarrow> drop (off + k) d = drop k t @ r"
  by (metis (no_types) add.commute append.right_neutral append_eq_conv_conj diff_is_0_eq drop_0 drop_append drop_drop)

lemma c_strstr_safe:
  assumes "NUL \<in> set (drop off d)"
  obtains "c_strstr d off n = Some None"
  | p where "c_strstr d off n = Some (Some p)" "off \<le> p" "p + length n < length d" "NUL \<in> set (drop (p + length n) d)"
proof -
  obtain t r where t: "c_text (drop off d) = Some t" "drop off d = t @ NUL # r"
    using c_text_terminator [OF assms] by blast
  show thesis
  proof (cases "find_sub n t")
    case None
    with t show thesis by (intro that(1)) (simp add: c_strstr_def)
  next
    case (Some i)
    then have i: "i + length n \<le> length t" using find_sub_Some by blast
    have "length (drop off d) = length t + 1 + length r" by (simp add: t(2))
    then have "off + i + length n < length d" using i by simp
    moreover have "drop (off + i + length n) d = drop (i + length n) t @ NUL # r"
      using drop_within [OF t(2) i] by (simp add: add.assoc)
    ultimately show thesis
      using t(1) Some by (intro that(2) [of "off + i"]) (simp_all add: c_strstr_def)
  qed
qed

lemma c_strchr_safe:
  assumes "NUL \<in> set (drop off d)"
  obtains "c_strchr d off x = Some None"
  | p where "c_strchr d off x = Some (Some p)" "off \<le> p" "NUL \<in> set (drop (p + 1) d)"
proof -
  obtain t r where t: "c_text (drop off d) = Some t" "drop off d = t @ NUL # r"
    using c_text_terminator [OF assms] by blast
  show thesis
  proof (cases "find_char x t")
    case None
    with t show thesis by (intro that(1)) (simp add: c_strchr_def)
  next
    case (Some i)
    then have "i + 1 \<le> length t" using find_char_Some by fastforce
    then have "drop (off + i + 1) d = drop (i + 1) t @ NUL # r"
      using drop_within [OF t(2), of "i + 1"] by (simp add: add.assoc)
    then show thesis
      using t(1) Some by (intro that(2) [of "off + i"]) (simp_all add: c_strchr_def)
  qed
qed

lemma c_strtol_safe:
  assumes "NUL \<in> set (drop off d)"
  shows "\<exists>v e. c_strtol d off = Some (v, e)"
  using c_text_terminator [OF assms] by (auto simp: c_strtol_def Let_def)

lemma find_sub_step: "find_sub n t \<noteq> None \<longleftrightarrow>
    (\<exists>i. i + length n \<le> length t \<and> take (length n) (drop i t) = n)"
proof
  assume "find_sub n t \<noteq> None"
  then show "\<exists>i. i + length n \<le> length t \<and> take (length n) (drop i t) = n" using find_sub_Some by blast
next
  assume "\<exists>i. i + length n \<le> length t \<and> take (length n) (drop i t) = n"
  then obtain i where "i + length n \<le> length t" "take (length n) (drop i t) = n" by blast
  then show "find_sub n t \<noteq> None"
  proof (induction t arbitrary: i)
    case (Cons c t)
    then show ?case by (cases i) auto
  qed simp
qed

section \<open>Decimal text\<close>

lemma dec_digit_isdigit:
  assumes "n < 10"
  shows "c_isdigit (dec_digit n) \<and> of_char (dec_digit n) - 48 = n"
proof -
  have "n = 0 \<or> n = 1 \<or> n = 2 \<or> n = 3 \<or> n = 4 \<or> n = 5 \<or> n = 6 \<or> n = 7 \<or> n = 8 \<or> n = 9"
    using assms by presburger
  then show ?thesis by (elim disjE) (simp_all add: dec_digit_def c_isdigit_def)
qed

lemma fmt_u_digits: "list_all c_isdigit (fmt_u n) \<and> dec_number (fmt_u n) = n"
proof (induction n rule: fmt_u.induct)
  case (1 n)
  show ?case
  proof (cases "n < 10")
    case True
    then show ?thesis using dec_digit_isdigit [of n] by (simp add: fmt_u.simps [of n] dec_number_def)
  next
    case False
    with 1 show ?thesis
      using dec_digit_isdigit [of "n mod 10"] by (simp add: fmt_u.simps [of n] dec_number_def)
  qed
qed

lemma c_isdigit_plain:
  "c_isdigit c \<Longrightarrow> \<not> c_isspace c \<and> c \<noteq> CHR ''-'' \<and> c \<noteq> CHR ''+'' \<and> c \<noteq> CR \<and> c \<noteq> NUL"
  by (auto simp: c_isdigit_def c_isspace_def NUL_def)

lemma c_strtol_number:
  assumes "drop off d = fmt_u n @ x # r" and "\<not> c_isdigit x" and "c_text (x # r) = Some t" and "n < 2 ^ 63"
  shows "c_strtol d off = Some (int n, off + length (fmt_u n))"
proof -
  obtain c cs where f: "fmt_u n = c # cs" using fmt_u_nonempty [of n] by (cases "fmt_u n") auto
  have digits: "list_all c_isdigit (fmt_u n)" "dec_number (fmt_u n) = n" using fmt_u_digits by auto
  then have c: "\<not> c_isspace c" "c \<noteq> CHR ''-''" "c \<noteq> CHR ''+''" using f c_isdigit_plain [of c] by auto
  have "NUL \<notin> set (fmt_u n)" using digits c_isdigit_plain by (auto simp: list_all_iff)
  then have t: "c_text (drop off d) = Some (fmt_u n @ t)" using assms(1,3) by (simp add: c_text_append)
  have "t = [] \<or> hd t = x" using assms(3) by (auto simp: c_text_def split: if_splits)
  then have "takeWhile c_isdigit (fmt_u n @ t) = fmt_u n"
    using digits assms(2) by (cases t) (auto simp: list_all_iff takeWhile_append)
  with t c f digits assms(4) show ?thesis by (simp add: c_strtol_def Let_def)
qed

end
