(* ===== verification/Ethernet.thy ===== *)
theory Ethernet
  imports Codec CString
begin

text \<open>
  \<^verbatim>\<open>src/src/ethernet.c\<close> and \<^verbatim>\<open>src/include/ethernet.h\<close>: Ethernet II frames.
  The frame is a record with the fields of \<^verbatim>\<open>ethernet_frame_t\<close>; an array field is
  the list of all its bytes, whose length is the array's size (\<open>ethernet_wf\<close>).
\<close>

section \<open>Model\<close>

definition ETHERNET_ADDR_LEN :: nat where [const_defs]: "ETHERNET_ADDR_LEN = 6"
definition ETHERNET_HEADER_LEN :: nat where [const_defs]: "ETHERNET_HEADER_LEN = 14"
definition ETHERNET_MAX_PAYLOAD :: nat where [const_defs]: "ETHERNET_MAX_PAYLOAD = 1500"
definition ETHERNET_MAX_FRAME_LEN :: nat where
  [const_defs]: "ETHERNET_MAX_FRAME_LEN = ETHERNET_HEADER_LEN + ETHERNET_MAX_PAYLOAD"
definition ETHERNET_TYPE_IPV4 :: u16 where [const_defs]: "ETHERNET_TYPE_IPV4 = 0x0800"
definition ETHERNET_TYPE_ARP :: u16 where [const_defs]: "ETHERNET_TYPE_ARP = 0x0806"
definition ETHERNET_TYPE_IPV6 :: u16 where [const_defs]: "ETHERNET_TYPE_IPV6 = 0x86DD"

record ethernet_frame =
  eth_destination :: bytes
  eth_source :: bytes
  eth_ethertype :: u16
  eth_payload :: bytes
  eth_payload_len :: nat

text \<open>\<open>memset(frame, 0, sizeof(*frame))\<close>\<close>

definition ethernet_zero :: ethernet_frame where
  "ethernet_zero = \<lparr> eth_destination = replicate ETHERNET_ADDR_LEN 0,
     eth_source = replicate ETHERNET_ADDR_LEN 0, eth_ethertype = 0,
     eth_payload = replicate ETHERNET_MAX_PAYLOAD 0, eth_payload_len = 0 \<rparr>"

definition ethernet_wf :: "ethernet_frame \<Rightarrow> bool" where
  "ethernet_wf f \<longleftrightarrow> length (eth_destination f) = ETHERNET_ADDR_LEN
     \<and> length (eth_source f) = ETHERNET_ADDR_LEN
     \<and> length (eth_payload f) = ETHERNET_MAX_PAYLOAD
     \<and> eth_payload_len f < SIZE_LIMIT"

definition ethernet_parse ::
  "bytes ptr \<Rightarrow> nat \<Rightarrow> ethernet_frame ptr \<Rightarrow> (int \<times> ethernet_frame ptr) option" where
  "ethernet_parse data data_len frame =
    (case (data, frame) of
       (Some d, Some f) \<Rightarrow>
         if data_len < ETHERNET_HEADER_LEN then Some (-2, frame)
         else let payload_len = data_len - ETHERNET_HEADER_LEN in
           if payload_len > ETHERNET_MAX_PAYLOAD then Some (-3, frame)
           else do {
             let f = ethernet_zero;
             dst \<leftarrow> memcpy (eth_destination f) 0 d 0 ETHERNET_ADDR_LEN;
             src \<leftarrow> memcpy (eth_source f) 0 d ETHERNET_ADDR_LEN ETHERNET_ADDR_LEN;
             et \<leftarrow> read_u16_be d 12;
             let f = f\<lparr>eth_destination := dst, eth_source := src, eth_ethertype := et,
                       eth_payload_len := payload_len\<rparr>;
             pl \<leftarrow> (if payload_len > 0
                    then memcpy (eth_payload f) 0 d ETHERNET_HEADER_LEN payload_len
                    else Some (eth_payload f));
             Some (0, Some (f\<lparr>eth_payload := pl\<rparr>)) }
     | _ \<Rightarrow> Some (-1, frame))"

definition ethernet_serialize ::
  "ethernet_frame ptr \<Rightarrow> bytes ptr \<Rightarrow> nat \<Rightarrow> (nat \<times> bytes ptr) option" where
  "ethernet_serialize frame buffer buffer_len =
    (case (frame, buffer) of
       (Some f, Some b) \<Rightarrow>
         if eth_payload_len f > ETHERNET_MAX_PAYLOAD then Some (0, buffer)
         else let required_len = ETHERNET_HEADER_LEN + eth_payload_len f in
           if buffer_len < required_len then Some (0, buffer)
           else do {
             b \<leftarrow> memcpy b 0 (eth_destination f) 0 ETHERNET_ADDR_LEN;
             b \<leftarrow> memcpy b ETHERNET_ADDR_LEN (eth_source f) 0 ETHERNET_ADDR_LEN;
             b \<leftarrow> write_u16_be b 12 (eth_ethertype f);
             b \<leftarrow> (if eth_payload_len f > 0
                   then memcpy b ETHERNET_HEADER_LEN (eth_payload f) 0 (eth_payload_len f)
                   else Some b);
             Some (required_len, Some b) }
     | _ \<Rightarrow> Some (0, buffer))"

definition mac_text :: "bytes \<Rightarrow> string" where
  "mac_text m = fmt_02X (m ! 0) @ '':'' @ fmt_02X (m ! 1) @ '':'' @ fmt_02X (m ! 2) @ '':''
     @ fmt_02X (m ! 3) @ '':'' @ fmt_02X (m ! 4) @ '':'' @ fmt_02X (m ! 5)"

definition ethernet_mac_to_string ::
  "bytes ptr \<Rightarrow> string ptr \<Rightarrow> nat \<Rightarrow> (int \<times> string ptr) option" where
  "ethernet_mac_to_string mac buffer buffer_len =
    (case (mac, buffer) of
       (Some m, Some b) \<Rightarrow>
         if buffer_len < 18 then Some (-1, buffer)
         else do {
           _ \<leftarrow> mem_read m 0 6;
           (written, b) \<leftarrow> snprintf b buffer_len (mac_text m);
           Some (if written = 17 then 0 else -1, Some b) }
     | _ \<Rightarrow> Some (-1, buffer))"

definition ethernet_ethertype_name :: "u16 \<Rightarrow> string" where
  "ethernet_ethertype_name ethertype =
    (if ethertype = ETHERNET_TYPE_IPV4 then ''IPv4''
     else if ethertype = ETHERNET_TYPE_ARP then ''ARP''
     else if ethertype = ETHERNET_TYPE_IPV6 then ''IPv6''
     else ''Unknown'')"

section \<open>Wire format\<close>

definition ethernet_wire :: "ethernet_frame \<Rightarrow> bytes" where
  "ethernet_wire f = eth_destination f @ eth_source f @ u16_bytes (eth_ethertype f)
     @ take (eth_payload_len f) (eth_payload f)"

definition ethernet_valid :: "ethernet_frame \<Rightarrow> bool" where
  "ethernet_valid f \<longleftrightarrow> ethernet_wf f \<and> eth_payload_len f \<le> ETHERNET_MAX_PAYLOAD"

text \<open>What a receiver reconstructs: the payload array is zero behind the payload.\<close>

definition ethernet_norm :: "ethernet_frame \<Rightarrow> ethernet_frame" where
  "ethernet_norm f = f\<lparr>eth_payload := take (eth_payload_len f) (eth_payload f)
     @ replicate (ETHERNET_MAX_PAYLOAD - eth_payload_len f) 0\<rparr>"

lemmas ethernet_defs = ethernet_valid_def ethernet_wf_def ethernet_wire_def ethernet_norm_def
  ethernet_zero_def const_defs

lemma length_ethernet_wire:
  "ethernet_valid f \<Longrightarrow> length (ethernet_wire f) = 14 + eth_payload_len f"
  by (simp add: ethernet_defs)

lemma ethernet_serialize_wire:
  assumes "ethernet_valid f" and "length (ethernet_wire f) \<le> n" and "n \<le> length buf"
  shows "ethernet_serialize (Some f) (Some buf) n =
    Some (length (ethernet_wire f), Some (ethernet_wire f @ drop (length (ethernet_wire f)) buf))"
  using assms length_ethernet_wire [OF assms(1)]
  by (simp add: ethernet_serialize_def ethernet_defs mem_simps Let_def add_ac)

lemma ethernet_parse_wire:
  assumes "ethernet_valid f"
  shows "ethernet_parse (Some (ethernet_wire f @ rest)) (length (ethernet_wire f)) (Some g) =
    Some (0, Some (ethernet_norm f))"
  using assms length_ethernet_wire [OF assms]
  by (cases f) (simp add: ethernet_parse_def ethernet_defs mem_simps Let_def nth_append)

lemma ethernet_parse_ok:
  assumes "14 \<le> n" and "n \<le> 1514" and "n \<le> length d"
  shows "ethernet_parse (Some d) n (Some g) = Some (0, Some \<lparr>
    eth_destination = take 6 d, eth_source = take 6 (drop 6 d),
    eth_ethertype = be16 (d ! 12) (d ! 13),
    eth_payload = take (n - 14) (drop 14 d) @ replicate (1514 - n) 0,
    eth_payload_len = n - 14 \<rparr>)"
  using assms by (auto simp: ethernet_parse_def ethernet_defs mem_simps Let_def)


lemma ethernet_parse_short: "n < 14 \<Longrightarrow> ethernet_parse (Some d) n (Some g) = Some (-2, Some g)"
  by (simp add: ethernet_parse_def const_defs)

lemma ethernet_parse_long: "1514 < n \<Longrightarrow> ethernet_parse (Some d) n (Some g) = Some (-3, Some g)"
  by (auto simp: ethernet_parse_def const_defs Let_def)

lemma bytes_split_14:
  assumes "14 \<le> n" and "n \<le> length d"
  shows "take 6 d @ take 6 (drop 6 d) @ [d ! 12, d ! 13] @ take (n - 14) (drop 14 d) = take n d"
proof -
  have "take n d = take 6 d @ take (n - 6) (drop 6 d)"
    using assms take_add [of 6 "n - 6" d] by simp
  also have "take (n - 6) (drop 6 d) = take 6 (drop 6 d) @ take (n - 12) (drop 12 d)"
    using assms take_add [of 6 "n - 12" "drop 6 d"] by simp
  also have "take (n - 12) (drop 12 d) = [d ! 12, d ! 13] @ take (n - 14) (drop 14 d)"
    using assms by (simp add: Cons_nth_drop_Suc [symmetric] take_Cons' numeral_eq_Suc)
  finally show ?thesis by simp
qed

lemma ethernet_parse_sound:
  assumes "n \<le> length d" and "ethernet_parse (Some d) n (Some g) = Some (0, Some f)"
  shows "ethernet_valid f \<and> length (ethernet_wire f) \<le> n
    \<and> take (length (ethernet_wire f)) d = ethernet_wire f"
proof -
  from assms have n: "14 \<le> n" "n \<le> 1514"
    using ethernet_parse_short [of n d g] ethernet_parse_long [of n d g] by force+
  from ethernet_parse_ok [OF this assms(1), of g] assms(2)
  have f: "f = \<lparr> eth_destination = take 6 d, eth_source = take 6 (drop 6 d),
    eth_ethertype = be16 (d ! 12) (d ! 13),
    eth_payload = take (n - 14) (drop 14 d) @ replicate (1514 - n) 0,
    eth_payload_len = n - 14 \<rparr>" by simp
  then have v: "ethernet_valid f"
    using n assms(1) by (auto simp: ethernet_defs)
  have "ethernet_wire f = take n d"
    using bytes_split_14 [OF n(1) assms(1)] n assms(1) by (simp add: f ethernet_wire_def)
  with v length_ethernet_wire [OF v] n show ?thesis by (simp add: f)
qed

interpretation eth: canonical_codec ethernet_parse ethernet_serialize ethernet_wire
  ethernet_valid ethernet_norm
proof unfold_locales
  show "ethernet_valid m \<Longrightarrow> n < length (ethernet_wire m) \<Longrightarrow>
      ethernet_serialize (Some m) (Some buf) n = Some (0, Some buf)" for m n buf
    using length_ethernet_wire [of m]
    by (simp add: ethernet_serialize_def ethernet_defs)
  show "ethernet_valid m \<Longrightarrow> ethernet_wire m \<noteq> []" for m
    using length_ethernet_wire [of m] by auto
qed (simp_all add: ethernet_serialize_wire ethernet_parse_wire ethernet_parse_sound)

lemma length_mac_text [simp]: "length (mac_text m) = 17"
  by (simp add: mac_text_def)

lemma mac_text_inject:
  assumes "length m = 6" and "length m' = 6" and "mac_text m = mac_text m'"
  shows "m = m'"
  by (subst list6 [OF assms(1)], subst list6 [OF assms(2)])
    (use assms(3) in \<open>simp add: mac_text_def\<close>)

section \<open>Properties\<close>

text \<open>
  Serializing a valid frame and parsing the bytes gives the frame back, whatever
  the buffer held before and whatever the output frame held.
\<close>

theorem ethernet_roundtrip:
  assumes "ethernet_valid f" and "14 + eth_payload_len f \<le> n" and "n \<le> length buf"
  shows "do { (len, out) \<leftarrow> ethernet_serialize (Some f) (Some buf) n;
              ethernet_parse out len (Some g) } = Some (0, Some (ethernet_norm f))"
  using assms length_ethernet_wire [OF assms(1)] by (intro eth.serialize_parse) simp_all

definition eth_example :: ethernet_frame where
  "eth_example = ethernet_zero\<lparr>eth_destination := [255, 255, 255, 255, 255, 255],
     eth_source := [2, 0, 0, 0, 0, 1], eth_ethertype := 0x0806, eth_payload_len := 28\<rparr>"

lemma eth_example_valid: "ethernet_valid eth_example"
  by (simp add: eth_example_def ethernet_defs)

theorem ethernet_roundtrip_witness:
  "do { (len, out) \<leftarrow> ethernet_serialize (Some eth_example) (Some (replicate 60 7)) 60;
        ethernet_parse out len (Some ethernet_zero) } = Some (0, Some (ethernet_norm eth_example))"
  by (rule ethernet_roundtrip [OF eth_example_valid]) (simp_all add: eth_example_def)

text \<open>
  Parsing is memory safe for every input length and total: a short or an oversized
  input gives its error code and leaves the output frame alone, and every other
  input is accepted with a frame whose wire image is the input itself.
\<close>

theorem ethernet_parse_exact:
  assumes "n \<le> length d"
  shows "(n < 14 \<longrightarrow> ethernet_parse (Some d) n (Some g) = Some (-2, Some g))
    \<and> (1514 < n \<longrightarrow> ethernet_parse (Some d) n (Some g) = Some (-3, Some g))
    \<and> (14 \<le> n \<and> n \<le> 1514 \<longrightarrow> (\<exists>f. ethernet_parse (Some d) n (Some g) = Some (0, Some f)
         \<and> ethernet_valid f \<and> ethernet_wire f = take n d))"
proof (intro conjI impI)
  assume "14 \<le> n \<and> n \<le> 1514"
  then obtain f where f: "ethernet_parse (Some d) n (Some g) = Some (0, Some f)"
    and len: "eth_payload_len f = n - 14"
    using ethernet_parse_ok [OF _ _ assms, of g] by auto
  from ethernet_parse_sound [OF assms f] have v: "ethernet_valid f"
    and eq: "take (length (ethernet_wire f)) d = ethernet_wire f" by auto
  from length_ethernet_wire [OF v] len \<open>14 \<le> n \<and> n \<le> 1514\<close>
  have "length (ethernet_wire f) = n" by simp
  with eq have "ethernet_wire f = take n d" by simp
  with f v show "\<exists>f. ethernet_parse (Some d) n (Some g) = Some (0, Some f)
         \<and> ethernet_valid f \<and> ethernet_wire f = take n d" by blast
qed (simp_all add: ethernet_parse_short ethernet_parse_long)

theorem ethernet_parse_exact_witness:
  "\<exists>f. ethernet_parse (Some (replicate 60 7)) 60 (Some ethernet_zero) = Some (0, Some f)
     \<and> ethernet_valid f \<and> ethernet_wire f = replicate 60 7"
  using ethernet_parse_exact [of 60 "replicate 60 7" ethernet_zero] by simp

text \<open>
  Formatting a MAC address into a buffer of at least 18 bytes succeeds, stores the
  17 characters and the terminator, and different addresses have different texts.
\<close>

theorem ethernet_mac_to_string_ok:
  assumes "length m = 6" and "length m' = 6" and "18 \<le> n" and "n \<le> length buf"
  shows "ethernet_mac_to_string (Some m) (Some buf) n =
      Some (0, Some (mac_text m @ NUL # drop 18 buf))
    \<and> (mac_text m = mac_text m' \<longleftrightarrow> m = m')"
  using assms mac_text_inject [OF assms(1,2)]
  by (auto simp: ethernet_mac_to_string_def mem_simps snprintf_fits)

theorem ethernet_mac_to_string_ok_witness:
  "ethernet_mac_to_string (Some [2, 0, 0, 0, 0, 171]) (Some (replicate 18 NUL)) 18 =
    Some (0, Some (''02:00:00:00:00:AB'' @ [NUL]))"
  using ethernet_mac_to_string_ok [of "[2, 0, 0, 0, 0, 171]" "[2, 0, 0, 0, 0, 171]" 18 "replicate 18 NUL"]
  by (simp add: mac_text_def fmt_02X_def hex_digit_def)

end
