(* ===== verification/Arp.thy ===== *)
theory Arp
  imports Codec CString
begin

text \<open>
  \<^verbatim>\<open>src/src/arp.c\<close> and \<^verbatim>\<open>src/include/arp.h\<close>: Ethernet/IPv4 ARP packets, their
  validation, wire format and the two constructors.
\<close>

section \<open>Model\<close>

definition ARP_ETHERNET :: u16 where [const_defs]: "ARP_ETHERNET = 0x0001"
definition ARP_PROTOCOL_IPV4 :: u16 where [const_defs]: "ARP_PROTOCOL_IPV4 = 0x0800"
definition ARP_OPCODE_REQUEST :: u16 where [const_defs]: "ARP_OPCODE_REQUEST = 0x0001"
definition ARP_OPCODE_REPLY :: u16 where [const_defs]: "ARP_OPCODE_REPLY = 0x0002"
definition ARP_HARDWARE_ADDR_LEN :: nat where [const_defs]: "ARP_HARDWARE_ADDR_LEN = 6"
definition ARP_PROTOCOL_ADDR_LEN :: nat where [const_defs]: "ARP_PROTOCOL_ADDR_LEN = 4"
definition ARP_PACKET_LEN :: nat where [const_defs]: "ARP_PACKET_LEN = 28"

record arp_packet =
  arp_hardware_type :: u16
  arp_protocol_type :: u16
  arp_hardware_addr_len :: u8
  arp_protocol_addr_len :: u8
  arp_opcode :: u16
  arp_sender_mac :: bytes
  arp_sender_ip :: bytes
  arp_target_mac :: bytes
  arp_target_ip :: bytes

definition arp_zero :: arp_packet where
  "arp_zero = \<lparr> arp_hardware_type = 0, arp_protocol_type = 0, arp_hardware_addr_len = 0,
     arp_protocol_addr_len = 0, arp_opcode = 0,
     arp_sender_mac = replicate ARP_HARDWARE_ADDR_LEN 0,
     arp_sender_ip = replicate ARP_PROTOCOL_ADDR_LEN 0,
     arp_target_mac = replicate ARP_HARDWARE_ADDR_LEN 0,
     arp_target_ip = replicate ARP_PROTOCOL_ADDR_LEN 0 \<rparr>"

definition arp_wf :: "arp_packet \<Rightarrow> bool" where
  "arp_wf p \<longleftrightarrow> length (arp_sender_mac p) = ARP_HARDWARE_ADDR_LEN
     \<and> length (arp_sender_ip p) = ARP_PROTOCOL_ADDR_LEN
     \<and> length (arp_target_mac p) = ARP_HARDWARE_ADDR_LEN
     \<and> length (arp_target_ip p) = ARP_PROTOCOL_ADDR_LEN"

definition arp_packet_is_valid :: "arp_packet ptr \<Rightarrow> bool" where
  "arp_packet_is_valid packet =
    (case packet of None \<Rightarrow> False
     | Some p \<Rightarrow>
         if arp_hardware_type p \<noteq> ARP_ETHERNET then False
         else if arp_protocol_type p \<noteq> ARP_PROTOCOL_IPV4 then False
         else if arp_hardware_addr_len p \<noteq> of_nat ARP_HARDWARE_ADDR_LEN then False
         else if arp_protocol_addr_len p \<noteq> of_nat ARP_PROTOCOL_ADDR_LEN then False
         else if arp_opcode p \<noteq> ARP_OPCODE_REQUEST \<and> arp_opcode p \<noteq> ARP_OPCODE_REPLY then False
         else True)"

definition arp_parse ::
  "bytes ptr \<Rightarrow> nat \<Rightarrow> arp_packet ptr \<Rightarrow> (int \<times> arp_packet ptr) option" where
  "arp_parse data data_len packet =
    (case (data, packet) of
       (Some d, Some _) \<Rightarrow>
         if data_len < ARP_PACKET_LEN then Some (-2, packet)
         else do {
           hardware_type \<leftarrow> read_u16_be d 0;
           protocol_type \<leftarrow> read_u16_be d 2;
           hardware_addr_len \<leftarrow> rd d 4;
           protocol_addr_len \<leftarrow> rd d 5;
           opcode \<leftarrow> read_u16_be d 6;
           if hardware_type \<noteq> ARP_ETHERNET then Some (-3, packet)
           else if protocol_type \<noteq> ARP_PROTOCOL_IPV4 then Some (-4, packet)
           else if hardware_addr_len \<noteq> of_nat ARP_HARDWARE_ADDR_LEN
             \<or> protocol_addr_len \<noteq> of_nat ARP_PROTOCOL_ADDR_LEN then Some (-5, packet)
           else if opcode \<noteq> ARP_OPCODE_REQUEST \<and> opcode \<noteq> ARP_OPCODE_REPLY
             then Some (-6, packet)
           else do {
             let p = arp_zero;
             smac \<leftarrow> memcpy (arp_sender_mac p) 0 d 8 ARP_HARDWARE_ADDR_LEN;
             sip \<leftarrow> memcpy (arp_sender_ip p) 0 d 14 ARP_PROTOCOL_ADDR_LEN;
             tmac \<leftarrow> memcpy (arp_target_mac p) 0 d 18 ARP_HARDWARE_ADDR_LEN;
             tip \<leftarrow> memcpy (arp_target_ip p) 0 d 24 ARP_PROTOCOL_ADDR_LEN;
             Some (0, Some (p\<lparr>arp_hardware_type := hardware_type,
               arp_protocol_type := protocol_type,
               arp_hardware_addr_len := hardware_addr_len,
               arp_protocol_addr_len := protocol_addr_len, arp_opcode := opcode,
               arp_sender_mac := smac, arp_sender_ip := sip,
               arp_target_mac := tmac, arp_target_ip := tip\<rparr>)) } }
     | _ \<Rightarrow> Some (-1, packet))"

definition arp_serialize ::
  "arp_packet ptr \<Rightarrow> bytes ptr \<Rightarrow> nat \<Rightarrow> (nat \<times> bytes ptr) option" where
  "arp_serialize packet buffer buffer_len =
    (case (packet, buffer) of
       (Some p, Some b) \<Rightarrow>
         if buffer_len < ARP_PACKET_LEN then Some (0, buffer)
         else if \<not> arp_packet_is_valid packet then Some (0, buffer)
         else do {
           b \<leftarrow> write_u16_be b 0 (arp_hardware_type p);
           b \<leftarrow> write_u16_be b 2 (arp_protocol_type p);
           b \<leftarrow> wr b 4 (arp_hardware_addr_len p);
           b \<leftarrow> wr b 5 (arp_protocol_addr_len p);
           b \<leftarrow> write_u16_be b 6 (arp_opcode p);
           b \<leftarrow> memcpy b 8 (arp_sender_mac p) 0 ARP_HARDWARE_ADDR_LEN;
           b \<leftarrow> memcpy b 14 (arp_sender_ip p) 0 ARP_PROTOCOL_ADDR_LEN;
           b \<leftarrow> memcpy b 18 (arp_target_mac p) 0 ARP_HARDWARE_ADDR_LEN;
           b \<leftarrow> memcpy b 24 (arp_target_ip p) 0 ARP_PROTOCOL_ADDR_LEN;
           Some (ARP_PACKET_LEN, Some b) }
     | _ \<Rightarrow> Some (0, buffer))"

definition arp_build_request ::
  "arp_packet ptr \<Rightarrow> bytes ptr \<Rightarrow> bytes ptr \<Rightarrow> bytes ptr \<Rightarrow> (int \<times> arp_packet ptr) option" where
  "arp_build_request packet sender_mac sender_ip target_ip =
    (case (packet, sender_mac, sender_ip, target_ip) of
       (Some _, Some smac, Some sip, Some tip) \<Rightarrow> do {
         let p = arp_zero\<lparr>arp_hardware_type := ARP_ETHERNET,
           arp_protocol_type := ARP_PROTOCOL_IPV4,
           arp_hardware_addr_len := of_nat ARP_HARDWARE_ADDR_LEN,
           arp_protocol_addr_len := of_nat ARP_PROTOCOL_ADDR_LEN,
           arp_opcode := ARP_OPCODE_REQUEST\<rparr>;
         sm \<leftarrow> memcpy (arp_sender_mac p) 0 smac 0 ARP_HARDWARE_ADDR_LEN;
         si \<leftarrow> memcpy (arp_sender_ip p) 0 sip 0 ARP_PROTOCOL_ADDR_LEN;
         tm \<leftarrow> memset (arp_target_mac p) 0 ARP_HARDWARE_ADDR_LEN;
         ti \<leftarrow> memcpy (arp_target_ip p) 0 tip 0 ARP_PROTOCOL_ADDR_LEN;
         Some (0, Some (p\<lparr>arp_sender_mac := sm, arp_sender_ip := si,
                           arp_target_mac := tm, arp_target_ip := ti\<rparr>)) }
     | _ \<Rightarrow> Some (-1, packet))"

definition arp_build_reply ::
  "arp_packet ptr \<Rightarrow> bytes ptr \<Rightarrow> bytes ptr \<Rightarrow> bytes ptr \<Rightarrow> bytes ptr \<Rightarrow>
    (int \<times> arp_packet ptr) option" where
  "arp_build_reply packet sender_mac sender_ip target_mac target_ip =
    (case (packet, sender_mac, sender_ip, target_mac, target_ip) of
       (Some _, Some smac, Some sip, Some tmac, Some tip) \<Rightarrow> do {
         let p = arp_zero\<lparr>arp_hardware_type := ARP_ETHERNET,
           arp_protocol_type := ARP_PROTOCOL_IPV4,
           arp_hardware_addr_len := of_nat ARP_HARDWARE_ADDR_LEN,
           arp_protocol_addr_len := of_nat ARP_PROTOCOL_ADDR_LEN,
           arp_opcode := ARP_OPCODE_REPLY\<rparr>;
         sm \<leftarrow> memcpy (arp_sender_mac p) 0 smac 0 ARP_HARDWARE_ADDR_LEN;
         si \<leftarrow> memcpy (arp_sender_ip p) 0 sip 0 ARP_PROTOCOL_ADDR_LEN;
         tm \<leftarrow> memcpy (arp_target_mac p) 0 tmac 0 ARP_HARDWARE_ADDR_LEN;
         ti \<leftarrow> memcpy (arp_target_ip p) 0 tip 0 ARP_PROTOCOL_ADDR_LEN;
         Some (0, Some (p\<lparr>arp_sender_mac := sm, arp_sender_ip := si,
                           arp_target_mac := tm, arp_target_ip := ti\<rparr>)) }
     | _ \<Rightarrow> Some (-1, packet))"

definition ip_text :: "bytes \<Rightarrow> string" where
  "ip_text ip = fmt_u (unat (ip ! 0)) @ ''.'' @ fmt_u (unat (ip ! 1)) @ ''.''
     @ fmt_u (unat (ip ! 2)) @ ''.'' @ fmt_u (unat (ip ! 3))"

definition arp_ipv4_to_string ::
  "bytes ptr \<Rightarrow> string ptr \<Rightarrow> nat \<Rightarrow> (int \<times> string ptr) option" where
  "arp_ipv4_to_string ip buffer buffer_len =
    (case (ip, buffer) of
       (Some a, Some b) \<Rightarrow>
         if buffer_len < 16 then Some (-1, buffer)
         else do {
           _ \<leftarrow> mem_read a 0 4;
           (written, b) \<leftarrow> snprintf b buffer_len (ip_text a);
           Some (if written < 7 \<or> written > 15 then -1 else 0, Some b) }
     | _ \<Rightarrow> Some (-1, buffer))"

definition arp_opcode_name :: "u16 \<Rightarrow> string" where
  "arp_opcode_name opcode =
    (if opcode = ARP_OPCODE_REQUEST then ''Request''
     else if opcode = ARP_OPCODE_REPLY then ''Reply''
     else ''Unknown'')"

section \<open>Wire format\<close>

definition arp_wire :: "arp_packet \<Rightarrow> bytes" where
  "arp_wire p = u16_bytes (arp_hardware_type p) @ u16_bytes (arp_protocol_type p)
     @ [arp_hardware_addr_len p, arp_protocol_addr_len p] @ u16_bytes (arp_opcode p)
     @ arp_sender_mac p @ arp_sender_ip p @ arp_target_mac p @ arp_target_ip p"

definition arp_valid :: "arp_packet \<Rightarrow> bool" where
  "arp_valid p \<longleftrightarrow> arp_wf p \<and> arp_packet_is_valid (Some p)"

lemmas arp_defs = arp_valid_def arp_wf_def arp_wire_def arp_zero_def arp_packet_is_valid_def
  const_defs

lemma length_arp_wire: "arp_wf p \<Longrightarrow> length (arp_wire p) = 28"
  by (simp add: arp_defs)

lemma arp_serialize_wire:
  assumes "arp_valid p" and "length (arp_wire p) \<le> n" and "n \<le> length buf"
  shows "arp_serialize (Some p) (Some buf) n =
    Some (length (arp_wire p), Some (arp_wire p @ drop (length (arp_wire p)) buf))"
  using assms
  by (simp add: arp_serialize_def arp_defs mem_simps split: if_splits)

lemma arp_parse_wire:
  assumes "arp_valid p"
  shows "arp_parse (Some (arp_wire p @ rest)) (length (arp_wire p)) (Some g) = Some (0, Some p)"
  using assms
  by (cases p) (auto simp: arp_parse_def arp_defs mem_simps nth_append split: if_splits)


text \<open>The parser accepts exactly two header prefixes: a request's and a reply's.\<close>

definition arp_header_ok :: "bytes \<Rightarrow> bool" where
  "arp_header_ok h \<longleftrightarrow> h = [0, 1, 8, 0, 6, 4, 0, 1] \<or> h = [0, 1, 8, 0, 6, 4, 0, 2]"

definition arp_decode :: "bytes \<Rightarrow> arp_packet" where
  "arp_decode d = \<lparr>
    arp_hardware_type = be16 (d ! 0) (d ! 1), arp_protocol_type = be16 (d ! 2) (d ! 3),
    arp_hardware_addr_len = d ! 4, arp_protocol_addr_len = d ! 5,
    arp_opcode = be16 (d ! 6) (d ! 7),
    arp_sender_mac = take 6 (drop 8 d), arp_sender_ip = take 4 (drop 14 d),
    arp_target_mac = take 6 (drop 18 d), arp_target_ip = take 4 (drop 24 d) \<rparr>"

lemma arp_parse_ok:
  assumes "28 \<le> n" and "n \<le> length d" and "arp_header_ok (take 8 d)"
  shows "arp_parse (Some d) n (Some g) = Some (0, Some (arp_decode d))"
  using assms
  by (auto simp: arp_parse_def arp_decode_def arp_defs mem_simps take_8 arp_header_ok_def be16_eq_iff u16_bytes_def)

lemma arp_parse_reject:
  assumes "n \<le> length d" and "n < 28 \<or> \<not> arp_header_ok (take 8 d)"
  shows "\<exists>rc \<in> {-2, -3, -4, -5, -6}. arp_parse (Some d) n (Some g) = Some (rc, Some g)"
proof (cases "n < 28")
  case True
  then show ?thesis by (simp add: arp_parse_def const_defs)
next
  case False
  with assms show ?thesis
    by (auto simp: arp_parse_def arp_defs mem_simps take_8 arp_header_ok_def be16_eq_iff u16_bytes_def)
qed

lemma split_slices:
  assumes "28 \<le> length d"
  shows "take 28 d = take 8 d @ take 6 (drop 8 d) @ take 4 (drop 14 d) @ take 6 (drop 18 d)
    @ take 4 (drop 24 d)"
  using take_add [of 8 20 d] take_add [of 6 14 "drop 8 d"] take_add [of 4 10 "drop 14 d"]
    take_add [of 6 4 "drop 18 d"] by simp

lemma arp_parse_sound:
  assumes "n \<le> length d" and "arp_parse (Some d) n (Some g) = Some (0, Some p)"
  shows "arp_valid p \<and> length (arp_wire p) \<le> n \<and> take (length (arp_wire p)) d = arp_wire p"
proof -
  have n: "28 \<le> n" and h: "arp_header_ok (take 8 d)"
    using arp_parse_reject [OF assms(1), of g] assms(2) by fastforce+
  from arp_parse_ok [OF n assms(1) h, of g] assms(2) have p: "p = arp_decode d" by simp
  from n assms(1) have len: "28 \<le> length d" by simp
  with h have v: "arp_valid (arp_decode d)"
    by (auto simp: arp_defs arp_decode_def take_8 arp_header_ok_def be16_eq_iff u16_bytes_def)
  then have l: "length (arp_wire p) = 28" by (simp add: p arp_valid_def length_arp_wire)
  have "arp_wire (arp_decode d) = take 28 d"
    using len by (simp add: arp_wire_def arp_decode_def split_slices take_8)
  with v l n show ?thesis by (simp add: p)
qed

interpretation arpc: canonical_codec arp_parse arp_serialize arp_wire arp_valid "\<lambda>p. p"
proof unfold_locales
  show "arp_valid m \<Longrightarrow> n < length (arp_wire m) \<Longrightarrow>
      arp_serialize (Some m) (Some buf) n = Some (0, Some buf)" for m n buf
    using length_arp_wire [of m] by (simp add: arp_serialize_def arp_valid_def const_defs)
  show "arp_valid m \<Longrightarrow> arp_wire m \<noteq> []" for m
    using length_arp_wire [of m] by (auto simp: arp_valid_def)
qed (simp_all add: arp_serialize_wire arp_parse_wire arp_parse_sound)

lemma arp_serialize_invalid:
  "\<not> arp_packet_is_valid (Some p) \<Longrightarrow> arp_serialize (Some p) (Some buf) n = Some (0, Some buf)"
  by (simp add: arp_serialize_def)

lemma arp_build_request_ok:
  assumes "length smac = 6" and "length sip = 4" and "length tip = 4"
  shows "arp_build_request (Some g) (Some smac) (Some sip) (Some tip) = Some (0, Some \<lparr>
    arp_hardware_type = 1, arp_protocol_type = 0x0800, arp_hardware_addr_len = 6,
    arp_protocol_addr_len = 4, arp_opcode = 1, arp_sender_mac = smac, arp_sender_ip = sip,
    arp_target_mac = replicate 6 0, arp_target_ip = tip \<rparr>)"
  using assms by (simp add: arp_build_request_def arp_defs mem_simps)

lemma arp_build_reply_ok:
  assumes "length smac = 6" and "length sip = 4" and "length tmac = 6" and "length tip = 4"
  shows "arp_build_reply (Some g) (Some smac) (Some sip) (Some tmac) (Some tip) = Some (0, Some \<lparr>
    arp_hardware_type = 1, arp_protocol_type = 0x0800, arp_hardware_addr_len = 6,
    arp_protocol_addr_len = 4, arp_opcode = 2, arp_sender_mac = smac, arp_sender_ip = sip,
    arp_target_mac = tmac, arp_target_ip = tip \<rparr>)"
  using assms by (simp add: arp_build_reply_def arp_defs mem_simps)

text \<open>Dotted-decimal text, shared with the identical formatter of the IPv4 component.\<close>

lemma length_ip_text: "length (ip_text a) \<in> {7..15}"
proof -
  have "length (fmt_u (unat b)) \<in> {1..3}" for b :: u8
    using unat_u8_less [of b] by (simp add: length_fmt_u_byte)
  from this [of "a ! 0"] this [of "a ! 1"] this [of "a ! 2"] this [of "a ! 3"] show ?thesis
    by (simp add: ip_text_def)
qed

lemma fmt_u_sep: "fmt_u m @ CHR ''.'' # as = fmt_u n @ CHR ''.'' # bs \<longleftrightarrow> m = n \<and> as = bs"
proof
  assume "fmt_u m @ CHR ''.'' # as = fmt_u n @ CHR ''.'' # bs"
  from append_sep_inject [OF fmt_u_no_dot fmt_u_no_dot this] show "m = n \<and> as = bs" by simp
qed simp

lemma ip_text_inject:
  assumes "length a = 4" and "length b = 4" and "ip_text a = ip_text b"
  shows "a = b"
proof -
  from assms(3) have "a ! 0 = b ! 0" "a ! 1 = b ! 1" "a ! 2 = b ! 2" "a ! 3 = b ! 3"
    by (simp_all add: ip_text_def fmt_u_sep unat_inject)
  then show ?thesis
    by (subst list4 [OF assms(1)], subst list4 [OF assms(2)]) simp
qed


section \<open>Properties\<close>

text \<open>
  (C40) A valid packet survives serialization and parsing unchanged; an invalid one is
  refused by the serializer, which leaves the buffer as it was.
\<close>

theorem arp_roundtrip:
  assumes "arp_wf p" and "28 \<le> n" and "n \<le> length buf"
  shows "do { (len, out) \<leftarrow> arp_serialize (Some p) (Some buf) n; arp_parse out len (Some g) } =
    (if arp_packet_is_valid (Some p) then Some (0, Some p)
     else Some (-2, Some g))"
proof (cases "arp_packet_is_valid (Some p)")
  case True
  with assms have "arp_valid p" by (simp add: arp_valid_def)
  with assms arpc.serialize_parse [of p n buf g] length_arp_wire [OF assms(1)] True
  show ?thesis by simp
next
  case False
  then show ?thesis by (simp add: arp_serialize_invalid arp_parse_def const_defs)
qed

definition arp_example :: arp_packet where
  "arp_example = \<lparr> arp_hardware_type = 1, arp_protocol_type = 0x0800,
     arp_hardware_addr_len = 6, arp_protocol_addr_len = 4, arp_opcode = 2,
     arp_sender_mac = [2, 0, 0, 0, 0, 1], arp_sender_ip = [192, 168, 50, 1],
     arp_target_mac = [2, 0, 0, 0, 0, 2], arp_target_ip = [192, 168, 50, 62] \<rparr>"

theorem arp_roundtrip_witness:
  "do { (len, out) \<leftarrow> arp_serialize (Some arp_example) (Some (replicate 28 0)) 28;
        arp_parse out len (Some arp_zero) } = Some (0, Some arp_example)"
  using arp_roundtrip [of arp_example 28 "replicate 28 0" arp_zero]
  by (simp add: arp_example_def arp_defs)

text \<open>
  The parser is memory safe and accepts exactly the inputs of at least 28 bytes whose
  first eight bytes are the Ethernet/IPv4 request or reply header; the result's wire
  image is the input's first 28 bytes, and a rejected input leaves the packet alone.
\<close>

theorem arp_parse_exact:
  assumes "n \<le> length d"
  shows "(28 \<le> n \<and> arp_header_ok (take 8 d) \<longrightarrow>
      (\<exists>p. arp_parse (Some d) n (Some g) = Some (0, Some p) \<and> arp_valid p
         \<and> arp_wire p = take 28 d))
    \<and> (\<not> (28 \<le> n \<and> arp_header_ok (take 8 d)) \<longrightarrow>
      (\<exists>rc \<in> {-2, -3, -4, -5, -6}. arp_parse (Some d) n (Some g) = Some (rc, Some g)))"
proof (intro conjI impI)
  assume ok: "28 \<le> n \<and> arp_header_ok (take 8 d)"
  then have eq: "arp_parse (Some d) n (Some g) = Some (0, Some (arp_decode d))"
    using arp_parse_ok assms by simp
  from arp_parse_sound [OF assms eq] have "arp_valid (arp_decode d)"
    "take (length (arp_wire (arp_decode d))) d = arp_wire (arp_decode d)" by auto
  with eq show "\<exists>p. arp_parse (Some d) n (Some g) = Some (0, Some p) \<and> arp_valid p
      \<and> arp_wire p = take 28 d"
    by (auto simp: arp_valid_def length_arp_wire)
next
  assume "\<not> (28 \<le> n \<and> arp_header_ok (take 8 d))"
  then have "n < 28 \<or> \<not> arp_header_ok (take 8 d)" by auto
  from arp_parse_reject [OF assms this]
  show "\<exists>rc \<in> {-2, -3, -4, -5, -6}. arp_parse (Some d) n (Some g) = Some (rc, Some g)" .
qed

theorem arp_parse_exact_witness:
  "\<exists>p. arp_parse (Some ([0, 1, 8, 0, 6, 4, 0, 2] @ replicate 38 9)) 46 (Some arp_zero) =
      Some (0, Some p) \<and> arp_valid p \<and> arp_wire p = [0, 1, 8, 0, 6, 4, 0, 2] @ replicate 20 9"
  using arp_parse_exact [of 46 "[0, 1, 8, 0, 6, 4, 0, 2] @ replicate 38 9" arp_zero]
  by (simp add: arp_header_ok_def)

end
