(* ===== verification/Checksum.thy ===== *)
theory Checksum
  imports Wire
begin

text \<open>
  The Internet checksum. The source computes it in four places (\<^verbatim>\<open>ipv4.c\<close>,
  \<^verbatim>\<open>icmp.c\<close>, \<^verbatim>\<open>udp.c\<close>, \<^verbatim>\<open>tcp.c\<close>) with the same three pieces: a carry fold of a
  32-bit accumulator, a loop over big-endian byte pairs, and a final fold and
  complement. The pieces are modelled here; the locale \<open>inet_sum\<close> states what an
  accumulator step and a finishing step must satisfy, and derives from it the
  arithmetic of the checksum: its value modulo 65535, that storing it makes the
  sum verify, and that every change of one byte is detected.
\<close>

section \<open>Model\<close>

text \<open>\<^verbatim>\<open>sum = (sum & 0xFFFFU) + (sum >> 16)\<close>\<close>

definition fold_carry :: "u32 \<Rightarrow> u32" where
  "fold_carry acc = (acc AND 0xFFFF) + drop_bit 16 acc"

lemma unat_drop_16: "unat (drop_bit 16 s) = unat s div 65536" for s :: u32
proof -
  have "unat (drop_bit 16 s) = drop_bit 16 (unat s)"
    by (rule unat_drop_bit_eq)
  then show ?thesis by (simp only: drop_bit_eq_div) simp
qed

lemma unat_and_ffff: "unat (s AND 0xFFFF) = unat s mod 65536" for s :: u32
proof -
  have "s AND 0xFFFF = take_bit 16 s"
    by (simp only: take_bit_eq_mask) (simp add: mask_eq_exp_minus_1)
  then have "unat (s AND 0xFFFF) = take_bit 16 (unat s)"
    by (simp only: unsigned_take_bit_eq)
  then show ?thesis by (simp add: take_bit_eq_mod)
qed

lemma unat_fold_carry: "unat (fold_carry s) = unat s mod 65536 + unat s div 65536"
proof -
  have "unat s < 4294967296" using unat_word_less [of s] by simp
  then have "unat s mod 65536 + unat s div 65536 < 4294967296" by auto
  then show ?thesis
    by (simp add: fold_carry_def unat_word_ariths unat_and_ffff unat_drop_16)
qed

text \<open>\<^verbatim>\<open>while ((sum >> 16) != 0U) acc = ...;\<close>\<close>

function fold_carries :: "u32 \<Rightarrow> u32" where
  "fold_carries acc = (if drop_bit 16 acc \<noteq> 0 then fold_carries (fold_carry acc) else acc)"
  by pat_completeness auto
termination
proof (relation "measure unat")
  fix s :: u32
  assume "drop_bit 16 s \<noteq> 0"
  then have "unat (drop_bit 16 s) \<noteq> 0" by (simp add: unat_eq_zero)
  then have "1 \<le> unat s div 65536" by (simp only: unat_drop_16)
  moreover have "unat s = 65536 * (unat s div 65536) + unat s mod 65536" by simp
  ultimately have "unat s mod 65536 + unat s div 65536 < unat s" by linarith
  then show "(fold_carry s, s) \<in> measure unat"
    by (simp only: in_measure unat_fold_carry)
qed simp

declare fold_carries.simps [simp del]

text \<open>\<^verbatim>\<open>sum += word; sum = (sum & 0xFFFFU) + (sum >> 16);\<close>\<close>

definition carry_step :: "u32 \<Rightarrow> u16 \<Rightarrow> u32" where
  "carry_step acc word = fold_carry (acc + ucast word)"

text \<open>
  \<^verbatim>\<open>while (i + 1 < length) { add the pair; i += 2; }\<close> followed by the odd last byte.
\<close>

function add_pairs :: "(u32 \<Rightarrow> u16 \<Rightarrow> u32) \<Rightarrow> bytes \<Rightarrow> nat \<Rightarrow> nat \<Rightarrow> u32 \<Rightarrow> (nat \<times> u32) option" where
  "add_pairs add data len i acc =
    (if i + 1 < len
     then do { a \<leftarrow> rd data i; b \<leftarrow> rd data (i + 1); add_pairs add data len (i + 2) (add acc (be16 a b)) }
     else Some (i, acc))"
  by pat_completeness auto
termination
  by (relation "measure (\<lambda>(add, data, len, i, acc). len - i)") auto

declare add_pairs.simps [simp del]

definition add_bytes_with :: "(u32 \<Rightarrow> u16 \<Rightarrow> u32) \<Rightarrow> u32 \<Rightarrow> bytes \<Rightarrow> nat \<Rightarrow> u32 option" where
  "add_bytes_with add acc data len = do {
     (i, acc) \<leftarrow> add_pairs add data len 0 acc;
     if i < len then do { a \<leftarrow> rd data i; Some (add acc (push_bit 8 (ucast a))) }
     else Some acc }"

text \<open>\<^verbatim>\<open>(uint16_t)(~sum & 0xFFFFU)\<close> after the final folds.\<close>

definition complement_carries :: "u32 \<Rightarrow> u16" where
  "complement_carries acc = ucast (NOT (fold_carries acc) AND 0xFFFF)"

section \<open>The words of a buffer\<close>

fun be_words :: "bytes \<Rightarrow> u16 list" where
  "be_words [] = []"
| "be_words [a] = [be16 a 0]"
| "be_words (a # b # r) = be16 a b # be_words r"

lemma be16_odd [simp]: "push_bit 8 (ucast a) = be16 a 0"
  by (simp add: be16_def)

lemma drop_take_two:
  assumes "i + 1 < n" and "n \<le> length d"
  shows "take (n - i) (drop i d) = d ! i # d ! Suc i # take (n - (i + 2)) (drop (i + 2) d)"
proof -
  have "drop i d = d ! i # d ! Suc i # drop (i + 2) d"
    using assms by (simp add: Cons_nth_drop_Suc)
  moreover have "n - i = Suc (Suc (n - (i + 2)))"
    using assms by simp
  ultimately show ?thesis by simp
qed

lemma add_pairs_words:
  assumes "i \<le> n" and "n \<le> length d"
  shows "do { (j, s') \<leftarrow> add_pairs add d n i s;
     if j < n then do { a \<leftarrow> rd d j; Some (add s' (push_bit 8 (ucast a))) } else Some s' } =
    Some (foldl add s (be_words (take (n - i) (drop i d))))"
  using assms
proof (induction add d n i s rule: add_pairs.induct)
  case (1 add d n i s)
  show ?case
  proof (cases "i + 1 < n")
    case True
    with 1 show ?thesis
      by (simp add: add_pairs.simps [of add d n i s] rd_Some drop_take_two)
  next
    case False
    then consider "n = i" | "n = Suc i" using "1.prems" by linarith
    then show ?thesis
    proof cases
      case 2
      with "1.prems" have "take 1 (drop i d) = [d ! i]"
        by (simp add: take_Suc_conv_app_nth take_Suc hd_drop_conv_nth)
      with 2 "1.prems" show ?thesis
        by (simp add: add_pairs.simps [of add d "Suc i" i s] rd_Some)
    qed (simp add: add_pairs.simps [of add d i i s])
  qed
qed

lemma add_bytes_with_words:
  "n \<le> length d \<Longrightarrow> add_bytes_with add s d n = Some (foldl add s (be_words (take n d)))"
  using add_pairs_words [of 0 n d add s] by (simp add: add_bytes_with_def)

definition word_sum :: "bytes \<Rightarrow> nat" where
  "word_sum d = sum_list (map unat (be_words d))"

lemma word_sum_simps [simp]:
  "word_sum [] = 0"
  "word_sum [a] = 256 * unat a"
  "word_sum (a # b # r) = 256 * unat a + unat b + word_sum r"
  by (simp_all add: word_sum_def unat_be16)

lemma word_sum_append: "even (length a) \<Longrightarrow> word_sum (a @ b) = word_sum a + word_sum b"
  by (induction a rule: be_words.induct) auto

lemma word_sum_u16 [simp]: "word_sum (u16_bytes v) = unat v"
proof -
  obtain a b where v: "u16_bytes v = [a, b]" by (simp add: u16_bytes_def)
  then have "be16 a b = v" by (simp add: be16_eq_iff)
  with v show ?thesis by (simp flip: unat_be16)
qed

text \<open>Changing one byte moves the sum by less than 65535 in either direction.\<close>

lemma word_sum_update:
  assumes "i < length d"
  shows "word_sum (d[i := x]) + (if even i then 256 else 1) * unat (d ! i) =
         word_sum d + (if even i then 256 else 1) * unat x"
  using assms
proof (induction d arbitrary: i rule: be_words.induct)
  case (3 a b r)
  then consider "i = 0" | "i = 1" | j where "i = Suc (Suc j)" "j < length r"
    by (cases i) (auto, metis not0_implies_Suc One_nat_def Suc_less_eq)
  then show ?case
    using "3.IH" by cases auto
qed auto

lemma word_sum_update_differs:
  assumes "i < length d" and "x \<noteq> d ! i"
  shows "word_sum (d[i := x]) mod 65535 \<noteq> word_sum d mod 65535"
proof
  assume "word_sum (d[i := x]) mod 65535 = word_sum d mod 65535"
  then have dvd: "(65535 :: int) dvd int (word_sum (d[i := x])) - int (word_sum d)"
    by (metis mod_eq_dvd_iff zmod_int of_nat_numeral)
  define k where "k = (if even i then 256 else 1 :: int)"
  have "int (word_sum (d[i := x]) + (if even i then 256 else 1) * unat (d ! i)) =
      int (word_sum d + (if even i then 256 else 1) * unat x)"
    using word_sum_update [OF assms(1), of x] by (simp only:)
  then have "int (word_sum (d[i := x])) - int (word_sum d) = k * (int (unat x) - int (unat (d ! i)))"
    by (simp add: k_def algebra_simps split: if_splits)
  with dvd have "65535 dvd k * (int (unat x) - int (unat (d ! i)))" by simp
  moreover have "\<bar>k * (int (unat x) - int (unat (d ! i)))\<bar> < 65535"
  proof -
    have "\<bar>int (unat x) - int (unat (d ! i))\<bar> < 256"
      using unat_u8_less [of x] unat_u8_less [of "d ! i"] by linarith
    then show ?thesis by (simp add: k_def abs_mult)
  qed
  ultimately have "k * (int (unat x) - int (unat (d ! i))) = 0"
    using zdvd_not_zless by fastforce
  then show False
    using assms(2) by (auto simp: k_def word_uint_eq_iff split: if_splits)
qed

section \<open>One's complement arithmetic\<close>

text \<open>\<open>oc16 n\<close> is the value the accumulator holds after words that total \<open>n\<close>.\<close>

definition oc16 :: "nat \<Rightarrow> nat" where
  "oc16 n = (if n = 0 then 0 else (n - 1) mod 65535 + 1)"

lemma oc16_0 [simp]: "oc16 0 = 0"
  by (simp add: oc16_def)

lemma oc16_Suc: "oc16 (Suc m) = Suc (m mod 65535)"
  by (simp add: oc16_def)

lemma oc16_bound: "oc16 n \<le> 65535"
  using mod_less_divisor [of 65535 "n - 1"] by (cases n) (simp_all add: oc16_Suc)

lemma oc16_full: "oc16 n = 65535 \<longleftrightarrow> n \<noteq> 0 \<and> n mod 65535 = 0"
  by (cases n) (simp_all add: oc16_Suc mod_Suc)

lemma oc16_complement: "oc16 (n + (65535 - oc16 n)) = 65535"
proof (cases n)
  case 0
  then show ?thesis by (simp add: oc16_full)
next
  case (Suc m)
  have "m mod 65535 < 65535" by simp
  then have "n + (65535 - oc16 n) = 65535 + 65535 * (m div 65535)"
    using Suc mult_div_mod_eq [of 65535 m] by (simp only: oc16_Suc)
  then show ?thesis by (simp add: oc16_full)
qed

lemma oc16_add_full: "oc16 n = 65535 \<Longrightarrow> oc16 (n + 65535) = 65535"
  by (simp add: oc16_full)

lemma oc16_small: "n \<le> 65535 \<Longrightarrow> oc16 n = n"
  by (cases n) (simp_all add: oc16_Suc)

lemma oc16_add:
  assumes "w \<le> 65535"
  shows "oc16 (n + w) = (if oc16 n + w < 65536 then oc16 n + w else oc16 n + w - 65535)"
proof (cases n)
  case 0
  with assms show ?thesis by (simp add: oc16_small)
next
  case (Suc m)
  define r where "r = m mod 65535"
  have r: "r < 65535" by (simp add: r_def)
  have "(m + w) mod 65535 = (r + w) mod 65535"
    by (simp add: r_def mod_add_left_eq)
  also have "\<dots> = (if r + w < 65535 then r + w else r + w - 65535)"
    using r assms by (simp add: le_mod_geq)
  finally show ?thesis
    using Suc by (auto simp add: oc16_Suc simp flip: r_def)
qed

text \<open>The steps the source uses satisfy the laws of \<open>inet_sum\<close>.\<close>

lemma fold_carry_oc16:
  assumes "unat s = oc16 n"
  shows "unat (fold_carry (s + ucast (w :: u16))) = oc16 (n + unat w)"
proof -
  have w: "unat w \<le> 65535" using unat_u16_less [of w] by simp
  have n: "oc16 n \<le> 65535" by (rule oc16_bound)
  have "unat (ucast w :: u32) = unat w"
    using w by (simp add: unsigned_ucast_eq take_bit_eq_mod)
  then have t: "unat (s + ucast w) = oc16 n + unat w"
    using assms w n by (simp add: unat_word_ariths)
  have "(oc16 n + unat w) mod 65536 + (oc16 n + unat w) div 65536 =
      (if oc16 n + unat w < 65536 then oc16 n + unat w else oc16 n + unat w - 65535)"
    using w n by (auto simp: le_mod_geq le_div_geq)
  then show ?thesis
    by (simp only: unat_fold_carry t oc16_add [OF w])
qed

lemma complement_carries_oc16:
  assumes "unat s = oc16 n"
  shows "unat (complement_carries s) = 65535 - oc16 n"
proof -
  have n: "unat s \<le> 65535" using assms oc16_bound [of n] by simp
  then have "unat (drop_bit 16 s) = 0" by (simp only: unat_drop_16)
  then have f: "fold_carries s = s" by (simp add: fold_carries.simps unat_eq_zero)
  have "unat (NOT s) = 4294967295 - unat s"
  proof -
    have "NOT s = - 1 - s" by (simp add: not_eq_complement)
    moreover have "unat (- 1 - s) = unat (- 1 :: u32) - unat s"
      by (rule unat_sub) (simp add: word_order.extremum)
    moreover have "unat (- 1 :: u32) = 4294967295"
      by (simp add: unsigned_minus_1_eq_mask mask_eq_exp_minus_1)
    ultimately show ?thesis by simp
  qed
  then have "unat (NOT s AND 0xFFFF) = (4294967295 - unat s) mod 65536"
    by (simp only: unat_and_ffff)
  also have "\<dots> = 65535 - unat s"
  proof -
    have "4294967295 - unat s = (65535 - unat s) + 65536 * 65535" using n by simp
    then show ?thesis using n by (simp only: mod_mult_self2) simp
  qed
  finally have "unat (NOT s AND 0xFFFF) = 65535 - unat s" .
  then show ?thesis
    using assms by (simp add: complement_carries_def f unsigned_ucast_eq take_bit_eq_mod)
qed

locale inet_sum =
  fixes add :: "u32 \<Rightarrow> u16 \<Rightarrow> u32"
    and finish :: "u32 \<Rightarrow> u16"
  assumes add_oc16: "unat s = oc16 n \<Longrightarrow> unat (add s w) = oc16 (n + unat w)"
    and finish_oc16: "unat s = oc16 n \<Longrightarrow> unat (finish s) = 65535 - oc16 n"
begin

lemma foldl_oc16:
  "unat s = oc16 n \<Longrightarrow> unat (foldl add s ws) = oc16 (n + sum_list (map unat ws))"
  by (induction ws arbitrary: s n) (simp_all add: add_oc16 add.assoc)

text \<open>The checksum over a list of words, as a number.\<close>

lemma unat_checksum: "unat (finish (foldl add 0 ws)) = 65535 - oc16 (sum_list (map unat ws))"
  using foldl_oc16 [of 0 0 ws] by (simp add: finish_oc16)

lemma checksum_zero_iff:
  "finish (foldl add 0 ws) = 0 \<longleftrightarrow>
    sum_list (map unat ws) \<noteq> 0 \<and> sum_list (map unat ws) mod 65535 = 0"
proof -
  have "finish (foldl add 0 ws) = 0 \<longleftrightarrow> unat (finish (foldl add 0 ws)) = 0"
    by (simp add: unat_eq_zero)
  also have "\<dots> \<longleftrightarrow> oc16 (sum_list (map unat ws)) = 65535"
    using oc16_bound [of "sum_list (map unat ws)"] by (simp add: unat_checksum)
  finally show ?thesis by (simp add: oc16_full)
qed

text \<open>
  Storing the checksum of words whose checksum slot is zero makes the sum verify,
  also after the substitution of \<open>0xFFFF\<close> for a zero checksum.
\<close>

lemma stored_verifies:
  assumes "c = finish (foldl add 0 ws)"
    and "sum_list (map unat ws') = sum_list (map unat ws) + unat c"
  shows "finish (foldl add 0 ws') = 0"
proof -
  have "oc16 (sum_list (map unat ws')) = 65535"
    using assms by (simp add: unat_checksum oc16_complement)
  then show ?thesis by (simp add: checksum_zero_iff oc16_full)
qed

lemma stored_nonzero_verifies:
  assumes "c = (if finish (foldl add 0 ws) = 0 then 0xFFFF else finish (foldl add 0 ws))"
    and "sum_list (map unat ws') = sum_list (map unat ws) + unat c"
  shows "finish (foldl add 0 ws') = 0"
proof (cases "finish (foldl add 0 ws) = 0")
  case True
  then have "oc16 (sum_list (map unat ws)) = 65535"
    by (simp add: checksum_zero_iff oc16_full)
  moreover have "unat c = 65535"
    using True assms(1) by simp
  ultimately have "oc16 (sum_list (map unat ws')) = 65535"
    using assms(2) by (simp only: oc16_add_full)
  then show ?thesis by (simp add: checksum_zero_iff oc16_full)
next
  case False
  with assms(1) have "c = finish (foldl add 0 ws)" by simp
  then show ?thesis using assms(2) by (rule stored_verifies)
qed

end

interpretation carry: inet_sum carry_step complement_carries
  by unfold_locales (simp_all add: carry_step_def fold_carry_oc16 complement_carries_oc16)

text \<open>The checksum of a whole buffer, as \<^verbatim>\<open>ipv4.c\<close> and \<^verbatim>\<open>icmp.c\<close> compute it.\<close>

definition inet_checksum :: "bytes \<Rightarrow> u16" where
  "inet_checksum d = complement_carries (foldl carry_step 0 (be_words d))"

lemma unat_inet_checksum: "unat (inet_checksum d) = 65535 - oc16 (word_sum d)"
  by (simp add: inet_checksum_def carry.unat_checksum word_sum_def)

lemma inet_checksum_zero_iff:
  "inet_checksum d = 0 \<longleftrightarrow> word_sum d \<noteq> 0 \<and> word_sum d mod 65535 = 0"
  by (simp add: inet_checksum_def carry.checksum_zero_iff word_sum_def)

lemma inet_checksum_stored:
  assumes "word_sum d' = word_sum d + unat (inet_checksum d)"
  shows "inet_checksum d' = 0"
  using carry.stored_verifies [of "inet_checksum d" "be_words d" "be_words d'"] assms
  by (simp add: inet_checksum_def word_sum_def)

lemma inet_checksum_detects:
  assumes "inet_checksum d = 0" and "i < length d" and "x \<noteq> d ! i"
  shows "inet_checksum (d[i := x]) \<noteq> 0"
  using assms word_sum_update_differs [OF assms(2,3)] by (simp add: inet_checksum_zero_iff)

section \<open>Pseudo-headers\<close>

text \<open>
  UDP and TCP sum a pseudo-header (addresses, protocol, length) before the segment and
  send \<open>0xFFFF\<close> in place of a zero checksum.
\<close>

definition pseudo_header :: "bytes \<Rightarrow> bytes \<Rightarrow> u8 \<Rightarrow> nat \<Rightarrow> bytes" where
  "pseudo_header sip dip protocol len =
     take 4 sip @ take 4 dip @ [0, protocol] @ u16_bytes (of_nat len)"

definition transport_checksum :: "bytes \<Rightarrow> bytes \<Rightarrow> u8 \<Rightarrow> bytes \<Rightarrow> u16" where
  "transport_checksum sip dip protocol d =
     inet_checksum (pseudo_header sip dip protocol (length d) @ d)"

definition nonzero_checksum :: "u16 \<Rightarrow> u16" where
  "nonzero_checksum c = (if c = 0 then 0xFFFF else c)"

lemma nonzero_checksum [simp]: "nonzero_checksum c \<noteq> 0"
  by (simp add: nonzero_checksum_def)

lemma be_words_append: "even (length a) \<Longrightarrow> be_words (a @ b) = be_words a @ be_words b"
  by (induction a rule: be_words.induct) auto

lemma be_words_four:
  "4 \<le> length a \<Longrightarrow> be_words (take 4 a) = [be16 (a ! 0) (a ! 1), be16 (a ! 2) (a ! 3)]"
proof -
  assume "4 \<le> length a"
  then have "take 4 a = [a ! 0, a ! 1, a ! 2, a ! 3]"
    by (intro nth_equalityI) (auto simp: less_Suc_eq numeral_eq_Suc)
  then show ?thesis by simp
qed

lemma be_words_u16 [simp]: "be_words (u16_bytes v @ r) = v # be_words r"
  by (simp add: u16_bytes_def)

lemma length_pseudo_header [simp]:
  "4 \<le> length sip \<Longrightarrow> 4 \<le> length dip \<Longrightarrow> length (pseudo_header sip dip protocol n) = 12"
  by (simp add: pseudo_header_def)

lemma be_words_pseudo_header:
  assumes "4 \<le> length sip" and "4 \<le> length dip"
  shows "be_words (pseudo_header sip dip protocol n @ d) =
    be_words (take 4 sip) @ be_words (take 4 dip) @ be16 0 protocol # of_nat n # be_words d"
  using assms by (simp add: pseudo_header_def be_words_append)

lemma transport_stored:
  assumes "4 \<le> length sip" and "4 \<le> length dip" and "length d' = length d"
    and "word_sum d' = word_sum d + unat (nonzero_checksum (transport_checksum sip dip protocol d))"
  shows "transport_checksum sip dip protocol d' = 0"
proof -
  let ?h = "pseudo_header sip dip protocol (length d)"
  have "word_sum (?h @ d') =
      word_sum (?h @ d) + unat (nonzero_checksum (transport_checksum sip dip protocol d))"
    using assms by (simp add: word_sum_append)
  then show ?thesis
    using carry.stored_nonzero_verifies
      [of "nonzero_checksum (transport_checksum sip dip protocol d)" "be_words (?h @ d)" "be_words (?h @ d')"]
      assms(3)
    by (simp add: transport_checksum_def inet_checksum_def word_sum_def nonzero_checksum_def)
qed

lemma transport_detects:
  assumes "4 \<le> length sip" and "4 \<le> length dip" and "transport_checksum sip dip protocol d = 0"
    and "i < length d" and "x \<noteq> d ! i"
  shows "transport_checksum sip dip protocol (d[i := x]) \<noteq> 0"
proof -
  let ?h = "pseudo_header sip dip protocol (length d)"
  have "inet_checksum ((?h @ d)[12 + i := x]) \<noteq> 0"
    using assms by (intro inet_checksum_detects) (simp_all add: transport_checksum_def nth_append)
  then show ?thesis
    using assms(1,2) by (simp add: transport_checksum_def list_update_append)
qed

lemma transport_detects_source:
  assumes "4 \<le> length sip" and "4 \<le> length dip" and "transport_checksum sip dip protocol d = 0"
    and "i < 4" and "x \<noteq> sip ! i"
  shows "transport_checksum (sip[i := x]) dip protocol d \<noteq> 0"
proof -
  let ?h = "pseudo_header sip dip protocol (length d)"
  have "inet_checksum ((?h @ d)[i := x]) \<noteq> 0"
    using assms
    by (intro inet_checksum_detects) (simp_all add: transport_checksum_def nth_append pseudo_header_def)
  then show ?thesis
    using assms(1,4)
    by (simp add: transport_checksum_def pseudo_header_def list_update_append take_update_swap)
qed

end
