(* ===== verification/Ipv4.thy ===== *)
theory Ipv4
  imports Codec CString Checksum Arp
begin

text \<open>
  \<^verbatim>\<open>src/src/ipv4.c\<close> and \<^verbatim>\<open>src/include/ipv4.h\<close>: the IPv4 header with options, its
  checksum, construction, serialization and parsing.
\<close>

section \<open>Model\<close>

definition IPV4_ADDR_LEN :: nat where [const_defs]: "IPV4_ADDR_LEN = 4"
definition IPV4_VERSION :: u8 where [const_defs]: "IPV4_VERSION = 4"
definition IPV4_MIN_IHL :: u8 where [const_defs]: "IPV4_MIN_IHL = 5"
definition IPV4_MIN_HEADER_LEN :: nat where [const_defs]: "IPV4_MIN_HEADER_LEN = 20"
definition IPV4_MAX_HEADER_LEN :: nat where [const_defs]: "IPV4_MAX_HEADER_LEN = 60"
definition IPV4_MAX_PACKET_LEN :: nat where [const_defs]: "IPV4_MAX_PACKET_LEN = 65535"
definition IPV4_MAX_PAYLOAD_LEN :: nat where
  [const_defs]: "IPV4_MAX_PAYLOAD_LEN = IPV4_MAX_PACKET_LEN - IPV4_MIN_HEADER_LEN"
definition IPV4_PROTOCOL_ICMP :: u8 where [const_defs]: "IPV4_PROTOCOL_ICMP = 1"
definition IPV4_PROTOCOL_TCP :: u8 where [const_defs]: "IPV4_PROTOCOL_TCP = 6"
definition IPV4_PROTOCOL_UDP :: u8 where [const_defs]: "IPV4_PROTOCOL_UDP = 17"
definition IPV4_FLAG_DF :: u8 where [const_defs]: "IPV4_FLAG_DF = 0x02"

record ipv4_packet =
  ip_version :: u8
  ip_ihl :: u8
  ip_dscp :: u8
  ip_ecn :: u8
  ip_total_length :: u16
  ip_identification :: u16
  ip_flags :: u8
  ip_fragment_offset :: u16
  ip_ttl :: u8
  ip_protocol :: u8
  ip_header_checksum :: u16
  ip_source_ip :: bytes
  ip_destination_ip :: bytes
  ip_options :: bytes
  ip_options_len :: nat
  ip_payload :: bytes
  ip_payload_len :: nat

definition ipv4_zero :: ipv4_packet where
  "ipv4_zero = \<lparr> ip_version = 0, ip_ihl = 0, ip_dscp = 0, ip_ecn = 0, ip_total_length = 0,
     ip_identification = 0, ip_flags = 0, ip_fragment_offset = 0, ip_ttl = 0, ip_protocol = 0,
     ip_header_checksum = 0, ip_source_ip = replicate IPV4_ADDR_LEN 0,
     ip_destination_ip = replicate IPV4_ADDR_LEN 0,
     ip_options = replicate (IPV4_MAX_HEADER_LEN - IPV4_MIN_HEADER_LEN) 0, ip_options_len = 0,
     ip_payload = replicate IPV4_MAX_PAYLOAD_LEN 0, ip_payload_len = 0 \<rparr>"

definition ipv4_wf :: "ipv4_packet \<Rightarrow> bool" where
  "ipv4_wf p \<longleftrightarrow> length (ip_source_ip p) = IPV4_ADDR_LEN
     \<and> length (ip_destination_ip p) = IPV4_ADDR_LEN
     \<and> length (ip_options p) = IPV4_MAX_HEADER_LEN - IPV4_MIN_HEADER_LEN
     \<and> length (ip_payload p) = IPV4_MAX_PAYLOAD_LEN
     \<and> ip_options_len p < SIZE_LIMIT \<and> ip_payload_len p < SIZE_LIMIT"

definition ipv4_checksum :: "bytes ptr \<Rightarrow> nat \<Rightarrow> u16 option" where
  "ipv4_checksum data data_len =
    (case data of None \<Rightarrow> Some 0
     | Some d \<Rightarrow> do {
         acc \<leftarrow> add_bytes_with carry_step 0 d data_len;
         Some (complement_carries acc) })"

definition ipv4_parse ::
  "bytes ptr \<Rightarrow> nat \<Rightarrow> ipv4_packet ptr \<Rightarrow> (int \<times> ipv4_packet ptr) option" where
  "ipv4_parse data data_len packet =
    (case (data, packet) of
       (Some d, Some _) \<Rightarrow>
         if data_len < IPV4_MIN_HEADER_LEN then Some (-2, packet)
         else do {
           b0 \<leftarrow> rd d 0;
           let version = drop_bit 4 b0;
           let ihl = b0 AND 0x0F;
           if version \<noteq> IPV4_VERSION then Some (-3, packet)
           else if ihl < IPV4_MIN_IHL \<or> ihl > 15 then Some (-4, packet)
           else let header_len = unat ihl * 4 in
           if data_len < header_len then Some (-4, packet)
           else do {
             total_length \<leftarrow> read_u16_be d 2;
             if unat total_length < header_len \<or> unat total_length > data_len
             then Some (-5, packet)
             else do {
               ck \<leftarrow> ipv4_checksum data header_len;
               if ck \<noteq> 0 then Some (-6, packet)
               else let payload_len = unat total_length - header_len in
               if payload_len > IPV4_MAX_PAYLOAD_LEN then Some (-7, packet)
               else do {
                 let p = ipv4_zero;
                 b1 \<leftarrow> rd d 1;
                 identification \<leftarrow> read_u16_be d 4;
                 flags_fragment \<leftarrow> read_u16_be d 6;
                 ttl \<leftarrow> rd d 8;
                 protocol \<leftarrow> rd d 9;
                 header_checksum \<leftarrow> read_u16_be d 10;
                 src \<leftarrow> memcpy (ip_source_ip p) 0 d 12 IPV4_ADDR_LEN;
                 dst \<leftarrow> memcpy (ip_destination_ip p) 0 d 16 IPV4_ADDR_LEN;
                 let options_len = header_len - IPV4_MIN_HEADER_LEN;
                 opts \<leftarrow> (if options_len > 0
                          then memcpy (ip_options p) 0 d IPV4_MIN_HEADER_LEN options_len
                          else Some (ip_options p));
                 pl \<leftarrow> (if payload_len > 0
                        then memcpy (ip_payload p) 0 d header_len payload_len
                        else Some (ip_payload p));
                 Some (0, Some (p\<lparr>ip_version := version, ip_ihl := ihl,
                   ip_dscp := drop_bit 2 b1, ip_ecn := b1 AND 0x03,
                   ip_total_length := total_length, ip_identification := identification,
                   ip_flags := ucast (drop_bit 13 flags_fragment AND 0x07),
                   ip_fragment_offset := flags_fragment AND 0x1FFF,
                   ip_ttl := ttl, ip_protocol := protocol,
                   ip_header_checksum := header_checksum,
                   ip_source_ip := src, ip_destination_ip := dst,
                   ip_options := opts, ip_options_len := options_len,
                   ip_payload := pl, ip_payload_len := payload_len\<rparr>)) } } } }
     | _ \<Rightarrow> Some (-1, packet))"

definition ipv4_serialize ::
  "ipv4_packet ptr \<Rightarrow> bytes ptr \<Rightarrow> nat \<Rightarrow> (nat \<times> bytes ptr) option" where
  "ipv4_serialize packet buffer buffer_len =
    (case (packet, buffer) of
       (Some p, Some b) \<Rightarrow>
         if ip_version p \<noteq> IPV4_VERSION then Some (0, buffer)
         else if ip_ihl p < IPV4_MIN_IHL \<or> ip_ihl p > 15 then Some (0, buffer)
         else let header_len = unat (ip_ihl p) * 4;
                  expected_options_len = header_len - IPV4_MIN_HEADER_LEN in
         if ip_options_len p \<noteq> expected_options_len then Some (0, buffer)
         else if ip_payload_len p > IPV4_MAX_PAYLOAD_LEN then Some (0, buffer)
         else let total_len = header_len + ip_payload_len p in
         if total_len > IPV4_MAX_PACKET_LEN \<or> buffer_len < total_len then Some (0, buffer)
         else do {
           b \<leftarrow> memset b 0 total_len;
           b \<leftarrow> wr b 0 (push_bit 4 (ip_version p) OR (ip_ihl p AND 0x0F));
           b \<leftarrow> wr b 1 (push_bit 2 (ip_dscp p AND 0x3F) OR (ip_ecn p AND 0x03));
           b \<leftarrow> write_u16_be b 2 (of_nat total_len);
           b \<leftarrow> write_u16_be b 4 (ip_identification p);
           let flags_fragment = push_bit 13 (ucast (ip_flags p AND 0x07))
             OR (ip_fragment_offset p AND 0x1FFF);
           b \<leftarrow> write_u16_be b 6 flags_fragment;
           b \<leftarrow> wr b 8 (ip_ttl p);
           b \<leftarrow> wr b 9 (ip_protocol p);
           b \<leftarrow> wr b 10 0;
           b \<leftarrow> wr b 11 0;
           b \<leftarrow> memcpy b 12 (ip_source_ip p) 0 IPV4_ADDR_LEN;
           b \<leftarrow> memcpy b 16 (ip_destination_ip p) 0 IPV4_ADDR_LEN;
           b \<leftarrow> (if ip_options_len p > 0
                 then memcpy b IPV4_MIN_HEADER_LEN (ip_options p) 0 (ip_options_len p)
                 else Some b);
           checksum \<leftarrow> ipv4_checksum (Some b) header_len;
           b \<leftarrow> write_u16_be b 10 checksum;
           b \<leftarrow> (if ip_payload_len p > 0
                 then memcpy b header_len (ip_payload p) 0 (ip_payload_len p)
                 else Some b);
           Some (total_len, Some b) }
     | _ \<Rightarrow> Some (0, buffer))"

definition ipv4_build ::
  "ipv4_packet ptr \<Rightarrow> bytes ptr \<Rightarrow> bytes ptr \<Rightarrow> u8 \<Rightarrow> bytes ptr \<Rightarrow> nat \<Rightarrow> u8 \<Rightarrow> u16 \<Rightarrow>
    (int \<times> ipv4_packet ptr) option" where
  "ipv4_build packet source_ip destination_ip protocol payload payload_len ttl identification =
    (case (packet, source_ip, destination_ip) of
       (Some _, Some sip, Some dip) \<Rightarrow>
         if payload_len > 0 \<and> payload = None then Some (-1, packet)
         else if payload_len > IPV4_MAX_PAYLOAD_LEN then Some (-1, packet)
         else do {
           let p = ipv4_zero\<lparr>ip_version := IPV4_VERSION, ip_ihl := IPV4_MIN_IHL,
             ip_dscp := 0, ip_ecn := 0,
             ip_total_length := of_nat (IPV4_MIN_HEADER_LEN + payload_len),
             ip_identification := identification, ip_flags := IPV4_FLAG_DF,
             ip_fragment_offset := 0, ip_ttl := ttl, ip_protocol := protocol,
             ip_header_checksum := 0\<rparr>;
           src \<leftarrow> memcpy (ip_source_ip p) 0 sip 0 IPV4_ADDR_LEN;
           dst \<leftarrow> memcpy (ip_destination_ip p) 0 dip 0 IPV4_ADDR_LEN;
           pl \<leftarrow> (if payload_len > 0
                  then do { pd \<leftarrow> payload; memcpy (ip_payload p) 0 pd 0 payload_len }
                  else Some (ip_payload p));
           Some (0, Some (p\<lparr>ip_source_ip := src, ip_destination_ip := dst,
             ip_options_len := 0, ip_payload_len := payload_len, ip_payload := pl\<rparr>)) }
     | _ \<Rightarrow> Some (-1, packet))"

definition ipv4_address_to_string ::
  "bytes ptr \<Rightarrow> string ptr \<Rightarrow> nat \<Rightarrow> (int \<times> string ptr) option" where
  "ipv4_address_to_string ip buffer buffer_len =
    (case (ip, buffer) of
       (Some a, Some b) \<Rightarrow>
         if buffer_len < 16 then Some (-1, buffer)
         else do {
           _ \<leftarrow> mem_read a 0 4;
           (written, b) \<leftarrow> snprintf b buffer_len (ip_text a);
           Some (if written < 7 \<or> written > 15 then -1 else 0, Some b) }
     | _ \<Rightarrow> Some (-1, buffer))"

definition ipv4_protocol_name :: "u8 \<Rightarrow> string" where
  "ipv4_protocol_name protocol =
    (if protocol = IPV4_PROTOCOL_ICMP then ''ICMP''
     else if protocol = IPV4_PROTOCOL_TCP then ''TCP''
     else if protocol = IPV4_PROTOCOL_UDP then ''UDP''
     else ''Unknown'')"

section \<open>Wire format\<close>

definition ipv4_header :: "ipv4_packet \<Rightarrow> u16 \<Rightarrow> bytes" where
  "ipv4_header p ck =
     [push_bit 4 (ip_version p) OR (ip_ihl p AND 0x0F),
      push_bit 2 (ip_dscp p AND 0x3F) OR (ip_ecn p AND 0x03)]
     @ u16_bytes (of_nat (unat (ip_ihl p) * 4 + ip_payload_len p))
     @ u16_bytes (ip_identification p)
     @ u16_bytes (push_bit 13 (ucast (ip_flags p AND 0x07)) OR (ip_fragment_offset p AND 0x1FFF))
     @ [ip_ttl p, ip_protocol p] @ u16_bytes ck @ ip_source_ip p @ ip_destination_ip p
     @ take (ip_options_len p) (ip_options p)"

definition ipv4_header_ck :: "ipv4_packet \<Rightarrow> u16" where
  "ipv4_header_ck p = inet_checksum (ipv4_header p 0)"

definition ipv4_wire :: "ipv4_packet \<Rightarrow> bytes" where
  "ipv4_wire p = ipv4_header p (ipv4_header_ck p) @ take (ip_payload_len p) (ip_payload p)"

definition ipv4_valid :: "ipv4_packet \<Rightarrow> bool" where
  "ipv4_valid p \<longleftrightarrow> ipv4_wf p \<and> ip_version p = 4 \<and> 5 \<le> ip_ihl p \<and> ip_ihl p \<le> 15
     \<and> ip_options_len p = unat (ip_ihl p) * 4 - 20
     \<and> unat (ip_ihl p) * 4 + ip_payload_len p \<le> 65535"

definition ipv4_norm :: "ipv4_packet \<Rightarrow> ipv4_packet" where
  "ipv4_norm p = p\<lparr>ip_dscp := ip_dscp p AND 0x3F, ip_ecn := ip_ecn p AND 0x03,
     ip_total_length := of_nat (unat (ip_ihl p) * 4 + ip_payload_len p),
     ip_flags := ip_flags p AND 0x07, ip_fragment_offset := ip_fragment_offset p AND 0x1FFF,
     ip_header_checksum := ipv4_header_ck p,
     ip_options := take (ip_options_len p) (ip_options p) @ replicate (40 - ip_options_len p) 0,
     ip_payload := take (ip_payload_len p) (ip_payload p)
       @ replicate (65515 - ip_payload_len p) 0\<rparr>"

lemmas ipv4_defs = ipv4_valid_def ipv4_wf_def ipv4_zero_def const_defs

lemma ipv4_checksum_eq:
  "n \<le> length d \<Longrightarrow> ipv4_checksum (Some d) n = Some (inet_checksum (take n d))"
  by (simp add: ipv4_checksum_def add_bytes_with_words inet_checksum_def)

lemma ihl_bounds:
  fixes i :: u8
  assumes "5 \<le> i" and "i \<le> 15"
  shows "5 \<le> unat i" and "unat i \<le> 15"
  using assms by (simp_all add: word_le_nat_alt)

lemma length_ipv4_header: "ipv4_valid p \<Longrightarrow> length (ipv4_header p ck) = unat (ip_ihl p) * 4"
  using ihl_bounds [of "ip_ihl p"] by (simp add: ipv4_defs ipv4_header_def)

lemma length_ipv4_wire:
  "ipv4_valid p \<Longrightarrow> length (ipv4_wire p) = unat (ip_ihl p) * 4 + ip_payload_len p"
  using ihl_bounds [of "ip_ihl p"]
  by (simp add: ipv4_wire_def length_ipv4_header) (simp add: ipv4_defs)

lemma ipv4_valid_lengths:
  assumes "ipv4_valid p"
  shows "unat (ip_ihl p) * 4 = 20 + ip_options_len p" and "ip_options_len p \<le> 40"
    and "ip_payload_len p \<le> 65515" and "20 + ip_options_len p + ip_payload_len p \<le> 65535"
    and "length (ip_source_ip p) = 4" and "length (ip_destination_ip p) = 4"
    and "length (ip_options p) = 40" and "length (ip_payload p) = 65515"
  using assms ihl_bounds [of "ip_ihl p"] by (simp_all add: ipv4_defs)

lemma ipv4_serialize_wire:
  assumes v: "ipv4_valid p" and n: "length (ipv4_wire p) \<le> n" and "n \<le> length buf"
  shows "ipv4_serialize (Some p) (Some buf) n =
    Some (length (ipv4_wire p), Some (ipv4_wire p @ drop (length (ipv4_wire p)) buf))"
proof -
  note l = ipv4_valid_lengths [OF v]
  let ?t = "20 + ip_options_len p + ip_payload_len p"
  have len: "length (ipv4_wire p) = ?t" by (simp add: length_ipv4_wire [OF v] l)
  with assms have t: "?t \<le> length buf" and n': "\<not> n < ?t" by simp_all
  obtain X where m: "memset buf 0 ?t = Some X" and "length X = length buf"
    and "drop ?t X = drop ?t buf"
    using t by (simp add: memset_Some)
  then have X: "?t \<le> length X" "X \<noteq> []" "drop ?t X = drop ?t buf"
    using t by auto
  have guards: "ip_version p = 4" "\<not> ip_ihl p < 5" "\<not> 15 < ip_ihl p"
    using v by (simp_all add: ipv4_valid_def not_less)
  show ?thesis
    using n' X l guards
    by (simp add: ipv4_serialize_def Let_def const_defs m len)
      (simp add: mem_simps const_defs ipv4_checksum_eq take_over
        ipv4_wire_def ipv4_header_def ipv4_header_ck_def add_ac)
qed

section \<open>Bit fields\<close>

lemma and_low_mask:
  fixes x :: "'a::len word"
  shows "x AND 3 = take_bit 2 x" and "x AND 7 = take_bit 3 x" and "x AND 15 = take_bit 4 x"
    and "x AND 63 = take_bit 6 x" and "x AND 0x1FFF = take_bit 13 x"
  by (simp_all only: take_bit_eq_mask) (simp_all add: mask_eq_exp_minus_1)

lemma version_ihl_fields:
  fixes v i :: u8
  assumes "i \<le> 15" and "v = 4"
  shows "drop_bit 4 (push_bit 4 v OR (i AND 0x0F)) = v"
    and "(push_bit 4 v OR (i AND 0x0F)) AND 0x0F = i"
proof -
  have i: "take_bit 4 i = i"
  proof -
    have "take_bit 4 (unat i) = unat i"
      using assms(1) by (simp add: word_le_nat_alt take_bit_nat_eq_self)
    then show ?thesis by (metis unsigned_take_bit_eq unat_inject)
  qed
  show "drop_bit 4 (push_bit 4 v OR (i AND 0x0F)) = v"
    unfolding and_low_mask assms(2) by (rule bit_word_eqI) (auto simp: bit_simps)
  show "(push_bit 4 v OR (i AND 0x0F)) AND 0x0F = i"
    unfolding and_low_mask by (subst (2) i [symmetric], rule bit_word_eqI) (auto simp: bit_simps)
qed

lemma dscp_ecn_fields:
  fixes d e :: u8
  shows "drop_bit 2 (push_bit 2 (d AND 0x3F) OR (e AND 0x03)) = d AND 0x3F"
    and "(push_bit 2 (d AND 0x3F) OR (e AND 0x03)) AND 0x03 = e AND 0x03"
  unfolding and_low_mask by (auto intro!: bit_word_eqI simp: bit_simps)

lemma flags_fragment_fields:
  fixes f :: u8 and o' :: u16
  shows "ucast (drop_bit 13 (push_bit 13 (ucast (f AND 0x07)) OR (o' AND 0x1FFF)) AND 0x07) = f AND 0x07"
    and "(push_bit 13 (ucast (f AND 0x07)) OR (o' AND 0x1FFF)) AND 0x1FFF = o' AND 0x1FFF"
  unfolding and_low_mask by (auto intro!: bit_word_eqI simp: bit_simps)

lemma byte0_split: "drop_bit 4 b = v \<Longrightarrow> push_bit 4 v OR ((b AND 0x0F) AND 0x0F) = b" for b v :: u8
  unfolding and_low_mask by (rule bit_word_eqI) (auto simp: bit_simps)

lemma byte1_split: "push_bit 2 (drop_bit 2 b AND 0x3F) OR ((b AND 0x03) AND 0x03) = b" for b :: u8
proof (rule bit_word_eqI)
  fix n assume "n < LENGTH(8)"
  then have "n < 2 \<or> Suc (Suc (n - 2)) = n \<and> n - 2 < 6 \<and> 2 \<le> n" by auto
  then show "bit (push_bit 2 (drop_bit 2 b AND 0x3F) OR ((b AND 0x03) AND 0x03)) n = bit b n"
    unfolding and_low_mask by (auto simp: bit_simps)
qed

lemma flags_fragment_split:
  "push_bit 13 (ucast ((ucast (drop_bit 13 w AND 0x07) :: u8) AND 0x07)) OR ((w AND 0x1FFF) AND 0x1FFF) = w"
  for w :: u16
  unfolding and_low_mask
  by (rule bit_word_eqI) (auto simp: bit_simps not_le)


section \<open>Parsing\<close>

text \<open>What the parser demands of its input, and what it then reads from it.\<close>

definition ipv4_accepts :: "bytes \<Rightarrow> nat \<Rightarrow> bool" where
  "ipv4_accepts d n \<longleftrightarrow> 20 \<le> n \<and> drop_bit 4 (d ! 0) = 4
     \<and> 5 \<le> unat (d ! 0 AND 0x0F) \<and> unat (d ! 0 AND 0x0F) * 4 \<le> unat (be16 (d ! 2) (d ! 3))
     \<and> unat (be16 (d ! 2) (d ! 3)) \<le> n
     \<and> inet_checksum (take (unat (d ! 0 AND 0x0F) * 4) d) = 0"

definition ipv4_decode :: "bytes \<Rightarrow> ipv4_packet" where
  "ipv4_decode d = (let h = unat (d ! 0 AND 0x0F) * 4; t = unat (be16 (d ! 2) (d ! 3)) in
    \<lparr> ip_version = drop_bit 4 (d ! 0), ip_ihl = d ! 0 AND 0x0F,
      ip_dscp = drop_bit 2 (d ! 1), ip_ecn = d ! 1 AND 0x03,
      ip_total_length = be16 (d ! 2) (d ! 3), ip_identification = be16 (d ! 4) (d ! 5),
      ip_flags = ucast (drop_bit 13 (be16 (d ! 6) (d ! 7)) AND 0x07),
      ip_fragment_offset = be16 (d ! 6) (d ! 7) AND 0x1FFF,
      ip_ttl = d ! 8, ip_protocol = d ! 9, ip_header_checksum = be16 (d ! 10) (d ! 11),
      ip_source_ip = take 4 (drop 12 d), ip_destination_ip = take 4 (drop 16 d),
      ip_options = take (h - 20) (drop 20 d) @ replicate (60 - h) 0, ip_options_len = h - 20,
      ip_payload = take (t - h) (drop h d) @ replicate (65515 - (t - h)) 0,
      ip_payload_len = t - h \<rparr>)"

lemma nibble_bound: "unat (b AND 0x0F) \<le> 15" for b :: u8
  using word_and_le1 [of b 15] by (simp add: word_le_nat_alt)

lemma ihl_guard:
  "(b AND 0x0F < 5 \<or> 15 < b AND 0x0F) \<longleftrightarrow> unat (b AND 0x0F) < 5" for b :: u8
  using nibble_bound [of b] by (auto simp: word_less_nat_alt)

lemma ipv4_parse_ok:
  assumes "n \<le> length d" and "ipv4_accepts d n"
  shows "ipv4_parse (Some d) n (Some g) = Some (0, Some (ipv4_decode d))"
proof -
  define h where "h = unat (d ! 0 AND 0x0F) * 4"
  define t where "t = unat (be16 (d ! 2) (d ! 3))"
  have b: "20 \<le> h" "h \<le> 60" "h \<le> t" "t \<le> n" "20 \<le> n" "t < 65536" "\<not> unat (d ! 0 AND 0x0F) < 5"
    using assms nibble_bound [of "d ! 0"] unat_u16_less [of "be16 (d ! 2) (d ! 3)"]
    by (simp_all add: ipv4_accepts_def h_def t_def)
  have ck: "ipv4_checksum (Some d) h = Some 0"
    using assms b by (simp add: ipv4_checksum_eq ipv4_accepts_def h_def)
  have v: "drop_bit 4 (d ! 0) = 4" using assms by (simp add: ipv4_accepts_def)
  have ne: "d \<noteq> []" using assms(1) b by (cases d) simp_all
  show ?thesis
    using assms(1) b ck v ne ihl_guard [of "d ! 0"]
    by (simp add: ipv4_parse_def ipv4_decode_def Let_def const_defs ipv4_zero_def mem_simps
        flip: h_def t_def) arith
qed

lemma ipv4_parse_reject:
  assumes "n \<le> length d" and "\<not> ipv4_accepts d n"
  shows "\<exists>rc \<in> {-2, -3, -4, -5, -6}. ipv4_parse (Some d) n (Some g) = Some (rc, Some g)"
proof (cases "n < 20")
  case True
  then show ?thesis by (simp add: ipv4_parse_def const_defs)
next
  case False
  then have ne: "d \<noteq> []" using assms(1) by (cases d) simp_all
  have "ipv4_checksum (Some d) (unat (d ! 0 AND 15) * 4) =
      Some (inet_checksum (take (unat (d ! 0 AND 15) * 4) d))"
    if "unat (d ! 0 AND 15) * 4 \<le> n"
    using that assms(1) by (simp add: ipv4_checksum_eq)
  with False assms ne ihl_guard [of "d ! 0"] show ?thesis
    by (auto simp: ipv4_parse_def ipv4_accepts_def const_defs mem_simps Let_def)
qed


lemma word_sum_ipv4_header:
  assumes "ipv4_valid p"
  shows "word_sum (ipv4_header p ck) = word_sum (ipv4_header p 0) + unat ck"
  using ipv4_valid_lengths [OF assms]
  by (simp add: ipv4_header_def word_sum_append)

lemma ipv4_header_verifies:
  assumes "ipv4_valid p"
  shows "inet_checksum (ipv4_header p (ipv4_header_ck p)) = 0"
  using word_sum_ipv4_header [OF assms] unfolding ipv4_header_ck_def
  by (intro inet_checksum_stored)

lemma unat_of_nat_u16: "n \<le> 65535 \<Longrightarrow> unat (of_nat n :: u16) = n"
  by (simp add: unsigned_of_nat take_bit_eq_mod)

lemma ipv4_wire_nth:
  fixes rest :: bytes
  assumes v: "ipv4_valid p"
  defines "d \<equiv> ipv4_wire p @ rest"
  shows "d ! 0 = push_bit 4 (ip_version p) OR (ip_ihl p AND 0x0F)"
    and "d ! 1 = push_bit 2 (ip_dscp p AND 0x3F) OR (ip_ecn p AND 0x03)"
    and "be16 (d ! 2) (d ! 3) = of_nat (20 + ip_options_len p + ip_payload_len p)"
    and "be16 (d ! 4) (d ! 5) = ip_identification p"
    and "be16 (d ! 6) (d ! 7) =
      push_bit 13 (ucast (ip_flags p AND 0x07)) OR (ip_fragment_offset p AND 0x1FFF)"
    and "d ! 8 = ip_ttl p" and "d ! 9 = ip_protocol p"
    and "be16 (d ! 10) (d ! 11) = ipv4_header_ck p"
    and "take 4 (drop 12 d) = ip_source_ip p" and "take 4 (drop 16 d) = ip_destination_ip p"
    and "take (ip_options_len p) (drop 20 d) = take (ip_options_len p) (ip_options p)"
  using ipv4_valid_lengths [OF v]
  by (simp_all add: d_def ipv4_wire_def ipv4_header_def nth_append)

text \<open>The guards of the parser on a serialized packet.\<close>

lemma ipv4_wire_guards:
  fixes rest :: bytes
  assumes v: "ipv4_valid p"
  defines "d \<equiv> ipv4_wire p @ rest"
  shows "drop_bit 4 (d ! 0) = ip_version p" and "d ! 0 AND 0x0F = ip_ihl p"
    and "unat (ip_ihl p) * 4 = 20 + ip_options_len p"
    and "unat (be16 (d ! 2) (d ! 3)) = 20 + ip_options_len p + ip_payload_len p"
    and "take (20 + ip_options_len p) d = ipv4_header p (ipv4_header_ck p)"
    and "take (ip_payload_len p) (drop (20 + ip_options_len p) d) =
      take (ip_payload_len p) (ip_payload p)"
proof -
  note l = ipv4_valid_lengths [OF v] and w = ipv4_wire_nth [OF v, of rest, folded d_def]
  have i: "ip_ihl p \<le> 15" "ip_version p = 4" using v by (simp_all add: ipv4_valid_def)
  show "drop_bit 4 (d ! 0) = ip_version p"
    unfolding w(1) by (rule version_ihl_fields(1) [OF i])
  show "d ! 0 AND 0x0F = ip_ihl p"
    unfolding w(1) by (rule version_ihl_fields(2) [OF i])
  show "unat (ip_ihl p) * 4 = 20 + ip_options_len p"
    by (rule l(1))
  show "unat (be16 (d ! 2) (d ! 3)) = 20 + ip_options_len p + ip_payload_len p"
    unfolding w(3) by (rule unat_of_nat_u16 [OF l(4)])
  have h: "length (ipv4_header p (ipv4_header_ck p)) = 20 + ip_options_len p"
    using length_ipv4_header [OF v] l(1) by simp
  show "take (20 + ip_options_len p) d = ipv4_header p (ipv4_header_ck p)"
    by (simp add: d_def ipv4_wire_def flip: h)
  show "take (ip_payload_len p) (drop (20 + ip_options_len p) d) =
      take (ip_payload_len p) (ip_payload p)"
    using l(3,8) by (simp add: d_def ipv4_wire_def flip: h)
qed

lemma ipv4_accepts_wire:
  assumes v: "ipv4_valid p"
  shows "ipv4_accepts (ipv4_wire p @ rest) (length (ipv4_wire p))"
proof -
  have "5 \<le> unat (ip_ihl p)" and "ip_version p = 4"
    using v ihl_bounds [of "ip_ihl p"] by (simp_all add: ipv4_valid_def)
  moreover have "length (ipv4_wire p) = 20 + ip_options_len p + ip_payload_len p"
    using length_ipv4_wire [OF v] ipv4_valid_lengths [OF v] by simp
  ultimately show ?thesis
    unfolding ipv4_accepts_def ipv4_wire_guards [OF v]
    using ipv4_header_verifies [OF v] by simp
qed

lemma ipv4_decode_wire:
  assumes v: "ipv4_valid p"
  shows "ipv4_decode (ipv4_wire p @ rest) = ipv4_norm p"
  unfolding ipv4_decode_def Let_def ipv4_wire_guards [OF v] ipv4_wire_nth(2,4-) [OF v]
    dscp_ecn_fields flags_fragment_fields ipv4_wire_nth(3,11) [OF v]
    unat_of_nat_u16 [OF ipv4_valid_lengths(4) [OF v]] add_diff_cancel_left' ipv4_wire_guards(6) [OF v] ipv4_norm_def
  by (rule ipv4_packet.equality) simp_all

interpretation ipv4c: codec ipv4_parse ipv4_serialize ipv4_wire ipv4_valid ipv4_norm
proof unfold_locales
  fix m n and buf rest :: bytes and g
  assume v: "ipv4_valid m"
  note l = ipv4_valid_lengths [OF v]
  show "ipv4_parse (Some (ipv4_wire m @ rest)) (length (ipv4_wire m)) (Some g) =
      Some (0, Some (ipv4_norm m))"
    using ipv4_parse_ok [OF _ ipv4_accepts_wire [OF v]] ipv4_decode_wire [OF v] by simp
  show "ipv4_wire m \<noteq> []"
    using length_ipv4_wire [OF v] l by auto
  show "ipv4_serialize (Some m) (Some buf) n = Some (0, Some buf)" if "n < length (ipv4_wire m)"
    using that v length_ipv4_wire [OF v] l
    by (simp add: ipv4_serialize_def const_defs Let_def ipv4_valid_def not_less)
qed (rule ipv4_serialize_wire)

section \<open>Reading an accepted header back\<close>

lemma header_split:
  assumes "20 \<le> h" and "h \<le> length d"
  shows "take h d = [d ! 0, d ! 1, d ! 2, d ! 3, d ! 4, d ! 5, d ! 6, d ! 7, d ! 8, d ! 9,
      d ! 10, d ! 11] @ take 4 (drop 12 d) @ take 4 (drop 16 d) @ take (h - 20) (drop 20 d)"
proof -
  have "take h d = take 12 d @ take 4 (drop 12 d) @ take 4 (drop 16 d) @ take (h - 20) (drop 20 d)"
    using assms(1) take_then_drop [of 16 d 4] take_then_drop [of 12 d 4]
      take_then_drop [of 20 d "h - 20"]
    by (simp flip: append_assoc)
  then show ?thesis using assms by (simp add: take_12)
qed

lemma ipv4_accepts_bounds:
  assumes "n \<le> length d" and "ipv4_accepts d n"
  defines "h \<equiv> unat (d ! 0 AND 0x0F) * 4" and "t \<equiv> unat (be16 (d ! 2) (d ! 3))"
  shows "20 \<le> h" and "h \<le> 60" and "h \<le> t" and "t \<le> n" and "t \<le> length d" and "t \<le> 65535"
  using assms nibble_bound [of "d ! 0"] unat_u16_less [of "be16 (d ! 2) (d ! 3)"]
  by (simp_all add: ipv4_accepts_def)

lemma ipv4_decode_valid:
  assumes "n \<le> length d" and "ipv4_accepts d n"
  shows "ipv4_valid (ipv4_decode d)"
proof -
  have "d ! 0 AND 0x0F \<le> 15" by (rule word_and_le1)
  moreover have "5 \<le> d ! 0 AND 0x0F" and "drop_bit 4 (d ! 0) = 4"
    using assms by (simp_all add: ipv4_accepts_def word_le_nat_alt)
  ultimately show ?thesis
    using ipv4_accepts_bounds [OF assms] assms(1)
    by (simp add: ipv4_defs ipv4_decode_def Let_def) linarith
qed

lemma ipv4_header_decode:
  assumes "n \<le> length d" and "ipv4_accepts d n"
  shows "ipv4_header (ipv4_decode d) (be16 (d ! 10) (d ! 11)) = take (unat (d ! 0 AND 0x0F) * 4) d"
proof -
  note b = ipv4_accepts_bounds [OF assms]
  have "push_bit 2 (drop_bit 2 (d ! 1) AND 0x3F) OR (d ! 1 AND 0x03) = d ! 1"
    using byte1_split [of "d ! 1"] by (simp add: and.assoc)
  moreover have "push_bit 4 (drop_bit 4 (d ! 0)) OR (d ! 0 AND 0x0F) = d ! 0"
    using byte0_split [OF refl, of "d ! 0"] by (simp add: and.assoc)
  moreover have "unat (d ! 0 AND 0x0F) * 4 + (unat (be16 (d ! 2) (d ! 3)) - unat (d ! 0 AND 0x0F) * 4)
      = unat (be16 (d ! 2) (d ! 3))"
    using b by simp
  moreover have "unat (d ! 0 AND 0x0F) * 4 \<le> length d"
    using b by simp
  ultimately show ?thesis
    using b header_split [of "unat (d ! 0 AND 0x0F) * 4" d] flags_fragment_split [of "be16 (d ! 6) (d ! 7)"]
    by (simp add: ipv4_header_def ipv4_decode_def Let_def and.assoc)
qed

text \<open>
  The checksum recomputed for an accepted header is the received one, except that a
  received \<open>0xFFFF\<close> is recomputed as its other representation \<open>0x0000\<close>.
\<close>

lemma oc16_add_back:
  assumes "c \<le> 65535" and "0 < n" and "oc16 (n + c) = 65535"
  shows "65535 - oc16 n = (if c = 65535 then 0 else c)"
proof -
  have "0 < oc16 n" using assms(2) by (cases n) (simp_all add: oc16_Suc)
  then show ?thesis
    using assms(3) oc16_bound [of n] assms(1) unfolding oc16_add [OF assms(1)]
    by (auto split: if_splits)
qed

lemma ipv4_header_ck_decode:
  assumes "n \<le> length d" and "ipv4_accepts d n"
  shows "ipv4_header_ck (ipv4_decode d) =
    (if be16 (d ! 10) (d ! 11) = 0xFFFF then 0 else be16 (d ! 10) (d ! 11))"
proof -
  let ?c = "be16 (d ! 10) (d ! 11)" and ?p = "ipv4_decode d"
  note v = ipv4_decode_valid [OF assms]
  have z: "inet_checksum (ipv4_header ?p ?c) = 0"
    unfolding ipv4_header_decode [OF assms] using assms(2) by (simp add: ipv4_accepts_def)
  have s: "word_sum (ipv4_header ?p ?c) = word_sum (ipv4_header ?p 0) + unat ?c"
    by (rule word_sum_ipv4_header [OF v])
  have c: "unat ?c \<le> 65535" using unat_u16_less [of ?c] by simp
  have "0 < unat (d ! 0)"
    using assms(2) by (cases "d ! 0 = 0") (simp_all add: ipv4_accepts_def unat_gt_0)
  then have pos: "0 < word_sum (ipv4_header ?p 0)"
    using byte0_split [OF refl, of "d ! 0"]
    by (simp add: ipv4_header_def ipv4_decode_def Let_def and.assoc)
  have "oc16 (word_sum (ipv4_header ?p 0) + unat ?c) = 65535"
    using z unfolding inet_checksum_zero_iff s oc16_full .
  then have "unat (ipv4_header_ck ?p) = (if unat ?c = 65535 then 0 else unat ?c)"
    unfolding ipv4_header_ck_def unat_inet_checksum by (rule oc16_add_back [OF c pos])
  moreover have "unat ?c = 65535 \<longleftrightarrow> ?c = 0xFFFF"
    using unat_inject [of ?c "0xFFFF"] by simp
  ultimately show ?thesis
    by (auto simp: unat_eq_zero unat_inject split: if_splits)
qed

lemma ipv4_wire_decode:
  assumes "n \<le> length d" and "ipv4_accepts d n" and "be16 (d ! 10) (d ! 11) \<noteq> 0xFFFF"
  shows "ipv4_wire (ipv4_decode d) = take (unat (be16 (d ! 2) (d ! 3))) d"
proof -
  let ?h = "unat (d ! 0 AND 0x0F) * 4" and ?t = "unat (be16 (d ! 2) (d ! 3))"
  note b = ipv4_accepts_bounds [OF assms(1,2)]
  have "ipv4_wire (ipv4_decode d) = take ?h d @ take (?t - ?h) (drop ?h d)"
    using b ipv4_header_decode [OF assms(1,2)] ipv4_header_ck_decode [OF assms(1,2)] assms(3)
    by (simp add: ipv4_wire_def) (simp add: ipv4_decode_def Let_def)
  also have "\<dots> = take ?t d" using b by (simp add: take_then_drop)
  finally show ?thesis .
qed

section \<open>Building packets\<close>

definition ipv4_built :: "bytes \<Rightarrow> bytes \<Rightarrow> u8 \<Rightarrow> bytes \<Rightarrow> u8 \<Rightarrow> u16 \<Rightarrow> ipv4_packet" where
  "ipv4_built sip dip protocol pd ttl identification =
    \<lparr> ip_version = 4, ip_ihl = 5, ip_dscp = 0, ip_ecn = 0,
      ip_total_length = of_nat (20 + length pd), ip_identification = identification,
      ip_flags = 2, ip_fragment_offset = 0, ip_ttl = ttl, ip_protocol = protocol,
      ip_header_checksum = 0, ip_source_ip = sip, ip_destination_ip = dip,
      ip_options = replicate 40 0, ip_options_len = 0,
      ip_payload = pd @ replicate (65515 - length pd) 0, ip_payload_len = length pd \<rparr>"

lemma ipv4_build_ok:
  assumes "4 \<le> length sip" and "4 \<le> length dip" and "n \<le> 65515" and "n \<le> length pd"
  shows "ipv4_build (Some g) (Some sip) (Some dip) protocol (Some pd) n ttl identification =
    Some (0, Some (ipv4_built (take 4 sip) (take 4 dip) protocol (take n pd) ttl identification))"
  using assms
  by (simp add: ipv4_build_def ipv4_built_def const_defs ipv4_zero_def Let_def mem_simps)

lemma ipv4_built_valid:
  assumes "length sip = 4" and "length dip = 4" and "length pd \<le> 65515"
  shows "ipv4_valid (ipv4_built sip dip protocol pd ttl identification)"
  using assms by (simp add: ipv4_built_def ipv4_defs word_le_nat_alt)

section \<open>Properties\<close>

text \<open>
  The header checksum is the one's complement of the one's complement sum of the
  big-endian 16-bit words, an odd last byte counting as a high byte, for every length
  the buffer covers; every carry is folded and no 32-bit overflow occurs.
\<close>

theorem ipv4_checksum_spec:
  assumes "n \<le> length d"
  shows "\<exists>ck. ipv4_checksum (Some d) n = Some ck \<and> unat ck = 65535 - oc16 (word_sum (take n d))"
  using ipv4_checksum_eq [OF assms] by (simp add: unat_inet_checksum)

theorem ipv4_checksum_spec_witness:
  "\<exists>ck. ipv4_checksum (Some [0xFF, 0xFF, 0x00, 0x02, 0x80]) 5 = Some ck \<and> unat ck = 0x7FFD"
  using ipv4_checksum_spec [of 5 "[0xFF, 0xFF, 0x00, 0x02, 0x80]"] by (simp add: oc16_def)

text \<open>
  Serializing a valid packet and parsing the bytes gives the packet back, with the
  checksum and total length filled in, sub-byte fields cut to their widths and the
  unused part of the option and payload arrays cleared.
\<close>

theorem ipv4_roundtrip:
  assumes "ipv4_valid p" and "unat (ip_ihl p) * 4 + ip_payload_len p \<le> n" and "n \<le> length buf"
  shows "do { (len, out) \<leftarrow> ipv4_serialize (Some p) (Some buf) n; ipv4_parse out len (Some g) } =
    Some (0, Some (ipv4_norm p))"
  using assms length_ipv4_wire [OF assms(1)] by (intro ipv4c.serialize_parse) simp_all

theorem ipv4_roundtrip_witness:
  "do { (len, out) \<leftarrow> ipv4_serialize (Some (ipv4_built [10, 0, 0, 1] [10, 0, 0, 2] 17 [1, 2, 3] 64 7))
          (Some (replicate 30 0)) 30;
        ipv4_parse out len (Some ipv4_zero) } =
    Some (0, Some (ipv4_norm (ipv4_built [10, 0, 0, 1] [10, 0, 0, 2] 17 [1, 2, 3] 64 7)))"
  by (rule ipv4_roundtrip [OF ipv4_built_valid]) (simp_all add: ipv4_built_def)

text \<open>
  (C22) The parser is memory safe on every input and accepts exactly the packets with
  version 4, a header length of 20 to 60 bytes, a total length between the header length
  and the input length, and a verifying header checksum. Every other input is answered
  with one of the codes -2 to -6 and leaves the output packet alone, so -7 never occurs.
\<close>

theorem ipv4_parse_exact:
  assumes "n \<le> length d"
  shows "if ipv4_accepts d n
    then ipv4_parse (Some d) n (Some g) = Some (0, Some (ipv4_decode d)) \<and> ipv4_valid (ipv4_decode d)
    else (\<exists>rc \<in> {-2, -3, -4, -5, -6}. ipv4_parse (Some d) n (Some g) = Some (rc, Some g))"
  using ipv4_parse_ok [OF assms] ipv4_parse_reject [OF assms] ipv4_decode_valid [OF assms] by simp

definition ipv4_sample :: bytes where
  "ipv4_sample = [0x45, 0x00, 0x00, 0x14, 0x00, 0x00, 0x40, 0x00, 0x40, 0x11, 0xB8, 0xC0,
     0xC0, 0xA8, 0x00, 0x01, 0xC0, 0xA8, 0x00, 0xC7]"

lemma ipv4_sample_accepted: "ipv4_accepts ipv4_sample 20"
  by (simp add: ipv4_accepts_def ipv4_sample_def unat_be16 inet_checksum_zero_iff)

theorem ipv4_parse_exact_witness:
  "ipv4_parse (Some ipv4_sample) 20 (Some ipv4_zero) = Some (0, Some (ipv4_decode ipv4_sample))
    \<and> ip_ttl (ipv4_decode ipv4_sample) = 64"
proof
  show "ipv4_parse (Some ipv4_sample) 20 (Some ipv4_zero) = Some (0, Some (ipv4_decode ipv4_sample))"
    using ipv4_parse_exact [of 20 ipv4_sample ipv4_zero] ipv4_sample_accepted
    by (simp add: ipv4_sample_def)
qed (simp add: ipv4_decode_def ipv4_sample_def Let_def)

text \<open>
  (C18) Error detection: no packet that differs from an accepted one in a single header
  byte, behind the version and header length byte, is accepted.
\<close>

theorem ipv4_corruption_detected:
  assumes "n \<le> length d" and "ipv4_parse (Some d) n (Some g) = Some (0, Some p)"
    and "1 \<le> i" and "i < unat (ip_ihl p) * 4" and "x \<noteq> d ! i"
  shows "\<exists>rc \<in> {-2, -3, -4, -5, -6}. ipv4_parse (Some (d[i := x])) n (Some g) = Some (rc, Some g)"
proof -
  have a: "ipv4_accepts d n"
    using ipv4_parse_reject [OF assms(1), of g] assms(2) by fastforce
  have p: "p = ipv4_decode d"
    using ipv4_parse_ok [OF assms(1) a, of g] assms(2) by simp
  let ?h = "unat (d ! 0 AND 0x0F) * 4"
  have i: "i < ?h" "?h \<le> length d"
    using assms(4) p ipv4_accepts_bounds [OF assms(1) a] by (simp_all add: ipv4_decode_def Let_def)
  have "inet_checksum ((take ?h d)[i := x]) \<noteq> 0"
    using a i assms(5) by (intro inet_checksum_detects) (simp_all add: ipv4_accepts_def)
  then have "\<not> ipv4_accepts (d[i := x]) n"
    using assms(3) i by (simp add: ipv4_accepts_def take_update_swap)
  then show ?thesis using assms(1) by (intro ipv4_parse_reject) simp_all
qed

theorem ipv4_corruption_detected_witness:
  "\<exists>rc \<in> {-2, -3, -4, -5, -6}.
    ipv4_parse (Some (ipv4_sample[8 := 63])) 20 (Some ipv4_zero) = Some (rc, Some ipv4_zero)"
proof (rule ipv4_corruption_detected)
  show "ipv4_parse (Some ipv4_sample) 20 (Some ipv4_zero) = Some (0, Some (ipv4_decode ipv4_sample))"
    using ipv4_sample_accepted by (intro ipv4_parse_ok) (simp_all add: ipv4_sample_def)
qed (simp_all add: ipv4_sample_def ipv4_decode_def Let_def)

text \<open>
  (C21) A received packet can be sent on byte for byte: serializing what the parser read
  writes exactly the accepted bytes, up to the total length, unless the received checksum
  was the non-canonical \<open>0xFFFF\<close>.
\<close>

theorem ipv4_reserialize:
  assumes "n \<le> length d" and "ipv4_parse (Some d) n (Some g) = Some (0, Some p)"
    and "ip_header_checksum p \<noteq> 0xFFFF" and "n \<le> k" and "k \<le> length buf"
  defines "t \<equiv> unat (ip_total_length p)"
  shows "ipv4_serialize (Some p) (Some buf) k = Some (t, Some (take t d @ drop t buf))"
proof -
  have a: "ipv4_accepts d n"
    using ipv4_parse_reject [OF assms(1), of g] assms(2) by fastforce
  have p: "p = ipv4_decode d"
    using ipv4_parse_ok [OF assms(1) a, of g] assms(2) by simp
  have t: "t = unat (be16 (d ! 2) (d ! 3))" and c: "be16 (d ! 10) (d ! 11) \<noteq> 0xFFFF"
    using p assms(3) by (simp_all add: t_def ipv4_decode_def Let_def)
  have w: "ipv4_wire p = take t d"
    using ipv4_wire_decode [OF assms(1) a c] p t by simp
  moreover have "t \<le> n" using ipv4_accepts_bounds [OF assms(1) a] t by simp
  ultimately show ?thesis
    using ipv4_serialize_wire [of p k buf] ipv4_decode_valid [OF assms(1) a] p assms(1,4,5)
    by simp
qed

theorem ipv4_reserialize_witness:
  "ipv4_serialize (Some (ipv4_decode ipv4_sample)) (Some (replicate 20 0)) 20 =
    Some (20, Some ipv4_sample)"
proof -
  have "ipv4_parse (Some ipv4_sample) 20 (Some ipv4_zero) = Some (0, Some (ipv4_decode ipv4_sample))"
    using ipv4_sample_accepted by (intro ipv4_parse_ok) (simp_all add: ipv4_sample_def)
  from ipv4_reserialize [OF _ this, of 20 "replicate 20 0"] show ?thesis
    by (simp add: ipv4_sample_def ipv4_decode_def Let_def unat_be16 be16_eq_iff u16_bytes_def)
qed

end
