(* ===== verification/Icmp.thy ===== *)
theory Icmp
  imports Codec Checksum
begin

text \<open>
  \<^verbatim>\<open>src/src/icmp.c\<close> and \<^verbatim>\<open>src/include/icmp.h\<close>: ICMP echo requests and replies, whose
  checksum covers the whole message.
\<close>

section \<open>Model\<close>

definition ICMP_TYPE_ECHO_REPLY :: u8 where [const_defs]: "ICMP_TYPE_ECHO_REPLY = 0"
definition ICMP_TYPE_ECHO_REQUEST :: u8 where [const_defs]: "ICMP_TYPE_ECHO_REQUEST = 8"
definition ICMP_CODE_ECHO :: u8 where [const_defs]: "ICMP_CODE_ECHO = 0"
definition ICMP_ECHO_HEADER_LEN :: nat where [const_defs]: "ICMP_ECHO_HEADER_LEN = 8"
definition ICMP_MAX_PACKET_LEN :: nat where [const_defs]: "ICMP_MAX_PACKET_LEN = 65535"
definition ICMP_MAX_PAYLOAD_LEN :: nat where
  [const_defs]: "ICMP_MAX_PAYLOAD_LEN = ICMP_MAX_PACKET_LEN - ICMP_ECHO_HEADER_LEN"

record icmp_packet =
  icmp_type :: u8
  icmp_code :: u8
  icmp_checksum_field :: u16
  icmp_identifier :: u16
  icmp_sequence :: u16
  icmp_payload :: bytes
  icmp_payload_len :: nat

definition icmp_zero :: icmp_packet where
  "icmp_zero = \<lparr> icmp_type = 0, icmp_code = 0, icmp_checksum_field = 0, icmp_identifier = 0,
     icmp_sequence = 0, icmp_payload = replicate ICMP_MAX_PAYLOAD_LEN 0, icmp_payload_len = 0 \<rparr>"

definition icmp_wf :: "icmp_packet \<Rightarrow> bool" where
  "icmp_wf p \<longleftrightarrow> length (icmp_payload p) = ICMP_MAX_PAYLOAD_LEN \<and> icmp_payload_len p < SIZE_LIMIT"

definition icmp_checksum :: "bytes ptr \<Rightarrow> nat \<Rightarrow> u16 option" where
  "icmp_checksum data data_len =
    (case data of None \<Rightarrow> Some 0
     | Some d \<Rightarrow> do {
         acc \<leftarrow> add_bytes_with carry_step 0 d data_len;
         Some (complement_carries acc) })"

definition icmp_build_echo ::
  "icmp_packet ptr \<Rightarrow> u8 \<Rightarrow> u16 \<Rightarrow> u16 \<Rightarrow> bytes ptr \<Rightarrow> nat \<Rightarrow> (int \<times> icmp_packet ptr) option" where
  "icmp_build_echo packet type identifier seq payload payload_len =
    (case packet of
       None \<Rightarrow> Some (-1, packet)
     | Some _ \<Rightarrow>
         if payload_len > 0 \<and> payload = None then Some (-1, packet)
         else if payload_len > ICMP_MAX_PAYLOAD_LEN then Some (-1, packet)
         else do {
           let p = icmp_zero\<lparr>icmp_type := type, icmp_code := ICMP_CODE_ECHO,
             icmp_checksum_field := 0, icmp_identifier := identifier, icmp_sequence := seq,
             icmp_payload_len := payload_len\<rparr>;
           pl \<leftarrow> (if payload_len > 0
                  then do { pd \<leftarrow> payload; memcpy (icmp_payload p) 0 pd 0 payload_len }
                  else Some (icmp_payload p));
           Some (0, Some (p\<lparr>icmp_payload := pl\<rparr>)) })"

definition icmp_build_echo_request ::
  "icmp_packet ptr \<Rightarrow> u16 \<Rightarrow> u16 \<Rightarrow> bytes ptr \<Rightarrow> nat \<Rightarrow> (int \<times> icmp_packet ptr) option" where
  "icmp_build_echo_request packet identifier seq payload payload_len =
     icmp_build_echo packet ICMP_TYPE_ECHO_REQUEST identifier seq payload payload_len"

definition icmp_build_echo_reply ::
  "icmp_packet ptr \<Rightarrow> u16 \<Rightarrow> u16 \<Rightarrow> bytes ptr \<Rightarrow> nat \<Rightarrow> (int \<times> icmp_packet ptr) option" where
  "icmp_build_echo_reply packet identifier seq payload payload_len =
     icmp_build_echo packet ICMP_TYPE_ECHO_REPLY identifier seq payload payload_len"

definition icmp_serialize ::
  "icmp_packet ptr \<Rightarrow> bytes ptr \<Rightarrow> nat \<Rightarrow> (nat \<times> bytes ptr) option" where
  "icmp_serialize packet buffer buffer_len =
    (case (packet, buffer) of
       (Some p, Some b) \<Rightarrow>
         if icmp_type p \<noteq> ICMP_TYPE_ECHO_REQUEST \<and> icmp_type p \<noteq> ICMP_TYPE_ECHO_REPLY
         then Some (0, buffer)
         else if icmp_code p \<noteq> ICMP_CODE_ECHO then Some (0, buffer)
         else if icmp_payload_len p > ICMP_MAX_PAYLOAD_LEN then Some (0, buffer)
         else let total_len = ICMP_ECHO_HEADER_LEN + icmp_payload_len p in
         if buffer_len < total_len then Some (0, buffer)
         else do {
           b \<leftarrow> memset b 0 total_len;
           b \<leftarrow> wr b 0 (icmp_type p);
           b \<leftarrow> wr b 1 (icmp_code p);
           b \<leftarrow> wr b 2 0;
           b \<leftarrow> wr b 3 0;
           b \<leftarrow> write_u16_be b 4 (icmp_identifier p);
           b \<leftarrow> write_u16_be b 6 (icmp_sequence p);
           b \<leftarrow> (if icmp_payload_len p > 0
                 then memcpy b ICMP_ECHO_HEADER_LEN (icmp_payload p) 0 (icmp_payload_len p)
                 else Some b);
           checksum \<leftarrow> icmp_checksum (Some b) total_len;
           b \<leftarrow> write_u16_be b 2 checksum;
           Some (total_len, Some b) }
     | _ \<Rightarrow> Some (0, buffer))"

definition icmp_parse ::
  "bytes ptr \<Rightarrow> nat \<Rightarrow> icmp_packet ptr \<Rightarrow> (int \<times> icmp_packet ptr) option" where
  "icmp_parse data data_len packet =
    (case (data, packet) of
       (Some d, Some _) \<Rightarrow>
         if data_len < ICMP_ECHO_HEADER_LEN then Some (-2, packet)
         else do {
           type \<leftarrow> rd d 0;
           code \<leftarrow> rd d 1;
           if type \<noteq> ICMP_TYPE_ECHO_REQUEST \<and> type \<noteq> ICMP_TYPE_ECHO_REPLY
           then Some (-3, packet)
           else if code \<noteq> ICMP_CODE_ECHO then Some (-4, packet)
           else do {
             ck \<leftarrow> icmp_checksum data data_len;
             if ck \<noteq> 0 then Some (-5, packet)
             else let payload_len = data_len - ICMP_ECHO_HEADER_LEN in
             if payload_len > ICMP_MAX_PAYLOAD_LEN then Some (-6, packet)
             else do {
               let p = icmp_zero;
               checksum \<leftarrow> read_u16_be d 2;
               identifier \<leftarrow> read_u16_be d 4;
               seq \<leftarrow> read_u16_be d 6;
               pl \<leftarrow> (if payload_len > 0
                      then memcpy (icmp_payload p) 0 d ICMP_ECHO_HEADER_LEN payload_len
                      else Some (icmp_payload p));
               Some (0, Some (p\<lparr>icmp_type := type, icmp_code := code,
                 icmp_checksum_field := checksum, icmp_identifier := identifier,
                 icmp_sequence := seq, icmp_payload_len := payload_len,
                 icmp_payload := pl\<rparr>)) } } }
     | _ \<Rightarrow> Some (-1, packet))"

definition icmp_type_name :: "u8 \<Rightarrow> string" where
  "icmp_type_name type =
    (if type = ICMP_TYPE_ECHO_REPLY then ''Echo Reply''
     else if type = ICMP_TYPE_ECHO_REQUEST then ''Echo Request''
     else ''Unknown'')"

section \<open>Wire format\<close>

definition icmp_image :: "icmp_packet \<Rightarrow> u16 \<Rightarrow> bytes" where
  "icmp_image p ck = [icmp_type p, icmp_code p] @ u16_bytes ck @ u16_bytes (icmp_identifier p)
     @ u16_bytes (icmp_sequence p) @ take (icmp_payload_len p) (icmp_payload p)"

definition icmp_wire :: "icmp_packet \<Rightarrow> bytes" where
  "icmp_wire p = icmp_image p (inet_checksum (icmp_image p 0))"

definition icmp_valid :: "icmp_packet \<Rightarrow> bool" where
  "icmp_valid p \<longleftrightarrow> icmp_wf p \<and> icmp_type p \<in> {0, 8} \<and> icmp_code p = 0 \<and> icmp_payload_len p \<le> 65527"

definition icmp_norm :: "icmp_packet \<Rightarrow> icmp_packet" where
  "icmp_norm p = p\<lparr>icmp_checksum_field := inet_checksum (icmp_image p 0),
     icmp_payload := take (icmp_payload_len p) (icmp_payload p)
       @ replicate (65527 - icmp_payload_len p) 0\<rparr>"

definition icmp_accepts :: "bytes \<Rightarrow> nat \<Rightarrow> bool" where
  "icmp_accepts d n \<longleftrightarrow> 8 \<le> n \<and> n \<le> 65535 \<and> d ! 0 \<in> {0, 8} \<and> d ! 1 = 0
     \<and> inet_checksum (take n d) = 0"

definition icmp_decode :: "bytes \<Rightarrow> nat \<Rightarrow> icmp_packet" where
  "icmp_decode d n = \<lparr> icmp_type = d ! 0, icmp_code = d ! 1,
     icmp_checksum_field = be16 (d ! 2) (d ! 3), icmp_identifier = be16 (d ! 4) (d ! 5),
     icmp_sequence = be16 (d ! 6) (d ! 7),
     icmp_payload = take (n - 8) (drop 8 d) @ replicate (65535 - n) 0, icmp_payload_len = n - 8 \<rparr>"

lemmas icmp_defs = icmp_valid_def icmp_wf_def icmp_zero_def const_defs

lemma icmp_checksum_eq:
  "n \<le> length d \<Longrightarrow> icmp_checksum (Some d) n = Some (inet_checksum (take n d))"
  by (simp add: icmp_checksum_def add_bytes_with_words inet_checksum_def)

lemma length_icmp_image: "icmp_valid p \<Longrightarrow> length (icmp_image p ck) = 8 + icmp_payload_len p"
  by (simp add: icmp_defs icmp_image_def)

lemma length_icmp_wire: "icmp_valid p \<Longrightarrow> length (icmp_wire p) = 8 + icmp_payload_len p"
  by (simp add: icmp_wire_def length_icmp_image)

lemma icmp_valid_lengths:
  assumes "icmp_valid p"
  shows "length (icmp_payload p) = 65527" and "icmp_payload_len p \<le> 65527"
  using assms by (simp_all add: icmp_defs)

lemma icmp_serialize_wire:
  assumes v: "icmp_valid p" and n: "length (icmp_wire p) \<le> n" and "n \<le> length buf"
  shows "icmp_serialize (Some p) (Some buf) n =
    Some (length (icmp_wire p), Some (icmp_wire p @ drop (length (icmp_wire p)) buf))"
proof -
  note l = icmp_valid_lengths [OF v]
  let ?t = "8 + icmp_payload_len p"
  have len: "length (icmp_wire p) = ?t" by (rule length_icmp_wire [OF v])
  with assms have t: "?t \<le> length buf" and n': "\<not> n < ?t" by simp_all
  obtain X where m: "memset buf 0 ?t = Some X" and "length X = length buf"
    and "drop ?t X = drop ?t buf"
    using t by (simp add: memset_Some)
  then have X: "?t \<le> length X" "X \<noteq> []" "drop ?t X = drop ?t buf"
    using t by auto
  have guards: "\<not> (icmp_type p \<noteq> 8 \<and> icmp_type p \<noteq> 0)" "icmp_code p = 0"
    using v by (auto simp: icmp_valid_def)
  have dr: "drop (icmp_payload_len p + 8) X = drop ?t buf"
    using X(3) by (simp only: add.commute)
  have "icmp_serialize (Some p) (Some buf) n = Some (?t, Some (icmp_wire p @ drop ?t buf))"
    unfolding icmp_serialize_def Let_def const_defs prod.case option.case m
    using n' X(1,2) l guards dr
    by (simp add: mem_simps icmp_checksum_eq take_over icmp_wire_def icmp_image_def)
  then show ?thesis by (simp only: len)
qed

lemma icmp_parse_ok:
  assumes "n \<le> length d" and "icmp_accepts d n"
  shows "icmp_parse (Some d) n (Some g) = Some (0, Some (icmp_decode d n))"
proof -
  have "d \<noteq> []" using assms by (cases d) (simp_all add: icmp_accepts_def)
  with assms show ?thesis
    by (auto simp add: icmp_parse_def icmp_accepts_def icmp_decode_def Let_def const_defs
        icmp_zero_def mem_simps icmp_checksum_eq)
qed

lemma icmp_parse_reject:
  assumes "n \<le> length d" and "\<not> icmp_accepts d n"
  shows "\<exists>rc \<in> {-2, -3, -4, -5, -6}. icmp_parse (Some d) n (Some g) = Some (rc, Some g)"
proof (cases "n < 8")
  case True
  then show ?thesis by (simp add: icmp_parse_def const_defs)
next
  case False
  then have "d \<noteq> []" using assms(1) by (cases d) simp_all
  with False assms show ?thesis
    by (auto simp: icmp_parse_def icmp_accepts_def const_defs mem_simps Let_def icmp_checksum_eq)
qed

lemma word_sum_icmp_image:
  assumes "icmp_valid p"
  shows "word_sum (icmp_image p ck) = word_sum (icmp_image p 0) + unat ck"
  by (simp add: icmp_image_def word_sum_append)

lemma icmp_wire_verifies: "icmp_valid p \<Longrightarrow> inet_checksum (icmp_wire p) = 0"
  unfolding icmp_wire_def by (rule inet_checksum_stored [OF word_sum_icmp_image])

lemma icmp_wire_nth:
  fixes rest :: bytes
  assumes v: "icmp_valid p"
  defines "d \<equiv> icmp_wire p @ rest"
  shows "d ! 0 = icmp_type p" and "d ! 1 = icmp_code p"
    and "be16 (d ! 2) (d ! 3) = inet_checksum (icmp_image p 0)"
    and "be16 (d ! 4) (d ! 5) = icmp_identifier p" and "be16 (d ! 6) (d ! 7) = icmp_sequence p"
    and "take (icmp_payload_len p) (drop 8 d) = take (icmp_payload_len p) (icmp_payload p)"
  using icmp_valid_lengths [OF v]
  by (simp_all add: d_def icmp_wire_def icmp_image_def [of p "inet_checksum (icmp_image p 0)"] nth_append)

lemma icmp_accepts_wire:
  assumes v: "icmp_valid p"
  shows "icmp_accepts (icmp_wire p @ rest) (length (icmp_wire p))"
  unfolding icmp_accepts_def icmp_wire_nth [OF v]
  using v icmp_wire_verifies [OF v] length_icmp_wire [OF v] icmp_valid_lengths [OF v]
  by (simp add: icmp_valid_def)

lemma icmp_decode_wire:
  assumes v: "icmp_valid p"
  shows "icmp_decode (icmp_wire p @ rest) (length (icmp_wire p)) = icmp_norm p"
  unfolding icmp_decode_def icmp_norm_def icmp_wire_nth(1-5) [OF v]
  using icmp_wire_nth(6) [OF v, of rest] icmp_valid_lengths [OF v]
  by (simp add: length_icmp_wire [OF v])

interpretation icmpc: codec icmp_parse icmp_serialize icmp_wire icmp_valid icmp_norm
proof unfold_locales
  fix m n and buf rest :: bytes and g
  assume v: "icmp_valid m"
  show "icmp_parse (Some (icmp_wire m @ rest)) (length (icmp_wire m)) (Some g) =
      Some (0, Some (icmp_norm m))"
    using icmp_parse_ok [OF _ icmp_accepts_wire [OF v]] icmp_decode_wire [OF v] by simp
  show "icmp_wire m \<noteq> []"
    using length_icmp_wire [OF v] by auto
  show "icmp_serialize (Some m) (Some buf) n = Some (0, Some buf)" if "n < length (icmp_wire m)"
    using that v length_icmp_wire [OF v]
    by (auto simp add: icmp_serialize_def const_defs Let_def icmp_valid_def not_less)
qed (rule icmp_serialize_wire)

section \<open>Building messages\<close>

definition icmp_built :: "u8 \<Rightarrow> u16 \<Rightarrow> u16 \<Rightarrow> bytes \<Rightarrow> icmp_packet" where
  "icmp_built type identifier seq pd = \<lparr> icmp_type = type, icmp_code = 0, icmp_checksum_field = 0,
     icmp_identifier = identifier, icmp_sequence = seq,
     icmp_payload = pd @ replicate (65527 - length pd) 0, icmp_payload_len = length pd \<rparr>"

lemma icmp_build_echo_ok:
  assumes "n \<le> 65527" and "n \<le> length pd"
  shows "icmp_build_echo (Some g) type identifier seq (Some pd) n =
    Some (0, Some (icmp_built type identifier seq (take n pd)))"
  using assms
  by (simp add: icmp_build_echo_def icmp_built_def const_defs icmp_zero_def Let_def mem_simps)

lemma icmp_built_valid:
  "type \<in> {0, 8} \<Longrightarrow> length pd \<le> 65527 \<Longrightarrow> icmp_valid (icmp_built type identifier seq pd)"
  by (simp add: icmp_built_def icmp_defs)

lemma icmp_norm_built:
  "icmp_norm (icmp_built type identifier seq pd) = (icmp_built type identifier seq pd)
    \<lparr>icmp_checksum_field := inet_checksum (icmp_image (icmp_built type identifier seq pd) 0)\<rparr>"
  by (simp add: icmp_norm_def icmp_built_def)

section \<open>Properties\<close>

text \<open>
  (C23) An echo request built from an identifier, a sequence number and a payload, sent
  through the serializer and the parser, arrives with exactly these values, type 8,
  code 0 and a zero-filled rest of the payload array; the reply arrives in the same way
  with type 0.
\<close>

theorem icmp_echo_roundtrip:
  assumes "n \<le> 65527" and "n \<le> length pd" and "8 + n \<le> k" and "k \<le> length buf"
    and "build \<in> {icmp_build_echo_request, icmp_build_echo_reply}"
  shows "\<exists>q. do { (_, p) \<leftarrow> build (Some g) identifier seq (Some pd) n;
           (len, out) \<leftarrow> icmp_serialize p (Some buf) k;
           icmp_parse out len (Some g') } = Some (0, Some q)
     \<and> icmp_identifier q = identifier \<and> icmp_sequence q = seq \<and> icmp_payload_len q = n
     \<and> icmp_payload q = take n pd @ replicate (65527 - n) 0
     \<and> icmp_type q = (if build = icmp_build_echo_request then 8 else 0) \<and> icmp_code q = 0"
proof -
  obtain type where b: "build (Some g) identifier seq (Some pd) n =
      Some (0, Some (icmp_built type identifier seq (take n pd)))" and
    type: "type = (if build = icmp_build_echo_request then 8 else 0)"
    using assms(1,2,5) icmp_build_echo_ok [of n pd g]
    by (cases "build = icmp_build_echo_request")
      (auto simp: icmp_build_echo_request_def icmp_build_echo_reply_def const_defs)
  let ?p = "icmp_built type identifier seq (take n pd)"
  have v: "icmp_valid ?p" using assms(1) type by (intro icmp_built_valid) auto
  have "do { (len, out) \<leftarrow> icmp_serialize (Some ?p) (Some buf) k; icmp_parse out len (Some g') } =
      Some (0, Some (icmp_norm ?p))"
    using assms(2-4) v length_icmp_wire [OF v]
    by (intro icmpc.serialize_parse) (simp_all add: icmp_built_def)
  with b assms(2) show ?thesis
    by (simp add: icmp_norm_built type) (simp add: icmp_built_def)
qed

theorem icmp_echo_roundtrip_witness:
  "\<exists>q. do { (_, p) \<leftarrow> icmp_build_echo_request (Some icmp_zero) 7 1 (Some [1, 2, 3]) 3;
         (len, out) \<leftarrow> icmp_serialize p (Some (replicate 11 0)) 11;
         icmp_parse out len (Some icmp_zero) } = Some (0, Some q)
     \<and> icmp_identifier q = 7 \<and> icmp_sequence q = 1 \<and> icmp_payload_len q = 3 \<and> icmp_type q = 8"
  using icmp_echo_roundtrip [of 3 "[1, 2, 3]" 11 "replicate 11 0" icmp_build_echo_request icmp_zero 7 1 icmp_zero]
  by auto

text \<open>
  (C24) The parser is memory safe and accepts exactly the echo messages of 8 to 65535
  bytes whose checksum over the whole message verifies; on every other input it leaves
  the packet alone. No change of a single byte of an accepted message, payload included,
  is accepted.
\<close>

theorem icmp_parse_exact:
  assumes "n \<le> length d"
  shows "(if icmp_accepts d n
      then icmp_parse (Some d) n (Some g) = Some (0, Some (icmp_decode d n))
        \<and> icmp_valid (icmp_decode d n)
      else (\<exists>rc \<in> {-2, -3, -4, -5, -6}. icmp_parse (Some d) n (Some g) = Some (rc, Some g)))
    \<and> (icmp_accepts d n \<and> i < n \<and> x \<noteq> d ! i \<longrightarrow> \<not> icmp_accepts (d[i := x]) n)"
proof (intro conjI impI)
  show "if icmp_accepts d n
      then icmp_parse (Some d) n (Some g) = Some (0, Some (icmp_decode d n))
        \<and> icmp_valid (icmp_decode d n)
      else (\<exists>rc \<in> {-2, -3, -4, -5, -6}. icmp_parse (Some d) n (Some g) = Some (rc, Some g))"
    using icmp_parse_ok [OF assms] icmp_parse_reject [OF assms] assms
    by (auto simp: icmp_accepts_def icmp_decode_def icmp_defs)
next
  assume a: "icmp_accepts d n \<and> i < n \<and> x \<noteq> d ! i"
  have "inet_checksum ((take n d)[i := x]) \<noteq> 0"
    using a assms by (intro inet_checksum_detects) (simp_all add: icmp_accepts_def)
  then show "\<not> icmp_accepts (d[i := x]) n"
    by (simp add: icmp_accepts_def take_update_swap)
qed

theorem icmp_parse_exact_witness:
  "icmp_parse (Some [0, 0, 0xFF, 0xFD, 0, 1, 0, 1]) 8 (Some icmp_zero) =
      Some (0, Some (icmp_decode [0, 0, 0xFF, 0xFD, 0, 1, 0, 1] 8))
    \<and> \<not> icmp_accepts [0, 0, 0xFF, 0xFD, 0, 1, 0, 2] 8"
proof -
  have "icmp_accepts [0, 0, 0xFF, 0xFD, 0, 1, 0, 1] 8"
    by (simp add: icmp_accepts_def inet_checksum_zero_iff)
  then show ?thesis
    using icmp_parse_exact [of 8 "[0, 0, 0xFF, 0xFD, 0, 1, 0, 1]" icmp_zero 7 2] by simp
qed

end
