(* ===== verification/Udp.thy ===== *)
theory Udp
  imports Codec Checksum
begin

text \<open>
  \<^verbatim>\<open>src/src/udp.c\<close> and \<^verbatim>\<open>src/include/udp.h\<close>: UDP datagrams and their checksum over the
  IPv4 pseudo-header.
\<close>

section \<open>Model\<close>

definition UDP_HEADER_LEN :: nat where [const_defs]: "UDP_HEADER_LEN = 8"
definition UDP_MAX_PACKET_LEN :: nat where [const_defs]: "UDP_MAX_PACKET_LEN = 65535"
definition UDP_MAX_PAYLOAD_LEN :: nat where
  [const_defs]: "UDP_MAX_PAYLOAD_LEN = UDP_MAX_PACKET_LEN - UDP_HEADER_LEN"

record udp_packet =
  udp_source_port :: u16
  udp_destination_port :: u16
  udp_length :: u16
  udp_checksum :: u16
  udp_payload :: bytes
  udp_payload_len :: nat

definition udp_zero :: udp_packet where
  "udp_zero = \<lparr> udp_source_port = 0, udp_destination_port = 0, udp_length = 0, udp_checksum = 0,
     udp_payload = replicate UDP_MAX_PAYLOAD_LEN 0, udp_payload_len = 0 \<rparr>"

definition udp_wf :: "udp_packet \<Rightarrow> bool" where
  "udp_wf p \<longleftrightarrow> length (udp_payload p) = UDP_MAX_PAYLOAD_LEN \<and> udp_payload_len p < SIZE_LIMIT"

definition udp_checksum_add_word :: "u32 \<Rightarrow> u16 \<Rightarrow> u32" where
  "udp_checksum_add_word acc word =
    (let acc = acc + ucast word in (acc AND 0xFFFF) + drop_bit 16 acc)"

definition udp_checksum_finish :: "u32 \<Rightarrow> u16" where
  "udp_checksum_finish acc = ucast (NOT (fold_carries acc) AND 0xFFFF)"

definition udp_build ::
  "udp_packet ptr \<Rightarrow> u16 \<Rightarrow> u16 \<Rightarrow> bytes ptr \<Rightarrow> nat \<Rightarrow> (int \<times> udp_packet ptr) option" where
  "udp_build packet source_port destination_port payload payload_len =
    (case packet of
       None \<Rightarrow> Some (-1, packet)
     | Some _ \<Rightarrow>
         if payload_len > 0 \<and> payload = None then Some (-1, packet)
         else if payload_len > UDP_MAX_PAYLOAD_LEN then Some (-1, packet)
         else do {
           let p = udp_zero\<lparr>udp_source_port := source_port,
             udp_destination_port := destination_port,
             udp_length := of_nat (UDP_HEADER_LEN + payload_len),
             udp_checksum := 0, udp_payload_len := payload_len\<rparr>;
           pl \<leftarrow> (if payload_len > 0
                  then do { pd \<leftarrow> payload; memcpy (udp_payload p) 0 pd 0 payload_len }
                  else Some (udp_payload p));
           Some (0, Some (p\<lparr>udp_payload := pl\<rparr>)) })"

definition udp_parse ::
  "bytes ptr \<Rightarrow> nat \<Rightarrow> udp_packet ptr \<Rightarrow> (int \<times> udp_packet ptr) option" where
  "udp_parse data data_len packet =
    (case (data, packet) of
       (Some d, Some _) \<Rightarrow>
         if data_len < UDP_HEADER_LEN then Some (-2, packet)
         else do {
           len \<leftarrow> read_u16_be d 4;
           if unat len < UDP_HEADER_LEN \<or> unat len > data_len then Some (-3, packet)
           else let payload_len = unat len - UDP_HEADER_LEN in
           if payload_len > UDP_MAX_PAYLOAD_LEN then Some (-4, packet)
           else do {
             let p = udp_zero;
             source_port \<leftarrow> read_u16_be d 0;
             destination_port \<leftarrow> read_u16_be d 2;
             checksum \<leftarrow> read_u16_be d 6;
             pl \<leftarrow> (if payload_len > 0
                    then memcpy (udp_payload p) 0 d UDP_HEADER_LEN payload_len
                    else Some (udp_payload p));
             Some (0, Some (p\<lparr>udp_source_port := source_port,
               udp_destination_port := destination_port, udp_length := len,
               udp_checksum := checksum, udp_payload_len := payload_len,
               udp_payload := pl\<rparr>)) } }
     | _ \<Rightarrow> Some (-1, packet))"

definition udp_serialize ::
  "udp_packet ptr \<Rightarrow> bytes ptr \<Rightarrow> nat \<Rightarrow> (nat \<times> bytes ptr) option" where
  "udp_serialize packet buffer buffer_len =
    (case (packet, buffer) of
       (Some p, Some b) \<Rightarrow>
         if udp_payload_len p > UDP_MAX_PAYLOAD_LEN then Some (0, buffer)
         else let total_len = UDP_HEADER_LEN + udp_payload_len p in
         if total_len > UDP_MAX_PACKET_LEN \<or> buffer_len < total_len then Some (0, buffer)
         else do {
           b \<leftarrow> write_u16_be b 0 (udp_source_port p);
           b \<leftarrow> write_u16_be b 2 (udp_destination_port p);
           b \<leftarrow> write_u16_be b 4 (of_nat total_len);
           b \<leftarrow> write_u16_be b 6 (udp_checksum p);
           b \<leftarrow> (if udp_payload_len p > 0
                 then memcpy b UDP_HEADER_LEN (udp_payload p) 0 (udp_payload_len p)
                 else Some b);
           Some (total_len, Some b) }
     | _ \<Rightarrow> Some (0, buffer))"

text \<open>
  The accumulation \<^verbatim>\<open>udp_checksum_ipv4\<close> and \<^verbatim>\<open>udp_checksum_ipv4_valid\<close> both spell out: the
  six words of the pseudo-header, then the datagram.
\<close>

definition udp_datagram_sum :: "bytes \<Rightarrow> bytes \<Rightarrow> bytes \<Rightarrow> nat \<Rightarrow> u32 option" where
  "udp_datagram_sum sip dip d udp_len = do {
     s0 \<leftarrow> rd sip 0; s1 \<leftarrow> rd sip 1;
     let acc = udp_checksum_add_word 0 (be16 s0 s1);
     s2 \<leftarrow> rd sip 2; s3 \<leftarrow> rd sip 3;
     let acc = udp_checksum_add_word acc (be16 s2 s3);
     d0 \<leftarrow> rd dip 0; d1 \<leftarrow> rd dip 1;
     let acc = udp_checksum_add_word acc (be16 d0 d1);
     d2 \<leftarrow> rd dip 2; d3 \<leftarrow> rd dip 3;
     let acc = udp_checksum_add_word acc (be16 d2 d3);
     let acc = udp_checksum_add_word acc 0x0011;
     let acc = udp_checksum_add_word acc (of_nat udp_len);
     add_bytes_with udp_checksum_add_word acc d udp_len }"

definition udp_checksum_ipv4 ::
  "bytes ptr \<Rightarrow> bytes ptr \<Rightarrow> bytes ptr \<Rightarrow> nat \<Rightarrow> u16 option" where
  "udp_checksum_ipv4 source_ip destination_ip udp_data udp_len =
    (case (source_ip, destination_ip, udp_data) of
       (Some sip, Some dip, Some d) \<Rightarrow>
         if udp_len < UDP_HEADER_LEN \<or> udp_len > 65535 then Some 0
         else do {
           acc \<leftarrow> udp_datagram_sum sip dip d udp_len;
           let result = udp_checksum_finish acc;
           Some (if result = 0 then 0xFFFF else result) }
     | _ \<Rightarrow> Some 0)"

definition udp_serialize_ipv4 ::
  "udp_packet ptr \<Rightarrow> bytes ptr \<Rightarrow> bytes ptr \<Rightarrow> bytes ptr \<Rightarrow> nat \<Rightarrow> (nat \<times> bytes ptr) option" where
  "udp_serialize_ipv4 packet source_ip destination_ip buffer buffer_len =
    (case (packet, source_ip, destination_ip, buffer) of
       (Some p, Some _, Some _, Some _) \<Rightarrow> do {
         let temp = p\<lparr>udp_checksum := 0\<rparr>;
         (udp_len, buffer) \<leftarrow> udp_serialize (Some temp) buffer buffer_len;
         if udp_len = 0 then Some (0, buffer)
         else do {
           checksum \<leftarrow> udp_checksum_ipv4 source_ip destination_ip buffer udp_len;
           if checksum = 0 then Some (0, buffer)
           else do {
             b \<leftarrow> buffer;
             b \<leftarrow> write_u16_be b 6 checksum;
             Some (udp_len, Some b) } } }
     | _ \<Rightarrow> Some (0, buffer))"

definition udp_checksum_ipv4_valid ::
  "bytes ptr \<Rightarrow> bytes ptr \<Rightarrow> bytes ptr \<Rightarrow> nat \<Rightarrow> bool option" where
  "udp_checksum_ipv4_valid source_ip destination_ip udp_data udp_len =
    (case (source_ip, destination_ip, udp_data) of
       (Some sip, Some dip, Some d) \<Rightarrow>
         if udp_len < UDP_HEADER_LEN then Some False
         else do {
           checksum \<leftarrow> read_u16_be d 6;
           if checksum = 0 then Some True
           else do {
             acc \<leftarrow> udp_datagram_sum sip dip d udp_len;
             Some (udp_checksum_finish acc = 0) } }
     | _ \<Rightarrow> Some False)"

section \<open>Wire format\<close>

definition udp_wire :: "udp_packet \<Rightarrow> bytes" where
  "udp_wire p = u16_bytes (udp_source_port p) @ u16_bytes (udp_destination_port p)
     @ u16_bytes (of_nat (8 + udp_payload_len p)) @ u16_bytes (udp_checksum p)
     @ take (udp_payload_len p) (udp_payload p)"

definition udp_valid :: "udp_packet \<Rightarrow> bool" where
  "udp_valid p \<longleftrightarrow> udp_wf p \<and> udp_payload_len p \<le> 65527"

definition udp_norm :: "udp_packet \<Rightarrow> udp_packet" where
  "udp_norm p = p\<lparr>udp_length := of_nat (8 + udp_payload_len p),
     udp_payload := take (udp_payload_len p) (udp_payload p)
       @ replicate (65527 - udp_payload_len p) 0\<rparr>"

definition udp_accepts :: "bytes \<Rightarrow> nat \<Rightarrow> bool" where
  "udp_accepts d n \<longleftrightarrow> 8 \<le> n \<and> 8 \<le> unat (be16 (d ! 4) (d ! 5)) \<and> unat (be16 (d ! 4) (d ! 5)) \<le> n"

definition udp_decode :: "bytes \<Rightarrow> udp_packet" where
  "udp_decode d = (let len = be16 (d ! 4) (d ! 5) in
    \<lparr> udp_source_port = be16 (d ! 0) (d ! 1), udp_destination_port = be16 (d ! 2) (d ! 3),
      udp_length = len, udp_checksum = be16 (d ! 6) (d ! 7),
      udp_payload = take (unat len - 8) (drop 8 d) @ replicate (65535 - unat len) 0,
      udp_payload_len = unat len - 8 \<rparr>)"

lemmas udp_defs = udp_valid_def udp_wf_def udp_zero_def const_defs

lemma udp_valid_lengths:
  assumes "udp_valid p"
  shows "length (udp_payload p) = 65527" and "udp_payload_len p \<le> 65527"
  using assms by (simp_all add: udp_defs)

lemma length_udp_wire: "udp_valid p \<Longrightarrow> length (udp_wire p) = 8 + udp_payload_len p"
  by (simp add: udp_defs udp_wire_def)

lemma udp_serialize_wire:
  assumes v: "udp_valid p" and n: "length (udp_wire p) \<le> n" and "n \<le> length buf"
  shows "udp_serialize (Some p) (Some buf) n =
    Some (length (udp_wire p), Some (udp_wire p @ drop (length (udp_wire p)) buf))"
proof -
  have len: "length (udp_wire p) = 8 + udp_payload_len p" by (rule length_udp_wire [OF v])
  with assms have t: "8 + udp_payload_len p \<le> length buf" "\<not> n < 8 + udp_payload_len p"
    by simp_all
  have "udp_serialize (Some p) (Some buf) n =
      Some (8 + udp_payload_len p, Some (udp_wire p @ drop (udp_payload_len p + 8) buf))"
    unfolding udp_serialize_def Let_def const_defs prod.case option.case
    using t udp_valid_lengths [OF v] by (simp add: mem_simps udp_wire_def)
  then show ?thesis by (simp only: len add.commute)
qed

lemma udp_parse_ok:
  assumes "n \<le> length d" and "udp_accepts d n"
  shows "udp_parse (Some d) n (Some g) = Some (0, Some (udp_decode d))"
proof -
  define t where "t = unat (be16 (d ! 4) (d ! 5))"
  have "d \<noteq> []" using assms by (cases d) (simp_all add: udp_accepts_def)
  moreover have "t < 65536" unfolding t_def by (rule unat_u16_less)
  moreover have "8 \<le> n" "8 \<le> t" "t \<le> n"
    using assms(2) by (simp_all add: udp_accepts_def t_def)
  ultimately show ?thesis
    using assms(1)
    by (simp add: udp_parse_def udp_decode_def Let_def const_defs udp_zero_def mem_simps flip: t_def) arith
qed

lemma udp_parse_reject:
  assumes "n \<le> length d" and "\<not> udp_accepts d n"
  shows "\<exists>rc \<in> {-2, -3}. udp_parse (Some d) n (Some g) = Some (rc, Some g)"
  using assms by (auto simp: udp_parse_def udp_accepts_def const_defs mem_simps Let_def)

lemma udp_decode_valid:
  assumes "n \<le> length d" and "udp_accepts d n"
  shows "udp_valid (udp_decode d)"
  using assms unat_u16_less [of "be16 (d ! 4) (d ! 5)"]
  by (auto simp: udp_defs udp_decode_def udp_accepts_def Let_def)

lemma udp_wire_decode:
  assumes "n \<le> length d" and "udp_accepts d n"
  shows "udp_wire (udp_decode d) = take (unat (be16 (d ! 4) (d ! 5))) d"
proof -
  define t where "t = unat (be16 (d ! 4) (d ! 5))"
  have b: "8 \<le> length d" "8 \<le> t" "t \<le> length d"
    using assms by (simp_all add: udp_accepts_def t_def)
  have len: "of_nat (8 + (t - 8)) = be16 (d ! 4) (d ! 5)"
    using b by (simp add: t_def)
  have "udp_wire (udp_decode d) = take 8 d @ take (t - 8) (drop 8 d)"
    unfolding udp_wire_def udp_decode_def Let_def take_8 [OF b(1)]
    using b len by (simp flip: t_def)
  also have "\<dots> = take t d" using b take_add [of 8 "t - 8" d] by simp
  finally show ?thesis by (simp add: t_def)
qed

lemma udp_wire_nth:
  fixes rest :: bytes
  assumes v: "udp_valid p"
  defines "d \<equiv> udp_wire p @ rest"
  shows "be16 (d ! 0) (d ! 1) = udp_source_port p"
    and "be16 (d ! 2) (d ! 3) = udp_destination_port p"
    and "be16 (d ! 4) (d ! 5) = of_nat (8 + udp_payload_len p)"
    and "be16 (d ! 6) (d ! 7) = udp_checksum p"
    and "take (udp_payload_len p) (drop 8 d) = take (udp_payload_len p) (udp_payload p)"
  using udp_valid_lengths [OF v] by (simp_all add: d_def udp_wire_def nth_append)

lemma udp_wire_length_field:
  assumes "udp_valid p"
  shows "unat (of_nat (8 + udp_payload_len p) :: u16) = 8 + udp_payload_len p"
  using udp_valid_lengths [OF assms]
  by (subst unsigned_of_nat) (simp add: take_bit_eq_mod)

lemma udp_decode_wire:
  assumes v: "udp_valid p"
  shows "udp_accepts (udp_wire p @ rest) (length (udp_wire p))" and "udp_decode (udp_wire p @ rest) = udp_norm p"
proof -
  show "udp_accepts (udp_wire p @ rest) (length (udp_wire p))"
    unfolding udp_accepts_def udp_wire_nth [OF v] udp_wire_length_field [OF v]
      length_udp_wire [OF v] by simp
  show "udp_decode (udp_wire p @ rest) = udp_norm p"
    unfolding udp_decode_def Let_def udp_wire_nth(1-4) [OF v] udp_wire_length_field [OF v]
      add_diff_cancel_left' udp_wire_nth(5) [OF v] udp_norm_def
    by (rule udp_packet.equality) simp_all
qed

lemma udp_parse_wire:
  assumes v: "udp_valid p"
  shows "udp_parse (Some (udp_wire p @ rest)) (length (udp_wire p)) (Some g) =
      Some (0, Some (udp_norm p))"
  using udp_decode_wire [OF v, of rest] udp_parse_ok [of "length (udp_wire p)" "udp_wire p @ rest"] by simp

interpretation udpc: canonical_codec udp_parse udp_serialize udp_wire udp_valid udp_norm
proof unfold_locales
  fix m n and buf d :: bytes and g
  show "udp_wire m \<noteq> []"
    by (simp add: udp_wire_def u16_bytes_def)
  show "udp_serialize (Some m) (Some buf) n = Some (0, Some buf)"
    if "udp_valid m" "n < length (udp_wire m)"
    using that length_udp_wire [of m]
    by (simp add: udp_serialize_def const_defs Let_def)
  assume n: "n \<le> length d" and p: "udp_parse (Some d) n (Some g) = Some (0, Some m)"
  then have a: "udp_accepts d n" using udp_parse_reject [OF n, of g] by fastforce
  with p have "m = udp_decode d" using udp_parse_ok [OF n a, of g] by simp
  then show "udp_valid m \<and> length (udp_wire m) \<le> n \<and> take (length (udp_wire m)) d = udp_wire m"
    using udp_decode_valid [OF n a] udp_wire_decode [OF n a] a n by (simp add: udp_accepts_def)
qed (rule udp_serialize_wire udp_parse_wire, assumption+)+

section \<open>The checksum\<close>

lemma udp_add_word [simp]: "udp_checksum_add_word = carry_step"
  by (simp add: fun_eq_iff udp_checksum_add_word_def carry_step_def fold_carry_def Let_def)

lemma udp_finish [simp]: "udp_checksum_finish = complement_carries"
  by (simp add: fun_eq_iff udp_checksum_finish_def complement_carries_def)

lemma udp_datagram_sum_eq:
  assumes "4 \<le> length sip" and "4 \<le> length dip" and "n \<le> length d"
  shows "\<exists>acc. udp_datagram_sum sip dip d n = Some acc
    \<and> complement_carries acc = inet_checksum (pseudo_header sip dip 17 n @ take n d)"
proof -
  have "sip \<noteq> []" "dip \<noteq> []" using assms by auto
  moreover have "be16 0 17 = 0x11" by (simp add: be16_def)
  ultimately show ?thesis
    using assms
    by (simp add: udp_datagram_sum_def rd_Some Let_def add_bytes_with_words inet_checksum_def
        be_words_pseudo_header be_words_four)
qed

lemma udp_checksum_ipv4_eq:
  assumes "4 \<le> length sip" and "4 \<le> length dip" and "n \<le> length d" and "8 \<le> n" and "n \<le> 65535"
  shows "udp_checksum_ipv4 (Some sip) (Some dip) (Some d) n =
    Some (nonzero_checksum (transport_checksum sip dip 17 (take n d)))"
  using udp_datagram_sum_eq [OF assms(1-3)] assms
  by (auto simp: udp_checksum_ipv4_def const_defs Let_def transport_checksum_def nonzero_checksum_def)

lemma udp_checksum_ipv4_valid_eq:
  assumes "4 \<le> length sip" and "4 \<le> length dip" and "n \<le> length d" and "8 \<le> n"
  shows "udp_checksum_ipv4_valid (Some sip) (Some dip) (Some d) n =
    Some (be16 (d ! 6) (d ! 7) = 0 \<or> transport_checksum sip dip 17 (take n d) = 0)"
  using udp_datagram_sum_eq [OF assms(1-3)] assms
  by (auto simp: udp_checksum_ipv4_valid_def const_defs mem_simps transport_checksum_def)

definition udp_sealed :: "bytes \<Rightarrow> bytes \<Rightarrow> udp_packet \<Rightarrow> udp_packet" where
  "udp_sealed sip dip p = p\<lparr>udp_checksum :=
     nonzero_checksum (transport_checksum sip dip 17 (udp_wire (p\<lparr>udp_checksum := 0\<rparr>)))\<rparr>"

lemma udp_valid_checksum [simp]: "udp_valid (p\<lparr>udp_checksum := c\<rparr>) = udp_valid p"
  by (simp add: udp_valid_def udp_wf_def)

lemma udp_sealed_valid [simp]: "udp_valid (udp_sealed sip dip p) = udp_valid p"
  by (simp add: udp_sealed_def)

lemma word_sum_udp_wire:
  "word_sum (udp_wire (p\<lparr>udp_checksum := c\<rparr>)) = word_sum (udp_wire (p\<lparr>udp_checksum := 0\<rparr>)) + unat c"
  by (simp add: udp_wire_def word_sum_append)

lemma udp_sealed_verifies:
  assumes "4 \<le> length sip" and "4 \<le> length dip" and v: "udp_valid p"
  shows "transport_checksum sip dip 17 (udp_wire (udp_sealed sip dip p)) = 0"
  unfolding udp_sealed_def
  by (rule transport_stored [OF assms(1,2) _ word_sum_udp_wire]) (simp add: length_udp_wire v)

lemma blit_udp_checksum:
  "blit 6 (u16_bytes c) (udp_wire (p\<lparr>udp_checksum := 0\<rparr>) @ r) = udp_wire (p\<lparr>udp_checksum := c\<rparr>) @ r"
  by (simp add: udp_wire_def mem_simps)

lemma udp_serialize_ipv4_wire:
  assumes "4 \<le> length sip" and "4 \<le> length dip" and v: "udp_valid p"
    and n: "8 + udp_payload_len p \<le> n" and "n \<le> length buf"
  shows "udp_serialize_ipv4 (Some p) (Some sip) (Some dip) (Some buf) n =
    Some (8 + udp_payload_len p,
      Some (udp_wire (udp_sealed sip dip p) @ drop (8 + udp_payload_len p) buf))"
proof -
  let ?t = "8 + udp_payload_len p" and ?w = "udp_wire (p\<lparr>udp_checksum := 0\<rparr>)"
  have len: "length ?w = ?t" using length_udp_wire [of "p\<lparr>udp_checksum := 0\<rparr>"] v by simp
  have s: "udp_serialize (Some (p\<lparr>udp_checksum := 0\<rparr>)) (Some buf) n =
      Some (?t, Some (?w @ drop ?t buf))"
    using udp_serialize_wire [of "p\<lparr>udp_checksum := 0\<rparr>" n buf] len v n assms(5) by simp
  have c: "udp_checksum_ipv4 (Some sip) (Some dip) (Some (?w @ drop ?t buf)) ?t =
      Some (nonzero_checksum (transport_checksum sip dip 17 ?w))"
    using udp_checksum_ipv4_eq [OF assms(1,2), of ?t "?w @ drop ?t buf"] len
      udp_valid_lengths [OF v] assms(4,5) by simp
  show ?thesis
    using len n assms(5)
    by (simp add: udp_serialize_ipv4_def Let_def s c write_u16_be_Some blit_udp_checksum udp_sealed_def)
qed

section \<open>Building datagrams\<close>

definition udp_built :: "u16 \<Rightarrow> u16 \<Rightarrow> bytes \<Rightarrow> udp_packet" where
  "udp_built sport dport pd = \<lparr> udp_source_port = sport, udp_destination_port = dport,
     udp_length = of_nat (8 + length pd), udp_checksum = 0,
     udp_payload = pd @ replicate (65527 - length pd) 0, udp_payload_len = length pd \<rparr>"

lemma udp_build_ok:
  assumes "n \<le> 65527" and "n \<le> length pd"
  shows "udp_build (Some g) sport dport (Some pd) n = Some (0, Some (udp_built sport dport (take n pd)))"
  using assms by (simp add: udp_build_def udp_built_def const_defs udp_zero_def Let_def mem_simps)

lemma udp_built_valid: "length pd \<le> 65527 \<Longrightarrow> udp_valid (udp_built sport dport pd)"
  by (simp add: udp_built_def udp_defs)

section \<open>Properties\<close>

text \<open>
  The UDP parser is memory safe and canonical: it accepts exactly the inputs whose
  length field lies between 8 and the input length, serializing the result gives the
  accepted bytes back, and every other input is answered with -2 or -3 and changes
  nothing, so the documented code -4 never occurs.
\<close>

theorem udp_parse_exact:
  assumes "n \<le> length d" and "n \<le> k" and "k \<le> length buf"
  shows "if udp_accepts d n
    then \<exists>p. udp_parse (Some d) n (Some g) = Some (0, Some p) \<and> udp_valid p
      \<and> udp_serialize (Some p) (Some buf) k =
        Some (unat (udp_length p), Some (take (unat (udp_length p)) d @ drop (unat (udp_length p)) buf))
    else \<exists>rc \<in> {-2, -3}. udp_parse (Some d) n (Some g) = Some (rc, Some g)"
proof (cases "udp_accepts d n")
  case True
  let ?p = "udp_decode d"
  have t: "unat (udp_length ?p) \<le> n" "udp_wire ?p = take (unat (udp_length ?p)) d"
    using True udp_wire_decode [OF assms(1) True]
    by (simp_all add: udp_accepts_def udp_decode_def Let_def)
  then have "udp_serialize (Some ?p) (Some buf) k =
      Some (unat (udp_length ?p), Some (take (unat (udp_length ?p)) d @ drop (unat (udp_length ?p)) buf))"
    using udp_serialize_wire [OF udp_decode_valid [OF assms(1) True], of k buf] assms by simp
  then show ?thesis
    using True udp_parse_ok [OF assms(1) True] udp_decode_valid [OF assms(1) True] by auto
next
  case False
  then show ?thesis using udp_parse_reject [OF assms(1)] by simp
qed

theorem udp_parse_exact_witness:
  "\<exists>p. udp_parse (Some [0, 53, 16, 0, 0, 9, 0, 0, 65, 66]) 10 (Some udp_zero) = Some (0, Some p)
     \<and> udp_serialize (Some p) (Some (replicate 10 0)) 10 =
        Some (unat (udp_length p), Some (take (unat (udp_length p)) [0, 53, 16, 0, 0, 9, 0, 0, 65, 66]
          @ drop (unat (udp_length p)) (replicate 10 0)))"
  using udp_parse_exact [of 10 "[0, 53, 16, 0, 0, 9, 0, 0, 65, 66]" 10 "replicate 10 0" udp_zero]
  by (auto simp: udp_accepts_def unat_be16)

text \<open>
  (C20) A datagram built and serialized with its pseudo-header checksum is received as
  sent: the checksum field is not zero, the receiver's check succeeds for the same pair
  of addresses, and parsing gives the ports and the payload.
\<close>

theorem udp_send_receive:
  assumes "4 \<le> length sip" and "4 \<le> length dip" and "n \<le> 65527" and "n \<le> length pd"
    and "8 + n \<le> k" and "k \<le> length buf"
  shows "\<exists>out p. do { (_, p) \<leftarrow> udp_build (Some g) sport dport (Some pd) n;
           udp_serialize_ipv4 p (Some sip) (Some dip) (Some buf) k } = Some (8 + n, Some out)
     \<and> udp_checksum_ipv4_valid (Some sip) (Some dip) (Some out) (8 + n) = Some True
     \<and> be16 (out ! 6) (out ! 7) \<noteq> 0
     \<and> udp_parse (Some out) (8 + n) (Some g) = Some (0, Some p)
     \<and> udp_source_port p = sport \<and> udp_destination_port p = dport \<and> udp_payload_len p = n
     \<and> take n (udp_payload p) = take n pd \<and> drop (8 + n) out = drop (8 + n) buf"
proof -
  let ?b = "udp_built sport dport (take n pd)"
  let ?q = "udp_sealed sip dip ?b"
  have v: "udp_valid ?b" using assms(3) by (intro udp_built_valid) simp
  then have vq: "udp_valid ?q" by simp
  have n: "udp_payload_len ?b = n" "udp_payload_len ?q = n"
    using assms(4) by (simp_all add: udp_built_def udp_sealed_def)
  have len: "length (udp_wire ?q) = 8 + n" using length_udp_wire [OF vq] n by simp
  let ?out = "udp_wire ?q @ drop (8 + n) buf"
  have s: "udp_serialize_ipv4 (Some ?b) (Some sip) (Some dip) (Some buf) k = Some (8 + n, Some ?out)"
    using udp_serialize_ipv4_wire [OF assms(1,2) v, of k buf] n assms(5,6) by simp
  have "udp_checksum_ipv4_valid (Some sip) (Some dip) (Some ?out) (8 + n) = Some True"
    using udp_checksum_ipv4_valid_eq [OF assms(1,2), of "8 + n" ?out] len
      udp_sealed_verifies [OF assms(1,2) v] by simp
  moreover have "be16 (?out ! 6) (?out ! 7) \<noteq> 0"
    unfolding udp_wire_nth(4) [OF vq] by (simp add: udp_sealed_def)
  moreover have "udp_parse (Some ?out) (8 + n) (Some g) = Some (0, Some (udp_norm ?q))"
    using udp_parse_wire [OF vq, of "drop (8 + n) buf" g] len by simp
  ultimately show ?thesis
    using s udp_build_ok [OF assms(3,4), of g sport dport] len n assms(3,4)
    by (intro exI [of _ ?out] exI [of _ "udp_norm ?q"])
      (simp add: udp_norm_def, simp add: udp_sealed_def udp_built_def)
qed

theorem udp_send_receive_witness:
  "\<exists>out p. do { (_, p) \<leftarrow> udp_build (Some udp_zero) 49152 53 (Some [1, 2, 3]) 3;
         udp_serialize_ipv4 p (Some [10, 0, 0, 1]) (Some [10, 0, 0, 2]) (Some (replicate 20 0)) 20 } =
       Some (11, Some out)
     \<and> udp_parse (Some out) 11 (Some udp_zero) = Some (0, Some p) \<and> udp_source_port p = 49152"
  using udp_send_receive [of "[10, 0, 0, 1]" "[10, 0, 0, 2]" 3 "[1, 2, 3]" 20 "replicate 20 0"
      udp_zero 49152 53]
  by auto

text \<open>
  Error detection: for a datagram that carries a checksum and verifies, neither a
  datagram that differs in one byte and still carries a checksum, nor the same datagram
  from an address that differs in one byte, verifies. A datagram without checksum always
  does.
\<close>

theorem udp_corruption_detected:
  assumes "4 \<le> length sip" and "4 \<le> length dip" and "8 \<le> n" and "n \<le> length d"
    and "be16 (d ! 6) (d ! 7) \<noteq> 0"
    and "udp_checksum_ipv4_valid (Some sip) (Some dip) (Some d) n = Some True"
  shows "(\<forall>i x. i < n \<and> x \<noteq> d ! i \<and> be16 (d[i := x] ! 6) (d[i := x] ! 7) \<noteq> 0 \<longrightarrow>
        udp_checksum_ipv4_valid (Some sip) (Some dip) (Some (d[i := x])) n = Some False)
    \<and> (\<forall>i x. i < 4 \<and> x \<noteq> sip ! i \<longrightarrow>
        udp_checksum_ipv4_valid (Some (sip[i := x])) (Some dip) (Some d) n = Some False)
    \<and> udp_checksum_ipv4_valid (Some sip) (Some dip) (Some (d[6 := 0, 7 := 0])) n = Some True"
proof -
  have z: "transport_checksum sip dip 17 (take n d) = 0"
    using assms udp_checksum_ipv4_valid_eq [OF assms(1,2,4,3)] by simp
  have "udp_checksum_ipv4_valid (Some sip) (Some dip) (Some (d[i := x])) n = Some False"
    if "i < n" "x \<noteq> d ! i" "be16 (d[i := x] ! 6) (d[i := x] ! 7) \<noteq> 0" for i x
    using transport_detects [OF assms(1,2) z, of i x] that assms(3,4)
      udp_checksum_ipv4_valid_eq [OF assms(1,2), of n "d[i := x]"]
    by (simp add: take_update_swap)
  moreover have "udp_checksum_ipv4_valid (Some (sip[i := x])) (Some dip) (Some d) n = Some False"
    if "i < 4" "x \<noteq> sip ! i" for i x
    using transport_detects_source [OF assms(1,2) z that] assms
      udp_checksum_ipv4_valid_eq [of "sip[i := x]" dip n d] by simp
  moreover have "udp_checksum_ipv4_valid (Some sip) (Some dip) (Some (d[6 := 0, 7 := 0])) n = Some True"
    using udp_checksum_ipv4_valid_eq [OF assms(1,2), of n "d[6 := 0, 7 := 0]"] assms(3,4)
    by (simp add: be16_eq_iff u16_bytes_def)
  ultimately show ?thesis by blast
qed

definition udp_sample :: bytes where
  "udp_sample = [0, 1, 0, 2, 0, 8, 0xEB, 0xD8]"

theorem udp_corruption_detected_witness:
  "udp_checksum_ipv4_valid (Some [10, 0, 0, 1]) (Some [10, 0, 0, 2]) (Some (udp_sample[1 := 9])) 8 =
    Some False"
proof -
  have "udp_checksum_ipv4_valid (Some [10, 0, 0, 1]) (Some [10, 0, 0, 2]) (Some udp_sample) 8 = Some True"
    by (subst udp_checksum_ipv4_valid_eq)
      (simp_all add: udp_sample_def transport_checksum_def inet_checksum_zero_iff pseudo_header_def
        u16_bytes_def)
  note r = udp_corruption_detected [OF _ _ _ _ _ this, THEN conjunct1, rule_format, of 1 9]
  show ?thesis
    by (rule r) (simp_all add: udp_sample_def be16_eq_iff u16_bytes_def)
qed

end
