(* ===== verification/Tcp.thy ===== *)
theory Tcp
  imports Codec Checksum
begin

text \<open>
  \<^verbatim>\<open>src/src/tcp.c\<close> and \<^verbatim>\<open>src/include/tcp.h\<close>: TCP segments with options and their checksum
  over the IPv4 pseudo-header.
\<close>

section \<open>Model\<close>

definition TCP_MIN_HEADER_LEN :: nat where [const_defs]: "TCP_MIN_HEADER_LEN = 20"
definition TCP_MAX_HEADER_LEN :: nat where [const_defs]: "TCP_MAX_HEADER_LEN = 60"
definition TCP_MAX_PACKET_LEN :: nat where [const_defs]: "TCP_MAX_PACKET_LEN = 65535"
definition TCP_MAX_PAYLOAD_LEN :: nat where
  [const_defs]: "TCP_MAX_PAYLOAD_LEN = TCP_MAX_PACKET_LEN - TCP_MIN_HEADER_LEN"
definition TCP_FLAG_FIN :: u8 where [const_defs]: "TCP_FLAG_FIN = 0x01"
definition TCP_FLAG_SYN :: u8 where [const_defs]: "TCP_FLAG_SYN = 0x02"
definition TCP_FLAG_RST :: u8 where [const_defs]: "TCP_FLAG_RST = 0x04"
definition TCP_FLAG_PSH :: u8 where [const_defs]: "TCP_FLAG_PSH = 0x08"
definition TCP_FLAG_ACK :: u8 where [const_defs]: "TCP_FLAG_ACK = 0x10"

record tcp_segment =
  tcp_source_port :: u16
  tcp_destination_port :: u16
  tcp_sequence_number :: u32
  tcp_acknowledgment_number :: u32
  tcp_data_offset :: u8
  tcp_flags :: u8
  tcp_window_size :: u16
  tcp_checksum :: u16
  tcp_urgent_pointer :: u16
  tcp_options :: bytes
  tcp_options_len :: nat
  tcp_payload :: bytes
  tcp_payload_len :: nat

definition tcp_zero :: tcp_segment where
  "tcp_zero = \<lparr> tcp_source_port = 0, tcp_destination_port = 0, tcp_sequence_number = 0,
     tcp_acknowledgment_number = 0, tcp_data_offset = 0, tcp_flags = 0, tcp_window_size = 0,
     tcp_checksum = 0, tcp_urgent_pointer = 0,
     tcp_options = replicate (TCP_MAX_HEADER_LEN - TCP_MIN_HEADER_LEN) 0, tcp_options_len = 0,
     tcp_payload = replicate TCP_MAX_PAYLOAD_LEN 0, tcp_payload_len = 0 \<rparr>"

definition tcp_wf :: "tcp_segment \<Rightarrow> bool" where
  "tcp_wf s \<longleftrightarrow> length (tcp_options s) = TCP_MAX_HEADER_LEN - TCP_MIN_HEADER_LEN
     \<and> length (tcp_payload s) = TCP_MAX_PAYLOAD_LEN
     \<and> tcp_options_len s < SIZE_LIMIT \<and> tcp_payload_len s < SIZE_LIMIT"

definition tcp_checksum_add :: "u32 \<Rightarrow> u16 \<Rightarrow> u32" where
  "tcp_checksum_add acc value =
    (let acc = acc + ucast value in (acc AND 0xFFFF) + drop_bit 16 acc)"

definition tcp_checksum_finish :: "u32 \<Rightarrow> u16" where
  "tcp_checksum_finish acc = ucast (NOT (fold_carries acc) AND 0xFFFF)"

definition tcp_build ::
  "tcp_segment ptr \<Rightarrow> u16 \<Rightarrow> u16 \<Rightarrow> u32 \<Rightarrow> u32 \<Rightarrow> u8 \<Rightarrow> u16 \<Rightarrow> bytes ptr \<Rightarrow> nat \<Rightarrow>
    (int \<times> tcp_segment ptr) option" where
  "tcp_build segment source_port destination_port sequence_number acknowledgment_number flags
      window_size payload payload_len =
    (case segment of
       None \<Rightarrow> Some (-1, segment)
     | Some _ \<Rightarrow>
         if payload_len > 0 \<and> payload = None then Some (-1, segment)
         else if payload_len > TCP_MAX_PAYLOAD_LEN then Some (-1, segment)
         else do {
           let s = tcp_zero\<lparr>tcp_source_port := source_port,
             tcp_destination_port := destination_port, tcp_sequence_number := sequence_number,
             tcp_acknowledgment_number := acknowledgment_number, tcp_data_offset := 5,
             tcp_flags := flags, tcp_window_size := window_size, tcp_checksum := 0,
             tcp_urgent_pointer := 0, tcp_options_len := 0, tcp_payload_len := payload_len\<rparr>;
           pl \<leftarrow> (if payload_len > 0
                  then do { pd \<leftarrow> payload; memcpy (tcp_payload s) 0 pd 0 payload_len }
                  else Some (tcp_payload s));
           Some (0, Some (s\<lparr>tcp_payload := pl\<rparr>)) })"

definition tcp_parse ::
  "bytes ptr \<Rightarrow> nat \<Rightarrow> tcp_segment ptr \<Rightarrow> (int \<times> tcp_segment ptr) option" where
  "tcp_parse data data_len segment =
    (case (data, segment) of
       (Some d, Some _) \<Rightarrow>
         if data_len < TCP_MIN_HEADER_LEN then Some (-2, segment)
         else do {
           b12 \<leftarrow> rd d 12;
           let data_offset = drop_bit 4 b12;
           if data_offset < 5 \<or> data_offset > 15 then Some (-3, segment)
           else let header_len = unat data_offset * 4 in
           if header_len > data_len then Some (-3, segment)
           else let payload_len = data_len - header_len in
           if payload_len > TCP_MAX_PAYLOAD_LEN then Some (-4, segment)
           else do {
             let s = tcp_zero;
             source_port \<leftarrow> read_u16_be d 0;
             destination_port \<leftarrow> read_u16_be d 2;
             sequence_number \<leftarrow> read_u32_be d 4;
             acknowledgment_number \<leftarrow> read_u32_be d 8;
             flags \<leftarrow> rd d 13;
             window_size \<leftarrow> read_u16_be d 14;
             checksum \<leftarrow> read_u16_be d 16;
             urgent_pointer \<leftarrow> read_u16_be d 18;
             let options_len = header_len - TCP_MIN_HEADER_LEN;
             opts \<leftarrow> (if options_len > 0
                      then memcpy (tcp_options s) 0 d TCP_MIN_HEADER_LEN options_len
                      else Some (tcp_options s));
             pl \<leftarrow> (if payload_len > 0
                    then memcpy (tcp_payload s) 0 d header_len payload_len
                    else Some (tcp_payload s));
             Some (0, Some (s\<lparr>tcp_source_port := source_port,
               tcp_destination_port := destination_port, tcp_sequence_number := sequence_number,
               tcp_acknowledgment_number := acknowledgment_number,
               tcp_data_offset := data_offset, tcp_flags := flags,
               tcp_window_size := window_size, tcp_checksum := checksum,
               tcp_urgent_pointer := urgent_pointer, tcp_options_len := options_len,
               tcp_options := opts, tcp_payload_len := payload_len, tcp_payload := pl\<rparr>)) } }
     | _ \<Rightarrow> Some (-1, segment))"

definition tcp_serialize ::
  "tcp_segment ptr \<Rightarrow> bytes ptr \<Rightarrow> nat \<Rightarrow> (nat \<times> bytes ptr) option" where
  "tcp_serialize segment buffer buffer_len =
    (case (segment, buffer) of
       (Some s, Some b) \<Rightarrow>
         if tcp_data_offset s < 5 \<or> tcp_data_offset s > 15 then Some (0, buffer)
         else let header_len = unat (tcp_data_offset s) * 4;
                  expected_options_len = header_len - TCP_MIN_HEADER_LEN in
         if tcp_options_len s \<noteq> expected_options_len then Some (0, buffer)
         else let total_len = size_add header_len (tcp_payload_len s) in
         if total_len > TCP_MAX_PACKET_LEN \<or> buffer_len < total_len then Some (0, buffer)
         else do {
           b \<leftarrow> memset b 0 total_len;
           b \<leftarrow> write_u16_be b 0 (tcp_source_port s);
           b \<leftarrow> write_u16_be b 2 (tcp_destination_port s);
           b \<leftarrow> write_u32_be b 4 (tcp_sequence_number s);
           b \<leftarrow> write_u32_be b 8 (tcp_acknowledgment_number s);
           b \<leftarrow> wr b 12 (push_bit 4 (tcp_data_offset s));
           b \<leftarrow> wr b 13 (tcp_flags s);
           b \<leftarrow> write_u16_be b 14 (tcp_window_size s);
           b \<leftarrow> write_u16_be b 16 (tcp_checksum s);
           b \<leftarrow> write_u16_be b 18 (tcp_urgent_pointer s);
           b \<leftarrow> (if tcp_options_len s > 0
                 then memcpy b TCP_MIN_HEADER_LEN (tcp_options s) 0 (tcp_options_len s)
                 else Some b);
           b \<leftarrow> (if tcp_payload_len s > 0
                 then memcpy b header_len (tcp_payload s) 0 (tcp_payload_len s)
                 else Some b);
           Some (total_len, Some b) }
     | _ \<Rightarrow> Some (0, buffer))"

definition tcp_add_bytes :: "u32 \<Rightarrow> bytes \<Rightarrow> nat \<Rightarrow> u32 option" where
  "tcp_add_bytes acc data len = add_bytes_with tcp_checksum_add acc data len"

definition tcp_checksum_sum_ipv4 :: "bytes \<Rightarrow> bytes \<Rightarrow> bytes \<Rightarrow> nat \<Rightarrow> u32 option" where
  "tcp_checksum_sum_ipv4 source_ip destination_ip tcp_data tcp_len = do {
     acc \<leftarrow> tcp_add_bytes 0 source_ip 4;
     acc \<leftarrow> tcp_add_bytes acc destination_ip 4;
     let acc = tcp_checksum_add acc 0x0006;
     let acc = tcp_checksum_add acc (of_nat tcp_len);
     tcp_add_bytes acc tcp_data tcp_len }"

definition tcp_checksum_ipv4 ::
  "bytes ptr \<Rightarrow> bytes ptr \<Rightarrow> bytes ptr \<Rightarrow> nat \<Rightarrow> u16 option" where
  "tcp_checksum_ipv4 source_ip destination_ip tcp_data tcp_len =
    (case (source_ip, destination_ip, tcp_data) of
       (Some sip, Some dip, Some d) \<Rightarrow>
         if tcp_len < TCP_MIN_HEADER_LEN \<or> tcp_len > 65535 then Some 0
         else do {
           acc \<leftarrow> tcp_checksum_sum_ipv4 sip dip d tcp_len;
           let result = tcp_checksum_finish acc;
           Some (if result = 0 then 0xFFFF else result) }
     | _ \<Rightarrow> Some 0)"

definition tcp_serialize_ipv4 ::
  "tcp_segment ptr \<Rightarrow> bytes ptr \<Rightarrow> bytes ptr \<Rightarrow> bytes ptr \<Rightarrow> nat \<Rightarrow> (nat \<times> bytes ptr) option" where
  "tcp_serialize_ipv4 segment source_ip destination_ip buffer buffer_len =
    (case (segment, source_ip, destination_ip, buffer) of
       (Some s, Some _, Some _, Some _) \<Rightarrow> do {
         let temporary = s\<lparr>tcp_checksum := 0\<rparr>;
         (tcp_len, buffer) \<leftarrow> tcp_serialize (Some temporary) buffer buffer_len;
         if tcp_len = 0 then Some (0, buffer)
         else do {
           checksum \<leftarrow> tcp_checksum_ipv4 source_ip destination_ip buffer tcp_len;
           if checksum = 0 then Some (0, buffer)
           else do {
             b \<leftarrow> buffer;
             b \<leftarrow> write_u16_be b 16 checksum;
             Some (tcp_len, Some b) } } }
     | _ \<Rightarrow> Some (0, buffer))"

definition tcp_checksum_ipv4_valid ::
  "bytes ptr \<Rightarrow> bytes ptr \<Rightarrow> bytes ptr \<Rightarrow> nat \<Rightarrow> bool option" where
  "tcp_checksum_ipv4_valid source_ip destination_ip tcp_data tcp_len =
    (case (source_ip, destination_ip, tcp_data) of
       (Some sip, Some dip, Some d) \<Rightarrow>
         if tcp_len < TCP_MIN_HEADER_LEN \<or> tcp_len > 65535 then Some False
         else do {
           acc \<leftarrow> tcp_checksum_sum_ipv4 sip dip d tcp_len;
           Some (tcp_checksum_finish acc = 0) }
     | _ \<Rightarrow> Some False)"

definition tcp_state_flag_name :: "u8 \<Rightarrow> string" where
  "tcp_state_flag_name flags =
    (if flags AND (TCP_FLAG_SYN OR TCP_FLAG_ACK) = TCP_FLAG_SYN OR TCP_FLAG_ACK then ''SYN-ACK''
     else if flags AND TCP_FLAG_SYN \<noteq> 0 then ''SYN''
     else if flags AND TCP_FLAG_RST \<noteq> 0 then ''RST''
     else if flags AND TCP_FLAG_FIN \<noteq> 0 then ''FIN''
     else if flags AND TCP_FLAG_ACK \<noteq> 0 then ''ACK''
     else ''NONE'')"

section \<open>Wire format\<close>

definition tcp_wire :: "tcp_segment \<Rightarrow> bytes" where
  "tcp_wire s = u16_bytes (tcp_source_port s) @ u16_bytes (tcp_destination_port s)
     @ u32_bytes (tcp_sequence_number s) @ u32_bytes (tcp_acknowledgment_number s)
     @ [push_bit 4 (tcp_data_offset s), tcp_flags s] @ u16_bytes (tcp_window_size s)
     @ u16_bytes (tcp_checksum s) @ u16_bytes (tcp_urgent_pointer s)
     @ take (tcp_options_len s) (tcp_options s) @ take (tcp_payload_len s) (tcp_payload s)"

definition tcp_valid :: "tcp_segment \<Rightarrow> bool" where
  "tcp_valid s \<longleftrightarrow> tcp_wf s \<and> 5 \<le> tcp_data_offset s \<and> tcp_data_offset s \<le> 15
     \<and> tcp_options_len s = unat (tcp_data_offset s) * 4 - 20
     \<and> unat (tcp_data_offset s) * 4 + tcp_payload_len s \<le> 65535"

definition tcp_norm :: "tcp_segment \<Rightarrow> tcp_segment" where
  "tcp_norm s = s\<lparr>
     tcp_options := take (tcp_options_len s) (tcp_options s) @ replicate (40 - tcp_options_len s) 0,
     tcp_payload := take (tcp_payload_len s) (tcp_payload s)
       @ replicate (65515 - tcp_payload_len s) 0\<rparr>"

definition tcp_accepts :: "bytes \<Rightarrow> nat \<Rightarrow> bool" where
  "tcp_accepts d n \<longleftrightarrow> 20 \<le> n \<and> 5 \<le> unat (drop_bit 4 (d ! 12))
     \<and> unat (drop_bit 4 (d ! 12)) * 4 \<le> n \<and> n - unat (drop_bit 4 (d ! 12)) * 4 \<le> 65515"

definition tcp_decode :: "bytes \<Rightarrow> nat \<Rightarrow> tcp_segment" where
  "tcp_decode d n = (let h = unat (drop_bit 4 (d ! 12)) * 4 in
    \<lparr> tcp_source_port = be16 (d ! 0) (d ! 1), tcp_destination_port = be16 (d ! 2) (d ! 3),
      tcp_sequence_number = be32 (d ! 4) (d ! 5) (d ! 6) (d ! 7),
      tcp_acknowledgment_number = be32 (d ! 8) (d ! 9) (d ! 10) (d ! 11),
      tcp_data_offset = drop_bit 4 (d ! 12), tcp_flags = d ! 13,
      tcp_window_size = be16 (d ! 14) (d ! 15), tcp_checksum = be16 (d ! 16) (d ! 17),
      tcp_urgent_pointer = be16 (d ! 18) (d ! 19),
      tcp_options = take (h - 20) (drop 20 d) @ replicate (60 - h) 0, tcp_options_len = h - 20,
      tcp_payload = take (n - h) (drop h d) @ replicate (65515 - (n - h)) 0,
      tcp_payload_len = n - h \<rparr>)"

lemmas tcp_defs = tcp_valid_def tcp_wf_def tcp_zero_def const_defs

lemma tcp_valid_lengths:
  assumes "tcp_valid s"
  shows "unat (tcp_data_offset s) * 4 = 20 + tcp_options_len s" and "tcp_options_len s \<le> 40"
    and "tcp_payload_len s \<le> 65515" and "20 + tcp_options_len s + tcp_payload_len s \<le> 65535"
    and "length (tcp_options s) = 40" and "length (tcp_payload s) = 65515"
    and "\<not> tcp_data_offset s < 5" and "\<not> 15 < tcp_data_offset s"
proof -
  have "5 \<le> unat (tcp_data_offset s)" "unat (tcp_data_offset s) \<le> 15"
    using assms by (simp_all add: tcp_valid_def word_le_nat_alt)
  with assms show "unat (tcp_data_offset s) * 4 = 20 + tcp_options_len s" "tcp_options_len s \<le> 40"
    "tcp_payload_len s \<le> 65515" "20 + tcp_options_len s + tcp_payload_len s \<le> 65535"
    "length (tcp_options s) = 40" "length (tcp_payload s) = 65515"
    "\<not> tcp_data_offset s < 5" "\<not> 15 < tcp_data_offset s"
    by (simp_all add: tcp_defs not_less)
qed

lemma length_tcp_wire:
  "tcp_valid s \<Longrightarrow> length (tcp_wire s) = 20 + tcp_options_len s + tcp_payload_len s"
  using tcp_valid_lengths [of s] by (simp add: tcp_wire_def u32_bytes_def)

lemma tcp_serialize_wire:
  assumes v: "tcp_valid s" and n: "length (tcp_wire s) \<le> n" and "n \<le> length buf"
  shows "tcp_serialize (Some s) (Some buf) n =
    Some (length (tcp_wire s), Some (tcp_wire s @ drop (length (tcp_wire s)) buf))"
proof -
  note l = tcp_valid_lengths [OF v]
  let ?t = "20 + tcp_options_len s + tcp_payload_len s"
  have len: "length (tcp_wire s) = ?t" by (rule length_tcp_wire [OF v])
  with assms have t: "?t \<le> length buf" and n': "\<not> n < ?t" by simp_all
  obtain X where m: "memset buf 0 ?t = Some X" and "length X = length buf"
    and "drop ?t X = drop ?t buf"
    using t by (simp add: memset_Some)
  then have X: "?t \<le> length X" "X \<noteq> []" "drop ?t X = drop ?t buf"
    using t by auto
  have tot: "size_add (20 + tcp_options_len s) (tcp_payload_len s) = ?t"
    using l(4) by (intro size_add_exact) simp
  have dr: "drop (tcp_payload_len s + (tcp_options_len s + 20)) X = drop ?t buf"
    using X(3) by (simp only: add_ac)
  have opt: "20 + tcp_options_len s - 20 = tcp_options_len s" by simp
  have "tcp_serialize (Some s) (Some buf) n = Some (?t, Some (tcp_wire s @ drop ?t buf))"
    unfolding tcp_serialize_def Let_def const_defs prod.case option.case l(1) tot opt m
    using n' X(1,2) l dr
    by (simp add: mem_simps take_over tcp_wire_def)
  then show ?thesis by (simp only: len)
qed

lemma offset_guard:
  "(drop_bit 4 b < 5 \<or> 15 < drop_bit 4 b) \<longleftrightarrow> unat (drop_bit 4 b) < 5" for b :: u8
proof -
  have "unat (drop_bit 4 b) = unat b div 16"
  proof -
    have "unat (drop_bit 4 b) = drop_bit 4 (unat b)" by (rule unat_drop_bit_eq)
    then show ?thesis by (simp only: drop_bit_eq_div) simp
  qed
  moreover have "unat b div 16 < 16" using unat_u8_less [of b] by auto
  ultimately show ?thesis by (auto simp: word_less_nat_alt)
qed

lemma offset_bound: "unat (drop_bit 4 b) \<le> 15" for b :: u8
  using offset_guard [of b] by (auto simp: word_less_nat_alt)

lemma offset_shift: "i \<le> 15 \<Longrightarrow> drop_bit 4 (push_bit 4 i) = i" for i :: u8
proof -
  assume "i \<le> 15"
  then have "take_bit 4 (unat i) = unat i"
    by (simp add: word_le_nat_alt take_bit_nat_eq_self)
  then have i: "take_bit 4 i = i" by (metis unsigned_take_bit_eq unat_inject)
  show ?thesis
    by (subst (2) i [symmetric], rule bit_word_eqI) (auto simp: bit_simps)
qed

lemma tcp_parse_ok:
  assumes "n \<le> length d" and "tcp_accepts d n"
  shows "tcp_parse (Some d) n (Some g) = Some (0, Some (tcp_decode d n))"
proof -
  define h where "h = unat (drop_bit 4 (d ! 12)) * 4"
  have b: "20 \<le> h" "h \<le> 60" "h \<le> n" "n - h \<le> 65515" "20 \<le> n" "\<not> unat (drop_bit 4 (d ! 12)) < 5"
    using assms offset_bound [of "d ! 12"] by (simp_all add: tcp_accepts_def h_def)
  have ne: "d \<noteq> []" using assms(1) b by (cases d) simp_all
  show ?thesis
    using assms(1) b ne offset_guard [of "d ! 12"]
    by (simp add: tcp_parse_def tcp_decode_def Let_def const_defs tcp_zero_def mem_simps flip: h_def) arith
qed

lemma tcp_parse_reject:
  assumes "n \<le> length d" and "\<not> tcp_accepts d n"
  shows "\<exists>rc \<in> {-2, -3, -4}. tcp_parse (Some d) n (Some g) = Some (rc, Some g)"
  using assms offset_guard [of "d ! 12"]
  by (auto simp: tcp_parse_def tcp_accepts_def const_defs mem_simps Let_def)

lemma tcp_decode_valid:
  assumes "n \<le> length d" and "tcp_accepts d n" and "n \<le> 65535"
  shows "tcp_valid (tcp_decode d n)"
proof -
  have "\<not> drop_bit 4 (d ! 12) < 5" "\<not> 15 < drop_bit 4 (d ! 12)"
    using offset_guard [of "d ! 12"] assms(2) by (auto simp: tcp_accepts_def)
  then show ?thesis
    using assms offset_bound [of "d ! 12"] by (auto simp: tcp_accepts_def tcp_decode_def tcp_defs Let_def not_less)
qed

lemma tcp_wire_nth:
  fixes rest :: bytes
  assumes v: "tcp_valid s"
  defines "d \<equiv> tcp_wire s @ rest"
  shows "be16 (d ! 0) (d ! 1) = tcp_source_port s"
    and "be16 (d ! 2) (d ! 3) = tcp_destination_port s"
    and "be32 (d ! 4) (d ! 5) (d ! 6) (d ! 7) = tcp_sequence_number s"
    and "be32 (d ! 8) (d ! 9) (d ! 10) (d ! 11) = tcp_acknowledgment_number s"
    and "drop_bit 4 (d ! 12) = tcp_data_offset s" and "d ! 13 = tcp_flags s"
    and "be16 (d ! 14) (d ! 15) = tcp_window_size s" and "be16 (d ! 16) (d ! 17) = tcp_checksum s"
    and "be16 (d ! 18) (d ! 19) = tcp_urgent_pointer s"
    and "take (tcp_options_len s) (drop 20 d) = take (tcp_options_len s) (tcp_options s)"
    and "take (tcp_payload_len s) (drop (20 + tcp_options_len s) d) =
      take (tcp_payload_len s) (tcp_payload s)"
proof -
  note l = tcp_valid_lengths [OF v]
  have off: "drop_bit 4 (push_bit 4 (tcp_data_offset s)) = tcp_data_offset s"
    using v by (intro offset_shift) (simp add: tcp_valid_def)
  define h where "h = take 20 (tcp_wire s)"
  have w: "tcp_wire s = h @ take (tcp_options_len s) (tcp_options s)
      @ take (tcp_payload_len s) (tcp_payload s)" and "length h = 20"
    using l by (simp_all add: h_def tcp_wire_def)
  then show "take (tcp_options_len s) (drop 20 d) = take (tcp_options_len s) (tcp_options s)"
    "take (tcp_payload_len s) (drop (20 + tcp_options_len s) d) =
      take (tcp_payload_len s) (tcp_payload s)"
    using l(2,3,5,6) by (simp_all add: d_def)
  show "be16 (d ! 0) (d ! 1) = tcp_source_port s"
    "be16 (d ! 2) (d ! 3) = tcp_destination_port s"
    "be32 (d ! 4) (d ! 5) (d ! 6) (d ! 7) = tcp_sequence_number s"
    "be32 (d ! 8) (d ! 9) (d ! 10) (d ! 11) = tcp_acknowledgment_number s"
    "drop_bit 4 (d ! 12) = tcp_data_offset s" "d ! 13 = tcp_flags s"
    "be16 (d ! 14) (d ! 15) = tcp_window_size s" "be16 (d ! 16) (d ! 17) = tcp_checksum s"
    "be16 (d ! 18) (d ! 19) = tcp_urgent_pointer s"
    by (simp_all add: d_def tcp_wire_def u16_bytes_def u32_bytes_def off)
qed

lemma tcp_parse_wire:
  assumes v: "tcp_valid s"
  shows "tcp_parse (Some (tcp_wire s @ rest)) (length (tcp_wire s)) (Some g) =
      Some (0, Some (tcp_norm s))"
proof -
  note l = tcp_valid_lengths [OF v] and w = tcp_wire_nth [OF v, of rest]
  have off: "5 \<le> unat (tcp_data_offset s)" using v by (simp add: tcp_valid_def word_le_nat_alt)
  have "tcp_accepts (tcp_wire s @ rest) (length (tcp_wire s))"
    unfolding tcp_accepts_def w l(1) length_tcp_wire [OF v] using off l(3) by simp
  moreover have "tcp_decode (tcp_wire s @ rest) (length (tcp_wire s)) = tcp_norm s"
    unfolding tcp_decode_def Let_def w(1-9) l(1) length_tcp_wire [OF v] add_diff_cancel_left'
      w(10,11) tcp_norm_def
    by (rule tcp_segment.equality) simp_all
  ultimately show ?thesis using tcp_parse_ok [of "length (tcp_wire s)" "tcp_wire s @ rest"] by simp
qed

interpretation tcpc: codec tcp_parse tcp_serialize tcp_wire tcp_valid tcp_norm
proof unfold_locales
  fix m n and buf :: bytes
  show "tcp_wire m \<noteq> []"
    by (simp add: tcp_wire_def u16_bytes_def)
  assume v: "tcp_valid m" and n: "n < length (tcp_wire m)"
  have "size_add (20 + tcp_options_len m) (tcp_payload_len m) =
      20 + tcp_options_len m + tcp_payload_len m"
    using tcp_valid_lengths [OF v] by (intro size_add_exact) simp
  then show "tcp_serialize (Some m) (Some buf) n = Some (0, Some buf)"
    using n length_tcp_wire [OF v] tcp_valid_lengths [OF v]
    by (simp add: tcp_serialize_def const_defs Let_def)
qed (rule tcp_serialize_wire tcp_parse_wire, assumption+)+

section \<open>The checksum\<close>

lemma tcp_add_word [simp]: "tcp_checksum_add = carry_step"
  by (simp add: fun_eq_iff tcp_checksum_add_def carry_step_def fold_carry_def Let_def)

lemma tcp_finish [simp]: "tcp_checksum_finish = complement_carries"
  by (simp add: fun_eq_iff tcp_checksum_finish_def complement_carries_def)

lemma tcp_checksum_sum_eq:
  assumes "4 \<le> length sip" and "4 \<le> length dip" and "n \<le> length d"
  shows "\<exists>acc. tcp_checksum_sum_ipv4 sip dip d n = Some acc
    \<and> complement_carries acc = inet_checksum (pseudo_header sip dip 6 n @ take n d)"
proof -
  have "be16 0 6 = 6" by (simp add: be16_def)
  then show ?thesis
    using assms
    by (simp add: tcp_checksum_sum_ipv4_def tcp_add_bytes_def Let_def add_bytes_with_words
        inet_checksum_def be_words_pseudo_header)
qed

lemma tcp_checksum_ipv4_eq:
  assumes "4 \<le> length sip" and "4 \<le> length dip" and "n \<le> length d" and "20 \<le> n" and "n \<le> 65535"
  shows "tcp_checksum_ipv4 (Some sip) (Some dip) (Some d) n =
    Some (nonzero_checksum (transport_checksum sip dip 6 (take n d)))"
  using tcp_checksum_sum_eq [OF assms(1-3)] assms
  by (auto simp: tcp_checksum_ipv4_def const_defs Let_def transport_checksum_def nonzero_checksum_def)

lemma tcp_checksum_ipv4_valid_eq:
  assumes "4 \<le> length sip" and "4 \<le> length dip" and "n \<le> length d"
  shows "tcp_checksum_ipv4_valid (Some sip) (Some dip) (Some d) n =
    Some (20 \<le> n \<and> n \<le> 65535 \<and> transport_checksum sip dip 6 (take n d) = 0)"
  using tcp_checksum_sum_eq [OF assms(1-3)] assms
  by (auto simp: tcp_checksum_ipv4_valid_def const_defs mem_simps transport_checksum_def)

definition tcp_sealed :: "bytes \<Rightarrow> bytes \<Rightarrow> tcp_segment \<Rightarrow> tcp_segment" where
  "tcp_sealed sip dip s = s\<lparr>tcp_checksum :=
     nonzero_checksum (transport_checksum sip dip 6 (tcp_wire (s\<lparr>tcp_checksum := 0\<rparr>)))\<rparr>"

lemma tcp_valid_checksum [simp]: "tcp_valid (s\<lparr>tcp_checksum := c\<rparr>) = tcp_valid s"
  by (simp add: tcp_valid_def tcp_wf_def)

lemma tcp_sealed_valid [simp]: "tcp_valid (tcp_sealed sip dip s) = tcp_valid s"
  by (simp add: tcp_sealed_def)

lemma word_sum_tcp_wire:
  "word_sum (tcp_wire (s\<lparr>tcp_checksum := c\<rparr>)) = word_sum (tcp_wire (s\<lparr>tcp_checksum := 0\<rparr>)) + unat c"
  by (simp add: tcp_wire_def word_sum_append)

lemma tcp_sealed_verifies:
  assumes "4 \<le> length sip" and "4 \<le> length dip" and v: "tcp_valid s"
  shows "transport_checksum sip dip 6 (tcp_wire (tcp_sealed sip dip s)) = 0"
  unfolding tcp_sealed_def
  by (rule transport_stored [OF assms(1,2) _ word_sum_tcp_wire]) (simp add: length_tcp_wire v)

lemma blit_tcp_checksum:
  "blit 16 (u16_bytes c) (tcp_wire (s\<lparr>tcp_checksum := 0\<rparr>) @ r) = tcp_wire (s\<lparr>tcp_checksum := c\<rparr>) @ r"
  by (simp add: tcp_wire_def mem_simps)

lemma tcp_serialize_ipv4_wire:
  assumes "4 \<le> length sip" and "4 \<le> length dip" and v: "tcp_valid s"
    and n: "length (tcp_wire s) \<le> n" and "n \<le> length buf"
  shows "tcp_serialize_ipv4 (Some s) (Some sip) (Some dip) (Some buf) n =
    Some (length (tcp_wire s),
      Some (tcp_wire (tcp_sealed sip dip s) @ drop (length (tcp_wire s)) buf))"
proof -
  let ?w = "tcp_wire (s\<lparr>tcp_checksum := 0\<rparr>)"
  let ?t = "length ?w"
  have len: "?t = length (tcp_wire s)"
    using length_tcp_wire [of "s\<lparr>tcp_checksum := 0\<rparr>"] length_tcp_wire [OF v] v by simp
  have t: "20 \<le> ?t" "?t \<le> 65535"
    using len length_tcp_wire [OF v] tcp_valid_lengths [OF v] by simp_all
  have s: "tcp_serialize (Some (s\<lparr>tcp_checksum := 0\<rparr>)) (Some buf) n =
      Some (?t, Some (?w @ drop ?t buf))"
    using tcp_serialize_wire [of "s\<lparr>tcp_checksum := 0\<rparr>" n buf] len v n assms(5) by simp
  have c: "tcp_checksum_ipv4 (Some sip) (Some dip) (Some (?w @ drop ?t buf)) ?t =
      Some (nonzero_checksum (transport_checksum sip dip 6 ?w))"
    using tcp_checksum_ipv4_eq [OF assms(1,2), of ?t "?w @ drop ?t buf"] t by simp
  have "0 < ?t" using t by linarith
  then show ?thesis
    using t
    by (simp add: tcp_serialize_ipv4_def Let_def s c write_u16_be_Some blit_tcp_checksum tcp_sealed_def
        flip: len)
qed

section \<open>Building segments\<close>

definition tcp_built :: "u16 \<Rightarrow> u16 \<Rightarrow> u32 \<Rightarrow> u32 \<Rightarrow> u8 \<Rightarrow> u16 \<Rightarrow> bytes \<Rightarrow> tcp_segment" where
  "tcp_built sport dport seq ack flags window pd =
    \<lparr> tcp_source_port = sport, tcp_destination_port = dport, tcp_sequence_number = seq,
      tcp_acknowledgment_number = ack, tcp_data_offset = 5, tcp_flags = flags,
      tcp_window_size = window, tcp_checksum = 0, tcp_urgent_pointer = 0,
      tcp_options = replicate 40 0, tcp_options_len = 0,
      tcp_payload = pd @ replicate (65515 - length pd) 0, tcp_payload_len = length pd \<rparr>"

lemma tcp_build_ok:
  assumes "n \<le> 65515" and "n \<le> length pd"
  shows "tcp_build (Some g) sport dport seq ack flags window (Some pd) n =
    Some (0, Some (tcp_built sport dport seq ack flags window (take n pd)))"
  using assms by (simp add: tcp_build_def tcp_built_def const_defs tcp_zero_def Let_def mem_simps)

lemma tcp_build_empty:
  "tcp_build (Some g) sport dport seq ack flags window None 0 =
    Some (0, Some (tcp_built sport dport seq ack flags window []))"
  by (simp add: tcp_build_def tcp_built_def const_defs tcp_zero_def Let_def)

lemma tcp_built_valid:
  "length pd \<le> 65515 \<Longrightarrow> tcp_valid (tcp_built sport dport seq ack flags window pd)"
  by (simp add: tcp_built_def tcp_defs word_le_nat_alt)

section \<open>Safety of the serializer\<close>

text \<open>
  The serializer has no bound on \<open>payload_len\<close> of its own: it relies on the sum of header
  and payload length, which wraps at 64 bits.
\<close>

lemma mem_read_NoneD: "length src < off + n \<Longrightarrow> mem_read src off n = None"
  by (simp add: mem_read_def)

definition tcp_consistent :: "tcp_segment \<Rightarrow> bool" where
  "tcp_consistent s \<longleftrightarrow> 5 \<le> tcp_data_offset s \<and> tcp_data_offset s \<le> 15
     \<and> tcp_options_len s = unat (tcp_data_offset s) * 4 - 20"

text \<open>The exact sum of the lengths, which the code computes modulo \<open>2 ^ 64\<close>.\<close>

definition tcp_length :: "tcp_segment \<Rightarrow> nat" where
  "tcp_length s = unat (tcp_data_offset s) * 4 + tcp_payload_len s"

lemma tcp_valid_consistent: "tcp_valid s \<longleftrightarrow> tcp_wf s \<and> tcp_consistent s \<and> tcp_length s \<le> 65535"
  by (auto simp: tcp_valid_def tcp_consistent_def tcp_length_def)

lemma tcp_serialize_inconsistent: "\<not> tcp_consistent s \<Longrightarrow> tcp_serialize (Some s) (Some buf) n = Some (0, Some buf)"
  by (auto simp: tcp_serialize_def tcp_consistent_def Let_def const_defs not_le)

lemma tcp_serialize_refused:
  assumes "tcp_consistent s" and "size_add (unat (tcp_data_offset s) * 4) (tcp_payload_len s) = t"
    and "65535 < t \<or> n < t"
  shows "tcp_serialize (Some s) (Some buf) n = Some (0, Some buf)"
  using assms by (auto simp: tcp_serialize_def tcp_consistent_def Let_def const_defs not_less)

lemma tcp_size_add:
  assumes "tcp_wf s" and "tcp_consistent s"
  shows "size_add (unat (tcp_data_offset s) * 4) (tcp_payload_len s) =
    (if tcp_length s < SIZE_LIMIT then tcp_length s else tcp_length s - SIZE_LIMIT)"
proof (cases "tcp_length s < SIZE_LIMIT")
  case True
  then show ?thesis by (simp add: tcp_length_def size_add_exact)
next
  case False
  have "unat (tcp_data_offset s) * 4 \<le> 60" "tcp_payload_len s < SIZE_LIMIT"
    using assms by (simp_all add: tcp_consistent_def tcp_wf_def word_le_nat_alt)
  then have "tcp_length s mod SIZE_LIMIT = tcp_length s - SIZE_LIMIT"
    using False unfolding tcp_length_def by (subst le_mod_geq) simp_all
  then show ?thesis using False by (simp add: size_add_def tcp_length_def)
qed

lemma tcp_serialize_wraps:
  assumes "tcp_wf s" and "tcp_consistent s" and "SIZE_LIMIT \<le> tcp_length s" and "tcp_length s - SIZE_LIMIT \<le> n"
  shows "tcp_serialize (Some s) (Some buf) n = None"
proof -
  let ?h = "unat (tcp_data_offset s) * 4"
  have h: "?h \<le> 60" using assms(2) by (simp add: tcp_consistent_def word_le_nat_alt)
  have pl: "tcp_payload_len s < SIZE_LIMIT" "length (tcp_payload s) = 65515"
    using assms(1) by (simp_all add: tcp_wf_def const_defs)
  have sum: "size_add ?h (tcp_payload_len s) = tcp_length s - SIZE_LIMIT"
    using tcp_size_add [OF assms(1,2)] assms(3) by simp
  then have t: "size_add ?h (tcp_payload_len s) \<le> 60" using pl(1) h by (simp add: tcp_length_def)
  have "mem_read (tcp_payload s) 0 (tcp_payload_len s) = None"
    using assms(3) pl h by (intro mem_read_NoneD) (simp add: tcp_length_def)
  then have m: "memcpy b ?h (tcp_payload s) 0 (tcp_payload_len s) = None" for b
    by (simp add: memcpy_def)
  have pos: "0 < tcp_payload_len s" using assms(3) h by (cases "tcp_payload_len s") (simp_all add: tcp_length_def)
  have g: "\<not> tcp_data_offset s < 5" "\<not> 15 < tcp_data_offset s" "\<not> 65535 < size_add ?h (tcp_payload_len s)"
    "\<not> n < size_add ?h (tcp_payload_len s)" "tcp_options_len s = ?h - 20"
    using assms(2,4) sum t by (simp_all add: not_less tcp_consistent_def)
  show ?thesis
    unfolding tcp_serialize_def Let_def const_defs prod.case option.case g(5)
    using g pos m by simp
qed

lemma tcp_serialize_no_wrap:
  assumes "tcp_wf s" and "n \<le> length buf"
    and "\<not> (tcp_consistent s \<and> SIZE_LIMIT \<le> tcp_length s \<and> tcp_length s - SIZE_LIMIT \<le> n)"
  shows "\<exists>len out. tcp_serialize (Some s) (Some buf) n = Some (len, Some out)
    \<and> length out = length buf \<and> drop len out = drop len buf \<and> len \<le> n"
proof -
  consider "\<not> tcp_consistent s" | "tcp_valid s"
    | "tcp_consistent s" "SIZE_LIMIT \<le> tcp_length s" "n < tcp_length s - SIZE_LIMIT"
    | "tcp_consistent s" "tcp_length s < SIZE_LIMIT" "65535 < tcp_length s"
    using assms(1,3) by (fastforce simp: tcp_valid_consistent)
  then show ?thesis
  proof cases
    case 2
    from tcpc.serialize_safe [OF this assms(2)] show ?thesis by blast
  next
    case 3
    with tcp_serialize_refused [OF 3(1) refl, of n buf] tcp_size_add [OF assms(1) 3(1)] show ?thesis by simp
  next
    case 4
    with tcp_serialize_refused [OF 4(1) refl, of n buf] tcp_size_add [OF assms(1) 4(1)] show ?thesis by simp
  qed (simp add: tcp_serialize_inconsistent)
qed

section \<open>Properties\<close>

text \<open>
  (C19) A valid segment serialized with its pseudo-header checksum is received as sent:
  the receiver's check succeeds for the same pair of addresses and parsing gives every
  field back, the options and payload arrays cleared behind their lengths.
\<close>

theorem tcp_send_receive:
  assumes "4 \<le> length sip" and "4 \<le> length dip" and "tcp_valid s"
    and "20 + tcp_options_len s + tcp_payload_len s \<le> n" and "n \<le> length buf"
  shows "\<exists>len out. tcp_serialize_ipv4 (Some s) (Some sip) (Some dip) (Some buf) n = Some (len, Some out)
     \<and> len = 20 + tcp_options_len s + tcp_payload_len s \<and> drop len out = drop len buf
     \<and> tcp_checksum_ipv4_valid (Some sip) (Some dip) (Some out) len = Some True
     \<and> (\<exists>c. c \<noteq> 0 \<and> tcp_parse (Some out) len (Some g) =
          Some (0, Some ((tcp_norm s)\<lparr>tcp_checksum := c\<rparr>)))"
proof -
  note v = assms(3)
  let ?q = "tcp_sealed sip dip s"
  have vq: "tcp_valid ?q" using v by simp
  define t where "t = 20 + tcp_options_len s + tcp_payload_len s"
  have len: "length (tcp_wire s) = t" "length (tcp_wire ?q) = t"
    using length_tcp_wire [OF v] length_tcp_wire [OF vq] by (simp_all add: t_def tcp_sealed_def)
  have t: "20 \<le> t" "t \<le> 65535" using tcp_valid_lengths [OF v] by (simp_all add: t_def)
  let ?out = "tcp_wire ?q @ drop t buf"
  have "tcp_serialize_ipv4 (Some s) (Some sip) (Some dip) (Some buf) n = Some (t, Some ?out)"
    using tcp_serialize_ipv4_wire [OF assms(1,2) v, of n buf] len assms(4,5) by (simp add: t_def)
  moreover have "tcp_checksum_ipv4_valid (Some sip) (Some dip) (Some ?out) t = Some True"
    using tcp_checksum_ipv4_valid_eq [OF assms(1,2), of t ?out] len t
      tcp_sealed_verifies [OF assms(1,2) v] by simp
  moreover have "tcp_parse (Some ?out) t (Some g) = Some (0, Some (tcp_norm ?q))"
    using tcp_parse_wire [OF vq, of "drop t buf" g] len by simp
  moreover have "tcp_norm ?q = (tcp_norm s)\<lparr>tcp_checksum := tcp_checksum ?q\<rparr>"
    by (simp add: tcp_norm_def tcp_sealed_def)
  moreover have "tcp_checksum ?q \<noteq> 0" by (simp add: tcp_sealed_def)
  ultimately show ?thesis using len by (metis append_eq_conv_conj t_def)
qed

definition tcp_example :: tcp_segment where
  "tcp_example = tcp_built 40000 80 1 2 0x18 8192 [71, 69, 84]"

lemma tcp_example_valid: "tcp_valid tcp_example"
  unfolding tcp_example_def by (rule tcp_built_valid) simp

theorem tcp_send_receive_witness:
  "\<exists>len out. tcp_serialize_ipv4 (Some tcp_example) (Some [10, 0, 0, 1]) (Some [10, 0, 0, 2])
       (Some (replicate 40 0)) 40 = Some (len, Some out) \<and> len = 23
     \<and> tcp_checksum_ipv4_valid (Some [10, 0, 0, 1]) (Some [10, 0, 0, 2]) (Some out) len = Some True"
proof -
  have "tcp_options_len tcp_example = 0" "tcp_payload_len tcp_example = 3"
    by (simp_all add: tcp_example_def tcp_built_def)
  then show ?thesis
    using tcp_send_receive [OF _ _ tcp_example_valid, of "[10, 0, 0, 1]" "[10, 0, 0, 2]" 40 "replicate 40 0"]
    by auto
qed

text \<open>
  The parser is memory safe and accepts exactly the inputs of at least 20 bytes whose
  data offset is at least 5 and fits the input and whose payload fits the payload array;
  every other input gives -2, -3 or -4 and changes nothing. An accepted segment of at most
  65535 bytes is a valid segment.
\<close>

theorem tcp_parse_exact:
  assumes "n \<le> length d"
  shows "if tcp_accepts d n
    then tcp_parse (Some d) n (Some g) = Some (0, Some (tcp_decode d n))
      \<and> (n \<le> 65535 \<longrightarrow> tcp_valid (tcp_decode d n))
    else \<exists>rc \<in> {-2, -3, -4}. tcp_parse (Some d) n (Some g) = Some (rc, Some g)"
  using tcp_parse_ok [OF assms] tcp_decode_valid [OF assms] tcp_parse_reject [OF assms] by simp

theorem tcp_parse_exact_witness:
  "tcp_parse (Some (replicate 12 1 @ 0x50 # replicate 9 2)) 22 (Some tcp_zero) =
      Some (0, Some (tcp_decode (replicate 12 1 @ 0x50 # replicate 9 2) 22))
    \<and> (\<exists>rc \<in> {-2, -3, -4}. tcp_parse (Some (replicate 22 0)) 22 (Some tcp_zero) = Some (rc, Some tcp_zero))"
  using tcp_parse_exact [of 22 "replicate 12 1 @ 0x50 # replicate 9 2" tcp_zero]
    tcp_parse_exact [of 22 "replicate 22 0" tcp_zero]
  by (simp add: tcp_accepts_def nth_append)

text \<open>
  (C25) Error detection: of a segment whose checksum verifies, no copy with one byte
  changed verifies, nor does the segment itself under a source address that differs in
  one byte.
\<close>

theorem tcp_corruption_detected:
  assumes "4 \<le> length sip" and "4 \<le> length dip" and "n \<le> length d"
    and "tcp_checksum_ipv4_valid (Some sip) (Some dip) (Some d) n = Some True"
  shows "(\<forall>i x. i < n \<and> x \<noteq> d ! i \<longrightarrow>
        tcp_checksum_ipv4_valid (Some sip) (Some dip) (Some (d[i := x])) n = Some False)
    \<and> (\<forall>i x. i < 4 \<and> x \<noteq> sip ! i \<longrightarrow>
        tcp_checksum_ipv4_valid (Some (sip[i := x])) (Some dip) (Some d) n = Some False)"
proof (intro conjI allI impI)
  have z: "transport_checksum sip dip 6 (take n d) = 0"
    using assms(4) tcp_checksum_ipv4_valid_eq [OF assms(1-3)] by simp
  fix i x assume "i < n \<and> x \<noteq> d ! i"
  then show "tcp_checksum_ipv4_valid (Some sip) (Some dip) (Some (d[i := x])) n = Some False"
    using transport_detects [OF assms(1,2) z, of i x] assms(3)
      tcp_checksum_ipv4_valid_eq [OF assms(1,2), of n "d[i := x]"]
    by (simp add: take_update_swap)
next
  have z: "transport_checksum sip dip 6 (take n d) = 0"
    using assms(4) tcp_checksum_ipv4_valid_eq [OF assms(1-3)] by simp
  fix i x assume "i < 4 \<and> x \<noteq> sip ! i"
  then show "tcp_checksum_ipv4_valid (Some (sip[i := x])) (Some dip) (Some d) n = Some False"
    using transport_detects_source [OF assms(1,2) z] assms(1-3)
      tcp_checksum_ipv4_valid_eq [of "sip[i := x]" dip n d] by simp
qed

definition tcp_sample :: bytes where
  "tcp_sample = [0, 1, 0, 2, 0, 0, 0, 0, 0, 0, 0, 0, 0x50, 0x02, 0, 0, 0x9B, 0xDD, 0, 0]"

theorem tcp_corruption_detected_witness:
  "tcp_checksum_ipv4_valid (Some [10, 0, 0, 1]) (Some [10, 0, 0, 2]) (Some (tcp_sample[13 := 4])) 20 =
    Some False"
proof -
  have "tcp_checksum_ipv4_valid (Some [10, 0, 0, 1]) (Some [10, 0, 0, 2]) (Some tcp_sample) 20 = Some True"
    by (subst tcp_checksum_ipv4_valid_eq)
      (simp_all add: tcp_sample_def transport_checksum_def inet_checksum_zero_iff pseudo_header_def
        u16_bytes_def)
  note r = tcp_corruption_detected [OF _ _ _ this, THEN conjunct1, rule_format, of 13 4]
  show ?thesis by (rule r) (simp_all add: tcp_sample_def)
qed

text \<open>
  (C26) Memory safety of the serializer, for every segment whose arrays have their declared
  sizes, whatever its fields, and every buffer. It leaves its bounds exactly when the header is
  consistent (the data offset is 5 to 15 and gives the length of the options), the sum of header and
  payload length reaches \<open>2 ^ 64\<close>, and the buffer has room for what is left of the wrapped sum: such
  a segment passes both size checks. In every other case the call returns at most the size it was
  given and changes nothing behind the bytes it reports.
\<close>

theorem tcp_serialize_safety:
  assumes "tcp_wf s" and "n \<le> length buf"
  shows "if tcp_consistent s \<and> SIZE_LIMIT \<le> tcp_length s \<and> tcp_length s - SIZE_LIMIT \<le> n
    then tcp_serialize (Some s) (Some buf) n = None
    else \<exists>len out. tcp_serialize (Some s) (Some buf) n = Some (len, Some out)
      \<and> length out = length buf \<and> drop len out = drop len buf \<and> len \<le> n"
  using tcp_serialize_wraps [OF assms(1)] tcp_serialize_no_wrap [OF assms] by simp

theorem tcp_serialize_safety_witness:
  "tcp_serialize (Some (tcp_example\<lparr>tcp_payload_len := 18446744073709551606\<rparr>)) (Some (replicate 10 0)) 10 = None
    \<and> (\<exists>len out. tcp_serialize (Some (tcp_example\<lparr>tcp_payload_len := 18446744073709551606\<rparr>)) (Some (replicate 9 0)) 9 =
         Some (len, Some out) \<and> len \<le> 9)"
proof -
  let ?s = "tcp_example\<lparr>tcp_payload_len := 18446744073709551606\<rparr>"
  have s: "tcp_wf ?s" "tcp_consistent ?s" "tcp_length ?s = SIZE_LIMIT + 10"
    by (simp_all add: tcp_example_def tcp_built_def tcp_defs tcp_consistent_def tcp_length_def)
  from tcp_serialize_safety [OF s(1), of 10 "replicate 10 0"] tcp_serialize_safety [OF s(1), of 9 "replicate 9 0"] s(2,3)
  show ?thesis by auto
qed

end
