(* ===== verification/Parsers.thy ===== *)
theory Parsers
  imports Ethernet Arp Ipv4 Icmp Udp Tcp
begin

text \<open>
  What the six parsers have in common: their result is a well-formed packet, whatever bytes arrive,
  so the packet can be handed to any other function of the stack.
\<close>

section \<open>Parsers with well-formed results\<close>

text \<open>
  A parser whose packets have the invariant \<open>valid n\<close>, where \<open>n\<close> is the length of the input, and a
  serializer that is safe on every packet with the invariant.
\<close>

locale typed_parser =
  fixes parse :: "bytes ptr \<Rightarrow> nat \<Rightarrow> 'm ptr \<Rightarrow> (int \<times> 'm ptr) option"
    and serialize :: "'m ptr \<Rightarrow> bytes ptr \<Rightarrow> nat \<Rightarrow> (nat \<times> bytes ptr) option"
    and valid :: "nat \<Rightarrow> 'm \<Rightarrow> bool"
  assumes parse_cases: "n \<le> length d \<Longrightarrow>
    (\<exists>m. parse (Some d) n (Some g) = Some (0, Some m) \<and> valid n m) \<or> (\<exists>rc. rc \<noteq> 0 \<and> parse (Some d) n (Some g) = Some (rc, Some g))"
    and serialize_within: "valid n m \<Longrightarrow> k \<le> length buf \<Longrightarrow>
    \<exists>len out. serialize (Some m) (Some buf) k = Some (len, Some out) \<and> length out = length buf \<and> len \<le> k"
begin

lemma typed:
  assumes "n \<le> length d" and "k \<le> length buf"
  shows "\<exists>rc m. parse (Some d) n (Some g) = Some (rc, Some m)
    \<and> (if rc = 0 then valid n m \<and> (\<exists>len out. serialize (Some m) (Some buf) k = Some (len, Some out)
         \<and> length out = length buf \<and> len \<le> k) else m = g)"
  using parse_cases [OF assms(1), of g] serialize_within [OF _ assms(2), of n] by fastforce

end

locale typed_codec = codec +
  assumes parse_valid: "n \<le> length d \<Longrightarrow>
    (\<exists>m. parse (Some d) n (Some g) = Some (0, Some m) \<and> valid m) \<or> (\<exists>rc. rc \<noteq> 0 \<and> parse (Some d) n (Some g) = Some (rc, Some g))"

sublocale typed_codec \<subseteq> typed_parser parse serialize "\<lambda>_. valid"
proof unfold_locales
  fix m k and buf :: bytes
  assume "valid m" and "k \<le> length buf"
  from serialize_safe [OF this]
  show "\<exists>len out. serialize (Some m) (Some buf) k = Some (len, Some out) \<and> length out = length buf \<and> len \<le> k"
    by blast
qed (rule parse_valid)

interpretation eth_typed: typed_codec ethernet_parse ethernet_serialize ethernet_wire ethernet_valid ethernet_norm
proof unfold_locales
  fix n :: nat and d :: bytes and g
  assume n: "n \<le> length d"
  show "(\<exists>m. ethernet_parse (Some d) n (Some g) = Some (0, Some m) \<and> ethernet_valid m)
      \<or> (\<exists>rc. rc \<noteq> 0 \<and> ethernet_parse (Some d) n (Some g) = Some (rc, Some g))"
    using ethernet_parse_ok [OF _ _ n, of g] ethernet_parse_sound [OF n, of g] ethernet_parse_short [of n d g] ethernet_parse_long [of n d g]
    by (cases "n < 14"; cases "1514 < n") auto
qed

interpretation arp_typed: typed_codec arp_parse arp_serialize arp_wire arp_valid "\<lambda>p. p"
proof unfold_locales
  fix n :: nat and d :: bytes and g
  assume n: "n \<le> length d"
  show "(\<exists>m. arp_parse (Some d) n (Some g) = Some (0, Some m) \<and> arp_valid m)
      \<or> (\<exists>rc. rc \<noteq> 0 \<and> arp_parse (Some d) n (Some g) = Some (rc, Some g))"
  proof (cases "n < 28 \<or> \<not> arp_header_ok (take 8 d)")
    case True
    then show ?thesis using arp_parse_reject [OF n True, of g] by fastforce
  next
    case False
    then have "arp_parse (Some d) n (Some g) = Some (0, Some (arp_decode d))" using arp_parse_ok n by simp
    then show ?thesis using arp_parse_sound [OF n] by blast
  qed
qed

interpretation ipv4_typed: typed_codec ipv4_parse ipv4_serialize ipv4_wire ipv4_valid ipv4_norm
proof unfold_locales
  fix n :: nat and d :: bytes and g
  assume n: "n \<le> length d"
  show "(\<exists>m. ipv4_parse (Some d) n (Some g) = Some (0, Some m) \<and> ipv4_valid m)
      \<or> (\<exists>rc. rc \<noteq> 0 \<and> ipv4_parse (Some d) n (Some g) = Some (rc, Some g))"
    using ipv4_parse_ok [OF n, of g] ipv4_decode_valid [OF n] ipv4_parse_reject [OF n, of g]
    by (cases "ipv4_accepts d n") auto
qed

interpretation icmp_typed: typed_codec icmp_parse icmp_serialize icmp_wire icmp_valid icmp_norm
proof unfold_locales
  fix n :: nat and d :: bytes and g
  assume n: "n \<le> length d"
  have "icmp_valid (icmp_decode d n)" if "icmp_accepts d n"
    using that n by (auto simp: icmp_accepts_def icmp_decode_def icmp_defs)
  then show "(\<exists>m. icmp_parse (Some d) n (Some g) = Some (0, Some m) \<and> icmp_valid m)
      \<or> (\<exists>rc. rc \<noteq> 0 \<and> icmp_parse (Some d) n (Some g) = Some (rc, Some g))"
    using icmp_parse_ok [OF n, of g] icmp_parse_reject [OF n, of g] by (cases "icmp_accepts d n") auto
qed

interpretation udp_typed: typed_codec udp_parse udp_serialize udp_wire udp_valid udp_norm
proof unfold_locales
  fix n :: nat and d :: bytes and g
  assume n: "n \<le> length d"
  show "(\<exists>m. udp_parse (Some d) n (Some g) = Some (0, Some m) \<and> udp_valid m)
      \<or> (\<exists>rc. rc \<noteq> 0 \<and> udp_parse (Some d) n (Some g) = Some (rc, Some g))"
    using udp_parse_ok [OF n, of g] udp_decode_valid [OF n] udp_parse_reject [OF n, of g] by (cases "udp_accepts d n") auto
qed

text \<open>
  TCP accepts inputs longer than any packet, up to 65515 bytes of payload behind the header. What
  it stores is then still inside its arrays, and the serializer refuses it by its total length.
\<close>

definition tcp_parsed :: "nat \<Rightarrow> tcp_segment \<Rightarrow> bool" where
  "tcp_parsed n s \<longleftrightarrow> tcp_wf s \<and> tcp_consistent s \<and> tcp_payload_len s \<le> 65515
     \<and> tcp_length s = n \<and> (n \<le> 65535 \<longrightarrow> tcp_valid s)"

lemma tcp_decode_parsed:
  assumes "n \<le> length d" and "tcp_accepts d n"
  shows "tcp_parsed n (tcp_decode d n)"
proof -
  have "\<not> drop_bit 4 (d ! 12) < 5" "\<not> 15 < drop_bit 4 (d ! 12)"
    using offset_guard [of "d ! 12"] assms(2) by (auto simp: tcp_accepts_def)
  then have "tcp_wf (tcp_decode d n) \<and> tcp_consistent (tcp_decode d n)
      \<and> tcp_payload_len (tcp_decode d n) \<le> 65515 \<and> tcp_length (tcp_decode d n) = n"
    using assms offset_bound [of "d ! 12"]
    by (auto simp: tcp_accepts_def tcp_decode_def tcp_defs tcp_consistent_def tcp_length_def Let_def not_less)
  with tcp_decode_valid [OF assms] show ?thesis by (simp add: tcp_parsed_def)
qed

interpretation tcp_typed: typed_parser tcp_parse tcp_serialize tcp_parsed
proof unfold_locales
  fix n :: nat and d :: bytes and g
  assume n: "n \<le> length d"
  show "(\<exists>m. tcp_parse (Some d) n (Some g) = Some (0, Some m) \<and> tcp_parsed n m)
      \<or> (\<exists>rc. rc \<noteq> 0 \<and> tcp_parse (Some d) n (Some g) = Some (rc, Some g))"
    using tcp_parse_ok [OF n, of g] tcp_decode_parsed [OF n] tcp_parse_reject [OF n, of g]
    by (cases "tcp_accepts d n") auto
next
  fix n m k and buf :: bytes
  assume m: "tcp_parsed n m" and k: "k \<le> length buf"
  have "tcp_length m < SIZE_LIMIT"
    using m by (simp add: tcp_parsed_def tcp_consistent_def tcp_length_def word_le_nat_alt)
  with m k show "\<exists>len out. tcp_serialize (Some m) (Some buf) k = Some (len, Some out) \<and> length out = length buf \<and> len \<le> k"
    using tcp_serialize_no_wrap [of m k buf] by (fastforce simp: tcp_parsed_def)
qed

section \<open>Properties\<close>

text \<open>
  The packet a parser stores has the invariant of its type, and a serializer can write it, into any
  buffer. The invariant may depend on the length of the input.
\<close>

definition well_typed ::
  "(bytes ptr \<Rightarrow> nat \<Rightarrow> 'm ptr \<Rightarrow> (int \<times> 'm ptr) option) \<Rightarrow> ('m ptr \<Rightarrow> bytes ptr \<Rightarrow> nat \<Rightarrow> (nat \<times> bytes ptr) option) \<Rightarrow>
    (nat \<Rightarrow> 'm \<Rightarrow> bool) \<Rightarrow> bool" where
  "well_typed parse serialize valid \<longleftrightarrow> (\<forall>d n g buf k. n \<le> length d \<and> k \<le> length buf \<longrightarrow>
    (\<exists>rc m. parse (Some d) n (Some g) = Some (rc, Some m)
      \<and> (if rc = 0 then valid n m \<and> (\<exists>len out. serialize (Some m) (Some buf) k = Some (len, Some out)
           \<and> length out = length buf \<and> len \<le> k) else m = g)))"

text \<open>
  (C17) Parsed packets are well formed. On any input of any length each of the six parsers is memory safe;
  when it accepts, the packet it stores satisfies the invariant of its type (array fields at their declared sizes,
  length fields within them and consistent with the header fields) and its serializer stays inside any
  buffer it is given; when it rejects, the packet is untouched. For TCP the invariant is that of a
  sendable segment when the input has at most 65535 bytes; on a longer input, which the parser may
  accept too, the arrays, the data offset and the lengths are consistent all the same.
\<close>

theorem parsers_well_typed:
  "well_typed ethernet_parse ethernet_serialize (\<lambda>_. ethernet_valid)
    \<and> well_typed arp_parse arp_serialize (\<lambda>_. arp_valid)
    \<and> well_typed ipv4_parse ipv4_serialize (\<lambda>_. ipv4_valid)
    \<and> well_typed icmp_parse icmp_serialize (\<lambda>_. icmp_valid)
    \<and> well_typed udp_parse udp_serialize (\<lambda>_. udp_valid)
    \<and> well_typed tcp_parse tcp_serialize tcp_parsed"
  unfolding well_typed_def
  using eth_typed.typed arp_typed.typed ipv4_typed.typed icmp_typed.typed udp_typed.typed tcp_typed.typed
  by (intro conjI) (blast | fast)+

end
