(* ===== verification/TcpConnection.thy ===== *)
theory TcpConnection
  imports Tcp
begin

text \<open>
  \<^verbatim>\<open>src/src/tcp_connection.c\<close> and \<^verbatim>\<open>src/include/tcp_connection.h\<close>: the connection engine,
  with its send side (one outstanding segment and its retransmission timer) and its receive
  side (the reassembly slots, the buffer of contiguous bytes and the pending FIN).

  The public functions take pointers and check them for \<open>NULL\<close>. The static helpers below
  them are only called with the address of a live connection, so they are functions on the
  connection itself; their own \<open>NULL\<close> checks cannot fire. An array argument of the form
  \<^verbatim>\<open>base + offset\<close> is passed as the array and the offset.
\<close>

section \<open>State\<close>

definition TCP_REASSEMBLY_SLOT_COUNT :: nat where [const_defs]: "TCP_REASSEMBLY_SLOT_COUNT = 16"
definition TCP_REASSEMBLY_SLOT_DATA_LEN :: nat where
  [const_defs]: "TCP_REASSEMBLY_SLOT_DATA_LEN = 2048"
definition TCP_RECEIVE_READY_CAPACITY :: nat where
  [const_defs]: "TCP_RECEIVE_READY_CAPACITY = 32768"
definition TCP_DEFAULT_RTO_MS :: u32 where [const_defs]: "TCP_DEFAULT_RTO_MS = 1000"
definition TCP_DEFAULT_RETRANSMIT_LIMIT :: u32 where
  [const_defs]: "TCP_DEFAULT_RETRANSMIT_LIMIT = 5"
definition TCP_MAX_RTO_MS :: u32 where [const_defs]: "TCP_MAX_RTO_MS = 16000"

datatype tcp_connection_state =
    TCP_STATE_CLOSED | TCP_STATE_SYN_SENT | TCP_STATE_ESTABLISHED | TCP_STATE_FIN_WAIT_1
  | TCP_STATE_FIN_WAIT_2 | TCP_STATE_CLOSE_WAIT | TCP_STATE_LAST_ACK | TCP_STATE_TIME_WAIT
  | TCP_STATE_RESET

record tcp_reassembly_slot =
  slot_used :: bool
  slot_sequence_number :: u32
  slot_payload_len :: nat
  slot_payload :: bytes

record tcp_connection =
  conn_state :: tcp_connection_state
  conn_local_port :: u16
  conn_remote_port :: u16
  conn_send_unacknowledged :: u32
  conn_send_next :: u32
  conn_receive_next :: u32
  conn_remote_window :: u16
  conn_retransmit_timeout_ms :: u32
  conn_retransmit_elapsed_ms :: u32
  conn_retransmit_count :: u32
  conn_retransmit_limit :: u32
  conn_last_segment :: tcp_segment
  conn_has_retransmit_segment :: bool
  conn_reassembly :: "tcp_reassembly_slot list"
  conn_reassembly_count :: nat
  conn_receive_ready :: bytes
  conn_receive_ready_len :: nat
  conn_pending_fin :: bool
  conn_pending_fin_sequence :: u32

definition slot_zero :: tcp_reassembly_slot where
  "slot_zero = \<lparr> slot_used = False, slot_sequence_number = 0, slot_payload_len = 0,
     slot_payload = replicate TCP_REASSEMBLY_SLOT_DATA_LEN 0 \<rparr>"

definition conn_zero :: tcp_connection where
  "conn_zero = \<lparr> conn_state = TCP_STATE_CLOSED, conn_local_port = 0, conn_remote_port = 0,
     conn_send_unacknowledged = 0, conn_send_next = 0, conn_receive_next = 0,
     conn_remote_window = 0, conn_retransmit_timeout_ms = 0, conn_retransmit_elapsed_ms = 0,
     conn_retransmit_count = 0, conn_retransmit_limit = 0, conn_last_segment = tcp_zero,
     conn_has_retransmit_segment = False,
     conn_reassembly = replicate TCP_REASSEMBLY_SLOT_COUNT slot_zero, conn_reassembly_count = 0,
     conn_receive_ready = replicate TCP_RECEIVE_READY_CAPACITY 0, conn_receive_ready_len = 0,
     conn_pending_fin = False, conn_pending_fin_sequence = 0 \<rparr>"

section \<open>Sequence space\<close>

definition seq_lt :: "u32 \<Rightarrow> u32 \<Rightarrow> bool" where
  "seq_lt a b \<longleftrightarrow> sint (a - b) < 0"

definition seq_le :: "u32 \<Rightarrow> u32 \<Rightarrow> bool" where
  "seq_le a b \<longleftrightarrow> sint (a - b) \<le> 0"

definition seq_gt :: "u32 \<Rightarrow> u32 \<Rightarrow> bool" where
  "seq_gt a b \<longleftrightarrow> sint (a - b) > 0"

definition seq_ge :: "u32 \<Rightarrow> u32 \<Rightarrow> bool" where
  "seq_ge a b \<longleftrightarrow> sint (a - b) \<ge> 0"

section \<open>Receive side\<close>

definition remember_for_retransmission ::
  "tcp_connection \<Rightarrow> tcp_segment \<Rightarrow> tcp_connection" where
  "remember_for_retransmission c segment = c\<lparr>conn_last_segment := segment,
     conn_has_retransmit_segment := True, conn_retransmit_elapsed_ms := 0\<rparr>"

definition clear_reassembly :: "tcp_connection \<Rightarrow> tcp_connection" where
  "clear_reassembly c = c\<lparr>
     conn_reassembly := replicate TCP_REASSEMBLY_SLOT_COUNT slot_zero,
     conn_reassembly_count := 0, conn_receive_ready_len := 0, conn_pending_fin := False,
     conn_pending_fin_sequence := 0\<rparr>"

definition ready_append ::
  "tcp_connection \<Rightarrow> bytes \<Rightarrow> nat \<Rightarrow> nat \<Rightarrow> (int \<times> tcp_connection) option" where
  "ready_append c data off data_len =
    (if data_len = 0 then Some (0, c)
     else if conn_receive_ready_len c > TCP_RECEIVE_READY_CAPACITY then Some (-1, c)
     else if data_len > TCP_RECEIVE_READY_CAPACITY - conn_receive_ready_len c then Some (-1, c)
     else do {
       ready \<leftarrow> memcpy (conn_receive_ready c) (conn_receive_ready_len c) data off data_len;
       Some (0, c\<lparr>conn_receive_ready := ready,
         conn_receive_ready_len := conn_receive_ready_len c + data_len\<rparr>) })"

function find_free_slot_from :: "tcp_connection \<Rightarrow> nat \<Rightarrow> int option" where
  "find_free_slot_from c i =
    (if i < TCP_REASSEMBLY_SLOT_COUNT
     then do {
       slot \<leftarrow> rd (conn_reassembly c) i;
       if \<not> slot_used slot then Some (int i) else find_free_slot_from c (i + 1) }
     else Some (-1))"
  by pat_completeness auto
termination by (relation "measure (\<lambda>(c, i). TCP_REASSEMBLY_SLOT_COUNT - i)") auto

declare find_free_slot_from.simps [simp del]

definition find_free_reassembly_slot :: "tcp_connection \<Rightarrow> int option" where
  "find_free_reassembly_slot c = find_free_slot_from c 0"

function range_buffered_from :: "tcp_connection \<Rightarrow> u32 \<Rightarrow> u32 \<Rightarrow> nat \<Rightarrow> bool option" where
  "range_buffered_from c start fin i =
    (if i < TCP_REASSEMBLY_SLOT_COUNT
     then do {
       slot \<leftarrow> rd (conn_reassembly c) i;
       if \<not> slot_used slot then range_buffered_from c start fin (i + 1)
       else let slot_start = slot_sequence_number slot;
                slot_end = slot_start + of_nat (slot_payload_len slot) in
       if seq_ge start slot_start \<and> seq_le fin slot_end then Some True
       else range_buffered_from c start fin (i + 1) }
     else Some False)"
  by pat_completeness auto
termination by (relation "measure (\<lambda>(c, s, e, i). TCP_REASSEMBLY_SLOT_COUNT - i)") auto

declare range_buffered_from.simps [simp del]

definition range_already_buffered :: "tcp_connection \<Rightarrow> u32 \<Rightarrow> u32 \<Rightarrow> bool option" where
  "range_already_buffered c start fin = range_buffered_from c start fin 0"

definition buffer_future_payload ::
  "tcp_connection \<Rightarrow> u32 \<Rightarrow> bytes \<Rightarrow> nat \<Rightarrow> (int \<times> tcp_connection) option" where
  "buffer_future_payload c sequence_number payload payload_len =
    (if payload_len = 0 then Some (-1, c)
     else if payload_len > TCP_REASSEMBLY_SLOT_DATA_LEN then Some (-1, c)
     else do {
       buffered \<leftarrow> range_already_buffered c sequence_number (sequence_number + of_nat payload_len);
       if buffered then Some (0, c)
       else do {
         slot_index \<leftarrow> find_free_reassembly_slot c;
         if slot_index < 0 then Some (-1, c)
         else do {
           slot \<leftarrow> rd (conn_reassembly c) (nat slot_index);
           pl \<leftarrow> memcpy (slot_payload slot) 0 payload 0 payload_len;
           slots \<leftarrow> wr (conn_reassembly c) (nat slot_index)
             (slot\<lparr>slot_used := True, slot_sequence_number := sequence_number,
               slot_payload_len := payload_len, slot_payload := pl\<rparr>);
           Some (0, c\<lparr>conn_reassembly := slots,
             conn_reassembly_count := conn_reassembly_count c + 1\<rparr>) } } })"

definition remove_reassembly_slot :: "tcp_connection \<Rightarrow> nat \<Rightarrow> tcp_connection option" where
  "remove_reassembly_slot c index =
    (if index \<ge> TCP_REASSEMBLY_SLOT_COUNT then Some c
     else do {
       slot \<leftarrow> rd (conn_reassembly c) index;
       if \<not> slot_used slot then Some c
       else do {
         slots \<leftarrow> wr (conn_reassembly c) index slot_zero;
         let c = c\<lparr>conn_reassembly := slots\<rparr>;
         Some (if conn_reassembly_count c > 0
               then c\<lparr>conn_reassembly_count := conn_reassembly_count c - 1\<rparr> else c) } })"

definition fin_transition :: "tcp_connection \<Rightarrow> tcp_connection" where
  "fin_transition c =
    (if conn_state c = TCP_STATE_ESTABLISHED then c\<lparr>conn_state := TCP_STATE_CLOSE_WAIT\<rparr>
     else if conn_state c = TCP_STATE_FIN_WAIT_1 \<or> conn_state c = TCP_STATE_FIN_WAIT_2
     then c\<lparr>conn_state := TCP_STATE_TIME_WAIT\<rparr>
     else c)"

definition consume_pending_fin :: "tcp_connection \<Rightarrow> tcp_connection" where
  "consume_pending_fin c =
    (if \<not> conn_pending_fin c then c
     else if conn_pending_fin_sequence c \<noteq> conn_receive_next c then c
     else fin_transition (c\<lparr>conn_receive_next := conn_receive_next c + 1,
       conn_pending_fin := False\<rparr>))"

text \<open>
  One pass of the \<^verbatim>\<open>for\<close> loop of \<^verbatim>\<open>promote_reassembly\<close>, from slot \<open>i\<close> on. The result's second
  part is \<open>None\<close> when the pass ended the function with -1, else the flag \<^verbatim>\<open>progress\<close>.
\<close>

definition promote_slot ::
  "tcp_connection \<Rightarrow> nat \<Rightarrow> (tcp_connection \<times> bool option) option" where
  "promote_slot c i = do {
     slot \<leftarrow> rd (conn_reassembly c) i;
     if \<not> slot_used slot then Some (c, Some False)
     else let start = slot_sequence_number slot;
              fin = start + of_nat (slot_payload_len slot) in
     if seq_le fin (conn_receive_next c)
     then do { c \<leftarrow> remove_reassembly_slot c i; Some (c, Some True) }
     else if seq_gt start (conn_receive_next c) then Some (c, Some False)
     else let overlap = conn_receive_next c - start in
     if unat overlap > slot_payload_len slot then Some (c, Some False)
     else let payload_offset = unat overlap;
              new_len = slot_payload_len slot - payload_offset in do {
       (rc, c) \<leftarrow> (if new_len > 0 then ready_append c (slot_payload slot) payload_offset new_len
                  else Some (0, c));
       if rc \<noteq> 0 then Some (c, None)
       else do {
         let c = c\<lparr>conn_receive_next := conn_receive_next c + of_nat new_len\<rparr>;
         c \<leftarrow> remove_reassembly_slot c i;
         Some (c, Some True) } } }"

function promote_scan ::
  "tcp_connection \<Rightarrow> nat \<Rightarrow> bool \<Rightarrow> (tcp_connection \<times> bool option) option" where
  "promote_scan c i progress =
    (if i < TCP_REASSEMBLY_SLOT_COUNT
     then case promote_slot c i of
         None \<Rightarrow> None
       | Some (c, None) \<Rightarrow> Some (c, None)
       | Some (c, Some p) \<Rightarrow> promote_scan c (i + 1) (progress \<or> p)
     else Some (c, Some progress))"
  by pat_completeness auto
termination by (relation "measure (\<lambda>(c, i, p). TCP_REASSEMBLY_SLOT_COUNT - i)") auto

declare promote_scan.simps [simp del]

definition used_slots :: "tcp_connection \<Rightarrow> nat" where
  "used_slots c = length (filter slot_used (conn_reassembly c))"

lemma used_slots_update:
  assumes "i < length xs" and "slot_used (xs ! i)" and "\<not> slot_used s"
  shows "length (filter slot_used (xs[i := s])) < length (filter slot_used xs)"
    and "Suc (length (filter slot_used (xs[i := s]))) = length (filter slot_used xs)"
proof -
  have u: "xs[i := s] = take i xs @ s # drop (Suc i) xs"
    using assms(1) by (rule upd_conv_take_nth_drop)
  have x: "filter slot_used xs = filter slot_used (take i xs @ xs ! i # drop (Suc i) xs)"
    using id_take_nth_drop [OF assms(1)] by simp
  show "length (filter slot_used (xs[i := s])) < length (filter slot_used xs)"
    "Suc (length (filter slot_used (xs[i := s]))) = length (filter slot_used xs)"
    unfolding u x using assms by simp_all
qed

lemma wr_update: "wr xs i v = (if i < length xs then Some (xs[i := v]) else None)"
  by (simp add: wr_def mem_write_def blit_def upd_conv_take_nth_drop)

lemma remove_reassembly_slot_used:
  assumes "remove_reassembly_slot c i = Some c'" and "i < TCP_REASSEMBLY_SLOT_COUNT"
    and "rd (conn_reassembly c) i = Some slot" and "slot_used slot"
  shows "conn_reassembly c' = (conn_reassembly c)[i := slot_zero]" and "used_slots c' < used_slots c"
  using assms used_slots_update(1) [of i "conn_reassembly c" slot_zero]
  by (auto simp: remove_reassembly_slot_def used_slots_def Let_def wr_update slot_zero_def rd_def
      split: if_splits)

lemma ready_append_frame:
  "ready_append c d f n = Some (rc, c') \<Longrightarrow> conn_reassembly c' = conn_reassembly c"
  by (auto simp: ready_append_def split: if_splits bind_splits)

lemma promote_slot_used:
  assumes "promote_slot c i = Some (c', Some p)" and "i < TCP_REASSEMBLY_SLOT_COUNT"
  shows "if p then used_slots c' < used_slots c else c' = c"
proof -
  have rs: "used_slots c' < used_slots c"
    if "remove_reassembly_slot (c2\<lparr>conn_receive_next := w\<rparr>) i = Some c'"
      and "ready_append c d f n = Some (rc, c2)"
      and "rd (conn_reassembly c) i = Some slot" and "slot_used slot" for c2 w slot d f n rc
    using remove_reassembly_slot_used(2) [OF that(1) assms(2)] ready_append_frame [OF that(2)] that
    by (simp add: used_slots_def)
  have rs0: "used_slots c' < used_slots c"
    if "remove_reassembly_slot (c\<lparr>conn_receive_next := w\<rparr>) i = Some c'"
      and "rd (conn_reassembly c) i = Some slot" and "slot_used slot" for w slot
    using remove_reassembly_slot_used(2) [OF that(1) assms(2)] that by (simp add: used_slots_def)
  show ?thesis
    using assms
    by (auto simp: promote_slot_def Let_def split: if_splits bind_splits
        dest: remove_reassembly_slot_used(2) rs rs0)
qed

lemma promote_scan_used:
  assumes "promote_scan c i q = Some (c', Some p)"
  shows "used_slots c' \<le> used_slots c \<and> (p \<longrightarrow> q \<or> used_slots c' < used_slots c)"
  using assms
proof (induction c i q rule: promote_scan.induct)
  case (1 c i q)
  show ?case
  proof (cases "i < TCP_REASSEMBLY_SLOT_COUNT")
    case True
    with "1.prems" obtain c1 p1 where s: "promote_slot c i = Some (c1, Some p1)"
      and r: "promote_scan c1 (i + 1) (q \<or> p1) = Some (c', Some p)"
      by (subst (asm) promote_scan.simps) (auto split: option.splits prod.splits)
    from "1.IH" [OF True s _ refl r] promote_slot_used [OF s True] show ?thesis
      by (auto split: if_splits)
  next
    case False
    with "1.prems" show ?thesis by (simp add: promote_scan.simps)
  qed
qed

text \<open>\<^verbatim>\<open>while (progress) { progress = 0; for ... }\<close>: every pass with progress empties a slot.\<close>

function promote_loop :: "tcp_connection \<Rightarrow> (int \<times> tcp_connection) option" where
  "promote_loop c =
    (case promote_scan c 0 False of
       None \<Rightarrow> None
     | Some (c', None) \<Rightarrow> Some (-1, c')
     | Some (c', Some progress) \<Rightarrow> if progress then promote_loop c' else Some (0, c'))"
  by pat_completeness auto
termination
  by (relation "measure used_slots") (auto dest: promote_scan_used)

declare promote_loop.simps [simp del]

definition promote_reassembly :: "tcp_connection \<Rightarrow> (int \<times> tcp_connection) option" where
  "promote_reassembly c = do {
     (rc, c) \<leftarrow> promote_loop c;
     if rc \<noteq> 0 then Some (-1, c) else Some (0, consume_pending_fin c) }"

definition process_payload ::
  "tcp_connection \<Rightarrow> tcp_segment \<Rightarrow> (int \<times> tcp_connection) option" where
  "process_payload c segment =
    (if tcp_payload_len segment = 0 then Some (0, c)
     else let start = tcp_sequence_number segment;
              fin = start + of_nat (tcp_payload_len segment) in
     if seq_le fin (conn_receive_next c) then Some (0, c)
     else if seq_gt start (conn_receive_next c)
     then do {
       (rc, c) \<leftarrow> buffer_future_payload c start (tcp_payload segment) (tcp_payload_len segment);
       Some (if rc \<noteq> 0 then -1 else 0, c) }
     else let overlap = conn_receive_next c - start in
     if unat overlap > tcp_payload_len segment then Some (0, c)
     else let payload_offset = unat overlap;
              new_len = tcp_payload_len segment - payload_offset in do {
       (rc, c) \<leftarrow> (if new_len > 0 then ready_append c (tcp_payload segment) payload_offset new_len
                  else Some (0, c));
       if rc \<noteq> 0 then Some (-1, c)
       else promote_reassembly (c\<lparr>conn_receive_next := conn_receive_next c + of_nat new_len\<rparr>) })"

definition process_fin :: "tcp_connection \<Rightarrow> tcp_segment \<Rightarrow> tcp_connection" where
  "process_fin c segment =
    (if tcp_flags segment AND TCP_FLAG_FIN = 0 then c
     else let fin_sequence = tcp_sequence_number segment + of_nat (tcp_payload_len segment) in
     if fin_sequence = conn_receive_next c
     then fin_transition (c\<lparr>conn_receive_next := conn_receive_next c + 1\<rparr>)
     else if seq_gt fin_sequence (conn_receive_next c)
       \<and> (\<not> conn_pending_fin c \<or> seq_lt fin_sequence (conn_pending_fin_sequence c))
     then c\<lparr>conn_pending_fin := True, conn_pending_fin_sequence := fin_sequence\<rparr>
     else c)"

section \<open>Public operations\<close>

definition tcp_connection_init ::
  "tcp_connection ptr \<Rightarrow> u16 \<Rightarrow> u16 \<Rightarrow> u32 \<Rightarrow> tcp_connection ptr" where
  "tcp_connection_init connection local_port remote_port initial_sequence =
    (case connection of None \<Rightarrow> None
     | Some _ \<Rightarrow> Some (clear_reassembly (conn_zero\<lparr>conn_state := TCP_STATE_CLOSED,
         conn_local_port := local_port, conn_remote_port := remote_port,
         conn_send_unacknowledged := initial_sequence, conn_send_next := initial_sequence,
         conn_receive_next := 0, conn_remote_window := 0,
         conn_retransmit_timeout_ms := TCP_DEFAULT_RTO_MS,
         conn_retransmit_limit := TCP_DEFAULT_RETRANSMIT_LIMIT\<rparr>)))"

definition tcp_connection_build_syn ::
  "tcp_connection ptr \<Rightarrow> tcp_segment ptr \<Rightarrow> u16 \<Rightarrow>
    (int \<times> tcp_connection ptr \<times> tcp_segment ptr) option" where
  "tcp_connection_build_syn connection segment window =
    (case (connection, segment) of
       (Some c, Some _) \<Rightarrow>
         if conn_state c \<noteq> TCP_STATE_CLOSED then Some (-1, connection, segment)
         else do {
           (rc, segment) \<leftarrow> tcp_build segment (conn_local_port c) (conn_remote_port c)
             (conn_send_next c) 0 TCP_FLAG_SYN window None 0;
           if rc \<noteq> 0 then Some (-1, connection, segment)
           else do {
             s \<leftarrow> segment;
             let c = c\<lparr>conn_send_unacknowledged := conn_send_next c,
               conn_send_next := conn_send_next c + 1, conn_state := TCP_STATE_SYN_SENT\<rparr>;
             Some (0, Some (remember_for_retransmission c s), segment) } }
     | _ \<Rightarrow> Some (-1, connection, segment))"

text \<open>The stages of \<^verbatim>\<open>tcp_connection_on_segment\<close>, in the order of its body.\<close>

definition on_rst :: "tcp_connection \<Rightarrow> tcp_connection" where
  "on_rst c = clear_reassembly (c\<lparr>conn_state := TCP_STATE_RESET,
     conn_has_retransmit_segment := False\<rparr>)"

definition on_ack :: "tcp_connection \<Rightarrow> tcp_segment \<Rightarrow> tcp_connection" where
  "on_ack c segment =
    (if tcp_flags segment AND TCP_FLAG_ACK \<noteq> 0
        \<and> seq_gt (tcp_acknowledgment_number segment) (conn_send_unacknowledged c)
        \<and> seq_le (tcp_acknowledgment_number segment) (conn_send_next c)
     then let c = c\<lparr>conn_send_unacknowledged := tcp_acknowledgment_number segment,
                conn_retransmit_elapsed_ms := 0, conn_retransmit_count := 0\<rparr> in
       if conn_send_unacknowledged c = conn_send_next c
       then c\<lparr>conn_has_retransmit_segment := False,
              conn_retransmit_timeout_ms := TCP_DEFAULT_RTO_MS\<rparr>
       else c
     else c)"

definition on_syn_sent :: "tcp_connection \<Rightarrow> tcp_segment \<Rightarrow> int \<times> tcp_connection" where
  "on_syn_sent c segment =
    (if tcp_flags segment AND (TCP_FLAG_SYN OR TCP_FLAG_ACK) = TCP_FLAG_SYN OR TCP_FLAG_ACK
     then if tcp_acknowledgment_number segment \<noteq> conn_send_next c then (-1, c)
       else (1, c\<lparr>conn_receive_next := tcp_sequence_number segment + 1,
         conn_state := TCP_STATE_ESTABLISHED, conn_has_retransmit_segment := False,
         conn_retransmit_count := 0, conn_retransmit_elapsed_ms := 0,
         conn_retransmit_timeout_ms := TCP_DEFAULT_RTO_MS\<rparr>)
     else (0, c))"

definition receives_data :: "tcp_connection_state \<Rightarrow> bool" where
  "receives_data st \<longleftrightarrow> \<not> (st \<noteq> TCP_STATE_ESTABLISHED \<and> st \<noteq> TCP_STATE_FIN_WAIT_1
     \<and> st \<noteq> TCP_STATE_FIN_WAIT_2 \<and> st \<noteq> TCP_STATE_CLOSE_WAIT \<and> st \<noteq> TCP_STATE_LAST_ACK)"

definition on_fin_acked :: "tcp_connection \<Rightarrow> tcp_connection" where
  "on_fin_acked c = (let
     c = (if conn_state c = TCP_STATE_FIN_WAIT_1 \<and> conn_send_unacknowledged c = conn_send_next c
          then c\<lparr>conn_state := TCP_STATE_FIN_WAIT_2\<rparr> else c) in
     if conn_state c = TCP_STATE_LAST_ACK \<and> conn_send_unacknowledged c = conn_send_next c
     then c\<lparr>conn_state := TCP_STATE_CLOSED, conn_has_retransmit_segment := False\<rparr> else c)"

definition tcp_connection_on_segment ::
  "tcp_connection ptr \<Rightarrow> tcp_segment ptr \<Rightarrow> (int \<times> tcp_connection ptr) option" where
  "tcp_connection_on_segment connection segment =
    (case (connection, segment) of
       (Some c, Some s) \<Rightarrow>
         if tcp_source_port s \<noteq> conn_remote_port c \<or> tcp_destination_port s \<noteq> conn_local_port c
         then Some (-1, connection)
         else if tcp_flags s AND TCP_FLAG_RST \<noteq> 0 then Some (0, Some (on_rst c))
         else let c = (on_ack c s)\<lparr>conn_remote_window := tcp_window_size s\<rparr> in
         if conn_state c = TCP_STATE_SYN_SENT
         then let (rc, c) = on_syn_sent c s in Some (rc, Some c)
         else if \<not> receives_data (conn_state c) then Some (0, Some c)
         else do {
           (rc, c) \<leftarrow> process_payload c s;
           if rc \<noteq> 0 then Some (-2, Some c)
           else Some (0, Some (on_fin_acked (consume_pending_fin (process_fin c s)))) }
     | _ \<Rightarrow> Some (-1, connection))"

definition tcp_connection_build_ack ::
  "tcp_connection ptr \<Rightarrow> tcp_segment ptr \<Rightarrow> u16 \<Rightarrow> (int \<times> tcp_segment ptr) option" where
  "tcp_connection_build_ack connection segment window =
    (case (connection, segment) of
       (Some c, Some _) \<Rightarrow>
         tcp_build segment (conn_local_port c) (conn_remote_port c) (conn_send_next c)
           (conn_receive_next c) TCP_FLAG_ACK window None 0
     | _ \<Rightarrow> Some (-1, segment))"

definition tcp_connection_build_data ::
  "tcp_connection ptr \<Rightarrow> tcp_segment ptr \<Rightarrow> bytes ptr \<Rightarrow> nat \<Rightarrow> u16 \<Rightarrow>
    (int \<times> tcp_connection ptr \<times> tcp_segment ptr) option" where
  "tcp_connection_build_data connection segment payload payload_len window =
    (case (connection, segment, payload) of
       (Some c, Some _, Some _) \<Rightarrow>
         if payload_len = 0 \<or> conn_state c \<noteq> TCP_STATE_ESTABLISHED
         then Some (-1, connection, segment)
         else do {
           (rc, segment) \<leftarrow> tcp_build segment (conn_local_port c) (conn_remote_port c)
             (conn_send_next c) (conn_receive_next c) (TCP_FLAG_PSH OR TCP_FLAG_ACK) window
             payload payload_len;
           if rc \<noteq> 0 then Some (-1, connection, segment)
           else do {
             s \<leftarrow> segment;
             let c = c\<lparr>conn_send_unacknowledged := conn_send_next c,
               conn_send_next := conn_send_next c + of_nat payload_len\<rparr>;
             Some (0, Some (remember_for_retransmission c s), segment) } }
     | _ \<Rightarrow> Some (-1, connection, segment))"

definition tcp_connection_build_fin ::
  "tcp_connection ptr \<Rightarrow> tcp_segment ptr \<Rightarrow> u16 \<Rightarrow>
    (int \<times> tcp_connection ptr \<times> tcp_segment ptr) option" where
  "tcp_connection_build_fin connection segment window =
    (case (connection, segment) of
       (Some c, Some _) \<Rightarrow>
         if conn_state c \<noteq> TCP_STATE_ESTABLISHED \<and> conn_state c \<noteq> TCP_STATE_CLOSE_WAIT
         then Some (-1, connection, segment)
         else do {
           (rc, segment) \<leftarrow> tcp_build segment (conn_local_port c) (conn_remote_port c)
             (conn_send_next c) (conn_receive_next c) (TCP_FLAG_FIN OR TCP_FLAG_ACK) window
             None 0;
           if rc \<noteq> 0 then Some (-1, connection, segment)
           else do {
             s \<leftarrow> segment;
             let c = c\<lparr>conn_send_unacknowledged := conn_send_next c,
               conn_send_next := conn_send_next c + 1\<rparr>;
             let c = (if conn_state c = TCP_STATE_CLOSE_WAIT
               then c\<lparr>conn_state := TCP_STATE_LAST_ACK\<rparr>
               else c\<lparr>conn_state := TCP_STATE_FIN_WAIT_1\<rparr>);
             Some (0, Some (remember_for_retransmission c s), segment) } }
     | _ \<Rightarrow> Some (-1, connection, segment))"

definition tick_elapsed :: "u32 \<Rightarrow> u32 \<Rightarrow> u32" where
  "tick_elapsed current elapsed_ms =
    (if elapsed_ms > 0xFFFFFFFF - current then 0xFFFFFFFF else current + elapsed_ms)"

definition tick_backoff :: "u32 \<Rightarrow> u32" where
  "tick_backoff timeout =
    (if timeout < TCP_MAX_RTO_MS
     then let doubled = timeout * 2 in if doubled > TCP_MAX_RTO_MS then TCP_MAX_RTO_MS else doubled
     else timeout)"

definition tcp_connection_tick ::
  "tcp_connection ptr \<Rightarrow> u32 \<Rightarrow> tcp_segment ptr \<Rightarrow> int \<times> tcp_connection ptr \<times> tcp_segment ptr" where
  "tcp_connection_tick connection elapsed_ms retransmit_segment =
    (case (connection, retransmit_segment) of
       (Some c, Some _) \<Rightarrow>
         if \<not> conn_has_retransmit_segment c then (0, connection, retransmit_segment)
         else let c = c\<lparr>conn_retransmit_elapsed_ms :=
                tick_elapsed (conn_retransmit_elapsed_ms c) elapsed_ms\<rparr> in
         if conn_retransmit_elapsed_ms c < conn_retransmit_timeout_ms c
         then (0, Some c, retransmit_segment)
         else if conn_retransmit_count c \<ge> conn_retransmit_limit c
         then (-1, Some (c\<lparr>conn_state := TCP_STATE_RESET, conn_has_retransmit_segment := False\<rparr>),
               retransmit_segment)
         else (1, Some (c\<lparr>conn_retransmit_count := conn_retransmit_count c + 1,
                 conn_retransmit_elapsed_ms := 0,
                 conn_retransmit_timeout_ms := tick_backoff (conn_retransmit_timeout_ms c)\<rparr>),
               Some (conn_last_segment c))
     | _ \<Rightarrow> (-1, connection, retransmit_segment))"

definition tcp_connection_read ::
  "tcp_connection ptr \<Rightarrow> bytes ptr \<Rightarrow> nat \<Rightarrow> (nat \<times> tcp_connection ptr \<times> bytes ptr) option" where
  "tcp_connection_read connection buffer buffer_len =
    (case (connection, buffer) of
       (Some c, Some b) \<Rightarrow>
         if buffer_len = 0 \<or> conn_receive_ready_len c = 0 then Some (0, connection, buffer)
         else let copy_len = (if conn_receive_ready_len c > buffer_len then buffer_len
                              else conn_receive_ready_len c) in do {
           b \<leftarrow> memcpy b 0 (conn_receive_ready c) 0 copy_len;
           let remaining = conn_receive_ready_len c - copy_len;
           ready \<leftarrow> (if remaining > 0
                     then memcpy (conn_receive_ready c) 0 (conn_receive_ready c) copy_len remaining
                     else Some (conn_receive_ready c));
           Some (copy_len, Some (c\<lparr>conn_receive_ready := ready,
             conn_receive_ready_len := remaining\<rparr>), Some b) }
     | _ \<Rightarrow> Some (0, connection, buffer))"

definition tcp_connection_readable :: "tcp_connection ptr \<Rightarrow> nat" where
  "tcp_connection_readable connection =
    (case connection of None \<Rightarrow> 0 | Some c \<Rightarrow> conn_receive_ready_len c)"

definition tcp_connection_reassembly_count :: "tcp_connection ptr \<Rightarrow> nat" where
  "tcp_connection_reassembly_count connection =
    (case connection of None \<Rightarrow> 0 | Some c \<Rightarrow> conn_reassembly_count c)"

fun tcp_connection_state_name :: "tcp_connection_state \<Rightarrow> string" where
  "tcp_connection_state_name TCP_STATE_CLOSED = ''CLOSED''"
| "tcp_connection_state_name TCP_STATE_SYN_SENT = ''SYN-SENT''"
| "tcp_connection_state_name TCP_STATE_ESTABLISHED = ''ESTABLISHED''"
| "tcp_connection_state_name TCP_STATE_FIN_WAIT_1 = ''FIN-WAIT-1''"
| "tcp_connection_state_name TCP_STATE_FIN_WAIT_2 = ''FIN-WAIT-2''"
| "tcp_connection_state_name TCP_STATE_CLOSE_WAIT = ''CLOSE-WAIT''"
| "tcp_connection_state_name TCP_STATE_LAST_ACK = ''LAST-ACK''"
| "tcp_connection_state_name TCP_STATE_TIME_WAIT = ''TIME-WAIT''"
| "tcp_connection_state_name TCP_STATE_RESET = ''RESET''"

end
