(* ===== verification/TcpInvariant.thy ===== *)
theory TcpInvariant
  imports TcpConnection
begin

text \<open>
  Well-formed connections, and the safety of every operation on them: no access outside
  an array, and the bookkeeping of slots and buffers stays consistent. The loop of
  \<^verbatim>\<open>promote_reassembly\<close> is characterised as a sequence of steps of an inductive relation,
  on which the later theories induct.
\<close>

section \<open>Sequence arithmetic\<close>

lemma sint_of_int_u32: "- 2147483648 \<le> k \<Longrightarrow> k < 2147483648 \<Longrightarrow> sint (of_int k :: u32) = k"
  by (simp add: signed_of_int signed_take_bit_int_eq_self)

lemma sint_diff:
  fixes a b :: nat
  assumes "a \<le> b + 2147483647" and "b \<le> a + 2147483648"
  shows "sint (base + of_nat a - (base + of_nat b) :: u32) = int a - int b"
proof -
  have "base + of_nat a - (base + of_nat b) = (of_int (int a - int b) :: u32)" by simp
  moreover have "- 2147483648 \<le> int a - int b" "int a - int b < 2147483648"
    using assms by linarith+
  ultimately show ?thesis by (simp only: sint_of_int_u32)
qed

text \<open>
  A range that is neither entirely received nor entirely in the future has a received
  part that is shorter than the range.
\<close>

lemma seq_overlap:
  fixes start rn :: u32
  assumes "\<not> seq_gt start rn" and "\<not> seq_le (start + of_nat len) rn"
  shows "unat (rn - start) < len"
proof (rule ccontr)
  define k where "k = unat (rn - start)"
  have k: "of_nat k = rn - start" by (simp add: k_def)
  have s: "start - rn = of_int (- int k)" by (simp add: k)
  have lt: "k < 4294967296" using unat_word_less [of "rn - start"] by (simp add: k_def)
  have k31: "k \<le> 2147483648"
  proof (rule ccontr)
    assume "\<not> k \<le> 2147483648"
    then have "sint (of_int (4294967296 - int k) :: u32) = 4294967296 - int k"
      using lt by (intro sint_of_int_u32) auto
    moreover have "(of_int (4294967296 - int k) :: u32) = of_int (- int k)"
    proof -
      have "(4294967296 :: u32) = 0" by (simp add: word_eq_iff_unsigned)
      then show ?thesis by simp
    qed
    ultimately have "sint (start - rn) = 4294967296 - int k" by (simp only: s)
    then show False using assms(1) lt by (simp add: seq_gt_def)
  qed
  assume "\<not> unat (rn - start) < len"
  then have "len \<le> k" by (simp add: k_def)
  then have "sint (of_int (int len - int k) :: u32) = int len - int k"
    using k31 by (intro sint_of_int_u32) auto
  moreover have "start + of_nat len - rn = of_int (int len - int k)"
    by (simp add: k)
  ultimately have "sint (start + of_nat len - rn) = int len - int k" by (simp only:)
  then show False
    using assms(2) \<open>len \<le> k\<close> by (simp add: seq_le_def)
qed

section \<open>Well-formedness\<close>

definition slot_wf :: "tcp_reassembly_slot \<Rightarrow> bool" where
  "slot_wf s \<longleftrightarrow> length (slot_payload s) = 2048 \<and> slot_payload_len s \<le> 2048"

definition conn_wf :: "tcp_connection \<Rightarrow> bool" where
  "conn_wf c \<longleftrightarrow> length (conn_reassembly c) = 16 \<and> list_all slot_wf (conn_reassembly c)
     \<and> conn_reassembly_count c = used_slots c
     \<and> length (conn_receive_ready c) = 32768 \<and> conn_receive_ready_len c \<le> 32768"

definition segment_wf :: "tcp_segment \<Rightarrow> bool" where
  "segment_wf s \<longleftrightarrow> length (tcp_payload s) = 65515 \<and> tcp_payload_len s \<le> 65515"

text \<open>What the operations on slots and on the ready buffer come to in a well-formed state.\<close>

definition slot_drop :: "tcp_connection \<Rightarrow> nat \<Rightarrow> tcp_connection" where
  "slot_drop c i = c\<lparr>conn_reassembly := (conn_reassembly c)[i := slot_zero],
     conn_reassembly_count := conn_reassembly_count c - 1\<rparr>"

definition ready_put :: "tcp_connection \<Rightarrow> bytes \<Rightarrow> tcp_connection" where
  "ready_put c bs = c\<lparr>conn_receive_ready := blit (conn_receive_ready_len c) bs (conn_receive_ready c),
     conn_receive_ready_len := conn_receive_ready_len c + length bs,
     conn_receive_next := conn_receive_next c + of_nat (length bs)\<rparr>"

abbreviation slot_at :: "tcp_connection \<Rightarrow> nat \<Rightarrow> tcp_reassembly_slot" where
  "slot_at c i \<equiv> conn_reassembly c ! i"

definition slot_start :: "tcp_reassembly_slot \<Rightarrow> u32" where
  "slot_start s = slot_sequence_number s"

definition slot_end :: "tcp_reassembly_slot \<Rightarrow> u32" where
  "slot_end s = slot_sequence_number s + of_nat (slot_payload_len s)"

definition slot_data :: "tcp_reassembly_slot \<Rightarrow> bytes" where
  "slot_data s = take (slot_payload_len s) (slot_payload s)"

definition slot_rest :: "tcp_connection \<Rightarrow> nat \<Rightarrow> bytes" where
  "slot_rest c i =
     drop (unat (conn_receive_next c - slot_start (slot_at c i))) (slot_data (slot_at c i))"

definition slot_due :: "tcp_connection \<Rightarrow> nat \<Rightarrow> bool" where
  "slot_due c i \<longleftrightarrow> i < 16 \<and> slot_used (slot_at c i)
     \<and> \<not> seq_le (slot_end (slot_at c i)) (conn_receive_next c)
     \<and> \<not> seq_gt (slot_start (slot_at c i)) (conn_receive_next c)"

lemma length_slot_data: "slot_wf s \<Longrightarrow> length (slot_data s) = slot_payload_len s"
  by (simp add: slot_wf_def slot_data_def)

lemma conn_wf_slot: "conn_wf c \<Longrightarrow> i < 16 \<Longrightarrow> slot_wf (slot_at c i)"
  by (simp add: conn_wf_def list_all_length)

lemma slot_zero_wf [simp]: "slot_wf slot_zero" and slot_zero_unused [simp]: "\<not> slot_used slot_zero"
  by (simp_all add: slot_wf_def slot_zero_def const_defs)

lemma list_all_update: "list_all P xs \<Longrightarrow> P x \<Longrightarrow> list_all P (xs[i := x])"
  by (cases "i < length xs") (auto simp: list_all_length nth_list_update)

lemma slot_drop_wf:
  assumes "conn_wf c" and "i < 16" and "slot_used (slot_at c i)"
  shows "conn_wf (slot_drop c i)"
proof -
  have "Suc (length (filter slot_used ((conn_reassembly c)[i := slot_zero]))) = used_slots c"
    using used_slots_update(2) [of i "conn_reassembly c" slot_zero] assms
    by (simp add: conn_wf_def used_slots_def)
  then show ?thesis
    using assms by (auto simp: conn_wf_def slot_drop_def used_slots_def list_all_update)
qed

lemma ready_put_wf:
  assumes "conn_wf c" and "conn_receive_ready_len c + length bs \<le> 32768"
  shows "conn_wf (ready_put c bs)"
  using assms by (simp add: conn_wf_def ready_put_def used_slots_def)

lemma remove_reassembly_slot_eq:
  assumes "conn_wf c" and "i < 16" and "slot_used (slot_at c i)"
  shows "remove_reassembly_slot c i = Some (slot_drop c i)"
proof -
  have "0 < conn_reassembly_count c"
    using assms used_slots_update(1) [of i "conn_reassembly c" slot_zero]
    by (auto simp: conn_wf_def used_slots_def)
  then show ?thesis
    using assms
    by (simp add: remove_reassembly_slot_def const_defs conn_wf_def rd_Some wr_update slot_drop_def)
qed

lemma ready_append_eq:
  assumes "conn_wf c" and "off + n \<le> length d" and "0 < n"
  shows "ready_append c d off n =
    (if conn_receive_ready_len c + n \<le> 32768
     then Some (0, c\<lparr>conn_receive_ready :=
         blit (conn_receive_ready_len c) (take n (drop off d)) (conn_receive_ready c),
       conn_receive_ready_len := conn_receive_ready_len c + n\<rparr>)
     else Some (-1, c))"
  using assms by (auto simp: ready_append_def const_defs conn_wf_def memcpy_Some)

section \<open>Promotion\<close>

text \<open>
  One step of the promotion loop: a slot that is entirely received is dropped, or a slot
  that continues the received bytes is delivered, its received prefix cut off.
\<close>

inductive promote_step :: "tcp_connection \<Rightarrow> tcp_connection \<Rightarrow> bool" where
  drop_stale: "i < 16 \<Longrightarrow> slot_used (slot_at c i) \<Longrightarrow>
    seq_le (slot_end (slot_at c i)) (conn_receive_next c) \<Longrightarrow> promote_step c (slot_drop c i)"
| deliver: "slot_due c i \<Longrightarrow> conn_receive_ready_len c + length (slot_rest c i) \<le> 32768 \<Longrightarrow>
    promote_step c (slot_drop (ready_put c (slot_rest c i)) i)"

inductive_cases promote_stepE: "promote_step c c'"

definition promotion_blocked :: "tcp_connection \<Rightarrow> bool" where
  "promotion_blocked c \<longleftrightarrow> (\<exists>i. slot_due c i
     \<and> 32768 < conn_receive_ready_len c + length (slot_rest c i))"

definition all_future :: "tcp_connection \<Rightarrow> nat \<Rightarrow> bool" where
  "all_future c i \<longleftrightarrow> (\<forall>j. i \<le> j \<and> j < 16 \<and> slot_used (slot_at c j) \<longrightarrow>
     seq_gt (slot_start (slot_at c j)) (conn_receive_next c))"

lemma ready_put_frame [simp]:
  "conn_reassembly (ready_put c bs) = conn_reassembly c"
  "conn_state (ready_put c bs) = conn_state c"
  "conn_receive_next (ready_put c bs) = conn_receive_next c + of_nat (length bs)"
  "conn_pending_fin (ready_put c bs) = conn_pending_fin c"
  "conn_pending_fin_sequence (ready_put c bs) = conn_pending_fin_sequence c"
  by (simp_all add: ready_put_def)

lemma slot_drop_frame [simp]:
  "conn_reassembly (slot_drop c i) = (conn_reassembly c)[i := slot_zero]"
  "conn_state (slot_drop c i) = conn_state c"
  "conn_receive_next (slot_drop c i) = conn_receive_next c"
  "conn_pending_fin (slot_drop c i) = conn_pending_fin c"
  "conn_pending_fin_sequence (slot_drop c i) = conn_pending_fin_sequence c"
  "conn_receive_ready (slot_drop c i) = conn_receive_ready c"
  "conn_receive_ready_len (slot_drop c i) = conn_receive_ready_len c"
  by (simp_all add: slot_drop_def)

lemma promote_step_wf:
  assumes "promote_step c c'" and "conn_wf c"
  shows "conn_wf c'"
  using assms
proof cases
  case (drop_stale i)
  with assms(2) show ?thesis by (simp add: slot_drop_wf)
next
  case (deliver i)
  with assms(2) show ?thesis by (auto simp: slot_due_def intro!: slot_drop_wf ready_put_wf)
qed

lemma slot_due_length:
  assumes "conn_wf c" and "slot_due c i"
  shows "length (slot_rest c i) =
      slot_payload_len (slot_at c i) - unat (conn_receive_next c - slot_start (slot_at c i))"
    and "unat (conn_receive_next c - slot_start (slot_at c i)) < slot_payload_len (slot_at c i)"
proof -
  show "unat (conn_receive_next c - slot_start (slot_at c i)) < slot_payload_len (slot_at c i)"
    using assms(2) by (intro seq_overlap) (simp_all add: slot_due_def slot_start_def slot_end_def)
  have "slot_wf (slot_at c i)" using assms by (auto simp: slot_due_def intro: conn_wf_slot)
  then show "length (slot_rest c i) =
      slot_payload_len (slot_at c i) - unat (conn_receive_next c - slot_start (slot_at c i))"
    by (simp add: slot_rest_def length_slot_data)
qed

lemma promote_slot_due:
  assumes wf: "conn_wf c" and due: "slot_due c i"
  shows "promote_slot c i =
    (if conn_receive_ready_len c + length (slot_rest c i) \<le> 32768
     then Some (slot_drop (ready_put c (slot_rest c i)) i, Some True) else Some (c, None))"
proof -
  define s where "s = slot_at c i"
  define k where "k = unat (conn_receive_next c - slot_start s)"
  define n where "n = slot_payload_len s - k"
  have i: "i < 16" and u: "slot_used s"
    and guards: "\<not> seq_le (slot_sequence_number s + of_nat (slot_payload_len s)) (conn_receive_next c)"
      "\<not> seq_gt (slot_sequence_number s) (conn_receive_next c)"
    using due by (simp_all add: slot_due_def s_def slot_start_def slot_end_def)
  have sw: "slot_wf s" using conn_wf_slot [OF wf i] by (simp add: s_def)
  have k: "k < slot_payload_len s"
    using slot_due_length(2) [OF wf due] by (simp add: k_def s_def)
  have k': "k = unat (conn_receive_next c - slot_sequence_number s)" by (simp add: k_def slot_start_def)
  have rest: "slot_rest c i = take n (drop k (slot_payload s))"
    by (simp add: slot_rest_def slot_data_def n_def k_def s_def drop_take)
  have len: "length (slot_rest c i) = n"
    using slot_due_length(1) [OF wf due] by (simp add: n_def k_def s_def)
  have rd: "rd (conn_reassembly c) i = Some s"
    using wf i by (simp add: conn_wf_def rd_Some s_def)
  have ra: "ready_append c (slot_payload s) k n =
     (if conn_receive_ready_len c + n \<le> 32768
      then Some (0, c\<lparr>conn_receive_ready :=
          blit (conn_receive_ready_len c) (take n (drop k (slot_payload s))) (conn_receive_ready c),
        conn_receive_ready_len := conn_receive_ready_len c + n\<rparr>)
      else Some (-1, c))"
    using wf sw k by (intro ready_append_eq) (simp_all add: n_def slot_wf_def)
  have put: "(c\<lparr>conn_receive_ready :=
          blit (conn_receive_ready_len c) (take n (drop k (slot_payload s))) (conn_receive_ready c),
        conn_receive_ready_len := conn_receive_ready_len c + n\<rparr>)
      \<lparr>conn_receive_next := conn_receive_next c + of_nat n\<rparr> = ready_put c (slot_rest c i)"
    unfolding ready_put_def len by (simp add: rest)
  have rm: "remove_reassembly_slot (ready_put c (slot_rest c i)) i =
      Some (slot_drop (ready_put c (slot_rest c i)) i)"
    if "conn_receive_ready_len c + n \<le> 32768"
    using that ready_put_wf [OF wf, of "slot_rest c i"] len i u
    by (intro remove_reassembly_slot_eq) (simp_all add: s_def)
  show ?thesis
    unfolding promote_slot_def rd len Let_def
    using u guards k ra rm put
    by (simp add: n_def flip: k')
qed

lemma promote_slot_cases:
  assumes wf: "conn_wf c" and i: "i < 16"
  obtains (skip) "promote_slot c i = Some (c, Some False)"
      "slot_used (slot_at c i) \<Longrightarrow> seq_gt (slot_start (slot_at c i)) (conn_receive_next c)"
  | (advance) c' where "promote_slot c i = Some (c', Some True)" "promote_step c c'"
  | (blocked) "promote_slot c i = Some (c, None)" "promotion_blocked c"
proof -
  have rd: "rd (conn_reassembly c) i = Some (slot_at c i)"
    using wf i by (simp add: conn_wf_def rd_Some)
  consider "\<not> slot_used (slot_at c i)"
    | "slot_used (slot_at c i)" "seq_le (slot_end (slot_at c i)) (conn_receive_next c)"
    | "slot_used (slot_at c i)" "\<not> seq_le (slot_end (slot_at c i)) (conn_receive_next c)"
      "seq_gt (slot_start (slot_at c i)) (conn_receive_next c)"
    | "slot_due c i"
    using i by (auto simp: slot_due_def)
  then show ?thesis
  proof cases
    case 1
    then show ?thesis using rd by (intro skip) (simp_all add: promote_slot_def)
  next
    case 2
    then show ?thesis
      using rd remove_reassembly_slot_eq [OF wf i] i
      by (intro advance [of "slot_drop c i"])
        (simp_all add: promote_slot_def Let_def slot_end_def drop_stale)
  next
    case 3
    then show ?thesis
      using rd by (intro skip) (simp_all add: promote_slot_def Let_def slot_end_def slot_start_def)
  next
    case 4
    show ?thesis
    proof (cases "conn_receive_ready_len c + length (slot_rest c i) \<le> 32768")
      case True
      then show ?thesis using promote_slot_due [OF wf 4] deliver [OF 4] by (auto intro: advance)
    next
      case False
      then have "promotion_blocked c" using 4 by (auto simp: promotion_blocked_def not_le)
      moreover have "promote_slot c i = Some (c, None)" using promote_slot_due [OF wf 4] False by simp
      ultimately show ?thesis by (rule blocked [rotated])
    qed
  qed
qed

lemma promote_scan_spec:
  assumes "conn_wf c"
  shows "\<exists>c' r. promote_scan c i q = Some (c', r) \<and> promote_step\<^sup>*\<^sup>* c c' \<and> conn_wf c'
    \<and> (r = Some False \<longrightarrow> c' = c \<and> all_future c i) \<and> (r = None \<longrightarrow> promotion_blocked c')
    \<and> (q \<and> r \<noteq> None \<longrightarrow> r = Some True)"
  using assms
proof (induction c i q rule: promote_scan.induct)
  case (1 c i q)
  show ?case
  proof (cases "i < TCP_REASSEMBLY_SLOT_COUNT")
    case True
    then have i: "i < 16" by (simp add: const_defs)
    from "1.prems" i show ?thesis
    proof (cases rule: promote_slot_cases)
      case skip
      with "1.IH" [OF True skip(1) refl refl] "1.prems" obtain c' r where
        r: "promote_scan c (i + 1) (q \<or> False) = Some (c', r)" "promote_step\<^sup>*\<^sup>* c c'" "conn_wf c'"
        "r = Some False \<longrightarrow> c' = c \<and> all_future c (i + 1)" "r = None \<longrightarrow> promotion_blocked c'"
        "q \<and> r \<noteq> None \<longrightarrow> r = Some True" by auto
      have "all_future c (i + 1) \<Longrightarrow> all_future c i"
        unfolding all_future_def using skip(2) by (metis Suc_eq_plus1 le_antisym not_less_eq_eq)
      with r skip(1) True show ?thesis by (simp add: promote_scan.simps [of c i q])
    next
      case (advance c1)
      with "1.IH" [OF True advance(1) refl refl] "1.prems" promote_step_wf [OF advance(2)]
      obtain c' r where
        r: "promote_scan c1 (i + 1) (q \<or> True) = Some (c', r)" "promote_step\<^sup>*\<^sup>* c1 c'" "conn_wf c'"
        "r = None \<longrightarrow> promotion_blocked c'" "r \<noteq> None \<longrightarrow> r = Some True" by auto
      have "promote_step\<^sup>*\<^sup>* c c'" using advance(2) r(2) by (rule converse_rtranclp_into_rtranclp)
      with r advance(1) True show ?thesis by (auto simp: promote_scan.simps [of c i q])
    next
      case blocked
      with True "1.prems" show ?thesis by (simp add: promote_scan.simps [of c i q])
    qed
  next
    case False
    with "1.prems" show ?thesis
      by (auto simp: promote_scan.simps [of c i q] all_future_def const_defs)
  qed
qed

lemma promote_loop_spec:
  assumes "conn_wf c"
  shows "\<exists>rc c'. promote_loop c = Some (rc, c') \<and> promote_step\<^sup>*\<^sup>* c c' \<and> conn_wf c'
    \<and> (rc = 0 \<and> all_future c' 0 \<or> rc = -1 \<and> promotion_blocked c')"
  using assms
proof (induction c rule: promote_loop.induct)
  case (1 c)
  from promote_scan_spec [OF "1.prems", of 0 False] obtain c' r where
    r: "promote_scan c 0 False = Some (c', r)" "promote_step\<^sup>*\<^sup>* c c'" "conn_wf c'"
      "r = Some False \<longrightarrow> c' = c \<and> all_future c 0" "r = None \<longrightarrow> promotion_blocked c'" by auto
  consider "r = None" | "r = Some False" | "r = Some True" by (cases r) auto
  then show ?case
  proof cases
    case 3
    with r "1.IH" [OF r(1) refl 3 TrueI r(3)] show ?thesis
      by (auto simp: promote_loop.simps [of c] intro: rtranclp_trans)
  qed (use r in \<open>auto simp: promote_loop.simps [of c]\<close>)
qed

section \<open>Buffering\<close>

lemma find_free_slot_from_spec:
  assumes "conn_wf c"
  shows "(find_free_slot_from c i = Some (-1) \<and> (\<forall>j. i \<le> j \<and> j < 16 \<longrightarrow> slot_used (slot_at c j)))
    \<or> (\<exists>j. i \<le> j \<and> j < 16 \<and> \<not> slot_used (slot_at c j) \<and> find_free_slot_from c i = Some (int j))"
  using assms
proof (induction c i rule: find_free_slot_from.induct)
  case (1 c i)
  show ?case
  proof (cases "i < 16")
    case True
    then have rd: "rd (conn_reassembly c) i = Some (slot_at c i)"
      using "1.prems" by (simp add: conn_wf_def rd_Some)
    show ?thesis
    proof (cases "slot_used (slot_at c i)")
      case used: True
      have "i < TCP_REASSEMBLY_SLOT_COUNT" using True by (simp add: const_defs)
      with "1.IH" [OF this _ _ "1.prems"] used rd True show ?thesis
        by (simp add: find_free_slot_from.simps [of c i] const_defs)
          (metis Suc_leD le_neq_implies_less not_less_eq_eq Suc_leI)
    next
      case False
      with rd True show ?thesis by (auto simp: find_free_slot_from.simps [of c i] const_defs)
    qed
  qed (auto simp: find_free_slot_from.simps [of c i] const_defs)
qed

definition slot_covers :: "tcp_connection \<Rightarrow> u32 \<Rightarrow> u32 \<Rightarrow> nat \<Rightarrow> bool" where
  "slot_covers c start fin j \<longleftrightarrow> j < 16 \<and> slot_used (slot_at c j)
     \<and> seq_ge start (slot_start (slot_at c j)) \<and> seq_le fin (slot_end (slot_at c j))"

lemma range_buffered_from_spec:
  assumes "conn_wf c"
  shows "\<exists>b. range_buffered_from c start fin i = Some b \<and> (b \<longleftrightarrow> (\<exists>j\<ge>i. slot_covers c start fin j))"
  using assms
proof (induction c start fin i rule: range_buffered_from.induct)
  case (1 c start fin i)
  show ?case
  proof (cases "i < 16")
    case True
    then have rd: "rd (conn_reassembly c) i = Some (slot_at c i)"
      using "1.prems" by (simp add: conn_wf_def rd_Some)
    have i: "i < TCP_REASSEMBLY_SLOT_COUNT" using True by (simp add: const_defs)
    have split: "(\<exists>j\<ge>i. slot_covers c start fin j) \<longleftrightarrow>
        slot_covers c start fin i \<or> (\<exists>j\<ge>i + 1. slot_covers c start fin j)"
      by (metis Suc_eq_plus1 Suc_leD le_antisym not_less_eq_eq order_refl)
    show ?thesis
    proof (cases "slot_covers c start fin i")
      case cov: True
      then show ?thesis
        using rd i by (auto simp: range_buffered_from.simps [of c start fin i] slot_covers_def
            slot_start_def slot_end_def Let_def)
    next
      case False
      have "\<exists>b. range_buffered_from c start fin (i + 1) = Some b
          \<and> (b \<longleftrightarrow> (\<exists>j\<ge>i + 1. slot_covers c start fin j))"
        using "1.IH"(1) [OF i rd _ "1.prems"] "1.IH"(2) [OF i rd _ refl refl _ "1.prems"] False True
        by (auto simp: slot_covers_def slot_start_def slot_end_def)
      moreover have "range_buffered_from c start fin i = range_buffered_from c start fin (i + 1)"
        using rd i False True by (auto simp: range_buffered_from.simps [of c start fin i] slot_covers_def
            slot_start_def slot_end_def Let_def)
      ultimately show ?thesis using False split by simp
    qed
  qed (auto simp: range_buffered_from.simps [of c start fin i] const_defs slot_covers_def)
qed

definition slot_fill :: "tcp_connection \<Rightarrow> nat \<Rightarrow> u32 \<Rightarrow> bytes \<Rightarrow> tcp_connection" where
  "slot_fill c j seq bs = c\<lparr>conn_reassembly := (conn_reassembly c)[j :=
       (slot_at c j)\<lparr>slot_used := True, slot_sequence_number := seq, slot_payload_len := length bs,
         slot_payload := bs @ drop (length bs) (slot_payload (slot_at c j))\<rparr>],
     conn_reassembly_count := conn_reassembly_count c + 1\<rparr>"

lemma slot_fill_frame [simp]:
  "conn_state (slot_fill c j seq bs) = conn_state c"
  "conn_receive_next (slot_fill c j seq bs) = conn_receive_next c"
  "conn_pending_fin (slot_fill c j seq bs) = conn_pending_fin c"
  "conn_pending_fin_sequence (slot_fill c j seq bs) = conn_pending_fin_sequence c"
  "conn_receive_ready (slot_fill c j seq bs) = conn_receive_ready c"
  "conn_receive_ready_len (slot_fill c j seq bs) = conn_receive_ready_len c"
  by (simp_all add: slot_fill_def)

lemma used_slots_fill:
  assumes "j < length xs" and "\<not> slot_used (xs ! j)" and "slot_used s"
  shows "length (filter slot_used (xs[j := s])) = Suc (length (filter slot_used xs))"
  using used_slots_update(2) [of j "xs[j := s]" "xs ! j"] assms by simp

lemma slot_fill_wf:
  assumes "conn_wf c" and "j < 16" and "\<not> slot_used (slot_at c j)" and "length bs \<le> 2048"
  shows "conn_wf (slot_fill c j seq bs)"
  using assms conn_wf_slot [OF assms(1,2)]
  by (auto simp: conn_wf_def slot_fill_def used_slots_def used_slots_fill slot_wf_def
      intro!: list_all_update)

lemma buffer_future_payload_cases:
  assumes wf: "conn_wf c" and n: "0 < n" and pl: "n \<le> length pd"
  obtains (known) j where "buffer_future_payload c seq pd n = Some (0, c)"
      "slot_covers c seq (seq + of_nat n) j"
  | (full) "buffer_future_payload c seq pd n = Some (-1, c)"
      "n > 2048 \<or> (\<forall>j<16. slot_used (slot_at c j))"
  | (stored) j where "buffer_future_payload c seq pd n = Some (0, slot_fill c j seq (take n pd))"
      "j < 16" "\<not> slot_used (slot_at c j)" "n \<le> 2048"
proof (cases "n > 2048")
  case True
  then show ?thesis using n by (intro full) (simp_all add: buffer_future_payload_def const_defs)
next
  case small: False
  from range_buffered_from_spec [OF wf, of seq "seq + of_nat n" 0] obtain b where
    b: "range_already_buffered c seq (seq + of_nat n) = Some b"
      "b \<longleftrightarrow> (\<exists>j. slot_covers c seq (seq + of_nat n) j)"
    by (auto simp: range_already_buffered_def)
  show ?thesis
  proof (cases b)
    case True
    with b small n show ?thesis
      by (auto intro: known simp: buffer_future_payload_def const_defs)
  next
    case False
    from find_free_slot_from_spec [OF wf, of 0] show ?thesis
    proof
      assume "find_free_slot_from c 0 = Some (-1) \<and> (\<forall>j. 0 \<le> j \<and> j < 16 \<longrightarrow> slot_used (slot_at c j))"
      with b False small n show ?thesis
        by (intro full) (simp_all add: buffer_future_payload_def const_defs find_free_reassembly_slot_def)
    next
      assume "\<exists>j. 0 \<le> j \<and> j < 16 \<and> \<not> slot_used (slot_at c j) \<and> find_free_slot_from c 0 = Some (int j)"
      then obtain j where j: "j < 16" "\<not> slot_used (slot_at c j)"
        "find_free_reassembly_slot c = Some (int j)" by (auto simp: find_free_reassembly_slot_def)
      have "length (slot_payload (slot_at c j)) = 2048" "length (conn_reassembly c) = 16"
        using conn_wf_slot [OF wf j(1)] wf by (simp_all add: slot_wf_def conn_wf_def)
      then have "buffer_future_payload c seq pd n = Some (0, slot_fill c j seq (take n pd))"
        using b False small n pl j
        by (simp add: buffer_future_payload_def const_defs rd_Some wr_update memcpy_Some slot_fill_def
            blit_def)
      with j small show ?thesis by (auto intro: stored)
    qed
  qed
qed

section \<open>Payload processing\<close>

definition segment_data :: "tcp_segment \<Rightarrow> bytes" where
  "segment_data s = take (tcp_payload_len s) (tcp_payload s)"

definition segment_end :: "tcp_segment \<Rightarrow> u32" where
  "segment_end s = tcp_sequence_number s + of_nat (tcp_payload_len s)"

lemma length_segment_data: "segment_wf s \<Longrightarrow> length (segment_data s) = tcp_payload_len s"
  by (simp add: segment_wf_def segment_data_def)

text \<open>The bytes of a segment behind those already received.\<close>

definition segment_rest :: "tcp_connection \<Rightarrow> tcp_segment \<Rightarrow> bytes" where
  "segment_rest c s = drop (unat (conn_receive_next c - tcp_sequence_number s)) (segment_data s)"

lemma process_payload_inorder:
  assumes wf: "conn_wf c" and sw: "segment_wf s" and n: "0 < tcp_payload_len s"
    and e: "\<not> seq_le (segment_end s) (conn_receive_next c)"
    and b: "\<not> seq_gt (tcp_sequence_number s) (conn_receive_next c)"
  shows "process_payload c s =
    (if conn_receive_ready_len c + length (segment_rest c s) \<le> 32768
     then promote_reassembly (ready_put c (segment_rest c s)) else Some (-1, c))"
    and "segment_rest c s \<noteq> []"
proof -
  define k where "k = unat (conn_receive_next c - tcp_sequence_number s)"
  have k: "k < tcp_payload_len s"
    using seq_overlap [OF b, of "tcp_payload_len s"] e by (simp add: segment_end_def k_def)
  define m where "m = tcp_payload_len s - k"
  have rest: "segment_rest c s = take m (drop k (tcp_payload s))"
    by (simp add: segment_rest_def segment_data_def m_def k_def drop_take)
  have len: "length (segment_rest c s) = m"
    using length_segment_data [OF sw] by (simp add: segment_rest_def m_def k_def)
  then show "segment_rest c s \<noteq> []" using k by (auto simp: m_def)
  have ra: "ready_append c (tcp_payload s) k m =
     (if conn_receive_ready_len c + m \<le> 32768
      then Some (0, c\<lparr>conn_receive_ready :=
          blit (conn_receive_ready_len c) (take m (drop k (tcp_payload s))) (conn_receive_ready c),
        conn_receive_ready_len := conn_receive_ready_len c + m\<rparr>)
      else Some (-1, c))"
    using wf sw k by (intro ready_append_eq) (simp_all add: m_def segment_wf_def)
  have put: "(c\<lparr>conn_receive_ready :=
          blit (conn_receive_ready_len c) (take m (drop k (tcp_payload s))) (conn_receive_ready c),
        conn_receive_ready_len := conn_receive_ready_len c + m\<rparr>)
      \<lparr>conn_receive_next := conn_receive_next c + of_nat m\<rparr> = ready_put c (segment_rest c s)"
    unfolding ready_put_def len by (simp add: rest)
  show "process_payload c s =
    (if conn_receive_ready_len c + length (segment_rest c s) \<le> 32768
     then promote_reassembly (ready_put c (segment_rest c s)) else Some (-1, c))"
    unfolding process_payload_def Let_def len
    using n e b k ra put by (simp add: m_def segment_end_def flip: k_def)
qed

lemma process_payload_cases:
  assumes wf: "conn_wf c" and sw: "segment_wf s"
  obtains (ignored) "process_payload c s = Some (0, c)"
      "tcp_payload_len s = 0 \<or> seq_le (segment_end s) (conn_receive_next c)
        \<or> (\<exists>j. slot_covers c (tcp_sequence_number s) (segment_end s) j)"
  | (full) "process_payload c s = Some (-1, c)" "0 < tcp_payload_len s"
      "if seq_gt (tcp_sequence_number s) (conn_receive_next c)
       then tcp_payload_len s > 2048 \<or> (\<forall>j<16. slot_used (slot_at c j))
       else \<not> seq_le (segment_end s) (conn_receive_next c)
         \<and> conn_receive_ready_len c + length (segment_rest c s) > 32768"
  | (stored) j where "process_payload c s = Some (0, slot_fill c j (tcp_sequence_number s) (segment_data s))"
      "j < 16" "\<not> slot_used (slot_at c j)" "length (segment_data s) \<le> 2048" "segment_data s \<noteq> []"
      "seq_gt (tcp_sequence_number s) (conn_receive_next c)"
  | (accepted) c' where "process_payload c s = Some (0, consume_pending_fin c')"
      "promote_step\<^sup>*\<^sup>* (ready_put c (segment_rest c s)) c'" "all_future c' 0" "conn_wf c'"
      "conn_receive_ready_len c + length (segment_rest c s) \<le> 32768"
      "0 < tcp_payload_len s"
      "\<not> seq_le (segment_end s) (conn_receive_next c)"
      "\<not> seq_gt (tcp_sequence_number s) (conn_receive_next c)"
  | (partial) c' where "process_payload c s = Some (-1, c')"
      "promote_step\<^sup>*\<^sup>* (ready_put c (segment_rest c s)) c'" "promotion_blocked c'" "conn_wf c'"
      "conn_receive_ready_len c + length (segment_rest c s) \<le> 32768"
      "0 < tcp_payload_len s"
      "\<not> seq_le (segment_end s) (conn_receive_next c)"
      "\<not> seq_gt (tcp_sequence_number s) (conn_receive_next c)"
proof -
  consider "tcp_payload_len s = 0 \<or> seq_le (segment_end s) (conn_receive_next c)"
    | "0 < tcp_payload_len s" "\<not> seq_le (segment_end s) (conn_receive_next c)"
      "seq_gt (tcp_sequence_number s) (conn_receive_next c)"
    | "0 < tcp_payload_len s" "\<not> seq_le (segment_end s) (conn_receive_next c)"
      "\<not> seq_gt (tcp_sequence_number s) (conn_receive_next c)" by auto
  then show ?thesis
  proof cases
    case 1
    then have "process_payload c s = Some (0, c)"
      by (auto simp: process_payload_def Let_def segment_end_def)
    with 1 show ?thesis by (intro ignored) auto
  next
    case 2
    have le: "tcp_payload_len s \<le> length (tcp_payload s)" using sw by (simp add: segment_wf_def)
    have pp: "process_payload c s = do {
        (rc, c) \<leftarrow> buffer_future_payload c (tcp_sequence_number s) (tcp_payload s) (tcp_payload_len s);
        Some (if rc \<noteq> 0 then -1 else 0, c) }"
      using 2 by (simp add: process_payload_def Let_def segment_end_def)
    note store = stored
    from wf 2(1) le show ?thesis
    proof (cases rule: buffer_future_payload_cases [where seq = "tcp_sequence_number s"])
      case (stored j)
      then show ?thesis using pp 2 sw
        by (intro store) (auto simp: segment_data_def segment_wf_def)
    next
      case (known j)
      then show ?thesis using pp 2 by (intro ignored) (auto simp: segment_end_def)
    next
      case full': full
      then show ?thesis using pp 2 by (intro full) auto
    qed
  next
    case 3
    note io = process_payload_inorder [OF wf sw 3]
    show ?thesis
    proof (cases "conn_receive_ready_len c + length (segment_rest c s) \<le> 32768")
      case True
      with promote_loop_spec [OF ready_put_wf [OF wf True]] obtain rc c' where
        r: "promote_loop (ready_put c (segment_rest c s)) = Some (rc, c')"
          "promote_step\<^sup>*\<^sup>* (ready_put c (segment_rest c s)) c'" "conn_wf c'"
          "rc = 0 \<and> all_future c' 0 \<or> rc = -1 \<and> promotion_blocked c'" by auto
      from r(4) show ?thesis
      proof
        assume "rc = 0 \<and> all_future c' 0"
        with r True 3 io show ?thesis by (intro accepted) (auto simp: promote_reassembly_def)
      next
        assume "rc = -1 \<and> promotion_blocked c'"
        with r True 3 io show ?thesis by (intro partial) (auto simp: promote_reassembly_def)
      qed
    next
      case False
      with io 3 show ?thesis by (intro full) simp_all
    qed
  qed
qed

end
