(* ===== verification/TcpSafety.thy ===== *)
theory TcpSafety
  imports TcpInvariant
begin

text \<open>
  The connection driven by an arbitrary sequence of calls: opening, received segments, reads by the
  application, data and FIN to send, and clock ticks. The locale \<open>conn_invariant\<close> lifts a
  property kept by every call to every sequence of calls; its first interpretation is
  well-formedness, which gives memory safety of every run.
\<close>

section \<open>Runs\<close>

datatype conn_event =
    Open u16
  | Receive tcp_segment
  | Read nat
  | Send bytes u16
  | Close u16
  | Tick u32

text \<open>The state of a run is the connection and the bytes handed to the application so far.\<close>

fun conn_step :: "conn_event \<Rightarrow> tcp_connection \<times> bytes \<Rightarrow> (tcp_connection \<times> bytes) option" where
  "conn_step (Open window) (c, log) = do {
     (rc, p, s) \<leftarrow> tcp_connection_build_syn (Some c) (Some tcp_zero) window;
     c' \<leftarrow> p;
     Some (c', log) }"
| "conn_step (Receive s) (c, log) = do {
     (rc, p) \<leftarrow> tcp_connection_on_segment (Some c) (Some s);
     c' \<leftarrow> p;
     Some (c', log) }"
| "conn_step (Read n) (c, log) = do {
     (k, p, b) \<leftarrow> tcp_connection_read (Some c) (Some (replicate n 0)) n;
     c' \<leftarrow> p;
     out \<leftarrow> b;
     Some (c', log @ take k out) }"
| "conn_step (Send pd window) (c, log) = do {
     (rc, p, s) \<leftarrow> tcp_connection_build_data (Some c) (Some tcp_zero) (Some pd) (length pd) window;
     c' \<leftarrow> p;
     Some (c', log) }"
| "conn_step (Close window) (c, log) = do {
     (rc, p, s) \<leftarrow> tcp_connection_build_fin (Some c) (Some tcp_zero) window;
     c' \<leftarrow> p;
     Some (c', log) }"
| "conn_step (Tick elapsed) (c, log) =
     (case tcp_connection_tick (Some c) elapsed (Some tcp_zero) of
        (rc, p, s) \<Rightarrow> do { c' \<leftarrow> p; Some (c', log) })"

fun conn_run :: "conn_event list \<Rightarrow> tcp_connection \<times> bytes \<Rightarrow> (tcp_connection \<times> bytes) option" where
  "conn_run [] st = Some st"
| "conn_run (e # es) st = do { st' \<leftarrow> conn_step e st; conn_run es st' }"

locale conn_invariant =
  fixes inv :: "tcp_connection \<times> bytes \<Rightarrow> bool"
    and admissible :: "conn_event \<Rightarrow> bool"
  assumes step: "inv st \<Longrightarrow> admissible e \<Longrightarrow> \<exists>st'. conn_step e st = Some st' \<and> inv st'"
begin

lemma run: "inv st \<Longrightarrow> list_all admissible es \<Longrightarrow> \<exists>st'. conn_run es st = Some st' \<and> inv st'"
proof (induction es arbitrary: st)
  case (Cons e es)
  then obtain st1 where "conn_step e st = Some st1" "inv st1" using step by fastforce
  with Cons show ?case by simp
qed simp

lemma prefix_run:
  assumes "inv st" and "list_all admissible (es @ es')"
  shows "\<exists>st1 st2. conn_run es st = Some st1 \<and> inv st1 \<and> conn_run es' st1 = Some st2 \<and> inv st2"
proof -
  have "list_all admissible es" "list_all admissible es'" using assms(2) by simp_all
  from run [OF assms(1) this(1)] obtain st1 where "conn_run es st = Some st1" "inv st1" by auto
  with run [OF this(2) \<open>list_all admissible es'\<close>] show ?thesis by auto
qed

end

section \<open>Frame conditions\<close>

lemma fin_transition_frame [simp]:
  "conn_reassembly (fin_transition c) = conn_reassembly c"
  "conn_reassembly_count (fin_transition c) = conn_reassembly_count c"
  "conn_receive_ready (fin_transition c) = conn_receive_ready c"
  "conn_receive_ready_len (fin_transition c) = conn_receive_ready_len c"
  "conn_receive_next (fin_transition c) = conn_receive_next c"
  "conn_pending_fin (fin_transition c) = conn_pending_fin c"
  "conn_pending_fin_sequence (fin_transition c) = conn_pending_fin_sequence c"
  "conn_send_unacknowledged (fin_transition c) = conn_send_unacknowledged c"
  "conn_send_next (fin_transition c) = conn_send_next c"
  by (simp_all add: fin_transition_def)

lemma ports_frame [simp]:
  "conn_local_port (fin_transition c) = conn_local_port c"
  "conn_remote_port (fin_transition c) = conn_remote_port c"
  "conn_local_port (consume_pending_fin c) = conn_local_port c"
  "conn_remote_port (consume_pending_fin c) = conn_remote_port c"
  "conn_local_port (process_fin c s) = conn_local_port c"
  "conn_remote_port (process_fin c s) = conn_remote_port c"
  "conn_local_port (on_fin_acked c) = conn_local_port c"
  "conn_remote_port (on_fin_acked c) = conn_remote_port c"
  by (simp_all add: fin_transition_def consume_pending_fin_def process_fin_def on_fin_acked_def Let_def)

lemma conn_wf_frame:
  assumes "conn_wf c" and "conn_reassembly c' = conn_reassembly c"
    and "conn_reassembly_count c' = conn_reassembly_count c"
    and "conn_receive_ready c' = conn_receive_ready c"
    and "conn_receive_ready_len c' = conn_receive_ready_len c"
  shows "conn_wf c'"
  using assms by (simp add: conn_wf_def used_slots_def)

text \<open>The receive buffers, which the send side never touches.\<close>

definition same_buffers :: "tcp_connection \<Rightarrow> tcp_connection \<Rightarrow> bool" where
  "same_buffers c c' \<longleftrightarrow> conn_reassembly c' = conn_reassembly c
     \<and> conn_reassembly_count c' = conn_reassembly_count c
     \<and> conn_receive_ready c' = conn_receive_ready c
     \<and> conn_receive_ready_len c' = conn_receive_ready_len c"

lemma same_buffers_wf: "same_buffers c c' \<Longrightarrow> conn_wf c \<Longrightarrow> conn_wf c'"
  using conn_wf_frame by (simp add: same_buffers_def)

lemma same_buffers_refl [simp]: "same_buffers c c"
  by (simp add: same_buffers_def)

lemma same_buffers_trans: "same_buffers a b \<Longrightarrow> same_buffers b c \<Longrightarrow> same_buffers a c"
  by (simp add: same_buffers_def)

lemma same_buffers_ops [intro, simp]:
  "same_buffers c (fin_transition c)"
  "same_buffers c (consume_pending_fin c)"
  "same_buffers c (process_fin c s)"
  "same_buffers c (on_ack c s)"
  "same_buffers c (snd (on_syn_sent c s))"
  "same_buffers c (on_fin_acked c)"
  "same_buffers c (remember_for_retransmission c s)"
  "same_buffers c (c\<lparr>conn_remote_window := w\<rparr>)"
  by (simp_all add: same_buffers_def consume_pending_fin_def process_fin_def on_ack_def
      on_syn_sent_def on_fin_acked_def remember_for_retransmission_def Let_def)

lemma clear_reassembly_wf: "conn_wf c \<Longrightarrow> conn_wf (clear_reassembly c)"
  by (simp add: conn_wf_def clear_reassembly_def used_slots_def const_defs list_all_length)

lemma on_rst_wf: "conn_wf c \<Longrightarrow> conn_wf (on_rst c)"
  unfolding on_rst_def by (rule clear_reassembly_wf) (simp add: conn_wf_def used_slots_def)

section \<open>Safety of the operations\<close>

lemma conn_init_wf: "tcp_connection_init (Some g) lp rp iss = Some c \<Longrightarrow> conn_wf c"
  by (auto simp: tcp_connection_init_def conn_wf_def clear_reassembly_def conn_zero_def
      used_slots_def const_defs list_all_length)

lemma process_payload_safe:
  assumes "conn_wf c" and "segment_wf s"
  shows "\<exists>rc c'. process_payload c s = Some (rc, c') \<and> conn_wf c' \<and> rc \<in> {0, -1}"
  using assms
proof (cases rule: process_payload_cases)
  case (stored j)
  with assms(1) slot_fill_wf show ?thesis by auto
next
  case (accepted c')
  then show ?thesis using same_buffers_wf [OF same_buffers_ops(2)] by auto
qed (use assms in auto)

lemma on_segment_safe:
  assumes wf: "conn_wf c" and sw: "segment_wf s"
  shows "\<exists>rc c'. tcp_connection_on_segment (Some c) (Some s) = Some (rc, Some c') \<and> conn_wf c'
    \<and> rc \<in> {1, 0, -1, -2}"
proof -
  define d where "d = (on_ack c s)\<lparr>conn_remote_window := tcp_window_size s\<rparr>"
  have d: "conn_wf d"
    unfolding d_def using same_buffers_wf [OF same_buffers_ops(8) same_buffers_wf [OF same_buffers_ops(4) wf]] .
  consider "tcp_source_port s \<noteq> conn_remote_port c \<or> tcp_destination_port s \<noteq> conn_local_port c"
    | "\<not> (tcp_source_port s \<noteq> conn_remote_port c \<or> tcp_destination_port s \<noteq> conn_local_port c)"
      "tcp_flags s AND TCP_FLAG_RST \<noteq> 0"
    | "\<not> (tcp_source_port s \<noteq> conn_remote_port c \<or> tcp_destination_port s \<noteq> conn_local_port c)"
      "tcp_flags s AND TCP_FLAG_RST = 0" "conn_state d = TCP_STATE_SYN_SENT"
    | "\<not> (tcp_source_port s \<noteq> conn_remote_port c \<or> tcp_destination_port s \<noteq> conn_local_port c)"
      "tcp_flags s AND TCP_FLAG_RST = 0" "conn_state d \<noteq> TCP_STATE_SYN_SENT"
    by blast
  then show ?thesis
  proof cases
    case 1
    then show ?thesis using wf by (simp add: tcp_connection_on_segment_def)
  next
    case 2
    then show ?thesis using on_rst_wf [OF wf] by (simp add: tcp_connection_on_segment_def)
  next
    case 3
    have "conn_wf (snd (on_syn_sent d s))" "fst (on_syn_sent d s) \<in> {1, 0, -1}"
      using same_buffers_wf [OF same_buffers_ops(5) d] by (simp_all add: on_syn_sent_def)
    with 3 show ?thesis
      by (auto simp: tcp_connection_on_segment_def Let_def d_def case_prod_beta)
  next
    case 4
    obtain rc e where p: "process_payload d s = Some (rc, e)" "conn_wf e" "rc \<in> {0, -1}"
      using process_payload_safe [OF d sw] by auto
    have "conn_wf (on_fin_acked (consume_pending_fin (process_fin e s)))"
      using p(2) by (meson same_buffers_ops(2,3,6) same_buffers_wf)
    with 4 p d show ?thesis
      by (auto simp: tcp_connection_on_segment_def Let_def d_def)
  qed
qed

lemma conn_read_safe:
  assumes "conn_wf c" and "n \<le> length b"
  shows "\<exists>k c' b'. tcp_connection_read (Some c) (Some b) n = Some (k, Some c', Some b') \<and> conn_wf c'
    \<and> k = min n (conn_receive_ready_len c)
    \<and> b' = take k (conn_receive_ready c) @ drop k b
    \<and> take (conn_receive_ready_len c') (conn_receive_ready c') =
        drop k (take (conn_receive_ready_len c) (conn_receive_ready c))
    \<and> conn_receive_ready_len c' = conn_receive_ready_len c - k
    \<and> c' = c\<lparr>conn_receive_ready := conn_receive_ready c', conn_receive_ready_len := conn_receive_ready_len c'\<rparr>"
proof (cases "n = 0 \<or> conn_receive_ready_len c = 0")
  case True
  then show ?thesis using assms by (auto simp: tcp_connection_read_def)
next
  case False
  define l where "l = conn_receive_ready_len c"
  define k where "k = min n l"
  have l: "length (conn_receive_ready c) = 32768" "l \<le> 32768" "0 < l" "0 < n"
    using assms(1) False by (simp_all add: conn_wf_def l_def)
  have k: "(if l > n then n else l) = k" "k \<le> n" "k \<le> l" by (simp_all add: k_def)
  define r where "r = take (l - k) (drop k (conn_receive_ready c)) @ drop (l - k) (conn_receive_ready c)"
  define c' where "c' = c\<lparr>conn_receive_ready := r, conn_receive_ready_len := l - k\<rparr>"
  have mv: "(if l - k > 0 then memcpy (conn_receive_ready c) 0 (conn_receive_ready c) k (l - k)
      else Some (conn_receive_ready c)) = Some r"
    using l k by (subst memcpy_if_Some) (simp_all add: blit_0 r_def)
  have cp: "memcpy b 0 (conn_receive_ready c) 0 k = Some (take k (conn_receive_ready c) @ drop k b)"
    using l k assms(2) by (simp add: memcpy_Some blit_0)
  have eq: "tcp_connection_read (Some c) (Some b) n =
      Some (k, Some c', Some (take k (conn_receive_ready c) @ drop k b))"
    unfolding tcp_connection_read_def Let_def option.case prod.case l_def [symmetric] k(1) cp
      Option.bind.simps mv c'_def
    using l by simp
  have len: "length r = 32768" "take (l - k) r = drop k (take l (conn_receive_ready c))"
    using l k by (simp_all add: r_def drop_take)
  have "conn_wf c'"
    using assms(1) l len by (simp add: conn_wf_def used_slots_def c'_def)
  moreover have "conn_receive_ready c' = r" "conn_receive_ready_len c' = l - k"
    by (simp_all add: c'_def)
  moreover have "c' = c\<lparr>conn_receive_ready := conn_receive_ready c',
      conn_receive_ready_len := conn_receive_ready_len c'\<rparr>" by (simp add: c'_def)
  ultimately show ?thesis
    using eq len(2) unfolding k_def l_def by (intro exI conjI) (assumption | simp)+
qed

lemma tcp_build_data:
  assumes "0 < length pd"
  shows "tcp_build (Some g) sp dp sq ak fl w (Some pd) (length pd) =
    (if length pd \<le> 65515 then Some (0, Some (tcp_built sp dp sq ak fl w pd)) else Some (-1, Some g))"
  using tcp_build_ok [of "length pd" pd g sp dp sq ak fl w]
  by (simp add: tcp_build_def const_defs)

lemma build_data_eq:
  "tcp_connection_build_data (Some c) (Some g) (Some pd) (length pd) w =
    (if pd \<noteq> [] \<and> length pd \<le> 65515 \<and> conn_state c = TCP_STATE_ESTABLISHED
     then let s = tcp_built (conn_local_port c) (conn_remote_port c) (conn_send_next c)
                (conn_receive_next c) 0x18 w pd in
       Some (0, Some (remember_for_retransmission
         (c\<lparr>conn_send_unacknowledged := conn_send_next c,
           conn_send_next := conn_send_next c + of_nat (length pd)\<rparr>) s), Some s)
     else Some (-1, Some c, Some g))"
  using tcp_build_data [of pd g "conn_local_port c" "conn_remote_port c" "conn_send_next c"
      "conn_receive_next c" "TCP_FLAG_PSH OR TCP_FLAG_ACK" w]
  by (auto simp: tcp_connection_build_data_def Let_def const_defs)

lemma build_fin_eq:
  "tcp_connection_build_fin (Some c) (Some g) w =
    (if conn_state c = TCP_STATE_ESTABLISHED \<or> conn_state c = TCP_STATE_CLOSE_WAIT
     then let s = tcp_built (conn_local_port c) (conn_remote_port c) (conn_send_next c)
                (conn_receive_next c) 0x11 w [] in
       Some (0, Some (remember_for_retransmission
         (c\<lparr>conn_send_unacknowledged := conn_send_next c, conn_send_next := conn_send_next c + 1,
           conn_state := (if conn_state c = TCP_STATE_CLOSE_WAIT then TCP_STATE_LAST_ACK
             else TCP_STATE_FIN_WAIT_1)\<rparr>) s), Some s)
     else Some (-1, Some c, Some g))"
  by (auto simp: tcp_connection_build_fin_def Let_def const_defs tcp_build_empty)

lemma build_syn_eq:
  "tcp_connection_build_syn (Some c) (Some g) w =
    (if conn_state c = TCP_STATE_CLOSED
     then let s = tcp_built (conn_local_port c) (conn_remote_port c) (conn_send_next c) 0 0x02 w [] in
       Some (0, Some (remember_for_retransmission
         (c\<lparr>conn_send_unacknowledged := conn_send_next c, conn_send_next := conn_send_next c + 1,
           conn_state := TCP_STATE_SYN_SENT\<rparr>) s), Some s)
     else Some (-1, Some c, Some g))"
  by (auto simp: tcp_connection_build_syn_def Let_def const_defs tcp_build_empty)

text \<open>The send side leaves the receive buffers and the receive position alone.\<close>

definition same_receiver :: "tcp_connection \<Rightarrow> tcp_connection \<Rightarrow> bool" where
  "same_receiver c c' \<longleftrightarrow> same_buffers c c' \<and> conn_receive_next c' = conn_receive_next c
     \<and> conn_pending_fin c' = conn_pending_fin c
     \<and> conn_pending_fin_sequence c' = conn_pending_fin_sequence c"

lemma same_receiver_refl [simp]: "same_receiver c c"
  by (simp add: same_receiver_def)

lemma open_step:
  "\<exists>c'. conn_step (Open w) (c, log) = Some (c', log) \<and> same_receiver c c'
    \<and> (conn_state c' = conn_state c
       \<or> conn_state c = TCP_STATE_CLOSED \<and> conn_state c' = TCP_STATE_SYN_SENT)"
  by (auto simp: build_syn_eq Let_def same_receiver_def same_buffers_def remember_for_retransmission_def)

lemma send_step:
  "\<exists>c'. conn_step (Send pd w) (c, log) = Some (c', log) \<and> same_receiver c c' \<and> conn_state c' = conn_state c"
  by (auto simp: build_data_eq Let_def same_receiver_def same_buffers_def remember_for_retransmission_def)

lemma close_step:
  "\<exists>c'. conn_step (Close w) (c, log) = Some (c', log) \<and> same_receiver c c'
    \<and> (conn_state c' = conn_state c
       \<or> conn_state c = TCP_STATE_ESTABLISHED \<and> conn_state c' = TCP_STATE_FIN_WAIT_1
       \<or> conn_state c = TCP_STATE_CLOSE_WAIT \<and> conn_state c' = TCP_STATE_LAST_ACK)"
  by (auto simp: build_fin_eq Let_def same_receiver_def same_buffers_def remember_for_retransmission_def)

lemma tick_step:
  "\<exists>c'. conn_step (Tick e) (c, log) = Some (c', log) \<and> same_receiver c c'
    \<and> (conn_state c' = conn_state c \<or> conn_state c' = TCP_STATE_RESET)"
  by (auto simp: tcp_connection_tick_def Let_def same_receiver_def same_buffers_def)

lemma read_step:
  assumes "conn_wf c"
  shows "\<exists>c' bs. conn_step (Read n) (c, log) = Some (c', log @ bs) \<and> conn_wf c'
    \<and> take (conn_receive_ready_len c) (conn_receive_ready c) =
        bs @ take (conn_receive_ready_len c') (conn_receive_ready c')
    \<and> length bs = min n (conn_receive_ready_len c)
    \<and> c' = c\<lparr>conn_receive_ready := conn_receive_ready c', conn_receive_ready_len := conn_receive_ready_len c'\<rparr>"
proof -
  from conn_read_safe [OF assms, of n "replicate n 0"] obtain k c' b' where
    r: "tcp_connection_read (Some c) (Some (replicate n 0)) n = Some (k, Some c', Some b')" "conn_wf c'"
      "k = min n (conn_receive_ready_len c)" "b' = take k (conn_receive_ready c) @ drop k (replicate n 0)"
      "take (conn_receive_ready_len c') (conn_receive_ready c') =
        drop k (take (conn_receive_ready_len c) (conn_receive_ready c))"
      "c' = c\<lparr>conn_receive_ready := conn_receive_ready c', conn_receive_ready_len := conn_receive_ready_len c'\<rparr>"
    by auto
  have k: "k \<le> conn_receive_ready_len c" "conn_receive_ready_len c \<le> 32768"
    "length (conn_receive_ready c) = 32768"
    using r(3) assms by (simp_all add: conn_wf_def)
  have "take k b' = take k (conn_receive_ready c)" using r(4) k by simp
  moreover have "take k (conn_receive_ready c) @ drop k (take (conn_receive_ready_len c) (conn_receive_ready c))
      = take (conn_receive_ready_len c) (conn_receive_ready c)"
    using k append_take_drop_id [of k "take (conn_receive_ready_len c) (conn_receive_ready c)"]
    by (simp add: min_absorb1)
  ultimately show ?thesis
    using r k by (intro exI [of _ c'] exI [of _ "take k (conn_receive_ready c)"]) simp
qed

definition event_wf :: "conn_event \<Rightarrow> bool" where
  "event_wf e = (case e of Receive s \<Rightarrow> segment_wf s | _ \<Rightarrow> True)"

lemma receive_step_wf:
  assumes "conn_wf c" and "segment_wf s"
  shows "\<exists>c'. conn_step (Receive s) (c, log) = Some (c', log) \<and> conn_wf c'"
  using on_segment_safe [OF assms] by auto

interpretation safe: conn_invariant "\<lambda>(c, log). conn_wf c" event_wf
proof unfold_locales
  fix st :: "tcp_connection \<times> bytes" and e
  assume i: "case st of (c, log) \<Rightarrow> conn_wf c" and e: "event_wf e"
  obtain c log where st: "st = (c, log)" by (cases st)
  have wf: "conn_wf c" using i st by simp
  have rcv: "conn_wf c'" if "same_receiver c c'" for c'
    using that same_buffers_wf [OF _ wf] by (simp add: same_receiver_def)
  show "\<exists>st'. conn_step e st = Some st' \<and> (case st' of (c, log) \<Rightarrow> conn_wf c)"
  proof (cases e)
    case (Open w)
    with open_step [of w c log] rcv st show ?thesis by auto
  next
    case (Receive s)
    with receive_step_wf [OF wf, of s log] e st show ?thesis by (auto simp: event_wf_def)
  next
    case (Read n)
    with read_step [OF wf, of n log] st show ?thesis by auto
  next
    case (Send pd w)
    with send_step [of pd w c log] rcv st show ?thesis by auto
  next
    case (Close w)
    with close_step [of w c log] rcv st show ?thesis by auto
  next
    case (Tick t)
    with tick_step [of t c log] rcv st show ?thesis by auto
  qed
qed

end
