(* ===== verification/TcpStream.thy ===== *)
theory TcpStream
  imports TcpSafety "HOL-Library.Sublist"
begin

text \<open>
  The service the receive side gives: whatever segments of the peer's byte stream arrive, in
  any order, lost, duplicated, overlapping or cut differently, the application reads a prefix
  of the stream, and it sees the end of the stream only after all of it.

  The peer's stream is a list \<open>S\<close> whose byte \<open>k\<close> has sequence number \<open>base + k\<close> modulo
  \<open>2 ^ 32\<close>; its FIN follows the last byte. The stream is shorter than \<open>2 ^ 31 - 1\<close> bytes, the
  distance up to which the source compares sequence numbers; \<open>base\<close> is arbitrary, so the
  sequence numbers may wrap around anywhere in the stream.
\<close>

section \<open>Positions in the stream\<close>

lemma seq_at:
  fixes base :: u32
  assumes "a < 2147483648" and "b < 2147483648"
  shows "seq_lt (base + of_nat a) (base + of_nat b) \<longleftrightarrow> a < b"
    and "seq_le (base + of_nat a) (base + of_nat b) \<longleftrightarrow> a \<le> b"
    and "seq_gt (base + of_nat a) (base + of_nat b) \<longleftrightarrow> a > b"
    and "seq_ge (base + of_nat a) (base + of_nat b) \<longleftrightarrow> a \<ge> b"
proof -
  have "sint (base + of_nat a - (base + of_nat b)) = int a - int b"
    using assms by (intro sint_diff) simp_all
  then show "seq_lt (base + of_nat a) (base + of_nat b) \<longleftrightarrow> a < b"
    "seq_le (base + of_nat a) (base + of_nat b) \<longleftrightarrow> a \<le> b"
    "seq_gt (base + of_nat a) (base + of_nat b) \<longleftrightarrow> a > b"
    "seq_ge (base + of_nat a) (base + of_nat b) \<longleftrightarrow> a \<ge> b"
    unfolding seq_lt_def seq_le_def seq_gt_def seq_ge_def by simp_all
qed

lemma at_inject:
  fixes base :: u32
  assumes "a < 2147483648" and "b < 2147483648"
  shows "base + of_nat a = base + of_nat b \<longleftrightarrow> a = b"
  using seq_at(2,4) [OF assms, of base] by (auto simp: seq_le_def seq_ge_def)

lemma unat_at_diff:
  fixes base :: u32
  assumes "a < 2147483648" and "b \<le> a"
  shows "unat (base + of_nat a - (base + of_nat b)) = a - b"
proof -
  have "base + of_nat a - (base + of_nat b) = of_nat (a - b)" using assms by simp
  moreover have "unat (of_nat (a - b) :: u32) = a - b"
    using assms by (subst unsigned_of_nat) (simp add: take_bit_eq_mod)
  ultimately show ?thesis by (simp only:)
qed

text \<open>\<open>bytes_at base S seq bs\<close>: the bytes \<open>bs\<close> with first sequence number \<open>seq\<close> are part of the stream.\<close>

definition bytes_at :: "u32 \<Rightarrow> bytes \<Rightarrow> u32 \<Rightarrow> bytes \<Rightarrow> nat \<Rightarrow> bool" where
  "bytes_at base S seq bs k \<longleftrightarrow> seq = base + of_nat k \<and> k + length bs \<le> length S
     \<and> bs = take (length bs) (drop k S)"

definition slot_in :: "u32 \<Rightarrow> bytes \<Rightarrow> tcp_reassembly_slot \<Rightarrow> bool" where
  "slot_in base S s \<longleftrightarrow> (slot_used s \<longrightarrow> (\<exists>k. bytes_at base S (slot_start s) (slot_data s) k))"

definition segment_in :: "u32 \<Rightarrow> bytes \<Rightarrow> tcp_segment \<Rightarrow> bool" where
  "segment_in base S s \<longleftrightarrow> segment_wf s
     \<and> (tcp_payload_len s = 0 \<and> tcp_flags s AND TCP_FLAG_FIN = 0
        \<or> (\<exists>k. bytes_at base S (tcp_sequence_number s) (segment_data s) k
             \<and> (tcp_flags s AND TCP_FLAG_FIN \<noteq> 0 \<longrightarrow> k + tcp_payload_len s = length S)))"

definition ready_bytes :: "tcp_connection \<Rightarrow> bytes" where
  "ready_bytes c = take (conn_receive_ready_len c) (conn_receive_ready c)"

text \<open>The receiver has everything before position \<open>q\<close>, of which \<open>log\<close> has been read.\<close>

definition received :: "u32 \<Rightarrow> bytes \<Rightarrow> tcp_connection \<Rightarrow> bytes \<Rightarrow> nat \<Rightarrow> bool" where
  "received base S c log q \<longleftrightarrow> conn_wf c \<and> conn_receive_next c = base + of_nat q
     \<and> q \<le> length S + 1 \<and> list_all (slot_in base S) (conn_reassembly c)
     \<and> log @ ready_bytes c = take q S"

text \<open>A range that covers \<open>q\<close> extends the received bytes to its own end.\<close>

lemma extend_bytes:
  fixes base :: u32
  assumes "length S < 2147483647" and "bytes_at base S seq bs k" and "k \<le> q" and "q < k + length bs"
  shows "take q S @ drop (unat (base + of_nat q - seq)) bs = take (k + length bs) S"
    and "base + of_nat q + of_nat (length (drop (unat (base + of_nat q - seq)) bs)) =
      base + of_nat (k + length bs)"
    and "k + length bs \<le> length S"
proof -
  have seq: "seq = base + of_nat k" and bs: "bs = take (length bs) (drop k S)"
    and le: "k + length bs \<le> length S"
    using assms(2) by (simp_all add: bytes_at_def)
  have "unat (base + of_nat q - seq) = q - k"
    unfolding seq using assms(1,3,4) le by (intro unat_at_diff) simp_all
  then have d: "drop (unat (base + of_nat q - seq)) bs = take (k + length bs - q) (drop q S)"
    using assms(3,4) by (subst bs) (simp add: drop_take add.commute)
  show "take q S @ drop (unat (base + of_nat q - seq)) bs = take (k + length bs) S"
    unfolding d using assms(4) take_then_drop [of q S "k + length bs - q"] by simp
  have "length (drop (unat (base + of_nat q - seq)) bs) = k + length bs - q"
    unfolding d using le by simp
  then show "base + of_nat q + of_nat (length (drop (unat (base + of_nat q - seq)) bs)) =
      base + of_nat (k + length bs)"
    using assms(4) by simp
qed (use assms(2) in \<open>simp add: bytes_at_def\<close>)

lemma bytes_at_covers:
  fixes base :: u32
  assumes "length S < 2147483647" and "bytes_at base S seq bs k" and "q \<le> length S + 1"
    and "\<not> seq_le (seq + of_nat (length bs)) (base + of_nat q)"
    and "\<not> seq_gt seq (base + of_nat q)"
  shows "k \<le> q" and "q < k + length bs"
proof -
  have seq: "seq = base + of_nat k" "seq + of_nat (length bs) = base + of_nat (k + length bs)"
    and le: "k + length bs \<le> length S"
    using assms(2) by (simp_all add: bytes_at_def)
  show "k \<le> q" using assms(1,3,5) le unfolding seq by (simp add: seq_at)
  show "q < k + length bs"
    using assms(1,3,4) le unfolding seq(2) by (subst (asm) seq_at) simp_all
qed

lemma ready_put_bytes:
  assumes "conn_wf c" and "conn_receive_ready_len c + length bs \<le> 32768"
  shows "ready_bytes (ready_put c bs) = ready_bytes c @ bs"
  using assms by (simp add: ready_bytes_def ready_put_def conn_wf_def take_blit_end)

lemma ready_bytes_drop [simp]: "ready_bytes (slot_drop c i) = ready_bytes c"
  by (simp add: ready_bytes_def)

lemma slot_in_zero [simp]: "slot_in base S slot_zero"
  by (simp add: slot_in_def)

lemma received_ready_put:
  assumes r: "received base S c log q" and S: "length S < 2147483647"
    and b: "bytes_at base S seq bs k" and kq: "k \<le> q" "q < k + length bs"
    and rest: "rest = drop (unat (conn_receive_next c - seq)) bs"
    and fits: "conn_receive_ready_len c + length rest \<le> 32768"
  shows "received base S (ready_put c rest) log (k + length bs)"
proof -
  have wf: "conn_wf c" and rn: "conn_receive_next c = base + of_nat q" and
    log: "log @ ready_bytes c = take q S"
    using r by (simp_all add: received_def)
  note ex = extend_bytes [OF S b kq, folded rn, folded rest]
  have "log @ ready_bytes (ready_put c rest) = take (k + length bs) S"
    using ready_put_bytes [OF wf fits] log ex(1) by (metis append_assoc)
  then show ?thesis
    using r ready_put_wf [OF wf fits] ex by (simp add: received_def)
qed

lemma received_promote_step:
  assumes "promote_step c c'" and r: "received base S c log q" and S: "length S < 2147483647"
  shows "\<exists>q'\<ge>q. received base S c' log q' \<and> (q \<le> length S \<longrightarrow> q' \<le> length S)"
  using assms(1)
proof cases
  case (drop_stale i)
  then have "received base S c' log q"
    using r slot_drop_wf [of c i] by (simp add: received_def list_all_update)
  then show ?thesis by blast
next
  case (deliver i)
  then have i: "i < 16" and due: "slot_used (slot_at c i)"
      "\<not> seq_le (slot_end (slot_at c i)) (conn_receive_next c)"
      "\<not> seq_gt (slot_start (slot_at c i)) (conn_receive_next c)"
    by (simp_all add: slot_due_def)
  have wf: "conn_wf c" and rn: "conn_receive_next c = base + of_nat q" and q: "q \<le> length S + 1"
    and sl: "slot_in base S (slot_at c i)"
    using r i by (auto simp: received_def conn_wf_def list_all_length)
  from sl due(1) obtain k where b: "bytes_at base S (slot_start (slot_at c i)) (slot_data (slot_at c i)) k"
    by (auto simp: slot_in_def)
  have e: "slot_end (slot_at c i) = slot_start (slot_at c i) + of_nat (length (slot_data (slot_at c i)))"
    using length_slot_data [OF conn_wf_slot [OF wf i]] by (simp add: slot_end_def slot_start_def)
  note cov = bytes_at_covers [OF S b q] and due' = due(2,3) [unfolded rn e]
  have kq: "k \<le> q" "q < k + length (slot_data (slot_at c i))" using cov [OF due'] by simp_all
  have "received base S (ready_put c (slot_rest c i)) log (k + length (slot_data (slot_at c i)))"
    using received_ready_put [OF r S b kq, of "slot_rest c i"] deliver(3) by (simp add: slot_rest_def)
  then have "received base S c' log (k + length (slot_data (slot_at c i)))"
    using deliver(1) due(1) i slot_drop_wf [of "ready_put c (slot_rest c i)" i]
    by (simp add: received_def list_all_update)
  moreover have "k + length (slot_data (slot_at c i)) \<le> length S" using b by (simp add: bytes_at_def)
  ultimately show ?thesis using kq by (meson less_imp_le)
qed

lemma received_promote:
  assumes "promote_step\<^sup>*\<^sup>* c c'" and "received base S c log q" and "length S < 2147483647"
  shows "\<exists>q'\<ge>q. received base S c' log q' \<and> (q \<le> length S \<longrightarrow> q' \<le> length S)"
  using assms(1,2)
proof (induction rule: rtranclp_induct)
  case (step c1 c2)
  then obtain q1 where "q \<le> q1" "received base S c1 log q1" "q \<le> length S \<longrightarrow> q1 \<le> length S" by blast
  with received_promote_step [OF step(2) this(2) assms(3)] show ?case by (meson le_trans)
qed auto

lemma promote_step_state:
  "promote_step c c' \<Longrightarrow> conn_state c' = conn_state c \<and> conn_pending_fin c' = conn_pending_fin c
    \<and> conn_pending_fin_sequence c' = conn_pending_fin_sequence c"
  by (induction rule: promote_step.induct) simp_all

lemma promote_state:
  "promote_step\<^sup>*\<^sup>* c c' \<Longrightarrow> conn_state c' = conn_state c \<and> conn_pending_fin c' = conn_pending_fin c
    \<and> conn_pending_fin_sequence c' = conn_pending_fin_sequence c"
  by (induction rule: rtranclp_induct) (simp_all add: promote_step_state)

section \<open>The invariant\<close>

definition stream_open :: "tcp_connection_state \<Rightarrow> bool" where
  "stream_open st \<longleftrightarrow> st \<in> {TCP_STATE_ESTABLISHED, TCP_STATE_FIN_WAIT_1, TCP_STATE_FIN_WAIT_2}"

definition stream_ended :: "tcp_connection_state \<Rightarrow> bool" where
  "stream_ended st \<longleftrightarrow> st \<in> {TCP_STATE_CLOSE_WAIT, TCP_STATE_LAST_ACK, TCP_STATE_TIME_WAIT, TCP_STATE_CLOSED}"

definition stream_at :: "u32 \<Rightarrow> bytes \<Rightarrow> tcp_connection \<Rightarrow> bytes \<Rightarrow> nat \<Rightarrow> bool" where
  "stream_at base S c log q \<longleftrightarrow> received base S c log q
     \<and> (conn_pending_fin c \<longrightarrow> conn_pending_fin_sequence c = base + of_nat (length S))
     \<and> (stream_open (conn_state c) \<and> q \<le> length S
        \<or> stream_ended (conn_state c) \<and> q = length S + 1)"

definition stream_inv :: "u32 \<Rightarrow> bytes \<Rightarrow> tcp_connection \<times> bytes \<Rightarrow> bool" where
  "stream_inv base S = (\<lambda>(c, log).
     (\<exists>q. stream_at base S c log q)
     \<or> conn_state c = TCP_STATE_RESET \<and> conn_wf c \<and> prefix (log @ ready_bytes c) S)"

lemmas stream_states = stream_open_def stream_ended_def

lemma received_same:
  "same_receiver c c' \<Longrightarrow> received base S c log q \<Longrightarrow> received base S c' log q"
  using same_buffers_wf [of c c']
  by (simp add: received_def same_receiver_def same_buffers_def ready_bytes_def)

lemma stream_at_same:
  assumes "same_receiver c c'" and "stream_at base S c log q"
    and "stream_open (conn_state c) \<longleftrightarrow> stream_open (conn_state c')"
    and "stream_ended (conn_state c) \<longleftrightarrow> stream_ended (conn_state c')"
  shows "stream_at base S c' log q"
  using assms received_same [OF assms(1)] by (simp add: stream_at_def same_receiver_def)

lemma received_advance:
  assumes "received base S c log (length S)" and "same_buffers c c'"
    and "conn_receive_next c' = conn_receive_next c + 1"
  shows "received base S c' log (length S + 1)"
  using assms same_buffers_wf [OF assms(2)]
  by (simp add: received_def same_buffers_def ready_bytes_def add.assoc)

lemma fin_transition_ended: "stream_open (conn_state c) \<Longrightarrow> stream_ended (conn_state (fin_transition c))"
  by (auto simp: stream_states fin_transition_def)

lemma stream_consume_fin:
  assumes at: "stream_at base S c log q" and S: "length S < 2147483647"
  shows "\<exists>q'\<ge>q. stream_at base S (consume_pending_fin c) log q' \<and> q' \<in> {q, length S + 1}"
proof (cases "conn_pending_fin c \<and> conn_pending_fin_sequence c = conn_receive_next c")
  case True
  have q: "q \<le> length S + 1" using at by (simp add: stream_at_def received_def)
  have rn: "conn_receive_next c = base + of_nat q" using at by (simp add: stream_at_def received_def)
  have "conn_pending_fin_sequence c = base + of_nat (length S)" using True at by (simp add: stream_at_def)
  with rn have "base + of_nat (length S) = base + of_nat q" using True by simp
  then have "length S = q" using S q by (subst (asm) at_inject) auto
  with at have o: "stream_open (conn_state c)" and r: "received base S c log (length S)"
    by (simp_all add: stream_at_def)
  let ?c = "c\<lparr>conn_receive_next := conn_receive_next c + 1, conn_pending_fin := False\<rparr>"
  have "received base S (fin_transition ?c) log (length S + 1)"
    using r by (rule received_advance) (simp_all add: same_buffers_def)
  moreover have "stream_ended (conn_state (fin_transition ?c))"
    using o by (intro fin_transition_ended) simp
  ultimately have "stream_at base S (consume_pending_fin c) log (length S + 1)"
    using True by (simp add: stream_at_def consume_pending_fin_def)
  with \<open>length S = q\<close> show ?thesis by (intro exI [of _ "length S + 1"]) simp
next
  case False
  then have "consume_pending_fin c = c" by (auto simp: consume_pending_fin_def)
  with at show ?thesis by auto
qed

lemma stream_process_fin:
  assumes at: "stream_at base S c log q" and S: "length S < 2147483647" and s: "segment_in base S s"
  shows "\<exists>q'\<ge>q. stream_at base S (process_fin c s) log q' \<and> q' \<in> {q, length S + 1}"
proof (cases "tcp_flags s AND TCP_FLAG_FIN = 0")
  case True
  then show ?thesis using at by (auto simp: process_fin_def)
next
  case False
  then obtain k where k: "tcp_sequence_number s = base + of_nat k" "k + tcp_payload_len s = length S"
    using s by (auto simp: segment_in_def bytes_at_def)
  define f where "f = tcp_sequence_number s + of_nat (tcp_payload_len s)"
  have f: "f = base + of_nat (length S)" by (simp add: f_def k(1) flip: k(2))
  have q: "q \<le> length S + 1" and rn: "conn_receive_next c = base + of_nat q"
    using at by (simp_all add: stream_at_def received_def)
  consider "q = length S" | "q < length S" | "q = length S + 1" using q by linarith
  then show ?thesis
  proof cases
    case 1
    with at have o: "stream_open (conn_state c)" and r: "received base S c log (length S)"
      and p: "conn_pending_fin c \<longrightarrow> conn_pending_fin_sequence c = base + of_nat (length S)"
      by (simp_all add: stream_at_def)
    let ?c = "c\<lparr>conn_receive_next := conn_receive_next c + 1\<rparr>"
    have eq: "process_fin c s = fin_transition ?c"
      using False f rn 1 by (simp add: process_fin_def f_def Let_def)
    have "received base S (fin_transition ?c) log (length S + 1)"
      using r by (rule received_advance) (simp_all add: same_buffers_def)
    moreover have "stream_ended (conn_state (fin_transition ?c))"
      using o by (intro fin_transition_ended) simp
    ultimately have "stream_at base S (process_fin c s) log (length S + 1)"
      unfolding eq using p by (simp add: stream_at_def)
    with 1 show ?thesis by (intro exI [of _ "length S + 1"]) simp
  next
    case 2
    have ne: "f \<noteq> conn_receive_next c" unfolding f rn using S 2 by (subst at_inject) auto
    have "process_fin c s = c \<or>
        process_fin c s = c\<lparr>conn_pending_fin := True, conn_pending_fin_sequence := f\<rparr>"
      using False ne by (simp add: process_fin_def f_def Let_def)
    then show ?thesis
    proof
      assume e: "process_fin c s = c\<lparr>conn_pending_fin := True, conn_pending_fin_sequence := f\<rparr>"
      have "received base S (process_fin c s) log q"
        using at unfolding e
        by (simp add: stream_at_def received_def conn_wf_def used_slots_def ready_bytes_def)
      then have "stream_at base S (process_fin c s) log q"
        using at f unfolding e by (simp add: stream_at_def)
      then show ?thesis by auto
    qed (use at in auto)
  next
    case 3
    have "f \<noteq> conn_receive_next c" "\<not> seq_gt f (conn_receive_next c)"
      unfolding f rn using S 3 by (subst at_inject seq_at; simp)+
    then have "process_fin c s = c" using False by (simp add: process_fin_def f_def Let_def)
    then show ?thesis using at by auto
  qed
qed

lemma slot_fill_in:
  assumes "list_all (slot_in base S) (conn_reassembly c)" and "bytes_at base S seq bs k"
  shows "list_all (slot_in base S) (conn_reassembly (slot_fill c j seq bs))"
  unfolding slot_fill_def using assms
  by (auto intro!: list_all_update simp: slot_in_def slot_data_def slot_start_def)

lemma ready_put_same:
  "conn_state (ready_put c bs) = conn_state c" by simp

text \<open>Payload processing keeps the invariant and never moves the receive position back.\<close>

lemma stream_process_payload:
  assumes at: "stream_at base S c log q" and S: "length S < 2147483647" and s: "segment_in base S s"
  shows "\<exists>rc c' q'. process_payload c s = Some (rc, c') \<and> q' \<ge> q \<and> stream_at base S c' log q'"
proof -
  have wf: "conn_wf c" and r: "received base S c log q" and q: "q \<le> length S + 1"
    and rn: "conn_receive_next c = base + of_nat q"
    using at by (simp_all add: stream_at_def received_def)
  have sw: "segment_wf s" using s by (simp add: segment_in_def)
  have in_order: "\<exists>q'\<ge>q. stream_at base S c' log q'"
    if st: "promote_step\<^sup>*\<^sup>* (ready_put c (segment_rest c s)) c'"
      and fits: "conn_receive_ready_len c + length (segment_rest c s) \<le> 32768"
      and n: "0 < tcp_payload_len s" and e: "\<not> seq_le (segment_end s) (conn_receive_next c)"
      and b: "\<not> seq_gt (tcp_sequence_number s) (conn_receive_next c)" for c'
  proof -
    obtain k where k: "bytes_at base S (tcp_sequence_number s) (segment_data s) k"
      using s n by (auto simp: segment_in_def)
    have e': "\<not> seq_le (tcp_sequence_number s + of_nat (length (segment_data s))) (base + of_nat q)"
      using e by (simp add: segment_end_def length_segment_data [OF sw] rn)
    note kq = bytes_at_covers [OF S k q e' b [unfolded rn]]
    have le: "k + length (segment_data s) \<le> length S" using k by (simp add: bytes_at_def)
    have "received base S (ready_put c (segment_rest c s)) log (k + length (segment_data s))"
      using received_ready_put [OF r S k kq, of "segment_rest c s"] fits by (simp add: segment_rest_def)
    from received_promote [OF st this S] le obtain q' where
      q': "k + length (segment_data s) \<le> q'" "received base S c' log q'" "q' \<le> length S" by auto
    moreover have "stream_open (conn_state c)" using at kq le by (auto simp: stream_at_def)
    ultimately have "stream_at base S c' log q'"
      using promote_state [OF st] at by (simp add: stream_at_def)
    then show ?thesis using q' kq by (meson le_trans less_imp_le)
  qed
  from wf sw show ?thesis
  proof (cases rule: process_payload_cases)
    case (stored j)
    then obtain k where k: "bytes_at base S (tcp_sequence_number s) (segment_data s) k"
      using s by (auto simp: segment_in_def segment_data_def)
    have "received base S (slot_fill c j (tcp_sequence_number s) (segment_data s)) log q"
      using r slot_fill_in [OF _ k] slot_fill_wf [OF wf stored(2,3,4)]
      by (simp add: received_def ready_bytes_def)
    then show ?thesis using stored(1) at by (auto simp: stream_at_def)
  next
    case (accepted c')
    from in_order [OF accepted(2,5-8)] obtain q' where "q \<le> q'" "stream_at base S c' log q'" by auto
    with stream_consume_fin [OF this(2) S] accepted(1) show ?thesis by (meson le_trans)
  next
    case (partial c')
    from in_order [OF partial(2,5-8)] partial(1) show ?thesis by blast
  qed (use at in auto)
qed

lemma stream_fin_acked:
  assumes "stream_at base S c log q"
  shows "stream_at base S (on_fin_acked c) log q"
  by (rule stream_at_same [OF _ assms])
    (auto simp: on_fin_acked_def same_receiver_def same_buffers_def Let_def stream_states)

lemma on_ack_same: "same_receiver c ((on_ack c s)\<lparr>conn_remote_window := w\<rparr>)"
    "conn_state ((on_ack c s)\<lparr>conn_remote_window := w\<rparr>) = conn_state c"
  by (auto simp: on_ack_def same_receiver_def same_buffers_def Let_def)

text \<open>Every received segment of the stream keeps the invariant, or resets the connection.\<close>

lemma stream_on_segment:
  assumes at: "stream_at base S c log q" and S: "length S < 2147483647" and s: "segment_in base S s"
  shows "\<exists>rc c'. tcp_connection_on_segment (Some c) (Some s) = Some (rc, Some c')
    \<and> ((\<exists>q'\<ge>q. stream_at base S c' log q') \<or> c' = on_rst c \<and> tcp_flags s AND TCP_FLAG_RST \<noteq> 0)"
proof -
  define d where "d = (on_ack c s)\<lparr>conn_remote_window := tcp_window_size s\<rparr>"
  have d: "stream_at base S d log q"
    unfolding d_def by (rule stream_at_same [OF on_ack_same(1) at]) (simp_all add: on_ack_same(2))
  have ns: "conn_state d \<noteq> TCP_STATE_SYN_SENT" using d by (auto simp: stream_at_def stream_states)
  consider "tcp_source_port s \<noteq> conn_remote_port c \<or> tcp_destination_port s \<noteq> conn_local_port c"
    | "\<not> (tcp_source_port s \<noteq> conn_remote_port c \<or> tcp_destination_port s \<noteq> conn_local_port c)"
      "tcp_flags s AND TCP_FLAG_RST \<noteq> 0"
    | "\<not> (tcp_source_port s \<noteq> conn_remote_port c \<or> tcp_destination_port s \<noteq> conn_local_port c)"
      "tcp_flags s AND TCP_FLAG_RST = 0"
    by blast
  then show ?thesis
  proof cases
    case 1
    then show ?thesis using at by (auto simp: tcp_connection_on_segment_def)
  next
    case 2
    then show ?thesis by (simp add: tcp_connection_on_segment_def)
  next
    case 3
    obtain rc e q1 where p: "process_payload d s = Some (rc, e)" "q1 \<ge> q" "stream_at base S e log q1"
      using stream_process_payload [OF d S s] by blast
    obtain q2 where q2: "q2 \<ge> q1" "stream_at base S (process_fin e s) log q2"
      using stream_process_fin [OF p(3) S s] by blast
    obtain q3 where q3: "q3 \<ge> q2" "stream_at base S (consume_pending_fin (process_fin e s)) log q3"
      using stream_consume_fin [OF q2(2) S] by blast
    have fin: "stream_at base S (on_fin_acked (consume_pending_fin (process_fin e s))) log q3"
      using stream_fin_acked [OF q3(2)] .
    have "q3 \<ge> q" using p(2) q2(1) q3(1) by linarith
    with 3 ns p fin d show ?thesis
      by (auto simp: tcp_connection_on_segment_def Let_def simp flip: d_def)
  qed
qed

lemma received_read:
  assumes "received base S c log q" and "conn_wf c'"
    and "take (conn_receive_ready_len c) (conn_receive_ready c) =
        bs @ take (conn_receive_ready_len c') (conn_receive_ready c')"
    and "c' = c\<lparr>conn_receive_ready := conn_receive_ready c', conn_receive_ready_len := conn_receive_ready_len c'\<rparr>"
  shows "received base S c' (log @ bs) q"
proof -
  have "conn_receive_next c' = conn_receive_next c" "conn_reassembly c' = conn_reassembly c"
    by (subst assms(4), simp)+
  then show ?thesis using assms(1-3) by (simp add: received_def ready_bytes_def)
qed

definition event_in :: "u32 \<Rightarrow> bytes \<Rightarrow> conn_event \<Rightarrow> bool" where
  "event_in base S e \<longleftrightarrow> length S < 2147483647
     \<and> (case e of Open _ \<Rightarrow> False | Receive s \<Rightarrow> segment_in base S s | _ \<Rightarrow> True)"

lemma prefix_rst:
  assumes "stream_at base S c log q"
  shows "prefix (log @ ready_bytes (on_rst c)) S"
proof -
  have "log @ ready_bytes c = take q S" using assms by (simp add: stream_at_def received_def)
  then have "prefix log S" by (metis append_prefixD take_is_prefix)
  then show ?thesis by (simp add: ready_bytes_def on_rst_def clear_reassembly_def)
qed

lemma reset_on_segment:
  assumes "conn_state c = TCP_STATE_RESET" and "tcp_connection_on_segment (Some c) (Some s) = Some (rc, Some c')"
  shows "c' = c \<or> c' = on_rst c \<and> tcp_flags s AND TCP_FLAG_RST \<noteq> 0
    \<or> c' = (on_ack c s)\<lparr>conn_remote_window := tcp_window_size s\<rparr>"
  using assms(2) on_ack_same(2) [where c = c and s = s and w = "tcp_window_size s"] assms(1)
  by (auto simp: tcp_connection_on_segment_def Let_def receives_data_def split: if_splits)

lemma stream_step_reset:
  assumes rs: "conn_state c = TCP_STATE_RESET" and wf: "conn_wf c"
    and pre: "prefix (log @ ready_bytes c) S" and e: "event_in base S e"
  shows "\<exists>c' log'. conn_step e (c, log) = Some (c', log') \<and> conn_state c' = TCP_STATE_RESET
    \<and> conn_wf c' \<and> prefix (log' @ ready_bytes c') S"
proof (cases e)
  case (Open w)
  with e show ?thesis by (simp add: event_in_def)
next
  case (Receive s)
  have sw: "segment_wf s" using e Receive by (simp add: event_in_def segment_in_def)
  from on_segment_safe [OF wf sw] obtain rc c' where
    c': "tcp_connection_on_segment (Some c) (Some s) = Some (rc, Some c')" "conn_wf c'" by auto
  note reset_on_segment [OF rs c'(1)]
  moreover have "prefix (log @ ready_bytes (on_rst c)) S"
    using append_prefixD [OF pre] by (simp add: ready_bytes_def on_rst_def clear_reassembly_def)
  moreover have "ready_bytes ((on_ack c s)\<lparr>conn_remote_window := tcp_window_size s\<rparr>) = ready_bytes c"
    using on_ack_same(1) [where c = c and s = s and w = "tcp_window_size s"]
    by (simp add: same_receiver_def same_buffers_def ready_bytes_def)
  moreover have "conn_state (on_rst c) = TCP_STATE_RESET"
    by (simp add: on_rst_def clear_reassembly_def)
  ultimately show ?thesis
    using c' Receive pre rs on_ack_same(2) [where c = c and s = s and w = "tcp_window_size s"] by auto
next
  case (Read n)
  from read_step [OF wf, of n log] obtain c' bs where
    r: "conn_step (Read n) (c, log) = Some (c', log @ bs)" "conn_wf c'"
      "take (conn_receive_ready_len c) (conn_receive_ready c) =
        bs @ take (conn_receive_ready_len c') (conn_receive_ready c')"
      "c' = c\<lparr>conn_receive_ready := conn_receive_ready c', conn_receive_ready_len := conn_receive_ready_len c'\<rparr>"
    by auto
  have "conn_state c' = conn_state c" by (subst r(4)) simp
  then show ?thesis using r(1-3) Read pre rs by (simp add: ready_bytes_def)
next
  case (Send pd w)
  with send_step [of pd w c log] rs pre same_buffers_wf [OF _ wf] show ?thesis
    by (auto simp: same_receiver_def same_buffers_def ready_bytes_def)
next
  case (Close w)
  with close_step [of w c log] rs pre same_buffers_wf [OF _ wf] show ?thesis
    by (auto simp: same_receiver_def same_buffers_def ready_bytes_def)
next
  case (Tick t)
  with tick_step [of t c log] rs pre same_buffers_wf [OF _ wf] show ?thesis
    by (auto simp: same_receiver_def same_buffers_def ready_bytes_def)
qed

lemma stream_step_open:
  assumes at: "stream_at base S c log q" and e: "event_in base S e"
  shows "\<exists>c' log'. conn_step e (c, log) = Some (c', log') \<and> stream_inv base S (c', log')"
proof -
  have S: "length S < 2147483647" using e by (simp add: event_in_def)
  have wf: "conn_wf c" using at by (simp add: stream_at_def received_def)
  have reset: "stream_inv base S (c', log)"
    if "same_receiver c c'" "conn_state c' = TCP_STATE_RESET" for c'
    using that at same_buffers_wf [OF _ wf, of c'] take_is_prefix [of q S]
    by (simp add: stream_inv_def stream_at_def received_def same_receiver_def same_buffers_def
        ready_bytes_def)
  have keep: "stream_inv base S (c', log)"
    if "same_receiver c c'" "stream_open (conn_state c) = stream_open (conn_state c')"
      "stream_ended (conn_state c) = stream_ended (conn_state c')" for c'
    using stream_at_same [OF that(1) at that(2,3)] by (auto simp: stream_inv_def)
  show ?thesis
  proof (cases e)
    case (Open w)
    with e show ?thesis by (simp add: event_in_def)
  next
    case (Receive s)
    then have s: "segment_in base S s" using e by (simp add: event_in_def)
    from stream_on_segment [OF at S s] obtain rc c' where
      c': "tcp_connection_on_segment (Some c) (Some s) = Some (rc, Some c')"
        "(\<exists>q'\<ge>q. stream_at base S c' log q') \<or> c' = on_rst c" by blast
    have "stream_inv base S (on_rst c, log)"
      using prefix_rst [OF at] on_rst_wf [OF wf]
      by (simp add: stream_inv_def) (simp add: on_rst_def clear_reassembly_def)
    with c' Receive show ?thesis by (auto simp: stream_inv_def)
  next
    case (Read n)
    from read_step [OF wf, of n log] obtain c' bs where
      r: "conn_step (Read n) (c, log) = Some (c', log @ bs)" "conn_wf c'"
        "take (conn_receive_ready_len c) (conn_receive_ready c) =
          bs @ take (conn_receive_ready_len c') (conn_receive_ready c')"
        "c' = c\<lparr>conn_receive_ready := conn_receive_ready c', conn_receive_ready_len := conn_receive_ready_len c'\<rparr>"
      by auto
    have "conn_state c' = conn_state c" "conn_pending_fin c' = conn_pending_fin c"
      "conn_pending_fin_sequence c' = conn_pending_fin_sequence c" by (subst r(4), simp)+
    then have "stream_at base S c' (log @ bs) q"
      using received_read [OF _ r(2-4), of base S log q] at by (simp add: stream_at_def)
    with r(1) Read show ?thesis by (auto simp: stream_inv_def)
  next
    case (Send pd w)
    with send_step [of pd w c log] keep show ?thesis by auto
  next
    case (Close w)
    with close_step [of w c log] keep show ?thesis by (auto simp: stream_states)
  next
    case (Tick t)
    with tick_step [of t c log] keep reset show ?thesis by auto
  qed
qed

interpretation stream: conn_invariant "stream_inv base S" "event_in base S" for base S
proof unfold_locales
  fix st e
  assume i: "stream_inv base S st" and e: "event_in base S e"
  obtain c log where st: "st = (c, log)" by (cases st)
  show "\<exists>st'. conn_step e st = Some st' \<and> stream_inv base S st'"
  proof (cases "\<exists>q. stream_at base S c log q")
    case True
    with stream_step_open e st show ?thesis by blast
  next
    case False
    with i st stream_step_reset [OF _ _ _ e, of c log] show ?thesis
      by (auto simp: stream_inv_def)
  qed
qed

section \<open>Opening a connection\<close>

text \<open>The calls that open a connection: initialise, send the SYN, receive the answer.\<close>

definition conn_connect :: "u16 \<Rightarrow> u16 \<Rightarrow> u32 \<Rightarrow> u16 \<Rightarrow> tcp_segment \<Rightarrow> (int \<times> tcp_connection) option" where
  "conn_connect local_port remote_port iss window answer = do {
     c \<leftarrow> tcp_connection_init (Some conn_zero) local_port remote_port iss;
     (rc, p, s) \<leftarrow> tcp_connection_build_syn (Some c) (Some tcp_zero) window;
     (rc, p) \<leftarrow> tcp_connection_on_segment p (Some answer);
     c \<leftarrow> p;
     Some (rc, c) }"

lemma on_ack_fields [simp]:
  "conn_state (on_ack c s) = conn_state c" "conn_send_next (on_ack c s) = conn_send_next c"
  "conn_receive_next (on_ack c s) = conn_receive_next c"
  "conn_receive_ready_len (on_ack c s) = conn_receive_ready_len c"
  "conn_receive_ready (on_ack c s) = conn_receive_ready c"
  "conn_reassembly (on_ack c s) = conn_reassembly c"
  "conn_pending_fin (on_ack c s) = conn_pending_fin c"
  "conn_local_port (on_ack c s) = conn_local_port c"
  "conn_remote_port (on_ack c s) = conn_remote_port c"
  "conn_reassembly_count (on_ack c s) = conn_reassembly_count c"
  by (simp_all add: on_ack_def Let_def)

lemma conn_connect_established:
  assumes "conn_connect lp rp iss w a = Some (1, c)"
  shows "conn_state c = TCP_STATE_ESTABLISHED" and "conn_receive_next c = tcp_sequence_number a + 1"
    and "conn_receive_ready_len c = 0" and "\<not> conn_pending_fin c"
    and "list_all (\<lambda>s. \<not> slot_used s) (conn_reassembly c)" and "conn_wf c"
    and "tcp_acknowledgment_number a = iss + 1"
    and "conn_local_port c = lp" and "conn_remote_port c = rp"
  using assms
  by (auto simp: conn_connect_def tcp_connection_init_def build_syn_eq Let_def clear_reassembly_def
      conn_zero_def remember_for_retransmission_def tcp_connection_on_segment_def on_syn_sent_def
      on_rst_def conn_wf_def used_slots_def const_defs list_all_length
      split: if_splits)

lemma conn_connect_stream:
  assumes "conn_connect lp rp iss w a = Some (1, c)"
  shows "stream_at (tcp_sequence_number a + 1) S c [] 0"
  using conn_connect_established [OF assms]
  by (auto simp: stream_at_def received_def ready_bytes_def stream_open_def slot_in_def list_all_length)

lemma tcp_built_segment:
  assumes "length pd \<le> 65515"
  shows "segment_wf (tcp_built sp dp sq ak fl w pd)"
    and "segment_data (tcp_built sp dp sq ak fl w pd) = pd"
    and "tcp_sequence_number (tcp_built sp dp sq ak fl w pd) = sq"
    and "tcp_flags (tcp_built sp dp sq ak fl w pd) = fl"
    and "tcp_payload_len (tcp_built sp dp sq ak fl w pd) = length pd"
    and "tcp_source_port (tcp_built sp dp sq ak fl w pd) = sp"
    and "tcp_destination_port (tcp_built sp dp sq ak fl w pd) = dp"
  using assms by (simp_all add: tcp_built_def segment_wf_def segment_data_def)

text \<open>An answer to the SYN of port 40000, and the stream of the examples in this theory.\<close>

definition example_answer :: tcp_segment where
  "example_answer = tcp_built 80 40000 0xFFFFFFFE 1001 0x12 8192 []"

lemma example_connect: "\<exists>c. conn_connect 40000 80 1000 8192 example_answer = Some (1, c)"
  by (simp add: conn_connect_def tcp_connection_init_def build_syn_eq Let_def clear_reassembly_def
      conn_zero_def remember_for_retransmission_def tcp_connection_on_segment_def on_syn_sent_def
      const_defs example_answer_def tcp_built_def)

definition example_segment :: "u32 \<Rightarrow> u8 \<Rightarrow> bytes \<Rightarrow> tcp_segment" where
  "example_segment seq flags pd = tcp_built 80 40000 seq 1001 flags 8192 pd"

lemmas example_segment_simps =
  tcp_built_segment [where sp = 80 and dp = 40000 and ak = 1001 and w = 8192, folded example_segment_def]

section \<open>Properties\<close>

text \<open>
  (C1) End-to-end delivery. Open a connection with a three-way handshake and let any sequence
  of further calls follow: reads, writes, close, clock ticks, and received segments, each of which is
  some part of the peer's stream with any flags, in any order, repeated, overlapping or
  missing. Then no call touches memory out of bounds, what the application has read and can
  still read is a prefix of the peer's stream, and if the connection is in a state that
  follows the peer's FIN, it is the whole stream.
\<close>

theorem tcp_stream_delivery:
  assumes "conn_connect local_port remote_port iss window answer = Some (1, c)"
    and "length S < 2147483647"
    and "list_all (\<lambda>e. case e of Open _ \<Rightarrow> False
        | Receive s \<Rightarrow> segment_in (tcp_sequence_number answer + 1) S s | _ \<Rightarrow> True) es"
  shows "\<exists>c' log. conn_run es (c, []) = Some (c', log)
    \<and> prefix (log @ take (tcp_connection_readable (Some c')) (conn_receive_ready c')) S
    \<and> (stream_ended (conn_state c') \<longrightarrow>
         log @ take (tcp_connection_readable (Some c')) (conn_receive_ready c') = S)"
proof -
  let ?b = "tcp_sequence_number answer + 1"
  have "stream_inv ?b S (c, [])"
    using conn_connect_stream [OF assms(1), of S] by (auto simp: stream_inv_def)
  moreover have "list_all (event_in ?b S) es"
    using assms(2,3) by (auto simp: event_in_def list_all_length split: conn_event.splits)
  ultimately obtain c' log where run: "conn_run es (c, []) = Some (c', log)"
    and inv: "stream_inv ?b S (c', log)"
    using stream.run [of ?b S "(c, [])" es] by auto
  from inv have "prefix (log @ ready_bytes c') S
      \<and> (stream_ended (conn_state c') \<longrightarrow> log @ ready_bytes c' = S)"
    by (auto simp: stream_inv_def stream_at_def received_def take_is_prefix stream_states)
  with run show ?thesis by (auto simp: ready_bytes_def tcp_connection_readable_def)
qed

text \<open>
  The example stream starts at sequence number \<open>0xFFFFFFFF\<close>, so it wraps after its first
  byte; its tail arrives before its head.
\<close>

theorem tcp_stream_delivery_witness:
  "\<exists>c c' log. conn_connect 40000 80 1000 8192 example_answer = Some (1, c)
    \<and> conn_run [Receive (example_segment 1 0x11 [30]), Receive (example_segment 0xFFFFFFFF 0x10 [10, 20]),
        Read 2] (c, []) = Some (c', log)
    \<and> prefix (log @ take (tcp_connection_readable (Some c')) (conn_receive_ready c')) [10, 20, 30]"
proof -
  obtain c where c: "conn_connect 40000 80 1000 8192 example_answer = Some (1, c)"
    using example_connect by blast
  have b: "tcp_sequence_number example_answer + 1 = 0xFFFFFFFF"
    by (simp add: example_answer_def tcp_built_def)
  have "bytes_at 0xFFFFFFFF [10, 20, 30] 1 [30] (Suc (Suc 0))" "bytes_at 0xFFFFFFFF [10, 20, 30] 0xFFFFFFFF [10, 20] 0"
    by (simp_all add: bytes_at_def)
  then have "segment_in 0xFFFFFFFF [10, 20, 30] (example_segment 1 0x11 [30])"
    "segment_in 0xFFFFFFFF [10, 20, 30] (example_segment 0xFFFFFFFF 0x10 [10, 20])"
    by (auto simp: segment_in_def example_segment_simps const_defs)
  then show ?thesis
    using tcp_stream_delivery [OF c, of "[10, 20, 30]" "[Receive (example_segment 1 0x11 [30]),
        Receive (example_segment 0xFFFFFFFF 0x10 [10, 20]), Read 2]"] c unfolding b by auto
qed

end
