(* ===== verification/TcpMachine.thy ===== *)
theory TcpMachine
  imports TcpSafety
begin

text \<open>
  The state machine of the connection engine, its handshake, its send window and its
  retransmission timer.
\<close>

section \<open>Transitions\<close>

inductive tcp_transition :: "tcp_connection_state \<Rightarrow> tcp_connection_state \<Rightarrow> bool" where
  reset: "tcp_transition st TCP_STATE_RESET"
| active_open: "tcp_transition TCP_STATE_CLOSED TCP_STATE_SYN_SENT"
| handshake: "tcp_transition TCP_STATE_SYN_SENT TCP_STATE_ESTABLISHED"
| peer_fin: "tcp_transition TCP_STATE_ESTABLISHED TCP_STATE_CLOSE_WAIT"
| own_fin: "tcp_transition TCP_STATE_ESTABLISHED TCP_STATE_FIN_WAIT_1"
| own_fin_acked: "tcp_transition TCP_STATE_FIN_WAIT_1 TCP_STATE_FIN_WAIT_2"
| both_fin: "tcp_transition TCP_STATE_FIN_WAIT_1 TCP_STATE_TIME_WAIT"
| peer_fin_after: "tcp_transition TCP_STATE_FIN_WAIT_2 TCP_STATE_TIME_WAIT"
| last_fin: "tcp_transition TCP_STATE_CLOSE_WAIT TCP_STATE_LAST_ACK"
| last_acked: "tcp_transition TCP_STATE_LAST_ACK TCP_STATE_CLOSED"

inductive_cases transition_from_reset: "tcp_transition TCP_STATE_RESET st"
inductive_cases transition_from_time_wait: "tcp_transition TCP_STATE_TIME_WAIT st"

definition fin_state :: "tcp_connection_state \<Rightarrow> tcp_connection_state" where
  "fin_state st = (if st = TCP_STATE_ESTABLISHED then TCP_STATE_CLOSE_WAIT
     else if st = TCP_STATE_FIN_WAIT_1 \<or> st = TCP_STATE_FIN_WAIT_2 then TCP_STATE_TIME_WAIT else st)"

lemma fin_transition_state: "conn_state (fin_transition c) = fin_state (conn_state c)"
  by (simp add: fin_transition_def fin_state_def)

lemma fin_state_idem [simp]: "fin_state (fin_state st) = fin_state st"
  by (simp add: fin_state_def)

lemma consume_pending_fin_state: "conn_state (consume_pending_fin c) \<in> {conn_state c, fin_state (conn_state c)}"
  by (simp add: consume_pending_fin_def fin_transition_state)

lemma process_fin_state: "conn_state (process_fin c s) \<in> {conn_state c, fin_state (conn_state c)}"
  by (simp add: process_fin_def fin_transition_state Let_def)

lemma promote_steps_state: "promote_step\<^sup>*\<^sup>* c c' \<Longrightarrow> conn_state c' = conn_state c"
  by (induction rule: rtranclp_induct) (auto elim!: promote_stepE)

lemma process_payload_state:
  assumes "conn_wf c" and "segment_wf s" and "process_payload c s = Some (rc, c')"
  shows "conn_state c' \<in> {conn_state c, fin_state (conn_state c)}"
  using assms(1,2)
proof (cases rule: process_payload_cases)
  case (accepted d)
  with assms(3) promote_steps_state [OF accepted(2)] consume_pending_fin_state [of d] show ?thesis by auto
next
  case (partial d)
  with assms(3) promote_steps_state [OF partial(2)] show ?thesis by auto
qed (use assms(3) in auto)

lemma on_fin_acked_state:
  "conn_state (on_fin_acked c) = conn_state c
    \<or> conn_state c = TCP_STATE_FIN_WAIT_1 \<and> conn_state (on_fin_acked c) = TCP_STATE_FIN_WAIT_2
    \<or> conn_state c = TCP_STATE_LAST_ACK \<and> conn_state (on_fin_acked c) = TCP_STATE_CLOSED"
  by (simp add: on_fin_acked_def Let_def)

lemma fin_state_transition: "fin_state st = st \<or> tcp_transition st (fin_state st)"
  by (cases st) (auto simp: fin_state_def intro: tcp_transition.intros)

lemma fin_state_final:
  assumes "st' \<in> {st, fin_state st}"
    and "st'' = st' \<or> st' = TCP_STATE_FIN_WAIT_1 \<and> st'' = TCP_STATE_FIN_WAIT_2
      \<or> st' = TCP_STATE_LAST_ACK \<and> st'' = TCP_STATE_CLOSED"
  shows "st'' = st \<or> tcp_transition st st''"
  using assms fin_state_transition [of st]
  by (cases st) (auto simp: fin_state_def intro: tcp_transition.intros)

lemma on_ack_state [simp]: "conn_state (on_ack c s) = conn_state c"
  by (simp add: on_ack_def Let_def)

lemma on_segment_transition:
  assumes wf: "conn_wf c" and sw: "segment_wf s"
    and on: "tcp_connection_on_segment (Some c) (Some s) = Some (rc, Some c')"
  shows "conn_state c' = conn_state c \<or> tcp_transition (conn_state c) (conn_state c')"
proof -
  define d where "d = (on_ack c s)\<lparr>conn_remote_window := tcp_window_size s\<rparr>"
  have d: "conn_wf d" "conn_state d = conn_state c"
    unfolding d_def
    using same_buffers_wf [OF same_buffers_ops(8) same_buffers_wf [OF same_buffers_ops(4) wf]] by simp_all
  have syn: "conn_state (snd (on_syn_sent d s)) = conn_state d
      \<or> tcp_transition (conn_state d) (conn_state (snd (on_syn_sent d s)))"
    if "conn_state d = TCP_STATE_SYN_SENT"
    using that by (auto simp: on_syn_sent_def intro: handshake)
  have payload: "conn_state e = conn_state d \<or> tcp_transition (conn_state d) (conn_state e)"
    "conn_state (on_fin_acked (consume_pending_fin (process_fin e s))) = conn_state d
      \<or> tcp_transition (conn_state d) (conn_state (on_fin_acked (consume_pending_fin (process_fin e s))))"
    if "process_payload d s = Some (rc, e)" for rc e
  proof -
    have e: "conn_state e \<in> {conn_state d, fin_state (conn_state d)}"
      by (rule process_payload_state [OF d(1) sw that])
    then show "conn_state e = conn_state d \<or> tcp_transition (conn_state d) (conn_state e)"
      using fin_state_transition [of "conn_state d"] by auto
    have "conn_state (consume_pending_fin (process_fin e s)) \<in> {conn_state d, fin_state (conn_state d)}"
      using e process_fin_state [of e s] consume_pending_fin_state [of "process_fin e s"] by auto
    from fin_state_final [OF this on_fin_acked_state]
    show "conn_state (on_fin_acked (consume_pending_fin (process_fin e s))) = conn_state d
      \<or> tcp_transition (conn_state d) (conn_state (on_fin_acked (consume_pending_fin (process_fin e s))))" .
  qed
  have rst: "conn_state (on_rst c) = TCP_STATE_RESET" by (simp add: on_rst_def clear_reassembly_def)
  show ?thesis
    using on d(2) syn payload rst
    by (auto simp: tcp_connection_on_segment_def Let_def case_prod_beta reset simp flip: d_def
        split: if_splits bind_splits)
qed

definition machine_inv :: "tcp_connection_state \<Rightarrow> tcp_connection \<times> bytes \<Rightarrow> bool" where
  "machine_inv st0 = (\<lambda>(c, log). conn_wf c \<and> tcp_transition\<^sup>*\<^sup>* st0 (conn_state c))"

interpretation machine: conn_invariant "machine_inv st0" event_wf for st0
proof unfold_locales
  fix st e
  assume i: "machine_inv st0 st" and e: "event_wf e"
  obtain c log where st: "st = (c, log)" by (cases st)
  have wf: "conn_wf c" and tr: "tcp_transition\<^sup>*\<^sup>* st0 (conn_state c)"
    using i st by (simp_all add: machine_inv_def)
  from safe.step [of "(c, log)" e] wf e obtain c' log' where
    step: "conn_step e (c, log) = Some (c', log')" and wf': "conn_wf c'" by auto
  have "conn_state c' = conn_state c \<or> tcp_transition (conn_state c) (conn_state c')"
  proof (cases e)
    case (Open w)
    with open_step [of w c log] step show ?thesis by (auto intro: active_open)
  next
    case (Receive s)
    with step e on_segment_transition [OF wf, of s] show ?thesis
      by (auto simp: event_wf_def split: bind_splits)
  next
    case (Read n)
    from read_step [OF wf, of n log] step Read obtain r l where "c' = c\<lparr>conn_receive_ready := r,
        conn_receive_ready_len := l\<rparr>" by auto
    then show ?thesis by simp
  next
    case (Send pd w)
    with send_step [of pd w c log] step show ?thesis by auto
  next
    case (Close w)
    with close_step [of w c log] step show ?thesis by (auto intro: tcp_transition.intros)
  next
    case (Tick t)
    with tick_step [of t c log] step show ?thesis by (auto intro: reset)
  qed
  with tr wf' step st show "\<exists>st'. conn_step e st = Some st' \<and> machine_inv st0 st'"
    by (auto simp: machine_inv_def intro: rtranclp.rtrancl_into_rtrancl)
qed

lemma reset_final: "tcp_transition\<^sup>*\<^sup>* TCP_STATE_RESET st \<Longrightarrow> st = TCP_STATE_RESET"
  by (induction rule: rtranclp_induct) (auto elim: transition_from_reset)

lemma time_wait_final:
  "tcp_transition\<^sup>*\<^sup>* TCP_STATE_TIME_WAIT st \<Longrightarrow> st = TCP_STATE_TIME_WAIT \<or> st = TCP_STATE_RESET"
  by (induction rule: rtranclp_induct) (auto elim: transition_from_time_wait transition_from_reset)

section \<open>Send window and timer\<close>

text \<open>
  The send side keeps at most one segment outstanding, and a timer between its initial value
  and its cap.
\<close>

definition sender_ok :: "tcp_connection \<Rightarrow> bool" where
  "sender_ok c \<longleftrightarrow> unat (conn_send_next c - conn_send_unacknowledged c) \<le> 65515
     \<and> 1000 \<le> unat (conn_retransmit_timeout_ms c) \<and> unat (conn_retransmit_timeout_ms c) \<le> 16000
     \<and> conn_retransmit_limit c = 5 \<and> unat (conn_retransmit_count c) \<le> 5
     \<and> tcp_wf (conn_last_segment c)
     \<and> (conn_has_retransmit_segment c \<longrightarrow> tcp_valid (conn_last_segment c))"

lemma ack_window:
  fixes ack una nxt :: u32
  assumes "seq_gt ack una" and "seq_le ack nxt" and "unat (nxt - una) \<le> 65515"
  shows "unat (nxt - ack) < unat (nxt - una)"
proof -
  define n where "n = unat (nxt - una)"
  have nxt: "nxt = una + of_nat n" by (simp add: n_def)
  define m where "m = unat (ack - una)"
  have ack: "ack = una + of_nat m" by (simp add: m_def)
  have "m < 2147483648"
  proof (rule ccontr)
    assume "\<not> m < 2147483648"
    moreover have "m < 4294967296" using unat_word_less [of "ack - una"] by (simp add: m_def)
    ultimately have "sint (of_int (int m - 4294967296) :: u32) = int m - 4294967296"
      by (intro sint_of_int_u32) auto
    moreover have "ack - una = of_int (int m - 4294967296)"
    proof -
      have "(4294967296 :: u32) = 0" by (simp add: word_eq_iff_unsigned)
      then show ?thesis by (simp add: ack)
    qed
    ultimately have "sint (ack - una) = int m - 4294967296" by (simp only:)
    with \<open>m < 4294967296\<close> assms(1) show False by (simp add: seq_gt_def)
  qed
  then have "sint (una + of_nat m - (una + of_nat n)) = int m - int n"
    "sint (una + of_nat m - (una + of_nat 0)) = int m - int 0"
    using assms(3) unfolding n_def [symmetric] by (intro sint_diff; simp)+
  then have "m \<le> n" "0 < m" using assms(1,2) unfolding seq_gt_def seq_le_def ack nxt by simp_all
  then have "nxt - ack = of_nat (n - m)" by (simp add: ack nxt)
  moreover have "unat (of_nat (n - m) :: u32) = n - m"
    using assms(3) by (subst unsigned_of_nat) (simp add: take_bit_eq_mod n_def)
  ultimately show ?thesis using \<open>0 < m\<close> \<open>m \<le> n\<close> by (simp only: n_def)
qed

lemma tick_backoff_bounds:
  assumes "1000 \<le> unat t" and "unat t \<le> 16000"
  shows "unat (tick_backoff t) = min (2 * unat t) 16000"
proof -
  have d: "unat (t * 2) = 2 * unat t" using assms(2) by (simp add: unat_word_ariths)
  show ?thesis
    using assms by (auto simp: tick_backoff_def const_defs Let_def word_less_nat_alt d min_def)
qed

lemma on_ack_sender: "sender_ok c \<Longrightarrow> sender_ok (on_ack c s)"
  using ack_window [of "tcp_acknowledgment_number s" "conn_send_unacknowledged c" "conn_send_next c"]
  by (auto simp: sender_ok_def on_ack_def Let_def const_defs)

text \<open>The fields of the send side; the receive path leaves them alone.\<close>

definition same_sender :: "tcp_connection \<Rightarrow> tcp_connection \<Rightarrow> bool" where
  "same_sender c c' \<longleftrightarrow> conn_send_next c' = conn_send_next c
     \<and> conn_send_unacknowledged c' = conn_send_unacknowledged c
     \<and> conn_retransmit_timeout_ms c' = conn_retransmit_timeout_ms c
     \<and> conn_retransmit_count c' = conn_retransmit_count c
     \<and> conn_retransmit_limit c' = conn_retransmit_limit c
     \<and> conn_last_segment c' = conn_last_segment c
     \<and> conn_has_retransmit_segment c' = conn_has_retransmit_segment c"

lemma same_sender_ok: "same_sender c c' \<Longrightarrow> sender_ok c' = sender_ok c"
  by (simp add: same_sender_def sender_ok_def)

lemma same_sender_trans: "same_sender a b \<Longrightarrow> same_sender b c \<Longrightarrow> same_sender a c"
  by (simp add: same_sender_def)

lemma same_sender_ops [simp, intro]:
  "same_sender c c"
  "same_sender c (slot_drop c i)"
  "same_sender c (ready_put c bs)"
  "same_sender c (slot_fill c j sq bs)"
  "same_sender c (fin_transition c)"
  "same_sender c (consume_pending_fin c)"
  "same_sender c (process_fin c s)"
  "same_sender c (c\<lparr>conn_remote_window := w\<rparr>)"
  "same_sender c (c\<lparr>conn_receive_ready := r, conn_receive_ready_len := n\<rparr>)"
  by (simp_all add: same_sender_def slot_drop_def ready_put_def slot_fill_def fin_transition_def
      consume_pending_fin_def process_fin_def Let_def)

lemma promote_step_sender: "promote_step c c' \<Longrightarrow> same_sender c c'"
  by (erule promote_stepE) (auto intro: same_sender_trans)

lemma promote_steps_sender: "promote_step\<^sup>*\<^sup>* c c' \<Longrightarrow> same_sender c c'"
  by (induction rule: rtranclp_induct) (auto intro: same_sender_trans promote_step_sender)

lemma process_payload_sender:
  assumes "conn_wf c" and "segment_wf s" and "process_payload c s = Some (rc, c')"
  shows "same_sender c c'"
  using assms(1,2)
proof (cases rule: process_payload_cases)
  case (accepted d)
  from same_sender_trans [OF same_sender_trans [OF same_sender_ops(3) promote_steps_sender [OF accepted(2)]]
    same_sender_ops(6)] accepted(1) assms(3) show ?thesis by simp
next
  case (partial d)
  from same_sender_trans [OF same_sender_ops(3) promote_steps_sender [OF partial(2)]] partial(1) assms(3)
  show ?thesis by simp
qed (use assms(3) in auto)

lemma on_segment_sender:
  assumes wf: "conn_wf c" and sw: "segment_wf s" and ok: "sender_ok c"
    and on: "tcp_connection_on_segment (Some c) (Some s) = Some (rc, Some c')"
  shows "sender_ok c'"
proof -
  define d where "d = (on_ack c s)\<lparr>conn_remote_window := tcp_window_size s\<rparr>"
  have d: "conn_wf d" "sender_ok d"
    unfolding d_def
    using same_buffers_wf [OF same_buffers_ops(8) same_buffers_wf [OF same_buffers_ops(4) wf]]
      on_ack_sender [OF ok] same_sender_ok [OF same_sender_ops(8)] by simp_all
  have syn: "sender_ok (snd (on_syn_sent d s))"
    using d(2) by (auto simp: on_syn_sent_def sender_ok_def const_defs)
  have fin: "sender_ok (on_fin_acked e)" if "sender_ok e" for e
    using that by (auto simp: on_fin_acked_def sender_ok_def Let_def)
  have pay: "sender_ok e \<and> sender_ok (on_fin_acked (consume_pending_fin (process_fin e s)))"
    if "process_payload d s = Some (r, e)" for r e
    using same_sender_ok [OF process_payload_sender [OF d(1) sw that]] d(2) fin
      same_sender_ok [OF same_sender_trans [OF same_sender_ops(7) same_sender_ops(6)]] by simp
  have rst: "sender_ok (on_rst c)"
    using ok by (simp add: on_rst_def clear_reassembly_def sender_ok_def)
  show ?thesis
    using on d syn pay rst ok
    by (auto simp: tcp_connection_on_segment_def Let_def case_prod_beta simp flip: d_def
        split: if_splits bind_splits)
qed

lemma count_succ: "unat (n + 1 :: u32) = unat n + 1" if "\<not> 5 \<le> n"
  using that by (simp add: word_le_nat_alt unat_word_ariths)

lemma tick_sender:
  assumes "sender_ok c" and "tcp_connection_tick (Some c) e (Some g) = (rc, Some c', s)"
  shows "sender_ok c'"
proof -
  have "unat (conn_retransmit_count c + 1) \<le> 5" if "\<not> 5 \<le> conn_retransmit_count c"
    using that count_succ [of "conn_retransmit_count c"] by (simp add: word_le_nat_alt)
  moreover have "1000 \<le> unat (tick_backoff (conn_retransmit_timeout_ms c))"
    "unat (tick_backoff (conn_retransmit_timeout_ms c)) \<le> 16000"
    using assms(1) tick_backoff_bounds [of "conn_retransmit_timeout_ms c"] by (simp_all add: sender_ok_def)
  ultimately show ?thesis
    using assms by (auto simp: tcp_connection_tick_def Let_def sender_ok_def split: if_splits)
qed

lemma built_sender:
  assumes "sender_ok c" and "length pd \<le> 65515" and "unat (k :: u32) \<le> 65515"
  shows "sender_ok (remember_for_retransmission
      (c\<lparr>conn_send_unacknowledged := conn_send_next c, conn_send_next := conn_send_next c + k,
         conn_state := st\<rparr>)
      (tcp_built sp dp sq ak fl w pd))"
proof -
  have v: "tcp_valid (tcp_built sp dp sq ak fl w pd)" by (rule tcp_built_valid [OF assms(2)])
  then have "tcp_wf (tcp_built sp dp sq ak fl w pd)" by (simp add: tcp_valid_def)
  with v assms show ?thesis by (simp add: sender_ok_def remember_for_retransmission_def)
qed

interpretation sender: conn_invariant "\<lambda>(c, log). conn_wf c \<and> sender_ok c" event_wf
proof unfold_locales
  fix st :: "tcp_connection \<times> bytes" and e
  assume i: "case st of (c, log) \<Rightarrow> conn_wf c \<and> sender_ok c" and e: "event_wf e"
  obtain c log where st: "st = (c, log)" by (cases st)
  have wf: "conn_wf c" and ok: "sender_ok c" using i st by simp_all
  from safe.step [of "(c, log)" e] wf e obtain c' log' where
    step: "conn_step e (c, log) = Some (c', log')" and wf': "conn_wf c'" by auto
  have len: "unat (of_nat n :: u32) \<le> 65515" if "n \<le> 65515" for n
    using that by (subst unsigned_of_nat) (simp add: take_bit_eq_mod)
  have "sender_ok c'"
  proof (cases e)
    case (Open w)
    with step ok built_sender [OF ok, of "[]" 1] show ?thesis
      by (auto simp: build_syn_eq Let_def split: if_splits)
  next
    case (Receive s)
    with step e on_segment_sender [OF wf _ ok, of s] show ?thesis
      by (auto simp: event_wf_def split: bind_splits)
  next
    case (Read n)
    from read_step [OF wf, of n log] step Read obtain r l where "c' = c\<lparr>conn_receive_ready := r,
        conn_receive_ready_len := l\<rparr>" by auto
    then show ?thesis using ok same_sender_ok [OF same_sender_ops(9)] by simp
  next
    case (Send pd w)
    with step ok built_sender [OF ok, of pd "of_nat (length pd)" "conn_state c"] len show ?thesis
      by (auto simp: build_data_eq Let_def split: if_splits)
  next
    case (Close w)
    with step ok built_sender [OF ok, of "[]" 1] show ?thesis
      by (auto simp: build_fin_eq Let_def split: if_splits)
  next
    case (Tick t)
    with step tick_sender [OF ok, of t tcp_zero] show ?thesis
      by (auto split: prod.splits bind_splits)
  qed
  with step wf' st show "\<exists>st'. conn_step e st = Some st' \<and> (case st' of (c, log) \<Rightarrow> conn_wf c \<and> sender_ok c)"
    by auto
qed

section \<open>Exact moves\<close>

text \<open>
  The state each call leaves behind, as a function of the connection before it, its argument and
  the bytes it delivers. \<open>delivered_to c c'\<close> is the sequence number after the bytes that the
  call appended to the receive buffer; a FIN of the peer is taken exactly when it stands there,
  be it the FIN of this segment or one kept from an earlier segment.
\<close>

definition delivered_to :: "tcp_connection \<Rightarrow> tcp_connection \<Rightarrow> u32" where
  "delivered_to c c' = conn_receive_next c + of_nat (conn_receive_ready_len c' - conn_receive_ready_len c)"

definition takes_fin :: "tcp_connection \<Rightarrow> tcp_segment \<Rightarrow> tcp_connection \<Rightarrow> bool" where
  "takes_fin c s c' \<longleftrightarrow>
     tcp_flags s AND TCP_FLAG_FIN \<noteq> 0
       \<and> tcp_sequence_number s + of_nat (tcp_payload_len s) = delivered_to c c'
     \<or> conn_pending_fin c \<and> conn_pending_fin_sequence c = delivered_to c c'"

definition acks_new :: "tcp_connection \<Rightarrow> tcp_segment \<Rightarrow> bool" where
  "acks_new c s \<longleftrightarrow> tcp_flags s AND TCP_FLAG_ACK \<noteq> 0
     \<and> seq_gt (tcp_acknowledgment_number s) (conn_send_unacknowledged c)
     \<and> seq_le (tcp_acknowledgment_number s) (conn_send_next c)"

definition all_acked :: "tcp_connection \<Rightarrow> tcp_segment \<Rightarrow> bool" where
  "all_acked c s \<longleftrightarrow> (if acks_new c s then tcp_acknowledgment_number s
     else conn_send_unacknowledged c) = conn_send_next c"

definition close_state :: "tcp_connection_state \<Rightarrow> tcp_connection_state" where
  "close_state st = (if st = TCP_STATE_ESTABLISHED then TCP_STATE_FIN_WAIT_1
     else if st = TCP_STATE_CLOSE_WAIT then TCP_STATE_LAST_ACK else st)"

definition acked_state :: "tcp_connection_state \<Rightarrow> tcp_connection_state" where
  "acked_state st = (if st = TCP_STATE_FIN_WAIT_1 then TCP_STATE_FIN_WAIT_2
     else if st = TCP_STATE_LAST_ACK then TCP_STATE_CLOSED else st)"

definition receive_move :: "int \<Rightarrow> tcp_connection \<Rightarrow> tcp_segment \<Rightarrow> tcp_connection \<Rightarrow> bool" where
  "receive_move rc c s c' \<longleftrightarrow>
    (let st = conn_state c; st' = conn_state c' in
     if tcp_source_port s \<noteq> conn_remote_port c \<or> tcp_destination_port s \<noteq> conn_local_port c
     then rc = -1 \<and> c' = c
     else if tcp_flags s AND TCP_FLAG_RST \<noteq> 0 then rc = 0 \<and> st' = TCP_STATE_RESET
     else if st = TCP_STATE_SYN_SENT
     then if tcp_flags s AND 0x12 \<noteq> 0x12 then rc = 0 \<and> st' = TCP_STATE_SYN_SENT
       else if tcp_acknowledgment_number s \<noteq> conn_send_next c then rc = -1 \<and> st' = TCP_STATE_SYN_SENT
       else rc = 1 \<and> st' = TCP_STATE_ESTABLISHED \<and> conn_receive_next c' = tcp_sequence_number s + 1
     else if st \<in> {TCP_STATE_CLOSED, TCP_STATE_TIME_WAIT, TCP_STATE_RESET} then rc = 0 \<and> st' = st
     else if rc = -2 then 0 < tcp_payload_len s \<and> st' = st
     else rc = 0
       \<and> st' = (let st1 = if takes_fin c s c' then fin_state st else st in
                if all_acked c s then acked_state st1 else st1))"

definition conn_move :: "conn_event \<Rightarrow> tcp_connection \<Rightarrow> tcp_connection \<Rightarrow> bool" where
  "conn_move e c c' = (case e of
       Open w \<Rightarrow> conn_state c' = (if conn_state c = TCP_STATE_CLOSED then TCP_STATE_SYN_SENT else conn_state c)
     | Send pd w \<Rightarrow> conn_state c' = conn_state c
     | Read n \<Rightarrow> conn_state c' = conn_state c
     | Close w \<Rightarrow> conn_state c' = close_state (conn_state c)
     | Tick t \<Rightarrow> conn_state c' =
         (if conn_has_retransmit_segment c \<and> conn_retransmit_limit c \<le> conn_retransmit_count c
             \<and> conn_retransmit_timeout_ms c \<le> tick_elapsed (conn_retransmit_elapsed_ms c) t
          then TCP_STATE_RESET else conn_state c)
     | Receive s \<Rightarrow> \<exists>rc. tcp_connection_on_segment (Some c) (Some s) = Some (rc, Some c')
         \<and> receive_move rc c s c')"

fun run_moves :: "conn_event list \<Rightarrow> tcp_connection \<times> bytes \<Rightarrow> bool" where
  "run_moves [] st \<longleftrightarrow> True"
| "run_moves (e # es) st \<longleftrightarrow>
     (case conn_step e st of None \<Rightarrow> False | Some st' \<Rightarrow> conn_move e (fst st) (fst st') \<and> run_moves es st')"

text \<open>Delivering bytes moves the receive position by their number and nothing else that a FIN reads.\<close>

definition advances :: "tcp_connection \<Rightarrow> tcp_connection \<Rightarrow> bool" where
  "advances c c' \<longleftrightarrow> conn_receive_ready_len c \<le> conn_receive_ready_len c'
     \<and> conn_receive_next c' = delivered_to c c'
     \<and> conn_state c' = conn_state c \<and> conn_pending_fin c' = conn_pending_fin c
     \<and> conn_pending_fin_sequence c' = conn_pending_fin_sequence c"

lemma advances_trans: "advances a b \<Longrightarrow> advances b c \<Longrightarrow> advances a c"
  by (auto simp: advances_def delivered_to_def add.assoc simp flip: of_nat_add)

lemma advances_refl [simp]: "advances c c"
  by (simp add: advances_def delivered_to_def)

lemma advances_ops: "advances c (slot_drop c i)" "advances c (ready_put c bs)" "advances c (slot_fill c j sq bs)"
  by (simp_all add: advances_def delivered_to_def slot_drop_def ready_put_def slot_fill_def)

lemma promote_steps_advance: "promote_step\<^sup>*\<^sup>* c c' \<Longrightarrow> advances c c'"
proof (induction rule: rtranclp_induct)
  case (step d e)
  have "advances d e"
    using step.hyps(2) by (auto elim!: promote_stepE intro: advances_ops advances_trans [OF advances_ops(2,1)])
  with step.IH show ?case by (rule advances_trans)
qed simp

lemma process_payload_exact:
  assumes "conn_wf c" and "segment_wf s" and "process_payload c s = Some (rc, c')"
  shows "\<exists>d. advances c d \<and> (rc = 0 \<and> (c' = d \<or> c' = consume_pending_fin d)
    \<or> rc = -1 \<and> c' = d \<and> 0 < tcp_payload_len s)"
  using assms(1,2)
proof (cases rule: process_payload_cases)
  case (accepted d)
  from advances_trans [OF advances_ops(2) promote_steps_advance [OF accepted(2)]] accepted(1) assms(3)
  show ?thesis by auto
next
  case (partial d)
  from advances_trans [OF advances_ops(2) promote_steps_advance [OF partial(2)]] partial(1,6) assms(3)
  show ?thesis by auto
next
  case (stored j)
  with assms(3) show ?thesis by (auto intro: advances_ops(3))
qed (use assms(3) in \<open>auto intro: exI [of _ c]\<close>)

lemma fin_stage_state:
  assumes "e = d \<or> e = consume_pending_fin d"
  shows "conn_state (consume_pending_fin (process_fin e s)) =
    (if tcp_flags s AND TCP_FLAG_FIN \<noteq> 0
         \<and> tcp_sequence_number s + of_nat (tcp_payload_len s) = conn_receive_next d
       \<or> conn_pending_fin d \<and> conn_pending_fin_sequence d = conn_receive_next d
     then fin_state (conn_state d) else conn_state d)"
proof (cases "conn_pending_fin d \<and> conn_pending_fin_sequence d = conn_receive_next d \<and> e = consume_pending_fin d")
  case True
  then have e: "conn_state e = fin_state (conn_state d)"
    by (simp add: consume_pending_fin_def fin_transition_state)
  have "conn_state (consume_pending_fin (process_fin e s)) \<in> {conn_state e, fin_state (conn_state e)}"
    using process_fin_state [of e s] consume_pending_fin_state [of "process_fin e s"] by auto
  with e True show ?thesis by simp
next
  case False
  with assms have e: "e = d" by (auto simp: consume_pending_fin_def)
  have gl: "\<not> (seq_gt a b \<and> seq_lt a b)" "\<not> seq_gt a a" for a b by (simp_all add: seq_gt_def seq_lt_def)
  show ?thesis
    unfolding e using gl
    by (auto simp: process_fin_def consume_pending_fin_def fin_transition_state Let_def)
qed

lemma on_fin_acked_exact: "conn_state (on_fin_acked c) =
    (if conn_send_unacknowledged c = conn_send_next c then acked_state (conn_state c) else conn_state c)"
  by (simp add: on_fin_acked_def acked_state_def Let_def)

lemma on_ack_frame:
  "conn_send_next (on_ack c s) = conn_send_next c" "advances c ((on_ack c s)\<lparr>conn_remote_window := w\<rparr>)"
  "all_acked c s \<longleftrightarrow> conn_send_unacknowledged (on_ack c s) = conn_send_next (on_ack c s)"
  by (auto simp: on_ack_def advances_def delivered_to_def all_acked_def acks_new_def Let_def)

lemma on_segment_early:
  assumes on: "tcp_connection_on_segment (Some c) (Some s) = Some (rc, Some c')"
    and early: "tcp_source_port s \<noteq> conn_remote_port c \<or> tcp_destination_port s \<noteq> conn_local_port c
    \<or> tcp_flags s AND TCP_FLAG_RST \<noteq> 0 \<or> conn_state c = TCP_STATE_SYN_SENT \<or> \<not> receives_data (conn_state c)"
  shows "receive_move rc c s c'"
proof -
  let ?ports = "tcp_source_port s \<noteq> conn_remote_port c \<or> tcp_destination_port s \<noteq> conn_local_port c"
  consider "?ports" | "\<not> ?ports" "tcp_flags s AND TCP_FLAG_RST \<noteq> 0"
    | "\<not> ?ports" "tcp_flags s AND TCP_FLAG_RST = 0" "conn_state c = TCP_STATE_SYN_SENT"
    | "\<not> ?ports" "tcp_flags s AND TCP_FLAG_RST = 0" "conn_state c \<noteq> TCP_STATE_SYN_SENT"
      "\<not> receives_data (conn_state c)" using early by blast
  then show ?thesis
  proof cases
    case 3
    have "Some (rc, Some c') = (let (rc, c) = on_syn_sent ((on_ack c s)\<lparr>conn_remote_window := tcp_window_size s\<rparr>) s
        in Some (rc, Some c))"
      using on 3 by (simp add: tcp_connection_on_segment_def Let_def)
    with 3 show ?thesis
      by (simp add: on_syn_sent_def receive_move_def on_ack_frame(1) const_defs split: if_splits)
  next
    case 4
    then have "rc = 0 \<and> conn_state c' = conn_state c"
      using on by (auto simp: tcp_connection_on_segment_def Let_def)
    moreover have "conn_state c \<in> {TCP_STATE_CLOSED, TCP_STATE_TIME_WAIT, TCP_STATE_RESET}"
      using 4(3,4) by (cases "conn_state c") (simp_all add: receives_data_def)
    ultimately show ?thesis using 4(1,2,3) by (auto simp: receive_move_def Let_def)
  qed (use on in \<open>auto simp: tcp_connection_on_segment_def receive_move_def on_rst_def clear_reassembly_def\<close>)
qed

lemma on_segment_exact:
  assumes wf: "conn_wf c" and sw: "segment_wf s"
    and on: "tcp_connection_on_segment (Some c) (Some s) = Some (rc, Some c')"
  shows "receive_move rc c s c'"
proof (cases "tcp_source_port s \<noteq> conn_remote_port c \<or> tcp_destination_port s \<noteq> conn_local_port c
    \<or> tcp_flags s AND TCP_FLAG_RST \<noteq> 0 \<or> conn_state c = TCP_STATE_SYN_SENT \<or> \<not> receives_data (conn_state c)")
  case True
  from on_segment_early [OF on this] show ?thesis .
next
  case False
  define d where "d = (on_ack c s)\<lparr>conn_remote_window := tcp_window_size s\<rparr>"
  have wd: "conn_wf d"
    unfolding d_def using same_buffers_wf [OF same_buffers_ops(8) same_buffers_wf [OF same_buffers_ops(4) wf]] .
  have d: "conn_state d = conn_state c" "advances c d"
    "all_acked c s \<longleftrightarrow> conn_send_unacknowledged d = conn_send_next d"
    by (simp_all add: d_def on_ack_frame)
  obtain r e where pp: "process_payload d s = Some (r, e)" "r \<in> {0, -1}"
    using process_payload_safe [OF wd sw] by auto
  have c': "if r \<noteq> 0 then rc = -2 \<and> c' = e
      else rc = 0 \<and> c' = on_fin_acked (consume_pending_fin (process_fin e s))"
    using on False pp(1) d(1) by (auto simp: tcp_connection_on_segment_def Let_def simp flip: d_def split: if_splits)
  from process_payload_exact [OF wd sw pp(1)] obtain g where g: "advances d g"
    "r = 0 \<and> (e = g \<or> e = consume_pending_fin g) \<or> r = -1 \<and> e = g \<and> 0 < tcp_payload_len s" by blast
  have cg: "advances c g" by (rule advances_trans [OF d(2) g(1)])
  have "receives_data (conn_state c) \<Longrightarrow> conn_state c \<notin> {TCP_STATE_CLOSED, TCP_STATE_TIME_WAIT, TCP_STATE_RESET}"
    by (auto simp: receives_data_def)
  moreover {
    assume r: "r = 0"
    let ?h = "consume_pending_fin (process_fin e s)"
    have eg: "e = g \<or> e = consume_pending_fin g" using g(2) r by simp
    have "conn_receive_ready_len c' = conn_receive_ready_len g"
      using same_buffers_ops(2,3,6) c' r eg unfolding same_buffers_def by metis
    then have "takes_fin c s c' \<longleftrightarrow> tcp_flags s AND TCP_FLAG_FIN \<noteq> 0
         \<and> tcp_sequence_number s + of_nat (tcp_payload_len s) = conn_receive_next g
       \<or> conn_pending_fin g \<and> conn_pending_fin_sequence g = conn_receive_next g"
      using cg by (simp add: takes_fin_def advances_def delivered_to_def)
    then have h: "conn_state ?h = (if takes_fin c s c' then fin_state (conn_state c) else conn_state c)"
      using fin_stage_state [OF eg, of s] cg by (simp add: advances_def)
    have "same_sender d ?h"
      using process_payload_sender [OF wd sw pp(1)] same_sender_trans same_sender_ops(6,7) by blast
    then have "conn_send_unacknowledged ?h = conn_send_next ?h \<longleftrightarrow> all_acked c s"
      using d(3) by (simp add: same_sender_def)
    with h c' r have "conn_state c' = (let st1 = if takes_fin c s c' then fin_state (conn_state c) else conn_state c in
        if all_acked c s then acked_state st1 else st1)"
      by (simp add: on_fin_acked_exact Let_def)
  }
  moreover have "conn_state e = conn_state c" if "r \<noteq> 0" using that g(2) cg by (auto simp: advances_def)
  ultimately show ?thesis
    using False c' g(2) by (auto simp: receive_move_def Let_def)
qed

lemma step_moves:
  assumes wf: "conn_wf c" and e: "event_wf e" and step: "conn_step e (c, log) = Some (c', log')"
  shows "conn_move e c c'"
proof (cases e)
  case (Receive s)
  with step e on_segment_exact [OF wf, of s] show ?thesis
    by (auto simp: conn_move_def event_wf_def split: bind_splits)
next
  case (Read n)
  from read_step [OF wf, of n log] step Read obtain r l where "c' = c\<lparr>conn_receive_ready := r,
      conn_receive_ready_len := l\<rparr>" by auto
  with Read show ?thesis by (simp add: conn_move_def)
next
  case (Send pd w)
  with send_step [of pd w c log] step show ?thesis by (auto simp: conn_move_def)
next
  case (Tick t)
  with step show ?thesis
    by (auto simp: conn_move_def tcp_connection_tick_def Let_def split: if_splits)
qed (use step in \<open>auto simp: conn_move_def build_syn_eq build_fin_eq close_state_def Let_def
    remember_for_retransmission_def split: if_splits\<close>)

lemma run_moves_all:
  "conn_wf c \<Longrightarrow> list_all event_wf es \<Longrightarrow> run_moves es (c, log)"
proof (induction es arbitrary: c log)
  case (Cons e es)
  from safe.step [of "(c, log)" e] Cons.prems obtain c' log' where
    "conn_step e (c, log) = Some (c', log')" "conn_wf c'" by auto
  with Cons step_moves [of c e log c' log'] show ?case by simp
qed simp

section \<open>Retransmission\<close>

fun tick_run :: "u32 list \<Rightarrow> tcp_connection \<Rightarrow> (int \<times> tcp_segment ptr) list \<times> tcp_connection ptr" where
  "tick_run [] c = ([], Some c)"
| "tick_run (e # es) c =
    (case tcp_connection_tick (Some c) e (Some tcp_zero) of
       (rc, p, s) \<Rightarrow> (case p of None \<Rightarrow> ([(rc, s)], None)
         | Some c' \<Rightarrow> (case tick_run es c' of (l, c'') \<Rightarrow> ((rc, s) # l, c''))))"

lemma tick_elapsed_ge: "unat e \<le> unat (tick_elapsed cur e)"
proof (cases "e > 0xFFFFFFFF - cur")
  case True
  then show ?thesis
    using unat_word_less [of e] by (simp add: tick_elapsed_def)
next
  case False
  have "unat (0xFFFFFFFF - cur) = unat (0xFFFFFFFF :: u32) - unat cur"
    using unat_word_less [of cur] by (intro unat_sub) (simp add: word_le_nat_alt)
  then have "unat e + unat cur < 4294967296"
    using False unat_word_less [of cur] by (simp add: word_less_nat_alt)
  then show ?thesis using False by (simp add: tick_elapsed_def unat_word_ariths)
qed

text \<open>The three outcomes of a clock tick while a segment is outstanding, and the one without.\<close>

lemma tick_cases:
  assumes "sender_ok c"
  obtains (idle) "\<not> conn_has_retransmit_segment c" "tcp_connection_tick (Some c) e (Some g) = (0, Some c, Some g)"
  | (wait) "conn_has_retransmit_segment c" "unat e < 16000"
      "tcp_connection_tick (Some c) e (Some g) = (0, Some (c\<lparr>conn_retransmit_elapsed_ms :=
         tick_elapsed (conn_retransmit_elapsed_ms c) e\<rparr>), Some g)"
  | (give_up) c' where "conn_has_retransmit_segment c" "conn_retransmit_count c = 5"
      "tcp_connection_tick (Some c) e (Some g) = (-1, Some c', Some g)"
      "conn_state c' = TCP_STATE_RESET" "\<not> conn_has_retransmit_segment c'"
      "conn_retransmit_count c' = 5"
  | (resend) c' where "conn_has_retransmit_segment c" "unat (conn_retransmit_count c) < 5"
      "tcp_connection_tick (Some c) e (Some g) = (1, Some c', Some (conn_last_segment c))"
      "unat (conn_retransmit_count c') = unat (conn_retransmit_count c) + 1"
      "conn_last_segment c' = conn_last_segment c" "conn_has_retransmit_segment c'"
proof -
  let ?t = "tick_elapsed (conn_retransmit_elapsed_ms c) e"
  consider "\<not> conn_has_retransmit_segment c"
    | "conn_has_retransmit_segment c" "?t < conn_retransmit_timeout_ms c"
    | "conn_has_retransmit_segment c" "\<not> ?t < conn_retransmit_timeout_ms c" "5 \<le> conn_retransmit_count c"
    | "conn_has_retransmit_segment c" "\<not> ?t < conn_retransmit_timeout_ms c" "\<not> 5 \<le> conn_retransmit_count c"
    by blast
  then show ?thesis
  proof cases
    case 1
    then show ?thesis by (intro idle) (simp_all add: tcp_connection_tick_def)
  next
    case 2
    have "unat e < 16000"
      using 2(2) tick_elapsed_ge [of e "conn_retransmit_elapsed_ms c"] assms
      by (simp add: word_less_nat_alt sender_ok_def)
    with 2 show ?thesis by (intro wait) (simp_all add: tcp_connection_tick_def Let_def)
  next
    case 3
    have "conn_retransmit_count c = 5"
      using 3(3) assms by (simp add: sender_ok_def word_le_nat_alt flip: unat_inject)
    with 3 assms show ?thesis
      by (intro give_up [of "c\<lparr>conn_retransmit_elapsed_ms := ?t, conn_state := TCP_STATE_RESET,
            conn_has_retransmit_segment := False\<rparr>"])
        (simp_all add: tcp_connection_tick_def Let_def sender_ok_def)
  next
    case 4
    with assms show ?thesis
      by (intro resend [of "c\<lparr>conn_retransmit_elapsed_ms := 0,
            conn_retransmit_count := conn_retransmit_count c + 1,
            conn_retransmit_timeout_ms := tick_backoff (conn_retransmit_timeout_ms c)\<rparr>"])
        (simp_all add: tcp_connection_tick_def Let_def sender_ok_def count_succ word_le_nat_alt)
  qed
qed

lemma tick_run_spec:
  assumes "sender_ok c" and "tick_run es c = (l, p)"
  shows "\<exists>c'. p = Some c' \<and> sender_ok c'
    \<and> length (filter (\<lambda>(rc, s). rc = 1) l) = unat (conn_retransmit_count c') - unat (conn_retransmit_count c)
    \<and> unat (conn_retransmit_count c) \<le> unat (conn_retransmit_count c')
    \<and> (\<forall>s. (1, s) \<in> set l \<longrightarrow> s = Some (conn_last_segment c))"
  using assms
proof (induction es arbitrary: c l)
  case (Cons e es)
  obtain rc d s where t: "tcp_connection_tick (Some c) e (Some tcp_zero) = (rc, Some d, s)"
    using Cons.prems(1) by (cases rule: tick_cases [where e = e and g = tcp_zero]) auto
  obtain l' where l': "tick_run es d = (l', p)" "l = (rc, s) # l'"
    using Cons.prems(2) t by (auto split: prod.splits)
  have d: "sender_ok d" by (rule tick_sender [OF Cons.prems(1) t])
  from Cons.IH [OF d l'(1)] obtain c' where c': "p = Some c'" "sender_ok c'"
    "length (filter (\<lambda>(rc, s). rc = 1) l') = unat (conn_retransmit_count c') - unat (conn_retransmit_count d)"
    "unat (conn_retransmit_count d) \<le> unat (conn_retransmit_count c')"
    "\<forall>s. (1, s) \<in> set l' \<longrightarrow> s = Some (conn_last_segment d)" by blast
  have "conn_last_segment d = conn_last_segment c
    \<and> (rc = 1 \<and> unat (conn_retransmit_count d) = unat (conn_retransmit_count c) + 1 \<and> s = Some (conn_last_segment c)
      \<or> rc \<noteq> 1 \<and> conn_retransmit_count d = conn_retransmit_count c)"
    using Cons.prems(1)
  proof (cases rule: tick_cases [where e = e and g = tcp_zero])
    case (give_up c')
    have "conn_last_segment c' = conn_last_segment c"
      using give_up(3) by (auto simp: tcp_connection_tick_def Let_def split: if_splits)
    with give_up t show ?thesis by simp
  qed (use t in auto)
  with c' l'(2) show ?case by auto
qed auto

lemma tick_run_gives_up:
  assumes "sender_ok c" and "conn_has_retransmit_segment c" and "\<forall>e \<in> set es. 16000 \<le> unat e"
    and "5 < unat (conn_retransmit_count c) + length es" and "tick_run es c = (l, Some c')"
  shows "conn_state c' = TCP_STATE_RESET \<and> \<not> conn_has_retransmit_segment c'"
  using assms
proof (induction es arbitrary: c l)
  case Nil
  then show ?case by (simp add: sender_ok_def)
next
  case (Cons e es)
  from Cons.prems(1) show ?case
  proof (cases rule: tick_cases [where e = e and g = tcp_zero])
    case (give_up d)
    have "tick_run fs d = (map (\<lambda>_. (0, Some tcp_zero)) fs, Some d)" for fs
      using give_up(5) by (induction fs) (simp_all add: tcp_connection_tick_def)
    with give_up Cons.prems(5) show ?thesis by (auto split: prod.splits)
  next
    case (resend d)
    have "sender_ok d" by (rule tick_sender [OF Cons.prems(1) resend(3)])
    moreover obtain l' where "tick_run es d = (l', Some c')"
      using Cons.prems(5) resend(3) by (auto split: prod.splits)
    ultimately show ?thesis
      using Cons.IH [of d l'] resend Cons.prems(3,4) by simp
  qed (use Cons.prems in auto)
qed

section \<open>Properties\<close>

text \<open>
  (C7) The state machine. Whatever well-formed segments arrive and whatever the application
  does, no call touches memory out of bounds, and each call of the run leaves exactly the state
  that \<open>conn_move\<close> gives for it. Opening leaves CLOSED for SYN-SENT; closing turns ESTABLISHED
  into FIN-WAIT-1 and CLOSE-WAIT into LAST-ACK; sending and reading never move; a tick resets
  exactly when the timer of an outstanding segment has run out after the last allowed
  retransmission. A segment with other ports changes nothing; one with RST resets; in SYN-SENT a
  SYN-ACK of the own SYN establishes the connection and any other segment does not; in CLOSED,
  TIME-WAIT and RESET nothing moves; in the other states a segment whose payload is refused
  (result -2) leaves the state, and one that is taken moves ESTABLISHED to CLOSE-WAIT and
  FIN-WAIT-1 and FIN-WAIT-2 to TIME-WAIT exactly when a FIN of the peer stands right after the
  bytes delivered, and then FIN-WAIT-1 to FIN-WAIT-2 and LAST-ACK to CLOSED exactly when everything
  sent is acknowledged. So the run goes along the edges of \<open>tcp_transition\<close>; a connection
  that has been reset stays reset, and one in TIME-WAIT can only be reset.
\<close>

theorem tcp_state_machine:
  assumes "conn_wf c" and "list_all event_wf es"
  shows "\<exists>c' log'. conn_run es (c, log) = Some (c', log') \<and> conn_wf c'
    \<and> run_moves es (c, log)
    \<and> tcp_transition\<^sup>*\<^sup>* (conn_state c) (conn_state c')
    \<and> (conn_state c = TCP_STATE_RESET \<longrightarrow> conn_state c' = TCP_STATE_RESET)
    \<and> (conn_state c = TCP_STATE_TIME_WAIT \<longrightarrow> conn_state c' \<in> {TCP_STATE_TIME_WAIT, TCP_STATE_RESET})
    \<and> tcp_connection_reassembly_count (Some c') = used_slots c'"
proof -
  have "machine_inv (conn_state c) (c, log)" using assms(1) by (simp add: machine_inv_def)
  from machine.run [OF this assms(2)] obtain c' log' where
    r: "conn_run es (c, log) = Some (c', log')" "conn_wf c'" "tcp_transition\<^sup>*\<^sup>* (conn_state c) (conn_state c')"
    by (auto simp: machine_inv_def)
  then show ?thesis
    using reset_final [of "conn_state c'"] time_wait_final [of "conn_state c'"] run_moves_all [OF assms]
    by (auto simp: tcp_connection_reassembly_count_def conn_wf_def)
qed

definition example_fresh :: tcp_connection where
  "example_fresh = clear_reassembly (conn_zero\<lparr>conn_local_port := 40000, conn_remote_port := 80\<rparr>)"

definition example_close_run :: "conn_event list" where
  "example_close_run = [Open 8192, Receive (tcp_built 80 40000 5000 1 0x12 8192 []), Close 8192,
     Receive (tcp_built 80 40000 5001 2 0x11 8192 [])]"

lemma example_fresh_wf: "conn_wf example_fresh"
  by (simp add: example_fresh_def conn_wf_def clear_reassembly_def conn_zero_def used_slots_def const_defs
      list_all_length)

theorem tcp_state_machine_witness:
  "\<exists>c' log'. conn_run example_close_run (example_fresh, []) = Some (c', log') \<and> conn_wf c'
    \<and> run_moves example_close_run (example_fresh, [])"
  using tcp_state_machine [OF example_fresh_wf, of example_close_run "[]"]
  by (auto simp: example_close_run_def event_wf_def segment_wf_def tcp_built_def)

text \<open>
  (C10) Retransmission is bounded. Let a connection be reached by any calls from a freshly
  initialised one, and let only clock ticks follow: at most five retransmissions happen since
  the last acknowledgment, each of exactly the last segment built, the timeout stays between
  1 and 16 seconds, and six ticks of at least 16 seconds reset the connection.
\<close>

theorem tcp_retransmission_bounded:
  assumes "tcp_connection_init (Some g) local_port remote_port iss = Some c0"
    and "list_all event_wf es" and "conn_run es (c0, []) = Some (c, log)"
    and "tick_run ts c = (outcomes, p)"
  shows "\<exists>c'. p = Some c'
    \<and> unat (conn_retransmit_count c) + length (filter (\<lambda>(rc, s). rc = 1) outcomes) \<le> 5
    \<and> (\<forall>s. (1, s) \<in> set outcomes \<longrightarrow> s = Some (conn_last_segment c))
    \<and> 1000 \<le> unat (conn_retransmit_timeout_ms c') \<and> unat (conn_retransmit_timeout_ms c') \<le> 16000
    \<and> (conn_has_retransmit_segment c \<and> 6 \<le> length ts \<and> (\<forall>t \<in> set ts. 16000 \<le> unat t) \<longrightarrow>
         conn_state c' = TCP_STATE_RESET)"
proof -
  have "conn_wf c0" by (rule conn_init_wf [OF assms(1)])
  moreover have "sender_ok c0"
    using assms(1) by (auto simp: tcp_connection_init_def sender_ok_def clear_reassembly_def conn_zero_def
        const_defs tcp_wf_def tcp_zero_def)
  ultimately have ok: "sender_ok c"
    using sender.run [of "(c0, [])" es] assms(2,3) by auto
  from tick_run_spec [OF ok assms(4)] obtain c' where c': "p = Some c'" "sender_ok c'"
    "length (filter (\<lambda>(rc, s). rc = 1) outcomes) = unat (conn_retransmit_count c') - unat (conn_retransmit_count c)"
    "unat (conn_retransmit_count c) \<le> unat (conn_retransmit_count c')"
    "\<forall>s. (1, s) \<in> set outcomes \<longrightarrow> s = Some (conn_last_segment c)" by blast
  then show ?thesis
    using tick_run_gives_up [OF ok, of ts outcomes c'] assms(4) by (auto simp: sender_ok_def)
qed

lemma example_syn_sent:
  "\<exists>c0 c l p. tcp_connection_init (Some conn_zero) 40000 80 1000 = Some c0
    \<and> conn_run [Open 8192] (c0, []) = Some (c, []) \<and> conn_has_retransmit_segment c
    \<and> tick_run (replicate 6 16000) c = (l, p)"
  by (simp add: tcp_connection_init_def build_syn_eq clear_reassembly_def conn_zero_def Let_def
      remember_for_retransmission_def prod_eq_iff)

theorem tcp_retransmission_bounded_witness:
  "\<exists>c0 c l c'. tcp_connection_init (Some conn_zero) 40000 80 1000 = Some c0
    \<and> conn_run [Open 8192] (c0, []) = Some (c, [])
    \<and> tick_run (replicate 6 16000) c = (l, Some c') \<and> conn_state c' = TCP_STATE_RESET"
proof -
  obtain c0 c l p where c: "tcp_connection_init (Some conn_zero) 40000 80 1000 = Some c0"
    "conn_run [Open 8192] (c0, []) = Some (c, [])" "conn_has_retransmit_segment c"
    "tick_run (replicate 6 16000) c = (l, p)" using example_syn_sent by blast
  from tcp_retransmission_bounded [OF c(1) _ c(2,4)] c show ?thesis by (auto simp: event_wf_def)
qed

end
