(* ===== verification/TcpHandshake.thy ===== *)
theory TcpHandshake
  imports TcpStream TcpMachine
begin

text \<open>
  What the answer to a SYN does to a connection.
\<close>

definition handshake_ok :: "u16 \<Rightarrow> u16 \<Rightarrow> u32 \<Rightarrow> tcp_segment \<Rightarrow> bool" where
  "handshake_ok local_port remote_port iss a \<longleftrightarrow> tcp_source_port a = remote_port
     \<and> tcp_destination_port a = local_port \<and> tcp_flags a AND TCP_FLAG_RST = 0
     \<and> tcp_flags a AND TCP_FLAG_SYN \<noteq> 0 \<and> tcp_flags a AND TCP_FLAG_ACK \<noteq> 0
     \<and> tcp_acknowledgment_number a = iss + 1"

lemma single_flag: "f AND 2 = 0 \<or> f AND 2 = 2" "f AND 16 = 0 \<or> f AND 16 = 16" for f :: u8
proof -
  have b: "f AND 2 ^ n = (if bit f n then 2 ^ n else 0)" for n
    by (rule bit_word_eqI) (auto simp: bit_simps)
  from b [of 1] b [of 4] show "f AND 2 = 0 \<or> f AND 2 = 2" "f AND 16 = 0 \<or> f AND 16 = 16"
    by (auto split: if_splits)
qed

lemma syn_ack_flags:
  "f AND (TCP_FLAG_SYN OR TCP_FLAG_ACK) = TCP_FLAG_SYN OR TCP_FLAG_ACK \<longleftrightarrow>
    f AND TCP_FLAG_SYN \<noteq> 0 \<and> f AND TCP_FLAG_ACK \<noteq> 0" for f :: u8
proof -
  have "f AND (2 OR 16) = (f AND 2) OR (f AND 16)" by (rule bit.conj_disj_distrib)
  then have "f AND 18 = (f AND 2) OR (f AND 16)" by simp
  moreover have "(2 :: u8) OR 16 = 18" "(18 :: u8) AND 2 = 2" by simp_all
  ultimately show ?thesis
    using single_flag [of f] by (auto simp: const_defs)
qed

lemma seq_succ: "seq_gt (iss + 1) iss" "seq_le (iss + 1) (iss + 1)" for iss :: u32
  by (simp_all add: seq_gt_def seq_le_def)

lemma on_ack_sequence:
  "tcp_flags s AND TCP_FLAG_ACK \<noteq> 0 \<Longrightarrow> tcp_acknowledgment_number s = conn_send_next c \<Longrightarrow>
    conn_send_next c = conn_send_unacknowledged c + 1 \<Longrightarrow>
    on_ack c s = c\<lparr>conn_send_unacknowledged := conn_send_next c, conn_retransmit_elapsed_ms := 0,
      conn_retransmit_count := 0, conn_has_retransmit_segment := False,
      conn_retransmit_timeout_ms := TCP_DEFAULT_RTO_MS\<rparr>"
  using seq_succ [of "conn_send_unacknowledged c"] by (simp add: on_ack_def)

text \<open>The connection after its SYN has been sent.\<close>

definition syn_sent_conn :: "u16 \<Rightarrow> u16 \<Rightarrow> u32 \<Rightarrow> u16 \<Rightarrow> tcp_connection" where
  "syn_sent_conn lp rp iss w = (clear_reassembly conn_zero)\<lparr>conn_state := TCP_STATE_SYN_SENT,
     conn_local_port := lp, conn_remote_port := rp, conn_send_unacknowledged := iss,
     conn_send_next := iss + 1, conn_retransmit_timeout_ms := TCP_DEFAULT_RTO_MS,
     conn_retransmit_limit := TCP_DEFAULT_RETRANSMIT_LIMIT,
     conn_last_segment := tcp_built lp rp iss 0 2 w [], conn_has_retransmit_segment := True\<rparr>"

lemma conn_connect_eq:
  "conn_connect lp rp iss w a = do {
     (rc, p) \<leftarrow> tcp_connection_on_segment (Some (syn_sent_conn lp rp iss w)) (Some a);
     c \<leftarrow> p;
     Some (rc, c) }"
  by (simp add: conn_connect_def tcp_connection_init_def build_syn_eq Let_def syn_sent_conn_def
      clear_reassembly_def conn_zero_def remember_for_retransmission_def)

lemma syn_sent_fields [simp]:
  "conn_state (syn_sent_conn lp rp iss w) = TCP_STATE_SYN_SENT"
  "conn_local_port (syn_sent_conn lp rp iss w) = lp"
  "conn_remote_port (syn_sent_conn lp rp iss w) = rp"
  "conn_send_unacknowledged (syn_sent_conn lp rp iss w) = iss"
  "conn_send_next (syn_sent_conn lp rp iss w) = iss + 1"
  by (simp_all add: syn_sent_conn_def)

section \<open>Properties\<close>

text \<open>
  (C9) The handshake. Opening a connection and feeding it the answer to its SYN always
  succeeds in the sense of memory safety, and reports completion exactly for a segment from
  the peer's port to the local port, without RST, with SYN and ACK, that acknowledges the
  SYN. Then the connection is established, expects the byte after the peer's SYN, and has
  nothing left to retransmit; otherwise it still waits for the answer or has been reset.
\<close>

theorem tcp_handshake:
  "\<exists>rc c. conn_connect local_port remote_port iss window a = Some (rc, c)
    \<and> (if handshake_ok local_port remote_port iss a
       then rc = 1 \<and> conn_state c = TCP_STATE_ESTABLISHED
         \<and> conn_receive_next c = tcp_sequence_number a + 1
         \<and> conn_send_next c = iss + 1 \<and> conn_send_unacknowledged c = iss + 1
         \<and> \<not> conn_has_retransmit_segment c
       else rc \<noteq> 1 \<and> (conn_state c = TCP_STATE_SYN_SENT \<or> conn_state c = TCP_STATE_RESET))"
proof (cases "handshake_ok local_port remote_port iss a")
  case True
  let ?c = "syn_sent_conn local_port remote_port iss window"
  have "on_ack ?c a = ?c\<lparr>conn_send_unacknowledged := conn_send_next ?c, conn_retransmit_elapsed_ms := 0,
      conn_retransmit_count := 0, conn_has_retransmit_segment := False,
      conn_retransmit_timeout_ms := TCP_DEFAULT_RTO_MS\<rparr>"
    using True by (intro on_ack_sequence) (simp_all add: handshake_ok_def)
  with True show ?thesis
    by (simp add: conn_connect_eq tcp_connection_on_segment_def handshake_ok_def on_syn_sent_def
        syn_ack_flags Let_def)
next
  case False
  then show ?thesis
    by (auto simp: conn_connect_eq tcp_connection_on_segment_def handshake_ok_def on_syn_sent_def
        syn_ack_flags Let_def on_rst_def clear_reassembly_def)
qed

text \<open>
  (C16) An acknowledgment of the SYN that carries no SYN of its own does not complete the
  handshake, but it still cancels the retransmission of the SYN: the connection stays in
  SYN-SENT, and no amount of time makes it retransmit or give up.
\<close>

theorem tcp_bare_ack_cancels_syn:
  assumes "tcp_source_port a = remote_port" and "tcp_destination_port a = local_port"
    and "tcp_flags a AND TCP_FLAG_RST = 0" and "tcp_flags a AND TCP_FLAG_SYN = 0"
    and "tcp_flags a AND TCP_FLAG_ACK \<noteq> 0" and "tcp_acknowledgment_number a = iss + 1"
  shows "\<exists>c. conn_connect local_port remote_port iss window a = Some (0, c)
    \<and> conn_state c = TCP_STATE_SYN_SENT
    \<and> (\<forall>ts. tick_run ts c = (map (\<lambda>_. (0, Some tcp_zero)) ts, Some c))"
proof -
  let ?c = "syn_sent_conn local_port remote_port iss window"
  let ?d = "(on_ack ?c a)\<lparr>conn_remote_window := tcp_window_size a\<rparr>"
  have a: "on_ack ?c a = ?c\<lparr>conn_send_unacknowledged := conn_send_next ?c, conn_retransmit_elapsed_ms := 0,
      conn_retransmit_count := 0, conn_has_retransmit_segment := False,
      conn_retransmit_timeout_ms := TCP_DEFAULT_RTO_MS\<rparr>"
    using assms by (intro on_ack_sequence) simp_all
  have "conn_connect local_port remote_port iss window a = Some (0, ?d)"
    using assms by (simp add: conn_connect_eq tcp_connection_on_segment_def on_syn_sent_def syn_ack_flags Let_def)
  moreover have "conn_state ?d = TCP_STATE_SYN_SENT" by simp
  moreover have "tick_run ts ?d = (map (\<lambda>_. (0, Some tcp_zero)) ts, Some ?d)" for ts
    by (induction ts) (simp_all add: tcp_connection_tick_def a)
  ultimately show ?thesis by blast
qed

theorem tcp_bare_ack_cancels_syn_witness:
  "\<exists>c. conn_connect 40000 80 1000 8192 (tcp_built 80 40000 5 1001 0x10 8192 []) = Some (0, c)
    \<and> conn_state c = TCP_STATE_SYN_SENT
    \<and> tick_run [60000, 60000] c = ([(0, Some tcp_zero), (0, Some tcp_zero)], Some c)"
proof -
  have "\<exists>c. conn_connect 40000 80 1000 8192 (tcp_built 80 40000 5 1001 0x10 8192 []) = Some (0, c)
      \<and> conn_state c = TCP_STATE_SYN_SENT
      \<and> (\<forall>ts. tick_run ts c = (map (\<lambda>_. (0, Some tcp_zero)) ts, Some c))"
    by (rule tcp_bare_ack_cancels_syn) (simp_all add: tcp_built_def const_defs)
  then obtain c where c: "conn_connect 40000 80 1000 8192 (tcp_built 80 40000 5 1001 0x10 8192 []) = Some (0, c)"
    "conn_state c = TCP_STATE_SYN_SENT" "\<forall>ts. tick_run ts c = (map (\<lambda>_. (0, Some tcp_zero)) ts, Some c)"
    by blast
  then show ?thesis by (intro exI [of _ c]) (simp only: c, simp)
qed

end
