(* ===== verification/TcpReassembly.thy ===== *)
theory TcpReassembly
  imports TcpStream
begin

text \<open>
  Completeness of reassembly. As long as the slots and the ready buffer have room, nothing
  that has arrived is lost: every received byte is either behind the receive position or in
  a slot, and no slot starts at or before the receive position. Hence segments that cover the
  stream deliver all of it, in whatever order they arrive.
\<close>

section \<open>Coverage\<close>

definition in_slot :: "u32 \<Rightarrow> bytes \<Rightarrow> tcp_reassembly_slot \<Rightarrow> nat \<Rightarrow> bool" where
  "in_slot base S s p \<longleftrightarrow> slot_used s \<and> (\<exists>k. bytes_at base S (slot_start s) (slot_data s) k
     \<and> k \<le> p \<and> p < k + length (slot_data s))"

definition covered :: "u32 \<Rightarrow> bytes \<Rightarrow> tcp_connection \<Rightarrow> nat \<Rightarrow> nat \<Rightarrow> bool" where
  "covered base S c q p \<longleftrightarrow> p < q \<or> (\<exists>j<16. in_slot base S (slot_at c j) p)"

definition in_segment :: "u32 \<Rightarrow> bytes \<Rightarrow> tcp_segment \<Rightarrow> nat \<Rightarrow> bool" where
  "in_segment base S s p \<longleftrightarrow> (\<exists>k. bytes_at base S (tcp_sequence_number s) (segment_data s) k
     \<and> k \<le> p \<and> p < k + length (segment_data s))"

lemma bytes_at_unique:
  assumes "length S < 2147483647" and "bytes_at base S seq bs k" and "bytes_at base S seq bs' k'"
  shows "k = k'"
  using assms at_inject [of k k' base] by (simp add: bytes_at_def)

lemma bytes_at_stale:
  assumes S: "length S < 2147483647" and b: "bytes_at base S seq bs k" and q: "q \<le> length S + 1"
    and "seq_le (seq + of_nat (length bs)) (base + of_nat q)"
  shows "k + length bs \<le> q"
proof -
  have "seq + of_nat (length bs) = base + of_nat (k + length bs)" and "k + length bs \<le> length S"
    using b by (simp_all add: bytes_at_def)
  with assms seq_at(2) [of "k + length bs" q base] show ?thesis by simp
qed

lemma slot_end_data: "slot_wf s \<Longrightarrow> slot_end s = slot_start s + of_nat (length (slot_data s))"
  by (simp add: slot_end_def slot_start_def length_slot_data)

lemma covered_mono: "covered base S c q p \<Longrightarrow> q \<le> q' \<Longrightarrow> covered base S c q' p"
  by (auto simp: covered_def)

lemma covered_same: "conn_reassembly c' = conn_reassembly c \<Longrightarrow> covered base S c' q p = covered base S c q p"
  by (simp add: covered_def)

text \<open>Dropping a slot that lies behind the receive position loses nothing.\<close>

lemma covered_drop:
  assumes "covered base S c q p" and "length (conn_reassembly c) = 16"
    and "in_slot base S (slot_at c i) p \<Longrightarrow> p < q"
  shows "covered base S (slot_drop c i) q p"
proof -
  from assms(1) consider "p < q" | j where "j < 16" "in_slot base S (slot_at c j) p" "j \<noteq> i"
    using assms(3) by (auto simp: covered_def)
  then show ?thesis using assms(2) by cases (auto simp: covered_def)
qed

lemma covered_promote_step:
  assumes st: "promote_step c c'" and r: "received base S c log q" and S: "length S < 2147483647"
  shows "\<exists>q'\<ge>q. received base S c' log q' \<and> (q \<le> length S \<longrightarrow> q' \<le> length S)
    \<and> (\<forall>p. covered base S c q p \<longrightarrow> covered base S c' q' p) \<and> used_slots c' \<le> used_slots c"
proof -
  obtain q' where q': "q' \<ge> q" "received base S c' log q'" "q \<le> length S \<longrightarrow> q' \<le> length S"
    using received_promote_step [OF st r S] by blast
  have wf: "conn_wf c" "conn_receive_next c = base + of_nat q" "q \<le> length S + 1"
    using r by (simp_all add: received_def)
  have l16: "length (conn_reassembly c) = 16" using wf by (simp add: conn_wf_def)
  have rn': "conn_receive_next c' = base + of_nat q'" "q' \<le> length S + 1"
    using q'(2) by (simp_all add: received_def)
  from st show ?thesis
  proof cases
    case (drop_stale i)
    have eq: "q' = q"
      using drop_stale(1) rn' wf S at_inject [of q' q base] by simp
    have "p < q" if "in_slot base S (slot_at c i) p" for p
      using that bytes_at_stale [OF S _ wf(3), of _ "slot_start (slot_at c i)"] drop_stale wf
        slot_end_data [OF conn_wf_slot [OF wf(1) drop_stale(2)]]
      by (fastforce simp: in_slot_def)
    then have "covered base S c q p \<Longrightarrow> covered base S c' q p" for p
      using covered_drop [OF _ l16] drop_stale(1) by blast
    moreover have "used_slots c' \<le> used_slots c"
      using used_slots_update(1) [of i "conn_reassembly c" slot_zero] drop_stale l16
      by (simp add: used_slots_def)
    ultimately show ?thesis using q' eq by blast
  next
    case (deliver i)
    let ?s = "slot_at c i"
    have i: "i < 16" and u: "slot_used ?s" using deliver(2) by (simp_all add: slot_due_def)
    have "p < q'" if "in_slot base S ?s p" for p
    proof -
      from that obtain k where k: "bytes_at base S (slot_start ?s) (slot_data ?s) k" "p < k + length (slot_data ?s)"
        by (auto simp: in_slot_def)
      have due: "\<not> seq_le (slot_start ?s + of_nat (length (slot_data ?s))) (base + of_nat q)"
        "\<not> seq_gt (slot_start ?s) (base + of_nat q)"
        using deliver(2) wf(2) slot_end_data [OF conn_wf_slot [OF wf(1) i]]
        by (simp_all add: slot_due_def)
      note kq = bytes_at_covers [OF S k(1) wf(3) due]
      have "conn_receive_next c' = base + of_nat (k + length (slot_data ?s))"
        using extend_bytes(2) [OF S k(1) kq] deliver(1) wf(2) by (simp add: slot_rest_def)
      then have "base + of_nat q' = base + of_nat (k + length (slot_data ?s))" using rn'(1) by simp
      moreover have "k + length (slot_data ?s) \<le> length S" using k(1) by (simp add: bytes_at_def)
      ultimately have "q' = k + length (slot_data ?s)" using S rn'(2) by (subst (asm) at_inject) auto
      with k(2) show ?thesis by simp
    qed
    then have "covered base S c q p \<Longrightarrow> covered base S c' q' p" for p
      using covered_drop [of base S "ready_put c (slot_rest c i)" q' p i] l16 deliver(1) q'(1)
        covered_same [of "ready_put c (slot_rest c i)" c base S q' p] covered_mono [of base S c q p q']
      by simp
    moreover have "used_slots c' \<le> used_slots c"
      using used_slots_update(1) [of i "conn_reassembly c" slot_zero] deliver(1) u i l16
      by (simp add: used_slots_def)
    ultimately show ?thesis using q' by blast
  qed
qed

lemma covered_promote:
  assumes "promote_step\<^sup>*\<^sup>* c c'" and r: "received base S c log q" and S: "length S < 2147483647"
  shows "\<exists>q'\<ge>q. received base S c' log q' \<and> (q \<le> length S \<longrightarrow> q' \<le> length S)
    \<and> (\<forall>p. covered base S c q p \<longrightarrow> covered base S c' q' p) \<and> used_slots c' \<le> used_slots c"
  using assms(1)
proof (induction rule: rtranclp_induct)
  case base
  then show ?case using r by auto
next
  case (step c1 c2)
  then obtain q1 where q1: "q1 \<ge> q" "received base S c1 log q1" "q \<le> length S \<longrightarrow> q1 \<le> length S"
    "\<forall>p. covered base S c q p \<longrightarrow> covered base S c1 q1 p" "used_slots c1 \<le> used_slots c" by blast
  from covered_promote_step [OF step(2) q1(2) S] obtain q2 where
    "q2 \<ge> q1" "received base S c2 log q2" "q1 \<le> length S \<longrightarrow> q2 \<le> length S"
    "\<forall>p. covered base S c1 q1 p \<longrightarrow> covered base S c2 q2 p" "used_slots c2 \<le> used_slots c1" by blast
  with q1 show ?case by (intro exI [of _ q2]) auto
qed

section \<open>Nothing is lost\<close>

text \<open>
  \<open>gathered\<close>: no slot can be promoted, and the bytes of the segments received so far are
  behind the receive position or in a slot.
\<close>

definition no_due :: "u32 \<Rightarrow> bytes \<Rightarrow> tcp_connection \<Rightarrow> nat \<Rightarrow> bool" where
  "no_due base S c q \<longleftrightarrow> (\<forall>j<16. \<not> in_slot base S (slot_at c j) q)"

definition gathered ::
  "u32 \<Rightarrow> bytes \<Rightarrow> tcp_connection \<Rightarrow> bytes \<Rightarrow> nat \<Rightarrow> tcp_segment set \<Rightarrow> bool" where
  "gathered base S c log q segs \<longleftrightarrow> stream_at base S c log q \<and> no_due base S c q
     \<and> (\<forall>s \<in> segs. \<forall>p. in_segment base S s p \<longrightarrow> covered base S c q p)"

lemma all_future_no_due:
  assumes r: "received base S c log q" and S: "length S < 2147483647" and f: "all_future c 0"
  shows "no_due base S c q"
proof -
  have rn: "conn_receive_next c = base + of_nat q" and q: "q \<le> length S + 1"
    using r by (simp_all add: received_def)
  have "\<not> in_slot base S (slot_at c j) q" if j: "j < 16" for j
  proof
    assume "in_slot base S (slot_at c j) q"
    then obtain k where u: "slot_used (slot_at c j)"
      and k: "bytes_at base S (slot_start (slot_at c j)) (slot_data (slot_at c j)) k" "k \<le> q"
      by (auto simp: in_slot_def)
    have "seq_gt (base + of_nat k) (base + of_nat q)"
      using f u j k(1) rn by (auto simp: all_future_def bytes_at_def)
    then show False using S q k by (subst (asm) seq_at) (auto simp: bytes_at_def)
  qed
  then show ?thesis by (simp add: no_due_def)
qed

lemma slot_fill_nth:
  assumes "length (conn_reassembly c) = 16" and "j < 16"
  shows "slot_at (slot_fill c j seq bs) i = (if i = j then (slot_at c j)\<lparr>slot_used := True,
      slot_sequence_number := seq, slot_payload_len := length bs,
      slot_payload := bs @ drop (length bs) (slot_payload (slot_at c j))\<rparr> else slot_at c i)"
  using assms by (auto simp: slot_fill_def)

lemma stored_gathered:
  assumes wf: "conn_wf c" and j: "j < 16" "\<not> slot_used (slot_at c j)"
    and b: "bytes_at base S (tcp_sequence_number s) (segment_data s) k" and gt: "q < k"
  defines "c' \<equiv> slot_fill c j (tcp_sequence_number s) (segment_data s)"
  shows "no_due base S c q \<Longrightarrow> length S < 2147483647 \<Longrightarrow> no_due base S c' q"
    and "covered base S c q p \<Longrightarrow> covered base S c' q p"
    and "length S < 2147483647 \<Longrightarrow> in_segment base S s p \<Longrightarrow> covered base S c' q p"
    and "used_slots c' = Suc (used_slots c)"
proof -
  have l16: "length (conn_reassembly c) = 16" using wf by (simp add: conn_wf_def)
  have new: "slot_start (slot_at c' j) = tcp_sequence_number s"
    "slot_data (slot_at c' j) = segment_data s" "slot_used (slot_at c' j)"
    using l16 j by (simp_all add: c'_def slot_fill_nth slot_start_def slot_data_def)
  have old: "slot_at c' i = slot_at c i" if "i \<noteq> j" for i
    using that l16 j by (simp add: c'_def slot_fill_nth)
  show "no_due base S c' q" if "no_due base S c q" "length S < 2147483647"
    unfolding no_due_def
  proof (intro allI impI)
    fix i :: nat
    assume i: "i < 16"
    show "\<not> in_slot base S (slot_at c' i) q"
    proof (cases "i = j")
      case True
      then show ?thesis
        using new bytes_at_unique [OF that(2) b] gt by (fastforce simp: in_slot_def)
    next
      case False
      then show ?thesis using that(1) old i by (simp add: no_due_def)
    qed
  qed
  show "covered base S c q p \<Longrightarrow> covered base S c' q p"
    using old j by (auto simp: covered_def in_slot_def) metis
  show "covered base S c' q p" if "length S < 2147483647" "in_segment base S s p"
  proof -
    have "in_slot base S (slot_at c' j) p" using that(2) new by (simp add: in_slot_def in_segment_def)
    then show ?thesis using j by (auto simp: covered_def)
  qed
  show "used_slots c' = Suc (used_slots c)"
    using used_slots_fill [of j "conn_reassembly c"] j l16
    by (simp add: used_slots_def c'_def slot_fill_def)
qed

lemma no_due_end: "length S \<le> q \<Longrightarrow> no_due base S c q"
  by (auto simp: no_due_def in_slot_def bytes_at_def)

lemma covered_by_slot:
  assumes r: "received base S c log q" and S: "length S < 2147483647" and s: "segment_wf s"
    and cov: "slot_covers c (tcp_sequence_number s) (segment_end s) j" and p: "in_segment base S s p"
  shows "covered base S c q p"
proof -
  let ?s = "slot_at c j"
  have j: "j < 16" and u: "slot_used ?s" using cov by (simp_all add: slot_covers_def)
  have wf: "conn_wf c" using r by (simp add: received_def)
  have "slot_in base S ?s" using r j wf by (simp add: received_def conn_wf_def list_all_length)
  then obtain k' where k': "bytes_at base S (slot_start ?s) (slot_data ?s) k'"
    using u by (auto simp: slot_in_def)
  from p obtain k where k: "bytes_at base S (tcp_sequence_number s) (segment_data s) k"
    "k \<le> p" "p < k + length (segment_data s)" by (auto simp: in_segment_def)
  have e: "segment_end s = base + of_nat (k + length (segment_data s))"
    "slot_end ?s = base + of_nat (k' + length (slot_data ?s))"
    using k(1) k' length_segment_data [OF s] slot_end_data [OF conn_wf_slot [OF wf j]]
    by (simp_all add: segment_end_def bytes_at_def)
  have "k' \<le> k" using cov k(1) k' S seq_at(4) [of k k' base]
    by (simp add: slot_covers_def bytes_at_def)
  moreover have "k + length (segment_data s) \<le> k' + length (slot_data ?s)"
    using cov k(1) k' S seq_at(2) [of "k + length (segment_data s)" "k' + length (slot_data ?s)" base]
    unfolding slot_covers_def e by (simp add: bytes_at_def)
  ultimately have "in_slot base S ?s p" using k k' u by (auto simp: in_slot_def)
  then show ?thesis using j by (auto simp: covered_def)
qed

lemma received_length: "received base S c log q \<Longrightarrow> length log + conn_receive_ready_len c \<le> length S"
proof -
  assume r: "received base S c log q"
  then have "length (log @ ready_bytes c) \<le> length S" by (simp add: received_def)
  moreover have "length (ready_bytes c) = conn_receive_ready_len c"
    using r by (simp add: ready_bytes_def received_def conn_wf_def)
  ultimately show ?thesis by simp
qed

lemma extended_length:
  assumes r: "received base S c log q" and S: "length S < 2147483647"
    and b: "bytes_at base S seq bs k" and kq: "k \<le> q" "q < k + length bs"
  shows "length log + conn_receive_ready_len c
      + length (drop (unat (conn_receive_next c - seq)) bs) \<le> length S"
proof -
  have rn: "conn_receive_next c = base + of_nat q" using r by (simp add: received_def)
  note ex = extend_bytes [OF S b kq, folded rn]
  have "length (take q S) = length log + conn_receive_ready_len c"
    using r by (simp add: received_def ready_bytes_def conn_wf_def flip: length_append)
      (metis length_append length_take min.absorb2)
  moreover have "length (take q S @ drop (unat (conn_receive_next c - seq)) bs) \<le> length S"
    unfolding ex(1) by simp
  ultimately show ?thesis by simp
qed

text \<open>With the unread stream smaller than the ready buffer, promotion never stops early.\<close>

lemma not_blocked:
  assumes r: "received base S c log q" and S: "length S < 2147483647"
    and room: "length S \<le> length log + 32768"
  shows "\<not> promotion_blocked c"
proof
  assume "promotion_blocked c"
  then obtain i where due: "slot_due c i" and over: "32768 < conn_receive_ready_len c + length (slot_rest c i)"
    by (auto simp: promotion_blocked_def)
  let ?s = "slot_at c i"
  have i: "i < 16" and u: "slot_used ?s" using due by (simp_all add: slot_due_def)
  have wf: "conn_wf c" "conn_receive_next c = base + of_nat q" "q \<le> length S + 1"
    using r by (simp_all add: received_def)
  have "slot_in base S ?s" using r i wf by (simp add: received_def conn_wf_def list_all_length)
  then obtain k where k: "bytes_at base S (slot_start ?s) (slot_data ?s) k"
    using u by (auto simp: slot_in_def)
  have d: "\<not> seq_le (slot_start ?s + of_nat (length (slot_data ?s))) (base + of_nat q)"
    "\<not> seq_gt (slot_start ?s) (base + of_nat q)"
    using due wf(2) slot_end_data [OF conn_wf_slot [OF wf(1) i]] by (simp_all add: slot_due_def)
  have "length log + conn_receive_ready_len c + length (slot_rest c i) \<le> length S"
    using extended_length [OF r S k bytes_at_covers [OF S k wf(3) d]] by (simp add: slot_rest_def)
  with over room show False by simp
qed

lemma free_slot:
  assumes "conn_wf c" and "used_slots c < 16"
  shows "\<exists>j<16. \<not> slot_used (slot_at c j)"
proof (rule ccontr)
  assume "\<not> (\<exists>j<16. \<not> slot_used (slot_at c j))"
  then have "filter slot_used (conn_reassembly c) = conn_reassembly c"
    using assms(1) by (simp add: conn_wf_def filter_id_conv all_set_conv_all_nth)
  then show False using assms by (simp add: used_slots_def conn_wf_def)
qed

text \<open>The segment's position is taken, so its bytes are counted from the receive position.\<close>

lemma in_order_received:
  assumes r: "received base S c log q" and S: "length S < 2147483647" and sw: "segment_wf s"
    and k: "bytes_at base S (tcp_sequence_number s) (segment_data s) k"
    and e: "\<not> seq_le (segment_end s) (conn_receive_next c)"
    and b: "\<not> seq_gt (tcp_sequence_number s) (conn_receive_next c)"
  shows "k \<le> q" and "q < k + length (segment_data s)"
    and "length log + conn_receive_ready_len c + length (segment_rest c s) \<le> length S"
    and "conn_receive_ready_len c + length (segment_rest c s) \<le> 32768 \<Longrightarrow>
      received base S (ready_put c (segment_rest c s)) log (k + length (segment_data s))"
proof -
  have rn: "conn_receive_next c = base + of_nat q" and q: "q \<le> length S + 1"
    using r by (simp_all add: received_def)
  have "\<not> seq_le (tcp_sequence_number s + of_nat (length (segment_data s))) (base + of_nat q)"
    using e by (simp add: segment_end_def length_segment_data [OF sw] rn)
  note kq = bytes_at_covers [OF S k q this b [unfolded rn]]
  show "k \<le> q" "q < k + length (segment_data s)" by (rule kq)+
  show "length log + conn_receive_ready_len c + length (segment_rest c s) \<le> length S"
    using extended_length [OF r S k kq] by (simp add: segment_rest_def)
  show "received base S (ready_put c (segment_rest c s)) log (k + length (segment_data s))"
    if "conn_receive_ready_len c + length (segment_rest c s) \<le> 32768"
    using received_ready_put [OF r S k kq, of "segment_rest c s"] that by (simp add: segment_rest_def)
qed

text \<open>Steps that leave the slots alone and move the position at most over the FIN.\<close>

lemma gathered_fin:
  assumes g: "gathered base S c log q segs" and same: "conn_reassembly c' = conn_reassembly c"
    and at: "stream_at base S c' log q'" and q': "q' \<in> {q, length S + 1}" "q' \<ge> q"
  shows "gathered base S c' log q' segs"
proof -
  have "no_due base S c' q'"
    using g q' same no_due_end [of S q'] by (auto simp: gathered_def no_due_def)
  then show ?thesis
    using g at q'(2) covered_mono [of base S c q _ q'] covered_same [OF same]
    by (auto simp: gathered_def)
qed

lemma consume_fin_gathered:
  assumes g: "gathered base S c log q segs" and S: "length S < 2147483647"
  shows "\<exists>q'\<ge>q. gathered base S (consume_pending_fin c) log q' segs"
proof -
  have "conn_reassembly (consume_pending_fin c) = conn_reassembly c"
    using same_buffers_ops(2) [of c] by (simp add: same_buffers_def)
  then show ?thesis
    using stream_consume_fin [of base S c log q] gathered_fin [OF g] g S
    by (auto simp: gathered_def)
qed

lemma process_fin_gathered:
  assumes g: "gathered base S c log q segs" and S: "length S < 2147483647" and s: "segment_in base S s"
  shows "\<exists>q'\<ge>q. gathered base S (process_fin c s) log q' segs"
proof -
  have "conn_reassembly (process_fin c s) = conn_reassembly c"
    using same_buffers_ops(3) [of c s] by (simp add: same_buffers_def)
  then show ?thesis
    using stream_process_fin [OF _ S s, of c log q] gathered_fin [OF g] g
    by (auto simp: gathered_def)
qed

lemma accepted_gathered:
  assumes g: "gathered base S c log q segs" and S: "length S < 2147483647" and sw: "segment_wf s"
    and k: "bytes_at base S (tcp_sequence_number s) (segment_data s) k"
    and e: "\<not> seq_le (segment_end s) (conn_receive_next c)"
    and b: "\<not> seq_gt (tcp_sequence_number s) (conn_receive_next c)"
    and fits: "conn_receive_ready_len c + length (segment_rest c s) \<le> 32768"
    and st: "promote_step\<^sup>*\<^sup>* (ready_put c (segment_rest c s)) c'" and fut: "all_future c' 0"
  shows "\<exists>q'\<ge>k + length (segment_data s). gathered base S c' log q' (insert s segs)
    \<and> used_slots c' \<le> used_slots c"
proof -
  let ?c = "ready_put c (segment_rest c s)" and ?e = "k + length (segment_data s)"
  have at: "stream_at base S c log q" and r: "received base S c log q"
    using g by (simp_all add: gathered_def stream_at_def)
  note io = in_order_received [OF r S sw k e b]
  have le: "?e \<le> length S" using k by (simp add: bytes_at_def)
  from covered_promote [OF st io(4) [OF fits] S] le obtain q' where
    q': "?e \<le> q'" "received base S c' log q'" "q' \<le> length S"
      "\<And>p. covered base S ?c ?e p \<Longrightarrow> covered base S c' q' p" "used_slots c' \<le> used_slots c"
    by (auto simp: used_slots_def)
  have "stream_open (conn_state c)" using at io(1,2) le by (auto simp: stream_at_def)
  then have "stream_at base S c' log q'"
    using promote_state [OF st] q' at by (simp add: stream_at_def)
  moreover have "covered base S ?c ?e p" if "covered base S c q p" for p
    using that covered_mono [of base S c q p ?e] io(1,2) covered_same [of ?c c] by simp
  moreover have "covered base S ?c ?e p" if "in_segment base S s p" for p
    using that bytes_at_unique [OF S k] by (fastforce simp: in_segment_def covered_def)
  ultimately have "gathered base S c' log q' (insert s segs)"
    using g q'(4) all_future_no_due [OF q'(2) S fut] by (auto simp: gathered_def)
  then show ?thesis using q' by blast
qed

lemma stored_slot_gathered:
  assumes g: "gathered base S c log q segs" and S: "length S < 2147483647"
    and k: "bytes_at base S (tcp_sequence_number s) (segment_data s) k"
    and j: "j < 16" "\<not> slot_used (slot_at c j)" "length (segment_data s) \<le> 2048"
    and gt: "seq_gt (tcp_sequence_number s) (conn_receive_next c)"
  shows "gathered base S (slot_fill c j (tcp_sequence_number s) (segment_data s)) log q (insert s segs)"
    and "used_slots (slot_fill c j (tcp_sequence_number s) (segment_data s)) = Suc (used_slots c)"
proof -
  have r: "received base S c log q" using g by (simp add: gathered_def stream_at_def)
  then have wf: "conn_wf c" and rn: "conn_receive_next c = base + of_nat q" and q: "q \<le> length S + 1"
    by (simp_all add: received_def)
  have "q < k" using gt k q S unfolding rn by (simp add: bytes_at_def seq_at)
  note st = stored_gathered [OF wf j(1,2) k this]
  have "received base S (slot_fill c j (tcp_sequence_number s) (segment_data s)) log q"
    using r slot_fill_in [OF _ k] slot_fill_wf [OF wf j] by (simp add: received_def ready_bytes_def)
  then show "gathered base S (slot_fill c j (tcp_sequence_number s) (segment_data s)) log q (insert s segs)"
    using g S st(1-3) by (auto simp: gathered_def stream_at_def)
  show "used_slots (slot_fill c j (tcp_sequence_number s) (segment_data s)) = Suc (used_slots c)"
    by (rule st(4))
qed

lemma ignored_gathered:
  assumes g: "gathered base S c log q segs" and S: "length S < 2147483647" and sw: "segment_wf s"
    and ign: "tcp_payload_len s = 0 \<or> seq_le (segment_end s) (conn_receive_next c)
        \<or> (\<exists>j. slot_covers c (tcp_sequence_number s) (segment_end s) j)"
  shows "gathered base S c log q (insert s segs)"
proof -
  have r: "received base S c log q" using g by (simp add: gathered_def stream_at_def)
  then have rn: "conn_receive_next c = base + of_nat q" and q: "q \<le> length S + 1"
    by (simp_all add: received_def)
  have "covered base S c q p" if p: "in_segment base S s p" for p
    using ign
  proof (elim disjE exE)
    assume "tcp_payload_len s = 0"
    then show ?thesis using p by (auto simp: in_segment_def length_segment_data [OF sw])
  next
    assume "seq_le (segment_end s) (conn_receive_next c)"
    then show ?thesis
      using p bytes_at_stale [OF S _ q, of _ "tcp_sequence_number s"] rn
      by (fastforce simp: in_segment_def covered_def segment_end_def length_segment_data [OF sw])
  qed (rule covered_by_slot [OF r S sw _ p])
  then show ?thesis using g by (auto simp: gathered_def)
qed

lemma gathered_process_payload:
  assumes g: "gathered base S c log q segs" and S: "length S < 2147483647"
    and room: "length S \<le> length log + 32768" and s: "segment_in base S s"
    and small: "tcp_payload_len s \<le> 2048" and free: "used_slots c < 16"
  shows "\<exists>c' q'. process_payload c s = Some (0, c')
    \<and> gathered base S c' log q' (insert s segs) \<and> used_slots c' \<le> Suc (used_slots c)"
proof -
  have r: "received base S c log q" using g by (simp add: gathered_def stream_at_def)
  then have wf: "conn_wf c" by (simp add: received_def)
  have sw: "segment_wf s" using s by (simp add: segment_in_def)
  have bk: "\<exists>k. bytes_at base S (tcp_sequence_number s) (segment_data s) k" if "0 < tcp_payload_len s"
    using s that by (auto simp: segment_in_def)
  from wf sw show ?thesis
  proof (cases rule: process_payload_cases)
    case ignored
    from ignored_gathered [OF g S sw ignored(2)] ignored(1) show ?thesis by auto
  next
    case full
    obtain k where k: "bytes_at base S (tcp_sequence_number s) (segment_data s) k"
      using bk full(2) by blast
    from full(3) small free_slot [OF wf free] have io: "\<not> seq_le (segment_end s) (conn_receive_next c)"
      "\<not> seq_gt (tcp_sequence_number s) (conn_receive_next c)"
      and over: "32768 < conn_receive_ready_len c + length (segment_rest c s)"
      by (auto split: if_splits)
    from in_order_received(3) [OF r S sw k io] over room show ?thesis by simp
  next
    case (stored j)
    then obtain k where k: "bytes_at base S (tcp_sequence_number s) (segment_data s) k"
      using bk by (auto simp: segment_data_def)
    from stored_slot_gathered [OF g S k stored(2,3,4,6)] stored(1) show ?thesis by auto
  next
    case (accepted c')
    obtain k where k: "bytes_at base S (tcp_sequence_number s) (segment_data s) k"
      using bk accepted(6) by blast
    from accepted_gathered [OF g S sw k accepted(7,8,5,2,3)] obtain q' where
      q': "gathered base S c' log q' (insert s segs)" "used_slots c' \<le> used_slots c" by blast
    have "used_slots (consume_pending_fin c') = used_slots c'"
      using same_buffers_ops(2) [of c'] by (simp add: same_buffers_def used_slots_def)
    with consume_fin_gathered [OF q'(1) S] q'(2) accepted(1) show ?thesis by auto
  next
    case (partial c')
    obtain k where k: "bytes_at base S (tcp_sequence_number s) (segment_data s) k"
      using bk partial(6) by blast
    from covered_promote [OF partial(2) in_order_received(4) [OF r S sw k partial(7,8,5)] S]
      not_blocked [OF _ S room] partial(3) show ?thesis by blast
  qed
qed

text \<open>
  A segment of the stream, addressed to the connection and without RST, is never refused
  while a slot is free and the unread stream fits the ready buffer.
\<close>

definition addressed :: "tcp_connection \<Rightarrow> tcp_segment \<Rightarrow> bool" where
  "addressed c s \<longleftrightarrow> tcp_source_port s = conn_remote_port c \<and> tcp_destination_port s = conn_local_port c"

lemma ports_process_payload:
  assumes "conn_wf c" and "segment_wf s" and "process_payload c s = Some (rc, c')"
  shows "conn_local_port c' = conn_local_port c \<and> conn_remote_port c' = conn_remote_port c"
proof -
  have step: "conn_local_port d' = conn_local_port d \<and> conn_remote_port d' = conn_remote_port d"
    if "promote_step d d'" for d d'
    using that by cases (simp_all add: slot_drop_def ready_put_def)
  have steps: "conn_local_port d' = conn_local_port d \<and> conn_remote_port d' = conn_remote_port d"
    if "promote_step\<^sup>*\<^sup>* d d'" for d d'
    using that by (induction rule: rtranclp_induct) (auto dest: step)
  from assms(1,2) show ?thesis
  proof (cases rule: process_payload_cases)
    case (accepted d)
    with assms(3) steps [OF accepted(2)] show ?thesis
      by (auto simp: ready_put_def consume_pending_fin_def fin_transition_def)
  next
    case (partial d)
    with assms(3) steps [OF partial(2)] show ?thesis by (simp add: ready_put_def)
  qed (use assms(3) in \<open>auto simp: slot_fill_def\<close>)
qed

lemma gathered_same:
  assumes "gathered base S c log q segs" and "same_receiver c c'"
    and "stream_open (conn_state c) = stream_open (conn_state c')"
    and "stream_ended (conn_state c) = stream_ended (conn_state c')"
  shows "gathered base S c' log q segs"
proof -
  have at: "stream_at base S c log q" using assms(1) by (simp add: gathered_def)
  have "conn_reassembly c' = conn_reassembly c"
    using assms(2) by (simp add: same_receiver_def same_buffers_def)
  from gathered_fin [OF assms(1) this stream_at_same [OF assms(2) at assms(3,4)]] show ?thesis by simp
qed

lemma gathered_on_segment:
  assumes g: "gathered base S c log q segs" and S: "length S < 2147483647"
    and room: "length S \<le> length log + 32768" and s: "segment_in base S s"
    and small: "tcp_payload_len s \<le> 2048" and free: "used_slots c < 16"
    and adr: "addressed c s" and rst: "tcp_flags s AND TCP_FLAG_RST = 0"
  shows "\<exists>c' q'. tcp_connection_on_segment (Some c) (Some s) = Some (0, Some c')
    \<and> gathered base S c' log q' (insert s segs) \<and> used_slots c' \<le> Suc (used_slots c)
    \<and> conn_local_port c' = conn_local_port c \<and> conn_remote_port c' = conn_remote_port c"
proof -
  define d where "d = (on_ack c s)\<lparr>conn_remote_window := tcp_window_size s\<rparr>"
  have ds: "conn_state d = conn_state c" "used_slots d = used_slots c"
    "conn_local_port d = conn_local_port c" "conn_remote_port d = conn_remote_port c"
    by (simp_all add: d_def used_slots_def)
  have gd: "gathered base S d log q segs"
    unfolding d_def by (rule gathered_same [OF g on_ack_same(1)]) simp_all
  then have wf: "conn_wf d" and at: "stream_at base S d log q"
    by (simp_all add: gathered_def stream_at_def received_def)
  obtain e q1 where e: "process_payload d s = Some (0, e)"
      "gathered base S e log q1 (insert s segs)" "used_slots e \<le> Suc (used_slots c)"
    using gathered_process_payload [OF gd S room s small] free ds(2) by auto
  obtain q2 where q2: "gathered base S (process_fin e s) log q2 (insert s segs)"
    using process_fin_gathered [OF e(2) S s] by blast
  obtain q3 where q3: "gathered base S (consume_pending_fin (process_fin e s)) log q3 (insert s segs)"
    using consume_fin_gathered [OF q2 S] by blast
  let ?f = "on_fin_acked (consume_pending_fin (process_fin e s))"
  have f: "gathered base S ?f log q3 (insert s segs)"
    by (rule gathered_same [OF q3])
      (auto simp: on_fin_acked_def same_receiver_def same_buffers_def Let_def stream_states)
  have fr: "used_slots ?f = used_slots e"
    using same_buffers_ops(2,3,6) by (simp add: same_buffers_def used_slots_def)
  have "conn_state d \<noteq> TCP_STATE_SYN_SENT" using at by (auto simp: stream_at_def stream_states)
  then consider "\<not> receives_data (conn_state d)" "stream_ended (conn_state d)"
    | "receives_data (conn_state d)" "conn_state d \<noteq> TCP_STATE_SYN_SENT"
    using at by (auto simp: stream_at_def stream_states receives_data_def)
  then show ?thesis
  proof cases
    case 1
    then have q: "q = length S + 1" using at by (auto simp: stream_at_def stream_states)
    have "gathered base S d log q (insert s segs)"
      using gd q by (auto simp: gathered_def covered_def in_segment_def bytes_at_def)
    with 1 \<open>conn_state d \<noteq> TCP_STATE_SYN_SENT\<close> adr rst ds show ?thesis
      by (auto simp: tcp_connection_on_segment_def addressed_def Let_def simp flip: d_def)
  next
    case 2
    with adr rst e f fr ports_process_payload [OF wf _ e(1)] s ds show ?thesis
      by (auto simp: tcp_connection_on_segment_def addressed_def Let_def segment_in_def simp flip: d_def)
  qed
qed

section \<open>Any order\<close>

lemma gathered_run:
  assumes "gathered base S c log q segs" and "length S < 2147483647" and "length S \<le> length log + 32768"
    and "\<And>s. s \<in> set ss \<Longrightarrow> segment_in base S s \<and> tcp_payload_len s \<le> 2048
      \<and> addressed c s \<and> tcp_flags s AND TCP_FLAG_RST = 0"
    and "used_slots c + length ss \<le> 16"
  shows "\<exists>c' q'. conn_run (map Receive ss) (c, log) = Some (c', log)
    \<and> gathered base S c' log q' (segs \<union> set ss)"
  using assms
proof (induction ss arbitrary: c q segs)
  case (Cons s ss)
  have s: "segment_in base S s" "tcp_payload_len s \<le> 2048" "addressed c s"
    "tcp_flags s AND TCP_FLAG_RST = 0" using Cons.prems(4) by simp_all
  have free: "used_slots c < 16" using Cons.prems(5) by simp
  from gathered_on_segment [OF Cons.prems(1-3) s(1,2) free s(3,4)] obtain c1 q1 where
    c1: "tcp_connection_on_segment (Some c) (Some s) = Some (0, Some c1)"
      "gathered base S c1 log q1 (insert s segs)" "used_slots c1 \<le> Suc (used_slots c)"
      "conn_local_port c1 = conn_local_port c" "conn_remote_port c1 = conn_remote_port c" by auto
  have "\<exists>c' q'. conn_run (map Receive ss) (c1, log) = Some (c', log)
      \<and> gathered base S c' log q' (insert s segs \<union> set ss)"
  proof (rule Cons.IH [OF c1(2) Cons.prems(2,3)])
    show "segment_in base S t \<and> tcp_payload_len t \<le> 2048 \<and> addressed c1 t
        \<and> tcp_flags t AND TCP_FLAG_RST = 0" if "t \<in> set ss" for t
      using Cons.prems(4) [of t] that c1(4,5) by (simp add: addressed_def)
    show "used_slots c1 + length ss \<le> 16" using Cons.prems(5) c1(3) by simp
  qed
  with c1(1) show ?case by simp
qed auto

lemma gathered_complete:
  assumes g: "gathered base S c log q segs"
    and cover: "\<And>p. p < length S \<Longrightarrow> \<exists>s \<in> segs. in_segment base S s p"
  shows "log @ ready_bytes c = S"
proof -
  have "length S \<le> q"
  proof (rule ccontr)
    assume "\<not> length S \<le> q"
    then have "covered base S c q q" using g cover [of q] by (auto simp: gathered_def)
    then show False using g by (auto simp: covered_def gathered_def no_due_def)
  qed
  then show ?thesis using g by (simp add: gathered_def stream_at_def received_def)
qed

lemma connect_gathered:
  assumes "conn_connect lp rp iss w a = Some (1, c)"
  shows "gathered (tcp_sequence_number a + 1) S c [] 0 {}" and "used_slots c = 0"
proof -
  have "list_all (\<lambda>s. \<not> slot_used s) (conn_reassembly c)" "length (conn_reassembly c) = 16"
    using conn_connect_established [OF assms] by (simp_all add: conn_wf_def)
  then show "gathered (tcp_sequence_number a + 1) S c [] 0 {}" "used_slots c = 0"
    using conn_connect_stream [OF assms, of S]
    by (auto simp: gathered_def no_due_def in_slot_def used_slots_def list_all_length filter_empty_conv
        all_set_conv_all_nth)
qed

section \<open>Property\<close>

text \<open>
  (C3) Complete reassembly in any order. Let up to 16 segments of at most 2048 bytes each cut
  the peer's stream of at most 32768 bytes in any way, overlaps included, and let them arrive
  in any order on a freshly opened connection. Then every one of them is accepted, and in the
  end the whole stream is readable.
\<close>

theorem tcp_any_order_reassembly:
  assumes "conn_connect local_port remote_port iss window answer = Some (1, c)"
    and "length S \<le> 32768" and "length ss \<le> 16"
    and "\<And>s. s \<in> set ss \<Longrightarrow> segment_in (tcp_sequence_number answer + 1) S s
      \<and> tcp_payload_len s \<le> 2048 \<and> tcp_source_port s = remote_port
      \<and> tcp_destination_port s = local_port \<and> tcp_flags s AND TCP_FLAG_RST = 0"
    and "\<And>p. p < length S \<Longrightarrow> \<exists>s \<in> set ss. in_segment (tcp_sequence_number answer + 1) S s p"
  shows "\<exists>c'. conn_run (map Receive ss) (c, []) = Some (c', [])
    \<and> take (tcp_connection_readable (Some c')) (conn_receive_ready c') = S"
proof -
  note g = connect_gathered [OF assms(1)] and e = conn_connect_established [OF assms(1)]
  have "\<exists>c' q'. conn_run (map Receive ss) (c, []) = Some (c', [])
      \<and> gathered (tcp_sequence_number answer + 1) S c' [] q' ({} \<union> set ss)"
    by (rule gathered_run [OF g(1)]) (use assms g(2) e in \<open>auto simp: addressed_def\<close>)
  then obtain c' q' where r: "conn_run (map Receive ss) (c, []) = Some (c', [])"
    "gathered (tcp_sequence_number answer + 1) S c' [] q' (set ss)" by auto
  from gathered_complete [OF r(2) assms(5)] r(1) show ?thesis
    by (auto simp: ready_bytes_def tcp_connection_readable_def)
qed

theorem tcp_any_order_reassembly_witness:
  "\<exists>c c'. conn_connect 40000 80 1000 8192 example_answer = Some (1, c)
    \<and> conn_run (map Receive [example_segment 1 0x11 [30], example_segment 0xFFFFFFFF 0x10 [10, 20]]) (c, []) =
        Some (c', [])
    \<and> take (tcp_connection_readable (Some c')) (conn_receive_ready c') = [10, 20, 30]"
proof -
  obtain c where c: "conn_connect 40000 80 1000 8192 example_answer = Some (1, c)"
    using example_connect by blast
  let ?S = "[10, 20, 30]" and ?a = "example_segment 1 0x11 [30]"
    and ?b = "example_segment 0xFFFFFFFF 0x10 [10, 20]"
  have base: "tcp_sequence_number example_answer + 1 = 0xFFFFFFFF"
    by (simp add: example_answer_def tcp_built_def)
  have at: "bytes_at 0xFFFFFFFF ?S 1 [30] (Suc (Suc 0))" "bytes_at 0xFFFFFFFF ?S 0xFFFFFFFF [10, 20] 0"
    by (simp_all add: bytes_at_def)
  then have s: "segment_in 0xFFFFFFFF ?S ?a" "segment_in 0xFFFFFFFF ?S ?b"
    by (auto simp: segment_in_def example_segment_simps const_defs)
  have cov: "\<exists>s \<in> set [?a, ?b]. in_segment 0xFFFFFFFF ?S s p" if "p < length ?S" for p
  proof (cases "p = 2")
    case True
    with at(1) show ?thesis by (auto simp: in_segment_def example_segment_simps)
  next
    case False
    with that at(2) show ?thesis by (auto simp: in_segment_def example_segment_simps)
  qed
  have ok: "segment_in 0xFFFFFFFF ?S s \<and> tcp_payload_len s \<le> 2048 \<and> tcp_source_port s = 80
      \<and> tcp_destination_port s = 40000 \<and> tcp_flags s AND TCP_FLAG_RST = 0"
    if "s \<in> set [?a, ?b]" for s
    using that s by (auto simp: example_segment_simps const_defs)
  from tcp_any_order_reassembly [OF c, of ?S "[?a, ?b]", unfolded base, OF _ _ ok cov] c
  show ?thesis by auto
qed

end
