(* ===== verification/TcpPipe.thy ===== *)
theory TcpPipe
  imports TcpStream
begin

text \<open>
  The contract of the connection engine towards the application, as an abstract machine: a pipe that
  carries the peer's bytes. The receive side of \<^verbatim>\<open>src/src/tcp_connection.c\<close> refines it.
\<close>

section \<open>The specification\<close>

datatype pipe_status = Flowing | Ended | Aborted

record pipe =
  pipe_taken :: bytes
  pipe_queue :: bytes
  pipe_status :: pipe_status

text \<open>
  Receiving may append to the queue as long as the bytes taken and queued remain the beginning of the
  stream, and may end the pipe only when they are all of it; an ended or aborted pipe takes no
  more. A reset empties the queue, a timeout keeps it. Reading takes the bytes off the front of the queue,
  as many as were asked for or as there are. No other call has an effect.
\<close>

inductive pipe_step :: "bytes \<Rightarrow> conn_event \<Rightarrow> pipe \<Rightarrow> pipe \<Rightarrow> bool" for S where
  arrive: "pipe_status p = Flowing \<Longrightarrow> prefix (pipe_taken p @ pipe_queue p @ new) S \<Longrightarrow>
    st = Flowing \<or> st = Ended \<and> pipe_taken p @ pipe_queue p @ new = S \<Longrightarrow>
    pipe_step S (Receive s) p (p\<lparr>pipe_queue := pipe_queue p @ new, pipe_status := st\<rparr>)"
| fetch: "pipe_step S (Read n) p (p\<lparr>pipe_taken := pipe_taken p @ take n (pipe_queue p), pipe_queue := drop n (pipe_queue p)\<rparr>)"
| abort: "tcp_flags s AND TCP_FLAG_RST \<noteq> 0 \<Longrightarrow> pipe_step S (Receive s) p (p\<lparr>pipe_queue := [], pipe_status := Aborted\<rparr>)"
| give_up: "pipe_step S (Tick t) p (p\<lparr>pipe_status := Aborted\<rparr>)"
| skip: "e \<notin> range Read \<Longrightarrow> pipe_step S e p p"

fun spec_run :: "('e \<Rightarrow> 'a \<Rightarrow> 'a \<Rightarrow> bool) \<Rightarrow> 'e list \<Rightarrow> 'a \<Rightarrow> 'a \<Rightarrow> bool" where
  "spec_run spec [] p p' \<longleftrightarrow> p' = p"
| "spec_run spec (e # es) p p' \<longleftrightarrow> (\<exists>p1. spec e p p1 \<and> spec_run spec es p1 p')"

text \<open>What the specification promises: bytes once taken stay taken, in order and without gaps.\<close>

definition pipe_ok :: "bytes \<Rightarrow> pipe \<Rightarrow> bool" where
  "pipe_ok S p \<longleftrightarrow> prefix (pipe_taken p @ pipe_queue p) S \<and> (pipe_status p = Ended \<longrightarrow> pipe_taken p @ pipe_queue p = S)"

lemma pipe_step_ok: "pipe_step S e p p' \<Longrightarrow> pipe_ok S p \<Longrightarrow> pipe_ok S p' \<and> prefix (pipe_taken p) (pipe_taken p')"
  by (induction rule: pipe_step.induct) (auto simp: pipe_ok_def dest: append_prefixD)

lemma pipe_run_ok:
  "spec_run (pipe_step S) es p p' \<Longrightarrow> pipe_ok S p \<Longrightarrow> pipe_ok S p' \<and> prefix (pipe_taken p) (pipe_taken p')"
  by (induction es arbitrary: p) (auto dest: pipe_step_ok intro: prefix_order.trans)

section \<open>Refinement\<close>

text \<open>
  A simulation: every step of the engine from a state with the invariant is defined, keeps the
  invariant and is a step of the specification on the abstraction.
\<close>

locale conn_refinement =
  fixes inv :: "tcp_connection \<times> bytes \<Rightarrow> bool"
    and admissible :: "conn_event \<Rightarrow> bool"
    and abs :: "tcp_connection \<times> bytes \<Rightarrow> 'a"
    and spec :: "conn_event \<Rightarrow> 'a \<Rightarrow> 'a \<Rightarrow> bool"
  assumes simulation: "inv st \<Longrightarrow> admissible e \<Longrightarrow> \<exists>st'. conn_step e st = Some st' \<and> inv st' \<and> spec e (abs st) (abs st')"
begin

lemma refines:
  "inv st \<Longrightarrow> list_all admissible es \<Longrightarrow> \<exists>st'. conn_run es st = Some st' \<and> inv st' \<and> spec_run spec es (abs st) (abs st')"
proof (induction es arbitrary: st)
  case (Cons e es)
  then obtain st1 where st1: "conn_step e st = Some st1" "inv st1" "spec e (abs st) (abs st1)" using simulation by fastforce
  from Cons.IH [OF st1(2)] Cons.prems(2) obtain st' where
    "conn_run es st1 = Some st'" "inv st'" "spec_run spec es (abs st1) (abs st')" by force
  with st1 show ?case by auto
qed simp

end

sublocale conn_refinement \<subseteq> conn_invariant inv admissible
  using simulation by unfold_locales blast

definition pipe_status_of :: "tcp_connection_state \<Rightarrow> pipe_status" where
  "pipe_status_of st = (if st = TCP_STATE_RESET then Aborted else if stream_ended st then Ended else Flowing)"

definition pipe_of :: "tcp_connection \<times> bytes \<Rightarrow> pipe" where
  "pipe_of = (\<lambda>(c, log). \<lparr>pipe_taken = log, pipe_queue = ready_bytes c, pipe_status = pipe_status_of (conn_state c)\<rparr>)"

lemma pipe_of_same:
  assumes "same_receiver c c'" and "pipe_status_of (conn_state c') = pipe_status_of (conn_state c)"
  shows "pipe_of (c', log) = pipe_of (c, log)"
  using assms by (simp add: pipe_of_def same_receiver_def same_buffers_def ready_bytes_def)

lemma pipe_status_open:
  "stream_at base S c log q \<Longrightarrow> pipe_status_of (conn_state c) = (if q \<le> length S then Flowing else Ended)"
  by (auto simp: stream_at_def pipe_status_of_def stream_states)

lemma pipe_arrive:
  assumes "stream_at base S c log q" and "stream_at base S c' log q'" and "q \<le> q'"
  shows "pipe_step S (Receive s) (pipe_of (c, log)) (pipe_of (c', log))"
proof (cases "q \<le> length S")
  case True
  have t: "log @ ready_bytes c = take q S" "log @ ready_bytes c' = take q' S"
    using assms by (simp_all add: stream_at_def received_def)
  define new where "new = take (q' - q) (drop q S)"
  have "take q' S = take q S @ new" using assms(3) by (simp add: new_def flip: take_add)
  then have "log @ ready_bytes c' = log @ ready_bytes c @ new" using t by simp
  then have n: "ready_bytes c' = ready_bytes c @ new" and p: "log @ ready_bytes c @ new = take q' S" using t(2) by simp_all
  have "pipe_step S (Receive s) (pipe_of (c, log))
      ((pipe_of (c, log))\<lparr>pipe_queue := ready_bytes c @ new, pipe_status := pipe_status_of (conn_state c')\<rparr>)"
    using pipe_step.arrive [of "pipe_of (c, log)" new S "pipe_status_of (conn_state c')" s] p True
      pipe_status_open [OF assms(1)] pipe_status_open [OF assms(2)]
    by (simp add: pipe_of_def take_is_prefix)
  then show ?thesis using n by (simp add: pipe_of_def)
next
  case False
  then have "take q S = take q' S" using assms(3) by simp
  then have "log @ ready_bytes c' = log @ ready_bytes c" using assms(1,2) by (simp add: stream_at_def received_def)
  then have "ready_bytes c' = ready_bytes c" by simp
  then have "pipe_of (c', log) = pipe_of (c, log)"
    using pipe_status_open [OF assms(1)] pipe_status_open [OF assms(2)] False assms(3) by (simp add: pipe_of_def)
  then show ?thesis using pipe_step.skip [of "Receive s"] by auto
qed

lemma pipe_abort:
  "tcp_flags s AND TCP_FLAG_RST \<noteq> 0 \<Longrightarrow> pipe_step S (Receive s) (pipe_of (c, log)) (pipe_of (on_rst c, log))"
  using pipe_step.abort [of s S "pipe_of (c, log)"]
  by (simp add: pipe_of_def on_rst_def clear_reassembly_def ready_bytes_def pipe_status_of_def)

lemma pipe_receive:
  assumes inv: "stream_inv base S (c, log)" and e: "event_in base S (Receive s)"
    and step: "tcp_connection_on_segment (Some c) (Some s) = Some (rc, Some c')"
  shows "pipe_step S (Receive s) (pipe_of (c, log)) (pipe_of (c', log))"
proof (cases "\<exists>q. stream_at base S c log q")
  case True
  then obtain q where at: "stream_at base S c log q" by blast
  have "length S < 2147483647" "segment_in base S s" using e by (simp_all add: event_in_def)
  from stream_on_segment [OF at this] step pipe_arrive [OF at] pipe_abort show ?thesis by auto
next
  case False
  then have rs: "conn_state c = TCP_STATE_RESET" using inv by (auto simp: stream_inv_def)
  have "pipe_of ((on_ack c s)\<lparr>conn_remote_window := tcp_window_size s\<rparr>, log) = pipe_of (c, log)"
    by (rule pipe_of_same [OF on_ack_same(1)]) (simp only: on_ack_same(2))
  moreover have "pipe_step S (Receive s) (pipe_of (c, log)) (pipe_of (c, log))" by (rule pipe_step.skip) auto
  ultimately show ?thesis using reset_on_segment [OF rs step] pipe_abort by auto
qed

lemma pipe_fetch:
  assumes "conn_wf c" and "conn_step (Read n) (c, log) = Some (c', log')"
  shows "pipe_step S (Read n) (pipe_of (c, log)) (pipe_of (c', log'))"
proof -
  from read_step [OF assms(1), of n log] assms(2) obtain bs where
    r: "log' = log @ bs" "ready_bytes c = bs @ ready_bytes c'" "length bs = min n (conn_receive_ready_len c)"
      "c' = c\<lparr>conn_receive_ready := conn_receive_ready c', conn_receive_ready_len := conn_receive_ready_len c'\<rparr>"
    by (auto simp: ready_bytes_def)
  have "length (ready_bytes c) = conn_receive_ready_len c" using assms(1) by (simp add: ready_bytes_def conn_wf_def)
  then have "take n (ready_bytes c) = bs" "drop n (ready_bytes c) = ready_bytes c'" using r(2,3) by (cases "n \<le> conn_receive_ready_len c"; simp)+
  moreover have "conn_state c' = conn_state c" by (subst r(4)) simp
  ultimately show ?thesis using pipe_step.fetch [of S n "pipe_of (c, log)"] r(1) by (simp add: pipe_of_def)
qed

lemma pipe_silent:
  assumes "same_receiver c c'" and "conn_state c' = conn_state c \<or> pipe_status_of (conn_state c') = pipe_status_of (conn_state c)
      \<or> e \<in> range Tick \<and> conn_state c' = TCP_STATE_RESET" and "\<forall>n. e \<noteq> Read n"
  shows "pipe_step S e (pipe_of (c, log)) (pipe_of (c', log))"
proof (cases "pipe_status_of (conn_state c') = pipe_status_of (conn_state c)")
  case True
  moreover have "pipe_step S e (pipe_of (c, log)) (pipe_of (c, log))" by (rule pipe_step.skip) (use assms(3) in auto)
  ultimately show ?thesis using pipe_of_same [OF assms(1)] by simp
next
  case False
  then obtain t where t: "e = Tick t" "conn_state c' = TCP_STATE_RESET" using assms(2) by auto
  then show ?thesis
    using pipe_step.give_up [of S t "pipe_of (c, log)"] assms(1)
    by (simp add: pipe_of_def pipe_status_of_def same_receiver_def same_buffers_def ready_bytes_def)
qed

interpretation pipe: conn_refinement "stream_inv base S" "event_in base S" pipe_of "pipe_step S" for base S
proof unfold_locales
  fix st e
  assume i: "stream_inv base S st" and e: "event_in base S e"
  obtain c log where st: "st = (c, log)" by (cases st)
  from stream.step [OF i e] obtain c' log' where s': "conn_step e (c, log) = Some (c', log')" "stream_inv base S (c', log')"
    using st by auto
  have wf: "conn_wf c" using i st by (auto simp: stream_inv_def stream_at_def received_def)
  have "pipe_step S e (pipe_of (c, log)) (pipe_of (c', log'))"
  proof (cases e)
    case (Open w)
    with e show ?thesis by (simp add: event_in_def)
  next
    case (Receive s)
    then show ?thesis using pipe_receive [OF i [unfolded st]] e s'(1) by (auto split: bind_splits)
  next
    case (Read n)
    then show ?thesis using pipe_fetch [OF wf] s'(1) by simp
  next
    case (Send pd w)
    then show ?thesis using send_step [of pd w c log] s'(1) pipe_silent [of c c' "Send pd w" S log] by auto
  next
    case (Close w)
    then show ?thesis
      using close_step [of w c log] s'(1) pipe_silent [of c c' "Close w" S log] by (auto simp: pipe_status_of_def stream_ended_def)
  next
    case (Tick t)
    then show ?thesis using tick_step [of t c log] s'(1) pipe_silent [of c c' "Tick t" S log] by auto
  qed
  then show "\<exists>st'. conn_step e st = Some st' \<and> stream_inv base S st' \<and> pipe_step S e (pipe_of st) (pipe_of st')"
    using s' st by blast
qed

section \<open>Properties\<close>

text \<open>
  (C2) The receive side refines the pipe. After a handshake, any sequence of calls and of received
  pieces of the peer's stream is memory safe and is, step by step, a run of the abstract pipe from its
  empty state: bytes enter only at the end of the queue and only as the continuation of the stream, each
  read takes exactly the bytes at the front of the queue, the end is reported only when all bytes are there, and
  nothing but a reset segment discards bytes.
\<close>

theorem tcp_refines_pipe:
  assumes "conn_connect local_port remote_port iss window answer = Some (1, c)"
    and "length S < 2147483647"
    and "list_all (\<lambda>e. case e of Open _ \<Rightarrow> False
        | Receive s \<Rightarrow> segment_in (tcp_sequence_number answer + 1) S s | _ \<Rightarrow> True) es"
  shows "\<exists>st. conn_run es (c, []) = Some st
    \<and> spec_run (pipe_step S) es \<lparr>pipe_taken = [], pipe_queue = [], pipe_status = Flowing\<rparr> (pipe_of st)"
proof -
  let ?b = "tcp_sequence_number answer + 1"
  have at: "stream_at ?b S c [] 0" by (rule conn_connect_stream [OF assms(1)])
  then have "pipe_of (c, []) = \<lparr>pipe_taken = [], pipe_queue = [], pipe_status = Flowing\<rparr>"
    using pipe_status_open [OF at] by (simp add: pipe_of_def stream_at_def received_def)
  moreover have "stream_inv ?b S (c, [])" using at by (auto simp: stream_inv_def)
  moreover have "list_all (event_in ?b S) es"
    using assms(2,3) by (auto simp: event_in_def list_all_length split: conn_event.splits)
  ultimately show ?thesis using pipe.refines [of ?b S "(c, [])" es] by auto
qed

theorem tcp_refines_pipe_witness:
  "\<exists>c st. conn_connect 40000 80 1000 8192 example_answer = Some (1, c)
    \<and> conn_run [Receive (example_segment 0xFFFFFFFF 0x10 [10, 20]), Read 1, Tick 500] (c, []) = Some st
    \<and> spec_run (pipe_step [10, 20, 30]) [Receive (example_segment 0xFFFFFFFF 0x10 [10, 20]), Read 1, Tick 500]
        \<lparr>pipe_taken = [], pipe_queue = [], pipe_status = Flowing\<rparr> (pipe_of st)"
proof -
  obtain c where c: "conn_connect 40000 80 1000 8192 example_answer = Some (1, c)"
    using example_connect by blast
  have b: "tcp_sequence_number example_answer + 1 = 0xFFFFFFFF"
    by (simp add: example_answer_def tcp_built_def)
  have "bytes_at 0xFFFFFFFF [10, 20, 30] 0xFFFFFFFF [10, 20] 0" by (simp add: bytes_at_def)
  then have "segment_in 0xFFFFFFFF [10, 20, 30] (example_segment 0xFFFFFFFF 0x10 [10, 20])"
    by (auto simp: segment_in_def example_segment_simps const_defs)
  then show ?thesis
    using tcp_refines_pipe [OF c, of "[10, 20, 30]" "[Receive (example_segment 0xFFFFFFFF 0x10 [10, 20]), Read 1, Tick 500]"] c
    by (simp add: b)
qed

end
