(* ===== verification/Dns.thy ===== *)
theory Dns
  imports Wire
begin

text \<open>
  \<^verbatim>\<open>src/src/dns.c\<close> and \<^verbatim>\<open>src/include/dns.h\<close>: building a recursive A query and reading the A
  records of a response. A host name is the byte array of a C string, its terminating zero
  included.
\<close>

section \<open>Model\<close>

definition DNS_HEADER_LEN :: nat where [const_defs]: "DNS_HEADER_LEN = 12"
definition DNS_TYPE_A :: u16 where [const_defs]: "DNS_TYPE_A = 1"
definition DNS_CLASS_IN :: u16 where [const_defs]: "DNS_CLASS_IN = 1"
definition DNS_MAX_ANSWERS :: nat where [const_defs]: "DNS_MAX_ANSWERS = 16"

record dns_a_record =
  dns_address :: bytes
  dns_ttl :: u32

record dns_response =
  dns_transaction_id :: u16
  dns_response_code :: u8
  dns_authoritative :: u8
  dns_truncated :: u8
  dns_recursion_available :: u8
  dns_answers :: "dns_a_record list"
  dns_answer_count :: nat

definition dns_record_zero :: dns_a_record where
  "dns_record_zero = \<lparr> dns_address = replicate 4 0, dns_ttl = 0 \<rparr>"

definition dns_response_zero :: dns_response where
  "dns_response_zero = \<lparr> dns_transaction_id = 0, dns_response_code = 0, dns_authoritative = 0,
     dns_truncated = 0, dns_recursion_available = 0,
     dns_answers = replicate DNS_MAX_ANSWERS dns_record_zero, dns_answer_count = 0 \<rparr>"

text \<open>
  The loop of \<^verbatim>\<open>dns_skip_name\<close>. The result is the return code and the value of \<^verbatim>\<open>*offset\<close>
  afterwards, which only a success changes.
\<close>

function dns_skip_loop :: "bytes \<Rightarrow> nat \<Rightarrow> nat \<Rightarrow> nat \<Rightarrow> nat \<Rightarrow> (int \<times> nat) option" where
  "dns_skip_loop d data_len offset pos labels_seen =
    (if pos < data_len
     then case rd d pos of None \<Rightarrow> None | Some len \<Rightarrow>
       if len AND 0xC0 = 0xC0
       then if pos + 1 \<ge> data_len then Some (-1, offset) else Some (0, pos + 2)
       else if len AND 0xC0 \<noteq> 0 then Some (-1, offset)
       else if len = 0 then Some (0, pos + 1)
       else if len > 63 then Some (-1, offset)
       else if pos + 1 + unat len > data_len then Some (-1, offset)
       else if labels_seen + 1 > 127 then Some (-1, offset)
       else dns_skip_loop d data_len offset (pos + 1 + unat len) (labels_seen + 1)
     else Some (-1, offset))"
  by pat_completeness auto
termination by (relation "measure (\<lambda>(d, n, off, pos, l). n - pos)") auto

declare dns_skip_loop.simps [simp del]

definition dns_skip_name :: "bytes \<Rightarrow> nat \<Rightarrow> nat \<Rightarrow> (int \<times> nat) option" where
  "dns_skip_name d data_len offset =
    (if offset \<ge> data_len then Some (-1, offset)
     else dns_skip_loop d data_len offset offset 0)"

fun c_strlen :: "bytes \<Rightarrow> nat option" where
  "c_strlen [] = None"
| "c_strlen (x # xs) = (if x = 0 then Some 0 else do { n \<leftarrow> c_strlen xs; Some (Suc n) })"

text \<open>
  The \<^verbatim>\<open>for (;;)\<close> loop of \<^verbatim>\<open>dns_build_a_query\<close>: the buffer, and the offset behind the last
  label, or \<open>None\<close> where the function returns 0.
\<close>

function dns_label_loop ::
  "bytes \<Rightarrow> nat \<Rightarrow> bytes \<Rightarrow> nat \<Rightarrow> nat \<Rightarrow> nat \<Rightarrow> (bytes \<times> nat option) option" where
  "dns_label_loop b buffer_len host offset label_start cursor =
    (case rd host cursor of None \<Rightarrow> None | Some ch \<Rightarrow>
       if ch = 46 \<or> ch = 0
       then let label_len = cursor - label_start in
         if label_len = 0 \<or> label_len > 63 then Some (b, None)
         else if offset + 1 + label_len > buffer_len then Some (b, None)
         else do {
           b \<leftarrow> wr b offset (of_nat label_len);
           b \<leftarrow> memcpy b (offset + 1) host label_start label_len;
           let offset = offset + 1 + label_len;
           if ch = 0 then Some (b, Some offset)
           else dns_label_loop b buffer_len host offset (cursor + 1) (cursor + 1) }
       else dns_label_loop b buffer_len host offset label_start (cursor + 1))"
  by pat_completeness auto
termination
  by (relation "measure (\<lambda>(b, n, host, off, st, cur). length host - cur)") (auto simp: rd_def split: if_splits)

declare dns_label_loop.simps [simp del]

definition dns_build_a_query ::
  "bytes ptr \<Rightarrow> nat \<Rightarrow> u16 \<Rightarrow> bytes ptr \<Rightarrow> (nat \<times> bytes ptr) option" where
  "dns_build_a_query buffer buffer_len transaction_id hostname =
    (case (buffer, hostname) of
       (Some b, Some host) \<Rightarrow> do {
         h0 \<leftarrow> rd host 0;
         if h0 = 0 \<or> buffer_len < DNS_HEADER_LEN then Some (0, buffer)
         else do {
           hostname_len \<leftarrow> c_strlen host;
           if hostname_len = 0 \<or> hostname_len > 253 then Some (0, buffer)
           else do {
             b \<leftarrow> memset b 0 buffer_len;
             b \<leftarrow> write_u16_be b 0 transaction_id;
             b \<leftarrow> wr b 2 0x01;
             b \<leftarrow> wr b 3 0x00;
             b \<leftarrow> write_u16_be b 4 1;
             (b, r) \<leftarrow> dns_label_loop b buffer_len host DNS_HEADER_LEN 0 0;
             (case r of
                None \<Rightarrow> Some (0, Some b)
              | Some offset \<Rightarrow>
                  if offset + 1 + 4 > buffer_len then Some (0, Some b)
                  else do {
                    b \<leftarrow> wr b offset 0;
                    b \<leftarrow> write_u16_be b (offset + 1) DNS_TYPE_A;
                    b \<leftarrow> write_u16_be b (offset + 3) DNS_CLASS_IN;
                    Some (offset + 5, Some b) }) } } }
     | _ \<Rightarrow> Some (0, buffer))"

text \<open>
  The two loops of \<^verbatim>\<open>dns_parse_response\<close>: skipping questions and reading answers. \<open>None\<close> in
  the result stands for the return of -5.
\<close>

function dns_skip_questions :: "bytes \<Rightarrow> nat \<Rightarrow> nat \<Rightarrow> nat \<Rightarrow> nat \<Rightarrow> nat option option" where
  "dns_skip_questions d data_len count i offset =
    (if i < count
     then case dns_skip_name d data_len offset of None \<Rightarrow> None | Some (rc, offset) \<Rightarrow>
       if rc \<noteq> 0 then Some None
       else if offset + 4 > data_len then Some None
       else dns_skip_questions d data_len count (i + 1) (offset + 4)
     else Some (Some offset))"
  by pat_completeness auto
termination by (relation "measure (\<lambda>(d, n, count, i, off). count - i)") auto

declare dns_skip_questions.simps [simp del]

definition dns_store_answer :: "dns_response \<Rightarrow> bytes \<Rightarrow> nat \<Rightarrow> u32 \<Rightarrow> dns_response option" where
  "dns_store_answer response d offset ttl =
    (if dns_answer_count response < DNS_MAX_ANSWERS
     then do {
       record \<leftarrow> rd (dns_answers response) (dns_answer_count response);
       address \<leftarrow> memcpy (dns_address record) 0 d offset 4;
       answers \<leftarrow> wr (dns_answers response) (dns_answer_count response)
         (record\<lparr>dns_address := address, dns_ttl := ttl\<rparr>);
       Some (response\<lparr>dns_answers := answers, dns_answer_count := dns_answer_count response + 1\<rparr>) }
     else Some response)"

function dns_read_answers ::
  "bytes \<Rightarrow> nat \<Rightarrow> nat \<Rightarrow> nat \<Rightarrow> nat \<Rightarrow> dns_response \<Rightarrow> (int \<times> dns_response) option" where
  "dns_read_answers d data_len count i offset response =
    (if i < count
     then case dns_skip_name d data_len offset of None \<Rightarrow> None | Some (rc, offset) \<Rightarrow>
       if rc \<noteq> 0 then Some (-5, response)
       else if offset + 10 > data_len then Some (-5, response)
       else do {
         type \<leftarrow> read_u16_be d offset;
         class_code \<leftarrow> read_u16_be d (offset + 2);
         ttl \<leftarrow> read_u32_be d (offset + 4);
         rdlength \<leftarrow> read_u16_be d (offset + 8);
         let offset = offset + 10;
         if offset + unat rdlength > data_len then Some (-5, response)
         else do {
           response \<leftarrow> (if type = DNS_TYPE_A \<and> class_code = DNS_CLASS_IN \<and> rdlength = 4
                        then dns_store_answer response d offset ttl else Some response);
           dns_read_answers d data_len count (i + 1) (offset + unat rdlength) response } }
     else Some (0, response))"
  by pat_completeness auto
termination by (relation "measure (\<lambda>(d, n, count, i, off, r). count - i)") auto

declare dns_read_answers.simps [simp del]

definition dns_parse_response ::
  "bytes ptr \<Rightarrow> nat \<Rightarrow> u16 \<Rightarrow> dns_response ptr \<Rightarrow> (int \<times> dns_response ptr) option" where
  "dns_parse_response data data_len expected_transaction_id response =
    (case (data, response) of
       (Some d, Some _) \<Rightarrow>
         if data_len < DNS_HEADER_LEN then Some (-2, response)
         else do {
           transaction_id \<leftarrow> read_u16_be d 0;
           if transaction_id \<noteq> expected_transaction_id then Some (-3, response)
           else do {
             flags \<leftarrow> read_u16_be d 2;
             if flags AND 0x8000 = 0 then Some (-4, response)
             else do {
               question_count \<leftarrow> read_u16_be d 4;
               answer_count \<leftarrow> read_u16_be d 6;
               let r = dns_response_zero\<lparr>dns_transaction_id := transaction_id,
                 dns_authoritative := (if flags AND 0x0400 \<noteq> 0 then 1 else 0),
                 dns_truncated := (if flags AND 0x0200 \<noteq> 0 then 1 else 0),
                 dns_recursion_available := (if flags AND 0x0080 \<noteq> 0 then 1 else 0),
                 dns_response_code := ucast (flags AND 0x000F)\<rparr>;
               q \<leftarrow> dns_skip_questions d data_len (unat question_count) 0 DNS_HEADER_LEN;
               (case q of
                  None \<Rightarrow> Some (-5, Some r)
                | Some offset \<Rightarrow> do {
                    (rc, r) \<leftarrow> dns_read_answers d data_len (unat answer_count) 0 offset r;
                    Some (rc, Some r) }) } } }
     | _ \<Rightarrow> Some (-1, response))"

definition dns_response_code_name :: "u8 \<Rightarrow> string" where
  "dns_response_code_name response_code =
    (if response_code = 0 then ''NOERROR'' else if response_code = 1 then ''FORMERR''
     else if response_code = 2 then ''SERVFAIL'' else if response_code = 3 then ''NXDOMAIN''
     else if response_code = 4 then ''NOTIMP'' else if response_code = 5 then ''REFUSED''
     else ''UNKNOWN'')"

section \<open>Safety of the parser\<close>

lemma dns_skip_loop_safe:
  assumes "n \<le> length d" and "off \<le> pos"
  shows "\<exists>rc off'. dns_skip_loop d n off pos seen = Some (rc, off')
    \<and> (rc = 0 \<and> off < off' \<and> off' \<le> n \<or> rc = -1 \<and> off' = off)"
  using assms
proof (induction d n off pos seen rule: dns_skip_loop.induct)
  case (1 d n off pos seen)
  show ?case
  proof (cases "pos < n")
    case True
    with "1.prems" have "rd d pos = Some (d ! pos)" by (simp add: rd_Some)
    with 1 True show ?thesis by (simp add: dns_skip_loop.simps [of d n off pos seen])
  qed (simp add: dns_skip_loop.simps [of d n off pos seen])
qed

lemma dns_skip_name_safe:
  assumes "n \<le> length d"
  shows "\<exists>rc off'. dns_skip_name d n off = Some (rc, off')
    \<and> (rc = 0 \<and> off < off' \<and> off' \<le> n \<or> rc = -1 \<and> off' = off)"
  using dns_skip_loop_safe [OF assms order_refl] by (simp add: dns_skip_name_def)

lemma dns_skip_questions_safe:
  assumes "n \<le> length d"
  shows "\<exists>r. dns_skip_questions d n count i off = Some r"
  using assms
proof (induction d n count i off rule: dns_skip_questions.induct)
  case (1 d n count i off)
  from dns_skip_name_safe [OF "1.prems", of off] obtain rc off' where
    s: "dns_skip_name d n off = Some (rc, off')" by blast
  show ?case
    using "1.IH" [OF _ s refl] "1.prems" s by (simp add: dns_skip_questions.simps [of d n count i off])
qed

definition dns_response_wf :: "dns_response \<Rightarrow> bool" where
  "dns_response_wf r \<longleftrightarrow> length (dns_answers r) = 16 \<and> dns_answer_count r \<le> 16
     \<and> list_all (\<lambda>a. length (dns_address a) = 4) (dns_answers r)"

lemma wr_list_update: "i < length xs \<Longrightarrow> wr xs i v = Some (xs[i := v])"
  by (simp add: wr_def mem_write_def blit_def upd_conv_take_nth_drop)

lemma dns_record_update:
  "r\<lparr>dns_address := a, dns_ttl := t\<rparr> = \<lparr> dns_address = a, dns_ttl = t \<rparr>" for r :: dns_a_record
  by (cases r) simp

lemma dns_store_answer_eq:
  assumes "dns_response_wf r" and "off + 4 \<le> length d"
  shows "dns_store_answer r d off ttl = Some (if dns_answer_count r < 16
    then r\<lparr>dns_answers := (dns_answers r)[dns_answer_count r :=
        \<lparr> dns_address = take 4 (drop off d), dns_ttl = ttl \<rparr>],
      dns_answer_count := dns_answer_count r + 1\<rparr> else r)"
  using assms
  by (auto simp: dns_store_answer_def dns_response_wf_def const_defs rd_Some memcpy_Some wr_list_update
      list_all_length blit_def dns_record_update)

lemma dns_store_answer_wf:
  assumes "dns_response_wf r" and "off + 4 \<le> length d"
  shows "\<exists>r'. dns_store_answer r d off ttl = Some r' \<and> dns_response_wf r'"
  using assms unfolding dns_store_answer_eq [OF assms]
  by (auto simp: dns_response_wf_def list_all_length nth_list_update)

lemma dns_read_answers_safe:
  assumes "n \<le> length d" and "dns_response_wf r"
  shows "\<exists>rc r'. dns_read_answers d n count i off r = Some (rc, r') \<and> rc \<in> {0, -5} \<and> dns_response_wf r'"
  using assms
proof (induction d n count i off r rule: dns_read_answers.induct)
  case (1 d n count i off r)
  from dns_skip_name_safe [OF "1.prems"(1), of off] obtain rc off' where
    s: "dns_skip_name d n off = Some (rc, off')" by blast
  show ?case
  proof (cases "i < count \<and> rc = 0 \<and> off' + 10 \<le> n")
    case True
    obtain ty cl tt rl where reads: "read_u16_be d off' = Some ty" "read_u16_be d (off' + 2) = Some cl"
      "read_u32_be d (off' + 4) = Some tt" "read_u16_be d (off' + 8) = Some rl"
      using True "1.prems"(1) by (simp add: read_u16_be_Some read_u32_be_Some)
    show ?thesis
    proof (cases "off' + 10 + unat rl \<le> n")
      case fits: True
      obtain r' where r': "(if ty = DNS_TYPE_A \<and> cl = DNS_CLASS_IN \<and> rl = 4
          then dns_store_answer r d (off' + 10) tt else Some r) = Some r'" "dns_response_wf r'"
        using dns_store_answer_wf [OF "1.prems"(2), of "off' + 10" d tt] "1.prems" fits
        by (cases "ty = DNS_TYPE_A \<and> cl = DNS_CLASS_IN \<and> rl = 4") auto
      have "\<exists>rc r''. dns_read_answers d n count (i + 1) (off' + 10 + unat rl) r' = Some (rc, r'')
          \<and> rc \<in> {0, -5} \<and> dns_response_wf r''"
        using True fits r' reads "1.prems"(1)
        by (intro "1.IH" [OF _ s refl]) (simp_all add: not_less)
      then show ?thesis
        using True fits r'(1) reads s
        by (simp add: dns_read_answers.simps [of d n count i off r] Let_def not_less)
    next
      case False
      then show ?thesis
        using True reads s "1.prems"(2)
        by (simp add: dns_read_answers.simps [of d n count i off r] Let_def not_less)
    qed
  next
    case False
    then show ?thesis
      using s "1.prems"(2) by (auto simp: dns_read_answers.simps [of d n count i off r])
  qed
qed

text \<open>The fields a response takes from the header.\<close>

definition dns_header_response :: "u16 \<Rightarrow> u16 \<Rightarrow> dns_response" where
  "dns_header_response transaction_id flags = dns_response_zero\<lparr>dns_transaction_id := transaction_id,
     dns_authoritative := (if flags AND 0x0400 \<noteq> 0 then 1 else 0),
     dns_truncated := (if flags AND 0x0200 \<noteq> 0 then 1 else 0),
     dns_recursion_available := (if flags AND 0x0080 \<noteq> 0 then 1 else 0),
     dns_response_code := ucast (flags AND 0x000F)\<rparr>"

lemma dns_header_response_wf: "dns_response_wf (dns_header_response tid flags)"
  by (simp add: dns_header_response_def dns_response_wf_def dns_response_zero_def dns_record_zero_def
      const_defs list_all_length)

lemma dns_parse_response_eq:
  assumes "n \<le> length d" and "12 \<le> n"
  shows "dns_parse_response (Some d) n tid (Some g) =
    (if be16 (d ! 0) (d ! 1) \<noteq> tid then Some (-3, Some g)
     else if be16 (d ! 2) (d ! 3) AND 0x8000 = 0 then Some (-4, Some g)
     else do {
       q \<leftarrow> dns_skip_questions d n (unat (be16 (d ! 4) (d ! 5))) 0 12;
       (case q of
          None \<Rightarrow> Some (-5, Some (dns_header_response tid (be16 (d ! 2) (d ! 3))))
        | Some offset \<Rightarrow> do {
            (rc, r) \<leftarrow> dns_read_answers d n (unat (be16 (d ! 6) (d ! 7))) 0 offset
              (dns_header_response tid (be16 (d ! 2) (d ! 3)));
            Some (rc, Some r) }) })"
proof -
  have "d \<noteq> []" using assms by auto
  then show ?thesis
    using assms
    by (simp add: dns_parse_response_def const_defs read_u16_be_Some Let_def dns_header_response_def)
qed

lemma dns_parse_response_safe:
  assumes "n \<le> length d"
  shows "\<exists>rc r. dns_parse_response (Some d) n tid (Some g) = Some (rc, Some r)
    \<and> (rc \<in> {0, -5} \<and> dns_response_wf r \<or> rc \<in> {-2, -3, -4} \<and> r = g)"
proof (cases "n < 12")
  case True
  then show ?thesis by (simp add: dns_parse_response_def const_defs)
next
  case False
  then have l: "12 \<le> n" by simp
  obtain q where q: "dns_skip_questions d n (unat (be16 (d ! 4) (d ! 5))) 0 12 = Some q"
    using dns_skip_questions_safe [OF assms] by blast
  show ?thesis
  proof (cases q)
    case None
    then show ?thesis using q dns_header_response_wf unfolding dns_parse_response_eq [OF assms l] by simp
  next
    case (Some off)
    obtain rc r where "dns_read_answers d n (unat (be16 (d ! 6) (d ! 7))) 0 off
        (dns_header_response tid (be16 (d ! 2) (d ! 3))) = Some (rc, r)" "rc \<in> {0, -5}" "dns_response_wf r"
      using dns_read_answers_safe [OF assms dns_header_response_wf] by blast
    then show ?thesis using q Some unfolding dns_parse_response_eq [OF assms l] by auto
  qed
qed

section \<open>Names\<close>

text \<open>A name as labels, its encoding and its text.\<close>

definition dns_label_ok :: "bytes \<Rightarrow> bool" where
  "dns_label_ok l \<longleftrightarrow> 0 < length l \<and> length l \<le> 63 \<and> 0 \<notin> set l \<and> 46 \<notin> set l"

definition dns_labels :: "bytes list \<Rightarrow> bytes" where
  "dns_labels ls = concat (map (\<lambda>l. of_nat (length l) # l) ls)"

fun dns_host :: "bytes list \<Rightarrow> bytes" where
  "dns_host [] = [0]"
| "dns_host [l] = l @ [0]"
| "dns_host (l # ls) = l @ 46 # dns_host ls"

lemma dns_labels_simps [simp]:
  "dns_labels [] = []" "dns_labels (l # ls) = of_nat (length l) # l @ dns_labels ls"
  by (simp_all add: dns_labels_def)

lemma label_length_bits:
  fixes x :: u8
  assumes "unat x \<le> 63"
  shows "x AND 0xC0 = 0"
proof -
  have "take_bit 6 (unat x) = unat x" using assms by (simp add: take_bit_nat_eq_self)
  then have x: "take_bit 6 x = x" by (metis unsigned_take_bit_eq unat_inject)
  have nb: "\<not> bit (0xC0 :: u8) n" if "n < 6" for n
  proof -
    from that consider "n = 0" | "n = 1" | "n = 2" | "n = 3" | "n = 4" | "n = 5" by linarith
    then show ?thesis by cases simp_all
  qed
  then have "take_bit 6 x AND 0xC0 = 0"
    by (intro bit_word_eqI) (auto simp: bit_simps)
  then show ?thesis by (simp only: x)
qed

lemma unat_label_length: "length l \<le> 63 \<Longrightarrow> unat (of_nat (length l) :: u8) = length l"
  by (subst unsigned_of_nat) (simp add: take_bit_eq_mod)

text \<open>
  A name on the wire is a sequence of labels that ends with the root label or with a
  compression pointer.
\<close>

definition dns_tail_ok :: "bytes \<Rightarrow> bool" where
  "dns_tail_ok t \<longleftrightarrow> t = [0] \<or> length t = 2 \<and> t ! 0 AND 0xC0 = 0xC0"

lemma dns_skip_tail:
  assumes "dns_tail_ok t" and "length pre + length t \<le> n"
  shows "dns_skip_loop (pre @ t @ post) n off (length pre) seen = Some (0, length pre + length t)"
proof -
  from assms(1) consider "t = [0]" | a b where "t = [a, b]" "a AND 0xC0 = 0xC0"
    by (auto simp: dns_tail_ok_def length_Suc_conv numeral_2_eq_2)
  then show ?thesis
    using assms(2) by cases (simp_all add: dns_skip_loop.simps rd_def)
qed

lemma dns_skip_labels:
  assumes "list_all (\<lambda>l. 0 < length l \<and> length l \<le> 63) ls" and "seen + length ls \<le> 127"
    and "dns_tail_ok t" and "length pre + length (dns_labels ls) + length t \<le> n"
  shows "dns_skip_loop (pre @ dns_labels ls @ t @ post) n off (length pre) seen =
    Some (0, length pre + length (dns_labels ls) + length t)"
  using assms
proof (induction ls arbitrary: pre seen)
  case Nil
  then show ?case by (simp add: dns_skip_tail)
next
  case (Cons l ls)
  let ?k = "of_nat (length l) :: u8"
  have k: "unat ?k = length l" using Cons.prems(1) by (intro unat_label_length) simp
  have ne: "?k \<noteq> 0" "\<not> 63 < ?k" "?k AND 0xC0 = 0"
    using k Cons.prems(1) label_length_bits [of ?k]
    by (auto simp: word_less_nat_alt unat_eq_zero [symmetric])
  have "dns_skip_loop ((pre @ ?k # l) @ dns_labels ls @ t @ post) n off (length (pre @ ?k # l)) (seen + 1) =
      Some (0, length (pre @ ?k # l) + length (dns_labels ls) + length t)"
    using Cons.prems by (intro Cons.IH) simp_all
  with Cons.prems ne k show ?case
    by (simp add: dns_skip_loop.simps [of _ n off "length pre" seen] rd_def nth_append)
qed

definition dns_name_ok :: "bytes list \<Rightarrow> bytes \<Rightarrow> bool" where
  "dns_name_ok ls t \<longleftrightarrow> list_all (\<lambda>l. 0 < length l \<and> length l \<le> 63) ls \<and> length ls \<le> 127 \<and> dns_tail_ok t"

lemma dns_skip_name_exact:
  assumes "dns_name_ok ls t" and "length pre + length (dns_labels ls) + length t \<le> n"
  shows "dns_skip_name (pre @ dns_labels ls @ t @ post) n (length pre) =
    Some (0, length pre + length (dns_labels ls) + length t)"
proof -
  have "0 < length t" using assms(1) by (auto simp: dns_name_ok_def dns_tail_ok_def)
  then have "length pre < n" using assms(2) by linarith
  then show ?thesis
    using assms dns_skip_labels [of ls 0 t pre n post "length pre"] by (simp add: dns_name_ok_def dns_skip_name_def)
qed

section \<open>Encoding a host name\<close>

lemma dns_label_scan:
  assumes "0 \<notin> set l" and "46 \<notin> set l" and "i \<le> length l"
  shows "dns_label_loop b n (pre @ l @ rest) off st (length pre + i) =
    dns_label_loop b n (pre @ l @ rest) off st (length pre + length l)"
  using assms(3)
proof (induction rule: inc_induct)
  case (step j)
  then have "rd (pre @ l @ rest) (length pre + j) = Some (l ! j)"
    by (simp add: rd_def nth_append)
  moreover have "l ! j \<noteq> 0" "l ! j \<noteq> 46" using step(2) assms by (auto simp: in_set_conv_nth)
  ultimately show ?case
    using step(3) by (simp add: dns_label_loop.simps [of b n "pre @ l @ rest" off st "length pre + j"])
qed simp

lemma dns_label_step:
  assumes l: "dns_label_ok l" and ch: "ch \<in> {0, 46}" and n: "n \<le> length b"
  shows "dns_label_loop b n (pre @ l @ ch # rest) off (length pre) (length pre) =
    (if off + 1 + length l \<le> n
     then (let b' = blit off (of_nat (length l) # l) b in
       if ch = 0 then Some (b', Some (off + 1 + length l))
       else dns_label_loop b' n (pre @ l @ ch # rest) (off + 1 + length l)
         (length pre + length l + 1) (length pre + length l + 1))
     else Some (b, None))"
proof -
  let ?h = "pre @ l @ ch # rest" and ?c = "length pre + length l"
  have scan: "dns_label_loop b n ?h off (length pre) (length pre) =
      dns_label_loop b n ?h off (length pre) ?c"
    using dns_label_scan [of l 0 b n pre "ch # rest" off "length pre"] l by (simp add: dns_label_ok_def)
  have rd: "rd ?h ?c = Some ch" by (simp add: rd_def nth_append)
  have len: "?c - length pre = length l" "\<not> (length l = 0 \<or> length l > 63)"
    using l by (auto simp: dns_label_ok_def)
  have w: "wr b off (of_nat (length l)) = Some (blit off [of_nat (length l)] b)"
    "memcpy (blit off [of_nat (length l)] b) (off + 1) ?h (length pre) (length l) =
      Some (blit off (of_nat (length l) # l) b)" if "off + 1 + length l \<le> n"
    using that n blit_adjacent [of off "[of_nat (length l)]" l b]
    by (simp_all add: wr_Some memcpy_Some)
  show ?thesis
    unfolding scan
    using ch rd len w
    by (subst dns_label_loop.simps) (auto simp: Let_def not_le)
qed

lemma dns_label_loop_host:
  assumes "ls \<noteq> []" and "list_all dns_label_ok ls" and "n \<le> length b"
  shows "if off + length (dns_labels ls) \<le> n
    then dns_label_loop b n (pre @ dns_host ls @ post) off (length pre) (length pre) =
      Some (blit off (dns_labels ls) b, Some (off + length (dns_labels ls)))
    else \<exists>b'. dns_label_loop b n (pre @ dns_host ls @ post) off (length pre) (length pre) = Some (b', None)
      \<and> length b' = length b"
  using assms
proof (induction ls arbitrary: pre b off rule: dns_host.induct)
  case (2 l)
  then show ?case
    using dns_label_step [of l 0 n b pre post off] by simp
next
  case (3 l l' ls)
  let ?k = "of_nat (length l) :: u8" and ?ls = "l' # ls"
  let ?b = "blit off (?k # l) b" and ?pre = "pre @ l @ [46]"
  have ok: "dns_label_ok l" "list_all dns_label_ok ?ls" using "3.prems"(2) by simp_all
  have step: "dns_label_loop b n (pre @ dns_host (l # ?ls) @ post) off (length pre) (length pre) =
      (if off + 1 + length l \<le> n
       then dns_label_loop ?b n (?pre @ dns_host ?ls @ post) (off + 1 + length l) (length ?pre) (length ?pre)
       else Some (b, None))"
    using dns_label_step [OF ok(1) _ "3.prems"(3), of 46 pre "dns_host ?ls @ post" off]
    by (simp add: Let_def)
  show ?case
  proof (cases "off + 1 + length l \<le> n")
    case True
    then have lb: "length ?b = length b" using "3.prems"(3) by simp
    then have nb: "n \<le> length ?b" using "3.prems"(3) by simp
    have adj: "blit (off + 1 + length l) (dns_labels ?ls) ?b = blit off (dns_labels (l # ?ls)) b"
      if "off + 1 + length l + length (dns_labels ?ls) \<le> n"
      using that "3.prems"(3) blit_adjacent [of off "?k # l" "dns_labels ?ls" b] by simp
    have ih: "if off + 1 + length l + length (dns_labels ?ls) \<le> n
      then dns_label_loop ?b n (?pre @ dns_host ?ls @ post) (off + 1 + length l) (length ?pre) (length ?pre) =
        Some (blit (off + 1 + length l) (dns_labels ?ls) ?b,
          Some (off + 1 + length l + length (dns_labels ?ls)))
      else \<exists>b'. dns_label_loop ?b n (?pre @ dns_host ?ls @ post) (off + 1 + length l) (length ?pre) (length ?pre) =
          Some (b', None) \<and> length b' = length ?b"
      by (rule "3.IH" [OF _ ok(2) nb]) simp
    show ?thesis
      using ih unfolding step using True adj lb
      by (simp add: add.assoc split: if_splits)
  next
    case False
    then show ?thesis unfolding step by simp
  qed
qed simp

lemma c_strlen_terminated: "0 \<notin> set xs \<Longrightarrow> c_strlen (xs @ 0 # r) = Some (length xs)"
  by (induction xs) auto

lemma dns_host_text:
  assumes "list_all dns_label_ok ls" and "ls \<noteq> []"
  shows "\<exists>x xs. dns_host ls = x # xs @ [0] \<and> 0 \<notin> set (x # xs) \<and> length (x # xs) + 1 = length (dns_labels ls)"
  using assms
proof (induction ls rule: dns_host.induct)
  case (2 l)
  then obtain x xs where "l = x # xs" by (cases l) (auto simp: dns_label_ok_def)
  with 2 show ?case by (auto simp: dns_label_ok_def)
next
  case (3 l l' ls)
  then obtain x xs where l: "l = x # xs" by (cases l) (auto simp: dns_label_ok_def)
  from 3 obtain y ys where "dns_host (l' # ls) = y # ys @ [0]" "0 \<notin> set (y # ys)"
    "length (y # ys) + 1 = length (dns_labels (l' # ls))" by auto
  with 3 l show ?case by (auto simp: dns_label_ok_def)
qed simp

lemma u16_bytes_1: "u16_bytes 1 = [0, 1]"
  by (simp add: u16_bytes_def)

definition dns_query_head :: "u16 \<Rightarrow> bytes" where
  "dns_query_head tid = u16_bytes tid @ [1, 0, 0, 1, 0, 0, 0, 0, 0, 0]"

lemma length_dns_query_head [simp]: "length (dns_query_head tid) = 12"
  by (simp add: dns_query_head_def)

lemma dns_build_header:
  assumes "12 \<le> n" and "n \<le> length buf"
  shows "do { b \<leftarrow> memset buf 0 n; b \<leftarrow> write_u16_be b 0 tid; b \<leftarrow> wr b 2 0x01; b \<leftarrow> wr b 3 0x00;
      b \<leftarrow> write_u16_be b 4 1; f b } = f (dns_query_head tid @ replicate (n - 12) 0 @ drop n buf)"
proof -
  have "replicate n (0 :: u8) = replicate 12 0 @ replicate (n - 12) 0"
    using assms(1) by (simp flip: replicate_add)
  then have m: "memset buf 0 n = Some ([0, 0, 0, 0, 0, 0, 0, 0, 0, 0, 0, 0] @ replicate (n - 12) 0 @ drop n buf)"
    using assms(2) by (simp add: memset_Some numeral_eq_Suc)
  show ?thesis
    unfolding m by (simp add: mem_simps dns_query_head_def u16_bytes_1)
qed

definition dns_query :: "u16 \<Rightarrow> bytes list \<Rightarrow> bytes" where
  "dns_query tid ls = dns_query_head tid @ dns_labels ls @ [0, 0, 1, 0, 1]"

lemma dns_build_tail:
  assumes "length pre + 5 \<le> n" and "n \<le> length (pre @ z)"
  shows "do { b \<leftarrow> wr (pre @ z) (length pre) 0; b \<leftarrow> write_u16_be b (length pre + 1) 1;
      b \<leftarrow> write_u16_be b (length pre + 3) 1; f b } = f (pre @ [0, 0, 1, 0, 1] @ drop 5 z)"
proof -
  have "5 \<le> length z" using assms by simp
  then obtain a1 a2 a3 a4 a5 r where "z = a1 # a2 # a3 # a4 # a5 # r"
    by (auto simp: Suc_le_length_iff numeral_eq_Suc)
  then show ?thesis by (simp add: mem_simps u16_bytes_1)
qed

lemma dns_build_labels:
  assumes "list_all dns_label_ok ls" and "ls \<noteq> []" and "12 \<le> n" and "n \<le> length buf"
  shows "if 12 + length (dns_labels ls) \<le> n
    then dns_label_loop (dns_query_head tid @ replicate (n - 12) 0 @ drop n buf) n (dns_host ls @ post) 12 0 0 =
      Some ((dns_query_head tid @ dns_labels ls) @ replicate (n - (12 + length (dns_labels ls))) 0 @ drop n buf,
        Some (12 + length (dns_labels ls)))
    else \<exists>b'. dns_label_loop (dns_query_head tid @ replicate (n - 12) 0 @ drop n buf) n (dns_host ls @ post) 12 0 0 =
        Some (b', None) \<and> length b' = length buf"
  using dns_label_loop_host [of ls n "dns_query_head tid @ replicate (n - 12) 0 @ drop n buf" 12 "[]" post] assms
  by (cases "12 + length (dns_labels ls) \<le> n") (simp_all add: blit_append blit_0)

lemma dns_build_a_query_eq:
  assumes ls: "list_all dns_label_ok ls" "ls \<noteq> []" and len: "length (dns_labels ls) \<le> 254"
    and n: "n \<le> length buf"
  shows "if 17 + length (dns_labels ls) \<le> n
    then dns_build_a_query (Some buf) n tid (Some (dns_host ls @ post)) =
      Some (17 + length (dns_labels ls),
        Some (dns_query tid ls @ replicate (n - (17 + length (dns_labels ls))) 0 @ drop n buf))
    else \<exists>b'. dns_build_a_query (Some buf) n tid (Some (dns_host ls @ post)) = Some (0, Some b')
      \<and> length b' = length buf"
proof (cases "n < 12")
  case True
  obtain x xs where "dns_host ls = x # xs @ [0]" using dns_host_text [OF ls] by blast
  with True show ?thesis
    by (simp add: dns_build_a_query_def rd_def const_defs)
next
  case False
  then have n12: "12 \<le> n" by simp
  obtain x xs where h: "dns_host ls = x # xs @ [0]" "0 \<notin> set (x # xs)"
    "length (x # xs) + 1 = length (dns_labels ls)" using dns_host_text [OF ls] by blast
  have sl: "c_strlen (dns_host ls @ post) = Some (length (x # xs))"
    using c_strlen_terminated [of "x # xs" post] h by simp
  have r0: "rd (dns_host ls @ post) 0 = Some x" "x \<noteq> 0" using h by (auto simp: rd_def)
  let ?b = "dns_query_head tid @ replicate (n - 12) 0 @ drop n buf"
  have build: "dns_build_a_query (Some buf) n tid (Some (dns_host ls @ post)) = do {
      (b, r) \<leftarrow> dns_label_loop ?b n (dns_host ls @ post) 12 0 0;
      (case r of None \<Rightarrow> Some (0, Some b)
       | Some offset \<Rightarrow> if offset + 1 + 4 > n then Some (0, Some b)
           else do { b \<leftarrow> wr b offset 0; b \<leftarrow> write_u16_be b (offset + 1) DNS_TYPE_A;
             b \<leftarrow> write_u16_be b (offset + 3) DNS_CLASS_IN; Some (offset + 5, Some b) }) }"
    using r0 sl h(3) len n12 dns_build_header [OF n12 n]
    by (simp add: dns_build_a_query_def DNS_HEADER_LEN_def cong: option.case_cong)
  show ?thesis
    using dns_build_labels [OF ls n12 n, of tid post] n
      dns_build_tail [of "dns_query_head tid @ dns_labels ls" n
        "replicate (n - (12 + length (dns_labels ls))) 0 @ drop n buf"]
    unfolding build DNS_TYPE_A_def DNS_CLASS_IN_def by (cases "12 + length (dns_labels ls) \<le> n") (auto simp: dns_query_def)
qed

section \<open>Reading a response\<close>

text \<open>A resource record, its wire image, and the A records among a list of them.\<close>

record dns_rr =
  rr_labels :: "bytes list"
  rr_tail :: bytes
  rr_type :: u16
  rr_class :: u16
  rr_ttl :: u32
  rr_data :: bytes

definition dns_rr_ok :: "dns_rr \<Rightarrow> bool" where
  "dns_rr_ok rr \<longleftrightarrow> dns_name_ok (rr_labels rr) (rr_tail rr) \<and> length (rr_data rr) < 65536"

definition dns_rr_bytes :: "dns_rr \<Rightarrow> bytes" where
  "dns_rr_bytes rr = dns_labels (rr_labels rr) @ rr_tail rr @ u16_bytes (rr_type rr) @ u16_bytes (rr_class rr)
     @ u32_bytes (rr_ttl rr) @ u16_bytes (of_nat (length (rr_data rr))) @ rr_data rr"

definition dns_rr_is_a :: "dns_rr \<Rightarrow> bool" where
  "dns_rr_is_a rr \<longleftrightarrow> rr_type rr = 1 \<and> rr_class rr = 1 \<and> length (rr_data rr) = 4"

definition dns_a_records :: "dns_rr list \<Rightarrow> dns_a_record list" where
  "dns_a_records rrs = map (\<lambda>rr. \<lparr> dns_address = rr_data rr, dns_ttl = rr_ttl rr \<rparr>) (filter dns_rr_is_a rrs)"

definition dns_keep :: "dns_a_record list \<Rightarrow> dns_response \<Rightarrow> dns_response" where
  "dns_keep as r = r\<lparr>dns_answers := blit (dns_answer_count r) (take (16 - dns_answer_count r) as) (dns_answers r),
     dns_answer_count := min 16 (dns_answer_count r + length as)\<rparr>"

lemma unat_u16_of_nat: "k < 65536 \<Longrightarrow> unat (of_nat k :: u16) = k"
  by (subst unsigned_of_nat) (simp add: take_bit_eq_mod)

lemma read_u16_be_at: "read_u16_be (pre @ u16_bytes v @ post) (length pre) = Some v"
  by (simp add: read_u16_be_def rd_def nth_append u16_bytes_def)

lemma read_u32_be_at: "read_u32_be (pre @ u32_bytes v @ post) (length pre) = Some v"
  by (simp add: read_u32_be_def rd_def nth_append u32_bytes_def)

lemma dns_rr_reads:
  fixes rr pre post
  defines "d \<equiv> pre @ dns_rr_bytes rr @ post"
    and "p \<equiv> length pre + length (dns_labels (rr_labels rr)) + length (rr_tail rr)"
  shows "read_u16_be d p = Some (rr_type rr)" "read_u16_be d (p + 2) = Some (rr_class rr)"
    "read_u32_be d (p + 4) = Some (rr_ttl rr)"
    "read_u16_be d (p + 8) = Some (of_nat (length (rr_data rr)))"
    "take (length (rr_data rr)) (drop (p + 10) d) = rr_data rr"
proof -
  let ?P = "pre @ dns_labels (rr_labels rr) @ rr_tail rr"
  let ?n = "u16_bytes (of_nat (length (rr_data rr)))"
  show "read_u16_be d p = Some (rr_type rr)"
    using read_u16_be_at [of ?P "rr_type rr"] by (simp add: d_def p_def dns_rr_bytes_def add.assoc)
  show "read_u16_be d (p + 2) = Some (rr_class rr)"
    using read_u16_be_at [of "?P @ u16_bytes (rr_type rr)" "rr_class rr"]
    by (simp add: d_def p_def dns_rr_bytes_def add.assoc)
  show "read_u32_be d (p + 4) = Some (rr_ttl rr)"
    using read_u32_be_at [of "?P @ u16_bytes (rr_type rr) @ u16_bytes (rr_class rr)" "rr_ttl rr"]
    by (simp add: d_def p_def dns_rr_bytes_def add.assoc)
  show "read_u16_be d (p + 8) = Some (of_nat (length (rr_data rr)))"
    using read_u16_be_at [of "?P @ u16_bytes (rr_type rr) @ u16_bytes (rr_class rr) @ u32_bytes (rr_ttl rr)"]
    by (simp add: d_def p_def dns_rr_bytes_def add.assoc)
  have "d = (?P @ u16_bytes (rr_type rr) @ u16_bytes (rr_class rr) @ u32_bytes (rr_ttl rr) @ ?n)
      @ rr_data rr @ post"
    by (simp add: d_def dns_rr_bytes_def)
  moreover have "length (?P @ u16_bytes (rr_type rr) @ u16_bytes (rr_class rr) @ u32_bytes (rr_ttl rr) @ ?n) =
      p + 10" by (simp add: p_def)
  ultimately show "take (length (rr_data rr)) (drop (p + 10) d) = rr_data rr"
    by (metis append_eq_conv_conj)
qed

lemma length_dns_rr_bytes: "length (dns_rr_bytes rr) =
    length (dns_labels (rr_labels rr)) + length (rr_tail rr) + 10 + length (rr_data rr)"
  by (simp add: dns_rr_bytes_def)

lemma dns_a_records_simps:
  "dns_a_records [] = []"
  "dns_a_records (rr # rrs) = (if dns_rr_is_a rr
     then \<lparr> dns_address = rr_data rr, dns_ttl = rr_ttl rr \<rparr> # dns_a_records rrs else dns_a_records rrs)"
  by (simp_all add: dns_a_records_def)

lemma dns_keep_Nil: "dns_response_wf r \<Longrightarrow> dns_keep [] r = r"
  by (simp add: dns_keep_def dns_response_wf_def)

lemma dns_keep_Cons:
  assumes "dns_response_wf r"
  shows "dns_keep (a # as) r = dns_keep as (dns_keep [a] r)"
proof (cases "dns_answer_count r < 16")
  case True
  then have c: "16 - dns_answer_count r = Suc (16 - Suc (dns_answer_count r))" by simp
  have l: "length (dns_answers r) = 16" using assms by (simp add: dns_response_wf_def)
  show ?thesis
    using True l blit_adjacent [of "dns_answer_count r" "[a]" "take (16 - Suc (dns_answer_count r)) as" "dns_answers r"]
    by (simp add: dns_keep_def c)
next
  case False
  with assms have "dns_answer_count r = 16" by (simp add: dns_response_wf_def)
  then show ?thesis by (simp add: dns_keep_def)
qed

lemma dns_keep_wf:
  assumes "dns_response_wf r" and "length (dns_address a) = 4"
  shows "dns_response_wf (dns_keep [a] r)"
  using assms
  by (auto simp: dns_keep_def dns_response_wf_def blit_def list_all_iff take_Cons'
      dest: in_set_takeD in_set_dropD)

lemma dns_store_answer_keep:
  assumes "dns_response_wf r" and "off + 4 \<le> length d"
  shows "dns_store_answer r d off ttl =
    Some (dns_keep [\<lparr> dns_address = take 4 (drop off d), dns_ttl = ttl \<rparr>] r)"
proof -
  have "dns_answer_count r < 16 \<or> dns_answer_count r = 16" "length (dns_answers r) = 16"
    using assms(1) by (auto simp: dns_response_wf_def)
  then show ?thesis
    unfolding dns_store_answer_eq [OF assms]
    by (auto simp: dns_keep_def take_Cons' blit_def upd_conv_take_nth_drop)
qed

lemma dns_read_answers_step:
  assumes "dns_rr_ok rr" and "dns_response_wf r" and "i < count"
    and "length pre + length (dns_rr_bytes rr) \<le> n" and "n \<le> length (pre @ dns_rr_bytes rr @ post)"
  shows "dns_read_answers (pre @ dns_rr_bytes rr @ post) n count i (length pre) r =
    dns_read_answers (pre @ dns_rr_bytes rr @ post) n count (i + 1) (length (pre @ dns_rr_bytes rr))
      (dns_keep (dns_a_records [rr]) r)"
proof -
  let ?d = "pre @ dns_rr_bytes rr @ post"
  let ?p = "length pre + length (dns_labels (rr_labels rr)) + length (rr_tail rr)"
  note len = length_dns_rr_bytes [of rr]
  have skip: "dns_skip_name ?d n (length pre) = Some (0, ?p)"
    using dns_skip_name_exact [of "rr_labels rr" "rr_tail rr" pre n] assms(1,4) len
    by (simp add: dns_rr_ok_def dns_rr_bytes_def)
  note reads = dns_rr_reads [where rr = rr and pre = pre and post = post]
  have ul: "unat (of_nat (length (rr_data rr)) :: u16) = length (rr_data rr)"
    using assms(1) by (simp add: dns_rr_ok_def unat_u16_of_nat)
  have four: "(of_nat (length (rr_data rr)) :: u16) = 4 \<longleftrightarrow> length (rr_data rr) = 4"
    unfolding unat_inject [symmetric] ul by simp
  have stored: "(if rr_type rr = DNS_TYPE_A \<and> rr_class rr = DNS_CLASS_IN
        \<and> (of_nat (length (rr_data rr)) :: u16) = 4
      then dns_store_answer r ?d (?p + 10) (rr_ttl rr) else Some r) = Some (dns_keep (dns_a_records [rr]) r)"
  proof (cases "dns_rr_is_a rr")
    case True
    then have "dns_store_answer r ?d (?p + 10) (rr_ttl rr) =
        Some (dns_keep [\<lparr> dns_address = take 4 (drop (?p + 10) ?d), dns_ttl = rr_ttl rr \<rparr>] r)"
      using assms(4,5) len by (intro dns_store_answer_keep assms(2)) (simp add: dns_rr_is_a_def)
    with True reads(5) show ?thesis
      by (simp add: dns_a_records_simps dns_rr_is_a_def const_defs)
  next
    case False
    then show ?thesis
      using assms(2) four by (auto simp: dns_a_records_simps dns_rr_is_a_def const_defs dns_keep_Nil)
  qed
  have end_eq: "length (pre @ dns_rr_bytes rr) = ?p + 10 + length (rr_data rr)" by (simp add: len)
  have "?p + 10 + length (rr_data rr) \<le> n" using assms(4) len by simp
  then show ?thesis
    unfolding end_eq using assms(3) skip reads(1-4) stored ul
    by (simp add: dns_read_answers.simps [of ?d n count i "length pre" r] Let_def)
qed

lemma dns_read_answers_all:
  assumes "list_all dns_rr_ok rrs" and "dns_response_wf r"
    and "length pre + length (concat (map dns_rr_bytes rrs)) \<le> n"
    and "n \<le> length (pre @ concat (map dns_rr_bytes rrs) @ post)"
  shows "dns_read_answers (pre @ concat (map dns_rr_bytes rrs) @ post) n (i + length rrs) i (length pre) r =
    Some (0, dns_keep (dns_a_records rrs) r)"
  using assms
proof (induction rrs arbitrary: pre i r)
  case Nil
  then show ?case by (simp add: dns_read_answers.simps dns_a_records_simps dns_keep_Nil)
next
  case (Cons rr rrs)
  let ?r = "dns_keep (dns_a_records [rr]) r"
  have wf: "dns_response_wf ?r"
    using Cons.prems(2) by (auto simp: dns_a_records_simps dns_keep_Nil dns_rr_is_a_def intro!: dns_keep_wf)
  have "dns_read_answers ((pre @ dns_rr_bytes rr) @ concat (map dns_rr_bytes rrs) @ post) n
      (i + 1 + length rrs) (i + 1) (length (pre @ dns_rr_bytes rr)) ?r =
      Some (0, dns_keep (dns_a_records rrs) ?r)"
    using Cons.prems wf by (intro Cons.IH) simp_all
  moreover have "dns_keep (dns_a_records (rr # rrs)) r = dns_keep (dns_a_records rrs) ?r"
    using Cons.prems(2)
      dns_keep_Cons [OF Cons.prems(2), of "\<lparr> dns_address = rr_data rr, dns_ttl = rr_ttl rr \<rparr>" "dns_a_records rrs"]
    by (simp add: dns_a_records_simps dns_keep_Nil)
  moreover have "dns_read_answers (pre @ dns_rr_bytes rr @ concat (map dns_rr_bytes rrs) @ post) n
      (i + length (rr # rrs)) i (length pre) r =
    dns_read_answers (pre @ dns_rr_bytes rr @ concat (map dns_rr_bytes rrs) @ post) n
      (i + length (rr # rrs)) (i + 1) (length (pre @ dns_rr_bytes rr)) ?r"
    using Cons.prems by (intro dns_read_answers_step) simp_all
  ultimately show ?case by simp
qed

text \<open>A question is a name and four bytes of type and class.\<close>

record dns_question =
  q_labels :: "bytes list"
  q_tail :: bytes
  q_code :: bytes

definition dns_question_ok :: "dns_question \<Rightarrow> bool" where
  "dns_question_ok q \<longleftrightarrow> dns_name_ok (q_labels q) (q_tail q) \<and> length (q_code q) = 4"

definition dns_question_bytes :: "dns_question \<Rightarrow> bytes" where
  "dns_question_bytes q = dns_labels (q_labels q) @ q_tail q @ q_code q"

lemma dns_skip_questions_all:
  assumes "list_all dns_question_ok qs"
    and "length pre + length (concat (map dns_question_bytes qs)) \<le> n"
  shows "dns_skip_questions (pre @ concat (map dns_question_bytes qs) @ post) n (i + length qs) i (length pre) =
    Some (Some (length (pre @ concat (map dns_question_bytes qs))))"
  using assms
proof (induction qs arbitrary: pre i)
  case Nil
  then show ?case by (simp add: dns_skip_questions.simps)
next
  case (Cons q qs)
  let ?d = "pre @ concat (map dns_question_bytes (q # qs)) @ post"
  let ?p = "length pre + length (dns_labels (q_labels q)) + length (q_tail q)"
  have d: "?d = pre @ dns_labels (q_labels q) @ q_tail q @ q_code q @ concat (map dns_question_bytes qs) @ post"
    by (simp add: dns_question_bytes_def)
  have q: "dns_question_ok q" using Cons.prems(1) by simp
  then have len: "length (pre @ dns_question_bytes q) = ?p + 4"
    by (simp add: dns_question_bytes_def dns_question_ok_def)
  have n: "?p + 4 \<le> n" using Cons.prems(2) len by simp
  have skip: "dns_skip_name ?d n (length pre) = Some (0, ?p)"
    unfolding d using q n by (intro dns_skip_name_exact) (simp_all add: dns_question_ok_def)
  have "dns_skip_questions ((pre @ dns_question_bytes q) @ concat (map dns_question_bytes qs) @ post) n
      (i + 1 + length qs) (i + 1) (length (pre @ dns_question_bytes q)) =
      Some (Some (length ((pre @ dns_question_bytes q) @ concat (map dns_question_bytes qs))))"
    using Cons.prems by (intro Cons.IH) simp_all
  then show ?case
    using skip n unfolding len by (subst dns_skip_questions.simps) simp
qed

text \<open>
  A response. The counts \<open>ns\<close> and \<open>ar\<close> of the authority and additional sections are arbitrary, and so
  are the bytes \<open>rest\<close> that hold those sections.
\<close>

definition dns_reply ::
  "u16 \<Rightarrow> u16 \<Rightarrow> dns_question list \<Rightarrow> dns_rr list \<Rightarrow> u16 \<Rightarrow> u16 \<Rightarrow> bytes \<Rightarrow> bytes" where
  "dns_reply tid flags qs rrs ns ar rest = u16_bytes tid @ u16_bytes flags @ u16_bytes (of_nat (length qs))
     @ u16_bytes (of_nat (length rrs)) @ u16_bytes ns @ u16_bytes ar @ concat (map dns_question_bytes qs)
     @ concat (map dns_rr_bytes rrs) @ rest"

lemma dns_reply_header:
  "be16 (dns_reply tid flags qs rrs ns ar rest ! 0) (dns_reply tid flags qs rrs ns ar rest ! 1) = tid"
  "be16 (dns_reply tid flags qs rrs ns ar rest ! 2) (dns_reply tid flags qs rrs ns ar rest ! 3) = flags"
  "be16 (dns_reply tid flags qs rrs ns ar rest ! 4) (dns_reply tid flags qs rrs ns ar rest ! 5) = of_nat (length qs)"
  "be16 (dns_reply tid flags qs rrs ns ar rest ! 6) (dns_reply tid flags qs rrs ns ar rest ! 7) = of_nat (length rrs)"
  by (simp_all add: dns_reply_def u16_bytes_def)

lemma dns_parse_reply:
  fixes tid flags qs rrs ns ar rest
  defines "d \<equiv> dns_reply tid flags qs rrs ns ar rest"
  assumes "flags AND 0x8000 \<noteq> 0" and qs: "list_all dns_question_ok qs" "length qs < 65536"
    and rrs: "list_all dns_rr_ok rrs" "length rrs < 65536"
  shows "dns_parse_response (Some (d @ junk)) (length d) tid (Some g) =
    Some (0, Some (dns_keep (dns_a_records rrs) (dns_header_response tid flags)))"
proof -
  let ?h = "u16_bytes tid @ u16_bytes flags @ u16_bytes (of_nat (length qs))
     @ u16_bytes (of_nat (length rrs)) @ u16_bytes ns @ u16_bytes ar"
  let ?q = "concat (map dns_question_bytes qs)" and ?a = "concat (map dns_rr_bytes rrs)"
  have dq: "d @ junk = ?h @ ?q @ ?a @ rest @ junk" and da: "d @ junk = (?h @ ?q) @ ?a @ rest @ junk"
    and n: "length d = length (?h @ ?q @ ?a @ rest)" by (simp_all add: d_def dns_reply_def)
  have "dns_skip_questions (d @ junk) (length d) (length qs) 0 12 = Some (Some (length (?h @ ?q)))"
    using dns_skip_questions_all [OF qs(1), of ?h "length d" "?a @ rest @ junk" 0] n unfolding dq by simp
  moreover have "dns_read_answers (d @ junk) (length d) (length rrs) 0 (length (?h @ ?q)) (dns_header_response tid flags) =
      Some (0, dns_keep (dns_a_records rrs) (dns_header_response tid flags))"
    using dns_read_answers_all [OF rrs(1) dns_header_response_wf, of "?h @ ?q" "length d" "rest @ junk" 0 tid flags] n
    unfolding da by simp
  moreover have "12 \<le> length d" by (simp add: n)
  moreover have "(d @ junk) ! i = d ! i" if "i < 12" for i using that \<open>12 \<le> length d\<close> by (simp add: nth_append)
  ultimately show ?thesis
    using assms(2) qs(2) rrs(2) dns_reply_header [of tid flags qs rrs ns ar rest]
    by (simp add: dns_parse_response_eq unat_u16_of_nat flip: d_def)
qed

lemma dns_kept_answers:
  "dns_answer_count (dns_keep as (dns_header_response tid flags)) = min 16 (length as)"
  "take (min 16 (length as)) (dns_answers (dns_keep as (dns_header_response tid flags))) = take 16 as"
  "dns_response_code (dns_keep as (dns_header_response tid flags)) = ucast (flags AND 0x000F)"
  "dns_transaction_id (dns_keep as (dns_header_response tid flags)) = tid"
  by (simp_all add: dns_keep_def dns_header_response_def dns_response_zero_def blit_def take_all min_def)

section \<open>Properties\<close>

text \<open>
  (C32) A host name of valid labels whose text is at most 253 bytes long is encoded exactly: the
  buffer holds the header with recursion desired and one question, the length-prefixed labels, the
  root label and type A, class IN, zeros up to \<^verbatim>\<open>buffer_len\<close> and the old bytes behind it, and the
  result is the query's length. A buffer too small for the query gives 0, and never a write
  outside it.
\<close>

theorem dns_query_exact:
  assumes "list_all dns_label_ok ls" and "ls \<noteq> []" and "length (dns_labels ls) \<le> 254"
    and "n \<le> length buf"
  shows "if length (dns_query tid ls) \<le> n
    then dns_build_a_query (Some buf) n tid (Some (dns_host ls @ post)) =
      Some (length (dns_query tid ls),
        Some (dns_query tid ls @ replicate (n - length (dns_query tid ls)) 0 @ drop n buf))
    else \<exists>b'. dns_build_a_query (Some buf) n tid (Some (dns_host ls @ post)) = Some (0, Some b')
      \<and> length b' = length buf"
  using dns_build_a_query_eq [OF assms, of tid post]
  by (simp add: dns_query_def add.commute cong: if_cong)

theorem dns_query_exact_witness:
  "dns_build_a_query (Some [7, 7, 7, 7, 7, 7, 7, 7, 7, 7, 7, 7, 7, 7, 7, 7, 7, 7, 7, 7, 7, 7, 7]) 22 0x1234
      (Some [97, 98, 46, 99, 0, 55]) =
    Some (22, Some [0x12, 0x34, 1, 0, 0, 1, 0, 0, 0, 0, 0, 0, 2, 97, 98, 1, 99, 0, 0, 1, 0, 1, 7])"
proof -
  have q: "dns_query 0x1234 [[97, 98], [99]] =
      [0x12, 0x34, 1, 0, 0, 1, 0, 0, 0, 0, 0, 0, 2, 97, 98, 1, 99, 0, 0, 1, 0, 1]"
    by (simp add: dns_query_def dns_query_head_def u16_bytes_def)
  show ?thesis
    using dns_query_exact [where ls = "[[97, 98], [99]]" and n = 22 and tid = "0x1234" and post = "[55]"
        and buf = "[7, 7, 7, 7, 7, 7, 7, 7, 7, 7, 7, 7, 7, 7, 7, 7, 7, 7, 7, 7, 7, 7, 7]"]
    unfolding q by (simp add: dns_label_ok_def)
qed

text \<open>
  (C33) On any bytes at all, the response parser stays inside the data and inside the answer array
  and terminates: it returns 0 or -5 with a response of at most 16 answers, or one of -2, -3, -4 with
  the response object untouched.
\<close>

theorem dns_parse_safety:
  assumes "n \<le> length d"
  shows "\<exists>rc r. dns_parse_response (Some d) n tid (Some g) = Some (rc, Some r)
    \<and> (rc \<in> {0, -5} \<and> dns_response_wf r \<or> rc \<in> {-2, -3, -4} \<and> r = g)"
  using assms by (rule dns_parse_response_safe)

theorem dns_parse_safety_witness:
  "\<exists>rc r. dns_parse_response (Some (replicate 20 255)) 20 0xFFFF (Some dns_response_zero) = Some (rc, Some r)
    \<and> (rc \<in> {0, -5} \<and> dns_response_wf r \<or> rc \<in> {-2, -3, -4} \<and> r = dns_response_zero)"
  using dns_parse_safety [of 20 "replicate 20 255"] by simp

text \<open>
  A response with an alias record before the address record, and with another address record in
  its additional section.
\<close>

definition dns_example_questions :: "dns_question list" where
  "dns_example_questions = [\<lparr> q_labels = [[97]], q_tail = [0], q_code = [0, 1, 0, 1] \<rparr>]"

definition dns_example_records :: "dns_rr list" where
  "dns_example_records =
    [\<lparr> rr_labels = [], rr_tail = [0xC0, 12], rr_type = 5, rr_class = 1, rr_ttl = 9, rr_data = [1, 98, 0] \<rparr>,
     \<lparr> rr_labels = [[98]], rr_tail = [0], rr_type = 1, rr_class = 1, rr_ttl = 60, rr_data = [10, 0, 0, 1] \<rparr>]"

definition dns_example_additional :: bytes where
  "dns_example_additional = dns_rr_bytes
     \<lparr> rr_labels = [[99]], rr_tail = [0], rr_type = 1, rr_class = 1, rr_ttl = 60, rr_data = [10, 0, 0, 9] \<rparr>"

definition dns_example_reply :: bytes where
  "dns_example_reply = dns_reply 7 0x8180 dns_example_questions dns_example_records 0 1 dns_example_additional"

text \<open>
  (C31) A well-formed response with any number of questions and any mixture of resource records, whose
  names may use labels and compression pointers, is read completely: the answers are the address and
  the time to live of the first 16 records of type A, class IN and length 4, in order, the others are
  skipped, and the authority and additional sections are ignored, whatever their counts and bytes: no
  address in them is taken for an answer.
\<close>

theorem dns_response_records:
  assumes "flags AND 0x8000 \<noteq> 0" and "list_all dns_question_ok qs" and "length qs < 65536"
    and "list_all dns_rr_ok rrs" and "length rrs < 65536"
  shows "\<exists>r. dns_parse_response (Some (dns_reply tid flags qs rrs ns ar rest)) (length (dns_reply tid flags qs rrs ns ar rest))
      tid (Some g) = Some (0, Some r)
    \<and> dns_transaction_id r = tid \<and> dns_response_code r = ucast (flags AND 0x000F)
    \<and> dns_answer_count r = min 16 (length (dns_a_records rrs))
    \<and> take (dns_answer_count r) (dns_answers r) = take 16 (dns_a_records rrs)"
  using dns_parse_reply [OF assms, of tid ns ar rest "[]" g] by (auto simp: dns_kept_answers)

theorem dns_response_records_witness:
  "\<exists>r. dns_parse_response (Some dns_example_reply) (length dns_example_reply) 7 (Some dns_response_zero) = Some (0, Some r)
    \<and> dns_answer_count r = 1
    \<and> take (dns_answer_count r) (dns_answers r) = [\<lparr> dns_address = [10, 0, 0, 1], dns_ttl = 60 \<rparr>]"
proof -
  have "list_all dns_question_ok dns_example_questions" "list_all dns_rr_ok dns_example_records"
    "dns_a_records dns_example_records = [\<lparr> dns_address = [10, 0, 0, 1], dns_ttl = 60 \<rparr>]"
    "length dns_example_questions = 1" "length dns_example_records = 2"
    by (simp_all add: dns_example_questions_def dns_example_records_def dns_question_ok_def dns_rr_ok_def
        dns_name_ok_def dns_tail_ok_def dns_a_records_def dns_rr_is_a_def)
  then show ?thesis
    using dns_response_records [where flags = "0x8180" and rrs = dns_example_records and tid = 7 and ns = 0 and ar = 1
      and rest = dns_example_additional
      and qs = dns_example_questions and g = dns_response_zero]
    unfolding dns_example_reply_def [symmetric] by auto
qed

end
