(* ===== verification/Netdev.thy ===== *)
theory Netdev
  imports CString Wire
begin

text \<open>
  \<^verbatim>\<open>src/src/netdev_linux.c\<close> and \<^verbatim>\<open>src/include/netdev.h\<close>, all but the two functions that move frames
  (those are in \<^verbatim>\<open>NetIo\<close>): opening and closing the packet socket, the interface queries, the
  default gateway from the routing table, and the test for a local address. The operating system is
  a parameter, the record \<open>kernel\<close>; the file descriptors a call closes are part of its result.
\<close>

section \<open>The operating system\<close>

datatype ioctl_request = SIOCGIFHWADDR | SIOCGIFADDR | SIOCGIFNETMASK

text \<open>\<^verbatim>\<open>struct ifreq\<close>: the name, and the bytes of the \<^verbatim>\<open>struct sockaddr\<close> in its union.\<close>

record ifreq =
  ifr_name :: string
  ifr_sockaddr :: bytes

text \<open>
  Results of the system calls: \<^verbatim>\<open>socket\<close>, \<^verbatim>\<open>if_nametoindex\<close>, \<^verbatim>\<open>bind\<close>, \<^verbatim>\<open>ioctl\<close> (its result and the
  structure it fills in) and the contents of \<^verbatim>\<open>/proc/net/route\<close>, \<open>None\<close> when it cannot be opened.
\<close>

record kernel =
  k_socket :: int
  k_if_nametoindex :: "string \<Rightarrow> nat"
  k_bind :: "nat \<Rightarrow> int"
  k_ioctl :: "ioctl_request \<Rightarrow> ifreq \<Rightarrow> int \<times> ifreq"
  k_route :: "string ptr"

text \<open>What is relied on: \<^verbatim>\<open>ioctl\<close> leaves a whole \<^verbatim>\<open>struct sockaddr\<close> behind.\<close>

definition kernel_ok :: "kernel \<Rightarrow> bool" where
  "kernel_ok k \<longleftrightarrow> (\<forall>req ifr. length (ifr_sockaddr ifr) = 16 \<longrightarrow> length (ifr_sockaddr (snd (k_ioctl k req ifr))) = 16)"

section \<open>Reading the routing table\<close>

text \<open>\<^verbatim>\<open>fgets(line, n, file)\<close> on the unread contents of a file\<close>

definition c_fgets :: "nat \<Rightarrow> string \<Rightarrow> (string \<times> string) ptr" where
  "c_fgets n file =
    (if file = [] then None
     else let k = min (n - 1) (length (takeWhile (\<lambda>c. c \<noteq> LF) file) + 1) in Some (take k file, drop k file))"

definition c_xdigit :: "char \<Rightarrow> nat option" where
  "c_xdigit c = (let k = (of_char c :: nat) in
     if 48 \<le> k \<and> k \<le> 57 then Some (k - 48)
     else if 97 \<le> k \<and> k \<le> 102 then Some (k - 87)
     else if 65 \<le> k \<and> k \<le> 70 then Some (k - 55)
     else None)"

definition xnumber :: "string \<Rightarrow> nat" where
  "xnumber ds = foldl (\<lambda>v c. v * 16 + (case c_xdigit c of None \<Rightarrow> 0 | Some k \<Rightarrow> k)) 0 ds"

text \<open>
  The conversions of \<^verbatim>\<open>sscanf(line, "%15s %lx %lx %X", ...)\<close>: \<open>scan_word\<close> is \<^verbatim>\<open>%15s\<close>, \<open>scan_hex\<close> with 64
  and 32 bits \<^verbatim>\<open>%lx\<close> and \<^verbatim>\<open>%X\<close>, both with the white space in front of them. The inner \<open>None\<close> is a
  matching failure; a number that its type cannot represent is undefined behaviour.
\<close>

definition scan_word :: "nat \<Rightarrow> string \<Rightarrow> (string \<times> string) option" where
  "scan_word n t = (let t = dropWhile c_isspace t; w = take n (takeWhile (\<lambda>c. \<not> c_isspace c) t) in
     if w = [] then None else Some (w, drop (length w) t))"

definition scan_hex :: "nat \<Rightarrow> string \<Rightarrow> (nat \<times> string) option option" where
  "scan_hex bits t =
    (let t = dropWhile c_isspace t;
         negative = (t \<noteq> [] \<and> hd t = CHR ''-'');
         t = (if t \<noteq> [] \<and> (hd t = CHR ''-'' \<or> hd t = CHR ''+'') then tl t else t);
         t = (if take 2 t = ''0x'' \<or> take 2 t = ''0X'' then drop 2 t else t);
         digits = takeWhile (\<lambda>c. c_xdigit c \<noteq> None) t;
         v = xnumber digits
     in if digits = [] then Some None
        else if v \<ge> 2 ^ bits then None
        else Some (Some (if negative then (2 ^ bits - v) mod 2 ^ bits else v, drop (length digits) t)))"

record route_entry =
  rt_iface :: string
  rt_destination :: nat
  rt_gateway :: nat
  rt_flags :: nat

text \<open>\<open>Some None\<close> when \<^verbatim>\<open>fields != 4\<close>\<close>

definition scan_route :: "string \<Rightarrow> route_entry option option" where
  "scan_route line =
    (let line = takeWhile (\<lambda>c. c \<noteq> NUL) line in
     case scan_word 15 line of
       None \<Rightarrow> Some None
     | Some (iface, t) \<Rightarrow> do {
         d \<leftarrow> scan_hex 64 t;
         (case d of None \<Rightarrow> Some None | Some (destination, t) \<Rightarrow> do {
            g \<leftarrow> scan_hex 64 t;
            (case g of None \<Rightarrow> Some None | Some (gateway_value, t) \<Rightarrow> do {
               f \<leftarrow> scan_hex 32 t;
               (case f of None \<Rightarrow> Some None | Some (flags, t) \<Rightarrow>
                  Some (Some \<lparr> rt_iface = iface, rt_destination = destination,
                    rt_gateway = gateway_value, rt_flags = flags \<rparr>)) }) }) })"

text \<open>The conditions of the loop body that do not \<^verbatim>\<open>continue\<close>\<close>

definition route_is_default :: "string \<Rightarrow> route_entry \<Rightarrow> bool" where
  "route_is_default interface_name e \<longleftrightarrow> rt_iface e = interface_name \<and> rt_destination e = 0
     \<and> rt_flags e AND 1 \<noteq> 0 \<and> rt_flags e AND 2 \<noteq> 0"

definition gateway_bytes :: "nat \<Rightarrow> bytes" where
  "gateway_bytes v = [of_nat (v AND 0xFF), of_nat (drop_bit 8 v AND 0xFF),
     of_nat (drop_bit 16 v AND 0xFF), of_nat (drop_bit 24 v AND 0xFF)]"

lemma c_fgets_shrinks: "c_fgets n file = Some (line, rest) \<Longrightarrow> 1 < n \<Longrightarrow> length rest < length file"
  by (auto simp: c_fgets_def Let_def split: if_splits)

function gateway_loop :: "string \<Rightarrow> string \<Rightarrow> bytes \<Rightarrow> (int \<times> bytes) option" where
  "gateway_loop interface_name file gateway =
    (case c_fgets 512 file of
       None \<Rightarrow> Some (-1, gateway)
     | Some (line, file) \<Rightarrow>
         (case scan_route line of
            None \<Rightarrow> None
          | Some None \<Rightarrow> gateway_loop interface_name file gateway
          | Some (Some e) \<Rightarrow>
              if \<not> route_is_default interface_name e then gateway_loop interface_name file gateway
              else do {
                gateway \<leftarrow> mem_write gateway 0 (gateway_bytes (rt_gateway e));
                Some (0, gateway) }))"
  by pat_completeness auto
termination
  by (relation "measure (\<lambda>(name, file, gw). length file)") (auto dest!: c_fgets_shrinks)

declare gateway_loop.simps [simp del]

definition get_default_gateway :: "kernel \<Rightarrow> string ptr \<Rightarrow> bytes ptr \<Rightarrow> (int \<times> bytes ptr) option" where
  "get_default_gateway k interface_name gateway =
    (case (interface_name, gateway) of
       (Some name, Some gw) \<Rightarrow>
         (case k_route k of
            None \<Rightarrow> Some (-1, gateway)
          | Some file \<Rightarrow>
              (case c_fgets 512 file of
                 None \<Rightarrow> Some (-1, gateway)
               | Some (header, file) \<Rightarrow> do {
                   name \<leftarrow> c_text name;
                   (rc, gw) \<leftarrow> gateway_loop name file gw;
                   Some (rc, Some gw) }))
     | _ \<Rightarrow> Some (-1, gateway))"

section \<open>Opening and closing\<close>

definition NETDEV_MAC_LEN :: nat where [const_defs]: "NETDEV_MAC_LEN = 6"
definition NETDEV_IPV4_LEN :: nat where [const_defs]: "NETDEV_IPV4_LEN = 4"
definition IF_NAMESIZE :: nat where [const_defs]: "IF_NAMESIZE = 16"

record netdev =
  nd_fd :: int
  nd_ifindex :: int
  nd_name :: string
  nd_mac :: bytes
  nd_ipv4 :: bytes
  nd_netmask :: bytes
  nd_gateway :: bytes
  nd_has_gateway :: int

definition netdev_zero :: netdev where
  "netdev_zero = \<lparr> nd_fd = 0, nd_ifindex = 0, nd_name = replicate 64 NUL, nd_mac = replicate NETDEV_MAC_LEN 0,
     nd_ipv4 = replicate NETDEV_IPV4_LEN 0, nd_netmask = replicate NETDEV_IPV4_LEN 0,
     nd_gateway = replicate NETDEV_IPV4_LEN 0, nd_has_gateway = 0 \<rparr>"

definition netdev_wf :: "netdev \<Rightarrow> bool" where
  "netdev_wf dev \<longleftrightarrow> length (nd_mac dev) = 6 \<and> length (nd_ipv4 dev) = 4 \<and> length (nd_netmask dev) = 4
     \<and> length (nd_gateway dev) = 4"

definition ifreq_zero :: ifreq where
  "ifreq_zero = \<lparr> ifr_name = replicate IF_NAMESIZE NUL, ifr_sockaddr = replicate 16 0 \<rparr>"

definition copy_interface_name :: "ifreq ptr \<Rightarrow> string ptr \<Rightarrow> (int \<times> ifreq ptr) option" where
  "copy_interface_name ifr name =
    (case (ifr, name) of
       (Some _, Some nm) \<Rightarrow> do {
         t \<leftarrow> c_text nm;
         let name_len = length t;
         if name_len = 0 \<or> name_len \<ge> IF_NAMESIZE then Some (-1, ifr)
         else do {
           n \<leftarrow> memcpy (ifr_name ifreq_zero) 0 nm 0 (name_len + 1);
           Some (0, Some (ifreq_zero\<lparr>ifr_name := n\<rparr>)) } }
     | _ \<Rightarrow> Some (-1, ifr))"

text \<open>
  \<^verbatim>\<open>get_interface_mac\<close>, \<^verbatim>\<open>get_interface_ipv4\<close> and \<^verbatim>\<open>get_interface_netmask\<close>: the hardware address is in
  \<^verbatim>\<open>sa_data\<close>, at byte 2 of the structure, an IPv4 address in \<^verbatim>\<open>sin_addr\<close>, at byte 4; the family is a
  little-endian 16-bit field at byte 0.
\<close>

definition get_interface_mac :: "kernel \<Rightarrow> string \<Rightarrow> bytes \<Rightarrow> (int \<times> bytes) option" where
  "get_interface_mac k name mac = do {
     (rc, ifr) \<leftarrow> copy_interface_name (Some undefined) (Some name);
     if rc \<noteq> 0 then Some (-1, mac)
     else do {
       ifr \<leftarrow> ifr;
       let (rc, ifr) = k_ioctl k SIOCGIFHWADDR ifr;
       if rc < 0 then Some (-1, mac)
       else do { mac \<leftarrow> memcpy mac 0 (ifr_sockaddr ifr) 2 NETDEV_MAC_LEN; Some (0, mac) } } }"

definition get_interface_ipv4 :: "kernel \<Rightarrow> string \<Rightarrow> bytes \<Rightarrow> (int \<times> bytes) option" where
  "get_interface_ipv4 k name ipv4 = do {
     (rc, ifr) \<leftarrow> copy_interface_name (Some undefined) (Some name);
     if rc \<noteq> 0 then Some (-1, ipv4)
     else do {
       ifr \<leftarrow> ifr;
       sa \<leftarrow> mem_write (ifr_sockaddr ifr) 0 [2, 0];
       let (rc, ifr) = k_ioctl k SIOCGIFADDR (ifr\<lparr>ifr_sockaddr := sa\<rparr>);
       if rc < 0 then Some (-1, ipv4)
       else do { ipv4 \<leftarrow> memcpy ipv4 0 (ifr_sockaddr ifr) 4 NETDEV_IPV4_LEN; Some (0, ipv4) } } }"

definition get_interface_netmask :: "kernel \<Rightarrow> string \<Rightarrow> bytes \<Rightarrow> (int \<times> bytes) option" where
  "get_interface_netmask k name netmask = do {
     (rc, ifr) \<leftarrow> copy_interface_name (Some undefined) (Some name);
     if rc \<noteq> 0 then Some (-1, netmask)
     else do {
       ifr \<leftarrow> ifr;
       sa \<leftarrow> mem_write (ifr_sockaddr ifr) 0 [2, 0];
       let (rc, ifr) = k_ioctl k SIOCGIFNETMASK (ifr\<lparr>ifr_sockaddr := sa\<rparr>);
       if rc < 0 then Some (-1, netmask)
       else do { netmask \<leftarrow> memcpy netmask 0 (ifr_sockaddr ifr) 4 NETDEV_IPV4_LEN; Some (0, netmask) } } }"

text \<open>The device afterwards, and the descriptors closed.\<close>

definition netdev_close :: "netdev ptr \<Rightarrow> netdev ptr \<times> int list" where
  "netdev_close dev =
    (case dev of
       None \<Rightarrow> (None, [])
     | Some d \<Rightarrow> (Some (d\<lparr>nd_fd := -1, nd_ifindex := 0\<rparr>), if nd_fd d \<ge> 0 then [nd_fd d] else []))"

text \<open>\<^verbatim>\<open>netdev_close(dev); return -1;\<close>\<close>

definition netdev_give_up :: "netdev \<Rightarrow> (int \<times> netdev ptr \<times> int list) option" where
  "netdev_give_up d = (let (dev, closed) = netdev_close (Some d) in Some (-1, dev, closed))"

text \<open>The second half of \<^verbatim>\<open>netdev_open\<close>, from the first interface query on.\<close>

definition netdev_query :: "kernel \<Rightarrow> string \<Rightarrow> netdev \<Rightarrow> (int \<times> netdev ptr \<times> int list) option" where
  "netdev_query k name d = do {
     (rc, mac) \<leftarrow> get_interface_mac k name (nd_mac d);
     let d = d\<lparr>nd_mac := mac\<rparr>;
     if rc \<noteq> 0 then netdev_give_up d
     else do {
       (rc, ipv4) \<leftarrow> get_interface_ipv4 k name (nd_ipv4 d);
       let d = d\<lparr>nd_ipv4 := ipv4\<rparr>;
       if rc \<noteq> 0 then netdev_give_up d
       else do {
         (rc, netmask) \<leftarrow> get_interface_netmask k name (nd_netmask d);
         let d = d\<lparr>nd_netmask := netmask\<rparr>;
         if rc \<noteq> 0 then netdev_give_up d
         else do {
           (rc, gateway) \<leftarrow> get_default_gateway k (Some name) (Some (nd_gateway d));
           gateway \<leftarrow> gateway;
           let d = d\<lparr>nd_gateway := gateway\<rparr>;
           Some (0, Some (if rc = 0 then d\<lparr>nd_has_gateway := 1\<rparr> else d), []) } } } }"

definition netdev_open :: "kernel \<Rightarrow> netdev ptr \<Rightarrow> string ptr \<Rightarrow> (int \<times> netdev ptr \<times> int list) option" where
  "netdev_open k dev interface_name =
    (case (dev, interface_name) of
       (Some _, Some name) \<Rightarrow> do {
         t \<leftarrow> c_text name;
         let name_len = length t;
         if name_len = 0 \<or> name_len \<ge> 64 \<or> name_len \<ge> IF_NAMESIZE then Some (-1, dev, [])
         else let d = netdev_zero\<lparr>nd_fd := -1, nd_has_gateway := 0\<rparr>; fd = k_socket k in
           if fd < 0 then Some (-1, Some d, [])
           else let interface_index = k_if_nametoindex k t in
             if interface_index = 0 then Some (-1, Some d, [fd])
             else if k_bind k interface_index < 0 then Some (-1, Some d, [fd])
             else do {
               nm \<leftarrow> memcpy (nd_name d) 0 name 0 (name_len + 1);
               netdev_query k name (d\<lparr>nd_fd := fd, nd_ifindex := int interface_index, nd_name := nm\<rparr>) } }
     | _ \<Rightarrow> Some (-1, dev, []))"

fun local_loop :: "bytes \<Rightarrow> bytes \<Rightarrow> bytes \<Rightarrow> nat \<Rightarrow> nat \<Rightarrow> int option" where
  "local_loop ipv4 netmask target_ip i 0 = Some 1"
| "local_loop ipv4 netmask target_ip i (Suc n) = do {
     a \<leftarrow> rd ipv4 i; m \<leftarrow> rd netmask i; t \<leftarrow> rd target_ip i;
     if a AND m \<noteq> t AND m then Some 0 else local_loop ipv4 netmask target_ip (i + 1) n }"

definition netdev_ipv4_is_local :: "netdev ptr \<Rightarrow> bytes ptr \<Rightarrow> int option" where
  "netdev_ipv4_is_local dev target_ip =
    (case (dev, target_ip) of
       (Some d, Some t) \<Rightarrow> local_loop (nd_ipv4 d) (nd_netmask d) t 0 NETDEV_IPV4_LEN
     | _ \<Rightarrow> Some 0)"

section \<open>The routing table in its documented form\<close>

text \<open>\<^verbatim>\<open>%0wX\<close> for a number below \<open>16 ^ w\<close>\<close>

fun fmt_X :: "nat \<Rightarrow> nat \<Rightarrow> string" where
  "fmt_X 0 v = []"
| "fmt_X (Suc w) v = fmt_X w (v div 16) @ [hex_digit (v mod 16)]"

lemma length_fmt_X [simp]: "length (fmt_X w v) = w"
  by (induction w v rule: fmt_X.induct) simp_all

lemma hex_digit_xdigit:
  assumes "n < 16"
  shows "c_xdigit (hex_digit n) = Some n"
proof -
  have "n = 0 \<or> n = 1 \<or> n = 2 \<or> n = 3 \<or> n = 4 \<or> n = 5 \<or> n = 6 \<or> n = 7 \<or> n = 8 \<or> n = 9
      \<or> n = 10 \<or> n = 11 \<or> n = 12 \<or> n = 13 \<or> n = 14 \<or> n = 15"
    using assms by presburger
  then show ?thesis by (elim disjE) (simp_all add: hex_digit_def c_xdigit_def Let_def)
qed

lemma fmt_X_xnumber:
  "list_all (\<lambda>c. c_xdigit c \<noteq> None) (fmt_X w v) \<and> (v < 16 ^ w \<longrightarrow> xnumber (fmt_X w v) = v)"
proof (induction w v rule: fmt_X.induct)
  case (2 w v)
  then show ?case
    using hex_digit_xdigit [of "v mod 16"] by (auto simp: xnumber_def)
qed (simp add: xnumber_def)

lemma xdigit_plain:
  "c_xdigit c \<noteq> None \<Longrightarrow> \<not> c_isspace c \<and> c \<noteq> CHR ''-'' \<and> c \<noteq> CHR ''+'' \<and> c \<noteq> CHR ''x'' \<and> c \<noteq> CHR ''X''
    \<and> c \<noteq> NUL \<and> c \<noteq> LF"
  by (auto simp: c_xdigit_def c_isspace_def NUL_def Let_def split: if_splits)

lemma fmt_X_plain: "NUL \<notin> set (fmt_X w v) \<and> LF \<notin> set (fmt_X w v)"
proof -
  have "\<forall>c \<in> set (fmt_X w v). c_xdigit c \<noteq> None" using fmt_X_xnumber [of w v] unfolding list_all_iff by (rule conjunct1)
  then show ?thesis using xdigit_plain by blast
qed

lemma takeWhile_stop: "list_all P xs \<Longrightarrow> \<not> P c \<Longrightarrow> takeWhile P (xs @ c # r) = xs"
  by (induction xs) auto

lemma scan_hex_field:
  assumes "2 \<le> w" and "v < 16 ^ w" and "v < 2 ^ bits" and "c_isspace s" and "c_isspace c"
  shows "scan_hex bits (s # fmt_X w v @ c # r) = Some (Some (v, c # r))"
proof -
  obtain a b ds where f: "fmt_X w v = a # b # ds"
    using assms(1) length_fmt_X [of w v]
    by (cases "fmt_X w v" rule: remdups_adj.cases) (auto simp del: length_fmt_X)
  have x: "list_all (\<lambda>c. c_xdigit c \<noteq> None) (a # b # ds)" "xnumber (a # b # ds) = v"
    using fmt_X_xnumber [of w v] assms(2) by (simp_all add: f)
  then have ab: "\<not> c_isspace a" "a \<noteq> CHR ''-''" "a \<noteq> CHR ''+''" "b \<noteq> CHR ''x''" "b \<noteq> CHR ''X''"
    using xdigit_plain [of a] xdigit_plain [of b] by auto
  have "\<not> (c_xdigit c \<noteq> None)" using assms(5) xdigit_plain by blast
  then have "takeWhile (\<lambda>c. c_xdigit c \<noteq> None) ((a # b # ds) @ c # r) = a # b # ds"
    by (rule takeWhile_stop [OF x(1)])
  then show ?thesis
    unfolding f using ab assms(3,4) x(2) by (simp add: scan_hex_def Let_def)
qed

definition route_line :: "route_entry \<Rightarrow> string \<Rightarrow> string" where
  "route_line e extra = rt_iface e @ TAB # fmt_X 8 (rt_destination e) @ TAB # fmt_X 8 (rt_gateway e)
     @ TAB # fmt_X 4 (rt_flags e) @ TAB # extra"

definition route_entry_ok :: "route_entry \<Rightarrow> bool" where
  "route_entry_ok e \<longleftrightarrow> 0 < length (rt_iface e) \<and> length (rt_iface e) \<le> 15
     \<and> list_all (\<lambda>c. \<not> c_isspace c \<and> c \<noteq> NUL) (rt_iface e)
     \<and> rt_destination e < 2 ^ 32 \<and> rt_gateway e < 2 ^ 32 \<and> rt_flags e < 2 ^ 16"

lemma scan_word_field:
  assumes "0 < length w" and "length w \<le> n" and "list_all (\<lambda>c. \<not> c_isspace c) w" and "c_isspace c"
  shows "scan_word n (w @ c # r) = Some (w, c # r)"
proof -
  have "dropWhile c_isspace (w @ c # r) = w @ c # r" using assms(1,3) by (cases w) auto
  moreover have "takeWhile (\<lambda>c. \<not> c_isspace c) (w @ c # r) = w"
    using assms(3,4) by (intro takeWhile_stop) auto
  ultimately show ?thesis using assms(1,2) by (cases n) (simp_all add: scan_word_def Let_def)
qed

lemma scan_route_line:
  assumes "route_entry_ok e" and "NUL \<notin> set extra"
  shows "scan_route (route_line e extra) = Some (Some e)"
proof -
  have name: "list_all (\<lambda>c. \<not> c_isspace c) (rt_iface e)" "NUL \<notin> set (rt_iface e)"
    using assms(1) by (auto simp: route_entry_ok_def list_all_iff)
  have "NUL \<notin> set (route_line e extra)"
    using fmt_X_plain name(2) assms(2) by (auto simp: route_line_def NUL_def)
  then have t: "takeWhile (\<lambda>c. c \<noteq> NUL) (route_line e extra) = route_line e extra"
    by (auto simp: takeWhile_eq_all_conv)
  have sp: "c_isspace TAB" by (simp add: c_isspace_def)
  show ?thesis
    unfolding scan_route_def Let_def t unfolding route_line_def
    using assms(1) name(1)
    by (simp add: route_entry_ok_def scan_word_field scan_hex_field sp)
qed

text \<open>A table is a header line and one line per entry.\<close>

definition route_file :: "string \<Rightarrow> (route_entry \<times> string) list \<Rightarrow> string" where
  "route_file header es = header @ LF # concat (map (\<lambda>(e, extra). route_line e extra @ [LF]) es)"

definition route_row_ok :: "route_entry \<times> string \<Rightarrow> bool" where
  "route_row_ok row \<longleftrightarrow> route_entry_ok (fst row) \<and> NUL \<notin> set (snd row) \<and> LF \<notin> set (snd row)
     \<and> length (snd row) \<le> 400"

lemma c_fgets_line:
  assumes "LF \<notin> set l" and "length l < n - 1"
  shows "c_fgets n (l @ LF # r) = Some (l @ [LF], r)"
proof -
  have "takeWhile (\<lambda>c. c \<noteq> LF) (l @ LF # r) = l"
    using assms(1) by (intro takeWhile_stop) (auto simp: list_all_iff)
  then show ?thesis using assms(2) by (simp add: c_fgets_def Let_def)
qed

lemma route_row_line:
  assumes "route_row_ok (e, extra)"
  shows "LF \<notin> set (route_line e extra)" and "length (route_line e extra) < 511"
    and "scan_route (route_line e extra @ [LF]) = Some (Some e)"
proof -
  have name: "LF \<notin> set (rt_iface e)"
    using assms by (auto simp: route_row_ok_def route_entry_ok_def list_all_iff c_isspace_def)
  then show "LF \<notin> set (route_line e extra)"
    using assms fmt_X_plain by (auto simp: route_line_def route_row_ok_def)
  show "length (route_line e extra) < 511"
    using assms by (simp add: route_line_def route_row_ok_def route_entry_ok_def)
  have "route_line e extra @ [LF] = route_line e (extra @ [LF])" by (simp add: route_line_def)
  then show "scan_route (route_line e extra @ [LF]) = Some (Some e)"
    using assms scan_route_line [of e "extra @ [LF]"] by (simp add: route_row_ok_def NUL_def)
qed

text \<open>The reference search: the first default route of the interface that is up and has a gateway.\<close>

definition default_route :: "string \<Rightarrow> route_entry list \<Rightarrow> route_entry option" where
  "default_route name es = List.find (route_is_default name) es"

lemma gateway_loop_rows:
  assumes "list_all route_row_ok rows" and "length gw = 4"
  shows "gateway_loop name (concat (map (\<lambda>(e, extra). route_line e extra @ [LF]) rows)) gw =
    Some (case default_route name (map fst rows) of None \<Rightarrow> (-1, gw) | Some e \<Rightarrow> (0, gateway_bytes (rt_gateway e)))"
  using assms(1)
proof (induction rows)
  case Nil
  then show ?case by (simp add: gateway_loop.simps c_fgets_def default_route_def)
next
  case (Cons row rows)
  obtain e extra where row: "row = (e, extra)" by (cases row)
  let ?f = "concat (map (\<lambda>(e, extra). route_line e extra @ [LF]) rows)"
  have ok: "route_row_ok (e, extra)" using Cons.prems row by simp
  note r = route_row_line [OF ok]
  have g: "c_fgets 512 (route_line e extra @ LF # ?f) = Some (route_line e extra @ [LF], ?f)"
    using r(1,2) by (intro c_fgets_line) simp_all
  have w: "mem_write gw 0 (gateway_bytes (rt_gateway e)) = Some (gateway_bytes (rt_gateway e))"
    using assms(2) by (simp add: mem_write_def gateway_bytes_def blit_def)
  show ?case
    using Cons g r(3) w
    by (simp add: row gateway_loop.simps [of name "route_line e extra @ LF # ?f"] default_route_def)
qed

section \<open>Opening a device\<close>

definition kernel_route_ok :: "kernel \<Rightarrow> string \<Rightarrow> (route_entry \<times> string) list \<Rightarrow> bool" where
  "kernel_route_ok k header rows \<longleftrightarrow> k_route k = Some (route_file header rows) \<and> LF \<notin> set header
     \<and> length header < 511 \<and> list_all route_row_ok rows"

lemma get_default_gateway_eq:
  assumes "kernel_route_ok k header rows" and "c_text name = Some t" and "length gw = 4"
  shows "get_default_gateway k (Some name) (Some gw) =
    Some (case default_route t (map fst rows) of None \<Rightarrow> (-1, Some gw)
      | Some e \<Rightarrow> (0, Some (gateway_bytes (rt_gateway e))))"
proof -
  have "c_fgets 512 (route_file header rows) =
      Some (header @ [LF], concat (map (\<lambda>(e, extra). route_line e extra @ [LF]) rows))"
    unfolding route_file_def using assms(1) by (intro c_fgets_line) (simp_all add: kernel_route_ok_def)
  then show ?thesis
    using assms gateway_loop_rows [of rows gw t]
    by (auto simp: get_default_gateway_def kernel_route_ok_def split: option.splits)
qed

lemma c_text_length:
  assumes "c_text mem = Some t"
  shows "length t < length mem"
proof -
  have "NUL \<in> set (drop 0 mem)" using assms by (auto simp: c_text_def split: if_splits)
  from c_text_terminator [OF this] obtain r where "mem = t @ NUL # r" using assms by auto
  then show ?thesis by simp
qed

definition interface_name_ok :: "string \<Rightarrow> string \<Rightarrow> bool" where
  "interface_name_ok name t \<longleftrightarrow> c_text name = Some t \<and> t \<noteq> [] \<and> length t < 16"

lemma copy_interface_name_ok:
  assumes "interface_name_ok name t"
  obtains ifr where "copy_interface_name (Some g) (Some name) = Some (0, Some ifr)" "length (ifr_sockaddr ifr) = 16"
proof
  have "length t < length name" using assms c_text_length by (simp add: interface_name_ok_def)
  then show "copy_interface_name (Some g) (Some name) =
      Some (0, Some (ifreq_zero\<lparr>ifr_name := blit 0 (take (length t + 1) name) (replicate 16 NUL)\<rparr>))"
    using assms by (simp add: copy_interface_name_def interface_name_ok_def ifreq_zero_def const_defs memcpy_Some)
qed (simp add: ifreq_zero_def)

lemma kernel_ioctl:
  assumes "kernel_ok k" and "length (ifr_sockaddr ifr) = 16"
  obtains rc ifr' where "k_ioctl k req ifr = (rc, ifr')" "length (ifr_sockaddr ifr') = 16"
  using assms unfolding kernel_ok_def by (metis prod.collapse)

lemma get_interface_ok:
  assumes "kernel_ok k" and "interface_name_ok name t"
  shows "length mac = 6 \<Longrightarrow> \<exists>rc out. get_interface_mac k name mac = Some (rc, out) \<and> length out = 6 \<and> rc \<in> {0, -1}"
    and "length ip = 4 \<Longrightarrow> \<exists>rc out. get_interface_ipv4 k name ip = Some (rc, out) \<and> length out = 4 \<and> rc \<in> {0, -1}"
    and "length ip = 4 \<Longrightarrow> \<exists>rc out. get_interface_netmask k name ip = Some (rc, out) \<and> length out = 4 \<and> rc \<in> {0, -1}"
proof -
  obtain ifr where c: "copy_interface_name (Some undefined) (Some name) = Some (0, Some ifr)"
    and l: "length (ifr_sockaddr ifr) = 16" using copy_interface_name_ok [OF assms(2)] by blast
  let ?ifr = "ifr\<lparr>ifr_sockaddr := blit 0 [2, 0] (ifr_sockaddr ifr)\<rparr>"
  have w: "mem_write (ifr_sockaddr ifr) 0 [2, 0] = Some (blit 0 [2, 0] (ifr_sockaddr ifr))"
    and l': "length (ifr_sockaddr ?ifr) = 16" using l by (simp_all add: mem_write_Some)
  obtain r1 i1 where "k_ioctl k SIOCGIFHWADDR ifr = (r1, i1)" "length (ifr_sockaddr i1) = 16"
    by (rule kernel_ioctl [OF assms(1) l])
  then show "length mac = 6 \<Longrightarrow> \<exists>rc out. get_interface_mac k name mac = Some (rc, out) \<and> length out = 6 \<and> rc \<in> {0, -1}"
    using c by (simp add: get_interface_mac_def const_defs memcpy_Some)
  obtain r2 i2 where "k_ioctl k SIOCGIFADDR ?ifr = (r2, i2)" "length (ifr_sockaddr i2) = 16"
    by (rule kernel_ioctl [OF assms(1) l'])
  then show "length ip = 4 \<Longrightarrow> \<exists>rc out. get_interface_ipv4 k name ip = Some (rc, out) \<and> length out = 4 \<and> rc \<in> {0, -1}"
    using c w by (simp add: get_interface_ipv4_def const_defs memcpy_Some)
  obtain r3 i3 where "k_ioctl k SIOCGIFNETMASK ?ifr = (r3, i3)" "length (ifr_sockaddr i3) = 16"
    by (rule kernel_ioctl [OF assms(1) l'])
  then show "length ip = 4 \<Longrightarrow> \<exists>rc out. get_interface_netmask k name ip = Some (rc, out) \<and> length out = 4 \<and> rc \<in> {0, -1}"
    using c w by (simp add: get_interface_netmask_def const_defs memcpy_Some)
qed

text \<open>An open device and a given-up one; \<open>fd\<close> is the socket.\<close>

definition netdev_opened :: "int \<Rightarrow> route_entry option \<Rightarrow> netdev \<Rightarrow> bool" where
  "netdev_opened fd route d \<longleftrightarrow> netdev_wf d \<and> nd_fd d = fd
     \<and> (case route of None \<Rightarrow> nd_has_gateway d = 0
        | Some e \<Rightarrow> nd_has_gateway d = 1 \<and> nd_gateway d = gateway_bytes (rt_gateway e))"

lemma netdev_give_up_eq:
  "0 \<le> nd_fd d \<Longrightarrow> netdev_give_up d = Some (-1, Some (d\<lparr>nd_fd := -1, nd_ifindex := 0\<rparr>), [nd_fd d])"
  by (simp add: netdev_give_up_def netdev_close_def)

lemma netdev_query_ok:
  assumes "kernel_ok k" and "interface_name_ok name t" and "kernel_route_ok k header rows"
    and "netdev_wf d" and "0 \<le> nd_fd d" and "nd_has_gateway d = 0"
  shows "\<exists>rc d' closed. netdev_query k name d = Some (rc, Some d', closed)
    \<and> (rc = 0 \<and> closed = [] \<and> netdev_opened (nd_fd d) (default_route t (map fst rows)) d'
       \<or> rc = -1 \<and> closed = [nd_fd d] \<and> nd_fd d' = -1)"
proof -
  have l: "length (nd_mac d) = 6" "length (nd_ipv4 d) = 4" "length (nd_netmask d) = 4" "length (nd_gateway d) = 4"
    using assms(4) by (simp_all add: netdev_wf_def)
  obtain r1 mac where m: "get_interface_mac k name (nd_mac d) = Some (r1, mac)" "length mac = 6"
    using get_interface_ok(1) [OF assms(1,2) l(1)] by blast
  obtain r2 ip where i: "get_interface_ipv4 k name (nd_ipv4 d) = Some (r2, ip)" "length ip = 4"
    using get_interface_ok(2) [OF assms(1,2) l(2)] by blast
  obtain r3 nm where n: "get_interface_netmask k name (nd_netmask d) = Some (r3, nm)" "length nm = 4"
    using get_interface_ok(3) [OF assms(1,2) l(3)] by blast
  have g: "get_default_gateway k (Some name) (Some (nd_gateway d)) =
    Some (case default_route t (map fst rows) of None \<Rightarrow> (-1, Some (nd_gateway d))
      | Some e \<Rightarrow> (0, Some (gateway_bytes (rt_gateway e))))"
    using assms(2,3) l(4) by (intro get_default_gateway_eq) (simp_all add: interface_name_ok_def)
  show ?thesis
    using m i n g l(4) assms(5,6)
    by (cases "default_route t (map fst rows)")
      (auto simp: netdev_query_def Let_def netdev_give_up_eq netdev_opened_def netdev_wf_def gateway_bytes_def)
qed

lemma local_loop_eq:
  assumes "i + n \<le> length a" and "i + n \<le> length m" and "i + n \<le> length t"
  shows "local_loop a m t i n = Some (if \<forall>j \<in> {i..<i + n}. a ! j AND m ! j = t ! j AND m ! j then 1 else 0)"
  using assms
proof (induction a m t i n rule: local_loop.induct)
  case (2 a m t i n)
  have "{i..<i + Suc n} = insert i {i + 1..<i + 1 + n}" by auto
  with 2 show ?case by (auto simp: rd_def)
qed simp

section \<open>Local addresses\<close>

definition addr32 :: "bytes \<Rightarrow> u32" where
  "addr32 b = be32 (b ! 0) (b ! 1) (b ! 2) (b ! 3)"

definition prefix_mask :: "nat \<Rightarrow> u32" where
  "prefix_mask p = push_bit (32 - p) (mask p)"

lemma be32_inject [simp]: "be32 a b c d = be32 a' b' c' d' \<longleftrightarrow> a = a' \<and> b = b' \<and> c = c' \<and> d = d'"
proof
  assume "be32 a b c d = be32 a' b' c' d'"
  then have "u32_bytes (be32 a b c d) = u32_bytes (be32 a' b' c' d')" by (rule arg_cong)
  then show "a = a' \<and> b = b' \<and> c = c' \<and> d = d'" unfolding u32_bytes_be32 by simp
qed simp

lemma be32_and: "be32 a b c d AND be32 a' b' c' d' = be32 (a AND a') (b AND b') (c AND c') (d AND d')"
proof (rule bit_word_eqI)
  fix n assume "n < LENGTH(32)"
  then consider "n < 8" | "8 \<le> n" "n < 16" | "16 \<le> n" "n < 24" | "24 \<le> n" "n < 32" by force
  then show "bit (be32 a b c d AND be32 a' b' c' d') n = bit (be32 (a AND a') (b AND b') (c AND c') (d AND d')) n"
    by cases (auto simp: be32_def byte_bits)
qed

lemma prefix_mask_eq:
  fixes x y :: u32
  assumes "p \<le> 32"
  shows "x AND prefix_mask p = y AND prefix_mask p \<longleftrightarrow> drop_bit (32 - p) x = drop_bit (32 - p) y"
proof -
  have b: "bit (prefix_mask p) n \<longleftrightarrow> 32 - p \<le> n \<and> n < 32" for n
    using assms by (auto simp: prefix_mask_def bit_simps)
  show ?thesis
  proof
    assume eq: "x AND prefix_mask p = y AND prefix_mask p"
    show "drop_bit (32 - p) x = drop_bit (32 - p) y"
    proof (rule bit_word_eqI)
      fix n assume "n < LENGTH(32)"
      have "bit (x AND prefix_mask p) (32 - p + n) = bit (y AND prefix_mask p) (32 - p + n)" using eq by simp
      then show "bit (drop_bit (32 - p) x) n = bit (drop_bit (32 - p) y) n"
        using bit_imp_le_length [of x "32 - p + n"] bit_imp_le_length [of y "32 - p + n"]
        by (auto simp: bit_simps b)
    qed
  next
    assume eq: "drop_bit (32 - p) x = drop_bit (32 - p) y"
    show "x AND prefix_mask p = y AND prefix_mask p"
    proof (rule bit_word_eqI)
      fix n assume "n < LENGTH(32)"
      have "bit (drop_bit (32 - p) x) (n - (32 - p)) = bit (drop_bit (32 - p) y) (n - (32 - p))" using eq by simp
      then show "bit (x AND prefix_mask p) n = bit (y AND prefix_mask p) n" by (auto simp: bit_simps b)
    qed
  qed
qed

lemma netdev_ipv4_is_local_eq:
  assumes "netdev_wf d" and "length t = 4"
  shows "netdev_ipv4_is_local (Some d) (Some t) =
    Some (if addr32 (nd_ipv4 d) AND addr32 (nd_netmask d) = addr32 t AND addr32 (nd_netmask d) then 1 else 0)"
proof -
  have "{0..<0 + 4} = {0, 1, 2, 3 :: nat}" by auto
  then show ?thesis
    using assms local_loop_eq [of 0 4 "nd_ipv4 d" "nd_netmask d" t]
    by (simp add: netdev_ipv4_is_local_def netdev_wf_def const_defs addr32_def be32_and)
qed

lemma netdev_open_result:
  assumes "kernel_ok k" and "kernel_route_ok k header rows" and "c_text name = Some t"
  shows "\<exists>rc d closed. netdev_open k (Some g) (Some name) = Some (rc, Some d, closed)
    \<and> (rc = 0 \<and> closed = [] \<and> 0 \<le> k_socket k \<and> t \<noteq> [] \<and> length t < 16 \<and> netdev_opened (k_socket k) (default_route t (map fst rows)) d
       \<or> rc = -1 \<and> (t \<noteq> [] \<and> length t < 16 \<longrightarrow> nd_fd d = -1)
          \<and> closed = (if t \<noteq> [] \<and> length t < 16 \<and> 0 \<le> k_socket k then [k_socket k] else []))"
proof (cases "t \<noteq> [] \<and> length t < 16 \<and> 0 \<le> k_socket k \<and> k_if_nametoindex k t \<noteq> 0
    \<and> 0 \<le> k_bind k (k_if_nametoindex k t)")
  case True
  then have nm: "interface_name_ok name t" using assms(3) by (simp add: interface_name_ok_def)
  let ?d = "netdev_zero\<lparr>nd_fd := k_socket k, nd_has_gateway := 0, nd_ifindex := int (k_if_nametoindex k t),
      nd_name := blit 0 (take (length t + 1) name) (replicate 64 NUL)\<rparr>"
  have "netdev_open k (Some g) (Some name) = netdev_query k name ?d"
    using True assms(3) c_text_length [OF assms(3)]
    by (simp add: netdev_open_def Let_def const_defs memcpy_Some netdev_zero_def)
  then show ?thesis
    using netdev_query_ok [OF assms(1) nm assms(2), of ?d] True
    by (auto simp: netdev_wf_def netdev_zero_def const_defs)
next
  case False
  then show ?thesis
    using assms(3) by (auto simp: netdev_open_def Let_def const_defs netdev_zero_def)
qed

section \<open>Properties\<close>


text \<open>A kernel with one interface and one default route.\<close>

definition example_route :: route_entry where
  "example_route = \<lparr> rt_iface = ''eno1'', rt_destination = 0, rt_gateway = 0x0132A8C0, rt_flags = 3 \<rparr>"

definition example_kernel :: kernel where
  "example_kernel = \<lparr> k_socket = 5, k_if_nametoindex = (\<lambda>name. if name = ''eno1'' then 2 else 0), k_bind = (\<lambda>_. 0),
     k_ioctl = (\<lambda>req ifr. (0, ifr)), k_route = Some (route_file ''Iface'' [(example_route, ''0'')]) \<rparr>"

lemma example_kernel_ok:
  "kernel_ok example_kernel" "kernel_route_ok example_kernel ''Iface'' [(example_route, ''0'')]"
  by (simp_all add: kernel_ok_def kernel_route_ok_def example_kernel_def route_row_ok_def route_entry_ok_def
      example_route_def c_isspace_def NUL_def)


text \<open>
  (C39) An address is local exactly when it shares the network prefix of the interface: with the netmask
  of a prefix of \<open>p\<close> bits, when the top \<open>p\<close> bits of the two addresses agree.
\<close>

theorem netdev_local_prefix:
  assumes "netdev_wf d" and "length t = 4" and "p \<le> 32" and "addr32 (nd_netmask d) = prefix_mask p"
  shows "netdev_ipv4_is_local (Some d) (Some t) =
    Some (if drop_bit (32 - p) (addr32 (nd_ipv4 d)) = drop_bit (32 - p) (addr32 t) then 1 else 0)"
  using assms by (simp add: netdev_ipv4_is_local_eq prefix_mask_eq)

theorem netdev_local_prefix_witness:
  "netdev_ipv4_is_local (Some (netdev_zero\<lparr>nd_ipv4 := [192, 168, 50, 62], nd_netmask := [255, 255, 255, 0]\<rparr>))
     (Some [192, 168, 51, 1]) = Some 0"
  using netdev_local_prefix [of "netdev_zero\<lparr>nd_ipv4 := [192, 168, 50, 62], nd_netmask := [255, 255, 255, 0]\<rparr>"
      "[192, 168, 51, 1]" 24]
  by (simp add: netdev_wf_def netdev_zero_def const_defs addr32_def be32_def prefix_mask_def mask_eq_exp_minus_1)

end
