(* ===== verification/NetIo.thy ===== *)
theory NetIo
  imports Netdev
begin

text \<open>
  The world the command-line tools run in, the two functions of \<^verbatim>\<open>src/src/netdev_linux.c\<close> that move
  frames, and the receive loop all tools share. The operating system is a script: the results of the
  coming calls of \<^verbatim>\<open>clock_gettime\<close>, \<^verbatim>\<open>poll\<close> and \<^verbatim>\<open>recv\<close>, \<^verbatim>\<open>send\<close> and the allocator, and a log of what the
  program sent, wrote and closed. A program that asks for more than the script holds is \<open>Waiting\<close>, one
  that runs into undefined behaviour is \<open>Undefined\<close>. The script is finite, so every loop of the
  tools is a total function, and that it returns is a theorem about the script.
\<close>

section \<open>The world\<close>

record timespec =
  tv_sec :: int
  tv_nsec :: int

text \<open>
  One \<^verbatim>\<open>poll\<close> and, when it reports input, the \<^verbatim>\<open>recv\<close> after it: interrupted by a signal, failed, timed
  out, an event other than input, a failed \<^verbatim>\<open>recv\<close>, or a frame.
\<close>

datatype poll_event = Poll_Interrupted | Poll_Failed | Poll_Timeout | Poll_Unreadable | Recv_Failed | Recv_Frame bytes

record world =
  w_clock :: "timespec ptr list"
  w_polls :: "poll_event list"
  w_sends :: "int list"
  w_allocs :: "bool list"
  w_sent :: "bytes list"
  w_stdout :: "string list"
  w_closed :: "int list"

datatype 'a outcome = Undefined | Waiting | Outcome 'a world

type_synonym 'a io = "world \<Rightarrow> 'a outcome"

definition io_return :: "'a \<Rightarrow> 'a io" where
  "io_return x w = Outcome x w"

definition io_bind :: "'a io \<Rightarrow> ('a \<Rightarrow> 'b io) \<Rightarrow> 'b io" where
  "io_bind m f w = (case m w of Undefined \<Rightarrow> Undefined | Waiting \<Rightarrow> Waiting | Outcome x w' \<Rightarrow> f x w')"

text \<open>A computation without input and output; its undefined behaviour is the program's.\<close>

definition io_lift :: "'a option \<Rightarrow> 'a io" where
  "io_lift m w = (case m of None \<Rightarrow> Undefined | Some x \<Rightarrow> Outcome x w)"

lemma io_simps [simp]:
  "io_bind (io_return x) f = f x" "io_bind (io_lift (Some x)) f = f x"
  "io_bind (io_lift None) f w = Undefined" "io_return x w = Outcome x w" "io_lift (Some x) w = Outcome x w"
  by (simp_all add: io_bind_def io_return_def io_lift_def fun_eq_iff)

lemma io_bind_Outcome: "m w = Outcome x w' \<Longrightarrow> io_bind m f w = f x w'"
  by (simp add: io_bind_def)

lemma io_bind_eq_Outcome:
  "io_bind m f w = Outcome y w2 \<longleftrightarrow> (\<exists>x w1. m w = Outcome x w1 \<and> f x w1 = Outcome y w2)"
  by (auto simp: io_bind_def split: outcome.splits)

text \<open>An automatic array: its bytes are unspecified.\<close>

definition uninit :: "nat \<Rightarrow> bytes" where
  "uninit n = map undefined [0..<n]"

lemma length_uninit [simp]: "length (uninit n) = n"
  by (simp add: uninit_def)

definition clock_gettime :: "timespec ptr io" where
  "clock_gettime w = (case w_clock w of [] \<Rightarrow> Waiting | t # ts \<Rightarrow> Outcome t (w\<lparr>w_clock := ts\<rparr>))"

text \<open>
  The tools' \<^verbatim>\<open>elapsed_ms\<close>, in nanoseconds. The source computes milliseconds in \<^verbatim>\<open>double\<close> and compares
  them with a whole number of milliseconds; the rounding error is far below the nanosecond that
  separates two different readings.
\<close>

definition elapsed_ns :: "timespec \<Rightarrow> timespec \<Rightarrow> int" where
  "elapsed_ns start now = (tv_sec now - tv_sec start) * 10 ^ 9 + (tv_nsec now - tv_nsec start)"

section \<open>Frames\<close>

definition netdev_send :: "netdev ptr \<Rightarrow> bytes ptr \<Rightarrow> nat \<Rightarrow> int io" where
  "netdev_send dev frame frame_len =
    (case (dev, frame) of
       (Some d, Some f) \<Rightarrow>
         if nd_fd d < 0 \<or> frame_len = 0 then io_return (-1)
         else io_bind (io_lift (mem_read f 0 frame_len)) (\<lambda>packet w.
           case w_sends w of
             [] \<Rightarrow> Waiting
           | sent # rest \<Rightarrow>
               if sent < 0 then Outcome (-1) (w\<lparr>w_sends := rest\<rparr>)
               else Outcome sent (w\<lparr>w_sends := rest, w_sent := w_sent w @ [packet]\<rparr>))
     | _ \<Rightarrow> io_return (-1))"

fun poll_uninterrupted :: "poll_event list \<Rightarrow> (poll_event \<times> poll_event list) option" where
  "poll_uninterrupted [] = None"
| "poll_uninterrupted (e # es) = (if e = Poll_Interrupted then poll_uninterrupted es else Some (e, es))"

text \<open>The result and the buffer; \<^verbatim>\<open>recv\<close> on a packet socket cuts a frame to the length of the buffer.\<close>

definition netdev_receive :: "netdev ptr \<Rightarrow> bytes ptr \<Rightarrow> nat \<Rightarrow> int \<Rightarrow> (int \<times> bytes ptr) io" where
  "netdev_receive dev buffer buffer_len timeout_ms =
    (case (dev, buffer) of
       (Some d, Some b) \<Rightarrow>
         if nd_fd d < 0 \<or> buffer_len = 0 then io_return (-1, buffer)
         else (\<lambda>w. case poll_uninterrupted (w_polls w) of
             None \<Rightarrow> Waiting
           | Some (e, es) \<Rightarrow>
               let w = w\<lparr>w_polls := es\<rparr> in
               (case e of
                  Poll_Timeout \<Rightarrow> Outcome (0, buffer) w
                | Poll_Unreadable \<Rightarrow> Outcome (0, buffer) w
                | Recv_Frame f \<Rightarrow>
                    (case mem_write b 0 (take buffer_len f) of
                       None \<Rightarrow> Undefined
                     | Some b \<Rightarrow> Outcome (int (min buffer_len (length f)), Some b) w)
                | _ \<Rightarrow> Outcome (-1, buffer) w))
     | _ \<Rightarrow> io_return (-1, buffer))"

section \<open>The receive loop\<close>

text \<open>
  All tools wait for an answer in the same loop: read the clock, give up when it fails or when the
  timeout has passed, receive, and put a frame that arrived through a chain of tests that
  \<^verbatim>\<open>continue\<close> on the first failure. The tests are a parameter: \<open>Some None\<close> continues, \<open>Some (Some x)\<close>
  leaves the loop. The tools differ in what a failed receive does.
\<close>

definition RECEIVE_BUFFER_SIZE :: nat where [const_defs]: "RECEIVE_BUFFER_SIZE = 2048"

datatype 'a waited = Got 'a | Timed_Out | Broken

lemma netdev_receive_clock: "netdev_receive dev b n t w = Outcome x w' \<Longrightarrow> w_clock w' = w_clock w"
  by (auto simp: netdev_receive_def Let_def split: option.splits if_splits poll_event.splits)

function wait_loop :: "int \<Rightarrow> bool \<Rightarrow> netdev \<Rightarrow> (bytes \<Rightarrow> nat \<Rightarrow> 'a option option) \<Rightarrow> timespec \<Rightarrow> bytes \<Rightarrow> 'a waited io" where
  "wait_loop timeout_ms stop_on_error dev accept start buffer w =
    (case clock_gettime w of
       Undefined \<Rightarrow> Undefined
     | Waiting \<Rightarrow> Waiting
     | Outcome None w \<Rightarrow> Outcome Broken w
     | Outcome (Some now) w \<Rightarrow>
         if elapsed_ns start now > timeout_ms * 10 ^ 6 then Outcome Timed_Out w
         else (case netdev_receive (Some dev) (Some buffer) RECEIVE_BUFFER_SIZE 250 w of
             Undefined \<Rightarrow> Undefined
           | Waiting \<Rightarrow> Waiting
           | Outcome (received, None) w \<Rightarrow> Undefined
           | Outcome (received, Some buffer) w \<Rightarrow>
               if received < 0 \<and> stop_on_error then Outcome Broken w
               else if received \<le> 0 then wait_loop timeout_ms stop_on_error dev accept start buffer w
               else (case accept buffer (nat received) of
                   None \<Rightarrow> Undefined
                 | Some None \<Rightarrow> wait_loop timeout_ms stop_on_error dev accept start buffer w
                 | Some (Some x) \<Rightarrow> Outcome (Got x) w)))"
  by pat_completeness auto
termination
  by (relation "measure (\<lambda>(t, s, d, a, st, b, w). length (w_clock w))")
    (auto simp: clock_gettime_def split: list.splits dest!: netdev_receive_clock)

declare wait_loop.simps [simp del]

section \<open>What the loop guarantees\<close>

definition recv_result :: "poll_event \<Rightarrow> bytes \<Rightarrow> int \<times> bytes" where
  "recv_result e b = (case e of
     Recv_Frame f \<Rightarrow> (int (min 2048 (length f)), take 2048 f @ drop (length (take 2048 f)) b)
   | Poll_Timeout \<Rightarrow> (0, b) | Poll_Unreadable \<Rightarrow> (0, b) | _ \<Rightarrow> (-1, b))"

lemma netdev_receive_eq:
  assumes "0 \<le> nd_fd dev" and "length b = 2048"
  shows "netdev_receive (Some dev) (Some b) RECEIVE_BUFFER_SIZE t w =
    (case poll_uninterrupted (w_polls w) of None \<Rightarrow> Waiting
     | Some (e, es) \<Rightarrow> Outcome (fst (recv_result e b), Some (snd (recv_result e b))) (w\<lparr>w_polls := es\<rparr>))"
  using assms
  by (auto simp: netdev_receive_def const_defs recv_result_def Let_def mem_write_Some blit_0
      split: option.splits poll_event.splits)

lemma length_recv_result: "length b = 2048 \<Longrightarrow> length (snd (recv_result e b)) = 2048"
  by (auto simp: recv_result_def split: poll_event.splits)

lemma poll_uninterrupted_Some:
  assumes "poll_uninterrupted ps = Some (e, es)"
  shows "e \<noteq> Poll_Interrupted \<and> (\<exists>skipped. ps = skipped @ e # es \<and> set skipped \<subseteq> {Poll_Interrupted})"
  using assms
proof (induction ps)
  case (Cons p ps)
  show ?case
  proof (cases "p = Poll_Interrupted")
    case True
    with Cons obtain sk where "e \<noteq> Poll_Interrupted" "ps = sk @ e # es" "set sk \<subseteq> {Poll_Interrupted}" by auto
    then show ?thesis using True by (intro conjI exI [of _ "p # sk"]) auto
  next
    case False
    with Cons.prems show ?thesis by auto
  qed
qed simp

text \<open>The polls that a signal did not interrupt.\<close>

definition live_polls :: "poll_event list \<Rightarrow> poll_event list" where
  "live_polls ps = filter (\<lambda>e. e \<noteq> Poll_Interrupted) ps"

lemma poll_uninterrupted_None: "poll_uninterrupted ps = None \<longleftrightarrow> live_polls ps = []"
  by (induction ps) (auto simp: live_polls_def)

lemma poll_uninterrupted_rest: "poll_uninterrupted ps = Some (e, es) \<Longrightarrow> live_polls ps = e # live_polls es"
  using poll_uninterrupted_Some [of ps e es] by (auto simp: live_polls_def filter_empty_conv)

text \<open>Only input was consumed: nothing sent, written, closed or allocated.\<close>

definition only_input :: "world \<Rightarrow> world \<Rightarrow> bool" where
  "only_input w w' \<longleftrightarrow> w_sends w' = w_sends w \<and> w_allocs w' = w_allocs w \<and> w_sent w' = w_sent w
     \<and> w_stdout w' = w_stdout w \<and> w_closed w' = w_closed w \<and> set (w_polls w') \<subseteq> set (w_polls w)"

lemma only_input_trans: "only_input w w' \<Longrightarrow> only_input w' w'' \<Longrightarrow> only_input w w''"
  by (auto simp: only_input_def)

text \<open>
  A test that the loop can use: when its parameters are \<open>ready\<close>, it is defined on the bytes
  received, and its answer is a function of those bytes alone.
\<close>

locale frame_test =
  fixes accept :: "bytes \<Rightarrow> nat \<Rightarrow> 'a option option"
    and verdict :: "bytes \<Rightarrow> 'a option"
    and ready :: bool
  assumes accept_verdict: "ready \<Longrightarrow> 0 < n \<Longrightarrow> n \<le> length b \<Longrightarrow> accept b n = Some (verdict (take n b))"
begin

definition poll_verdict :: "poll_event \<Rightarrow> 'a option" where
  "poll_verdict e = (case e of Recv_Frame f \<Rightarrow> if f = [] then None else verdict (take 2048 f) | _ \<Rightarrow> None)"

text \<open>One turn of the loop on an event that is not an error.\<close>

lemma wait_step:
  assumes ready and "0 \<le> nd_fd dev" and "length b = 2048"
  shows "wait_loop T stop dev accept start b w =
    (case w_clock w of
       [] \<Rightarrow> Waiting
     | None # ts \<Rightarrow> Outcome Broken (w\<lparr>w_clock := ts\<rparr>)
     | Some now # ts \<Rightarrow>
         if elapsed_ns start now > T * 10 ^ 6 then Outcome Timed_Out (w\<lparr>w_clock := ts\<rparr>)
         else (case poll_uninterrupted (w_polls w) of
             None \<Rightarrow> Waiting
           | Some (e, es) \<Rightarrow>
               let w' = w\<lparr>w_clock := ts, w_polls := es\<rparr> in
               if fst (recv_result e b) < 0 \<and> stop then Outcome Broken w'
               else (case poll_verdict e of
                   None \<Rightarrow> wait_loop T stop dev accept start (snd (recv_result e b)) w'
                 | Some x \<Rightarrow> Outcome (Got x) w')))"
proof -
  have acc: "accept (snd (recv_result e b)) (nat (fst (recv_result e b))) = Some (poll_verdict e)"
    if "0 < fst (recv_result e b)" for e
  proof -
    from that obtain f where f: "e = Recv_Frame f" "f \<noteq> []" by (auto simp: recv_result_def split: poll_event.splits)
    let ?b = "take 2048 f @ drop (length (take 2048 f)) b"
    have "accept ?b (length (take 2048 f)) = Some (verdict (take (length (take 2048 f)) ?b))"
      using f assms(3) by (intro accept_verdict assms(1)) auto
    then show ?thesis
      using f by (cases "length f \<le> 2048") (simp_all add: recv_result_def poll_verdict_def)
  qed
  have none: "poll_verdict e = None" if "\<not> 0 < fst (recv_result e b)" for e
    using that by (auto simp: recv_result_def poll_verdict_def split: poll_event.splits)
  show ?thesis
    using acc none
    by (subst wait_loop.simps)
      (auto simp: clock_gettime_def netdev_receive_eq [OF assms(2,3)] Let_def not_le
        split: list.splits option.splits)
qed

lemma wait_safe:
  assumes ready and "0 \<le> nd_fd dev" and "length b = 2048"
  shows "wait_loop T stop dev accept start b w \<noteq> Undefined"
  using assms(3)
proof (induction "length (w_clock w)" arbitrary: b w rule: less_induct)
  case less
  then show ?case
    unfolding wait_step [OF assms(1,2) less.prems]
    by (auto simp: Let_def length_recv_result split: list.splits option.splits)
qed

lemma wait_frame:
  assumes ready and "0 \<le> nd_fd dev" and "length b = 2048" and "wait_loop T stop dev accept start b w = Outcome r w'"
  shows "only_input w w' \<and> (\<forall>x. r = Got x \<longrightarrow> (\<exists>e \<in> set (w_polls w). poll_verdict e = Some x))"
  using assms(3,4)
proof (induction "length (w_clock w)" arbitrary: b w rule: less_induct)
  case less
  note step = wait_step [OF assms(1,2) less.prems(1), of T stop start w]
  show ?case
  proof (cases "w_clock w")
    case Nil
    with less.prems(2) step show ?thesis by simp
  next
    case (Cons c ts)
    show ?thesis
    proof (cases "poll_uninterrupted (w_polls w)")
      case None
      with less.prems(2) step Cons show ?thesis by (cases c) (auto simp: only_input_def split: if_splits)
    next
      case (Some p)
      obtain e es where p: "p = (e, es)" by (cases p)
      have sub: "e \<in> set (w_polls w)" "set es \<subseteq> set (w_polls w)"
        using poll_uninterrupted_Some [OF Some [unfolded p]] by auto
      let ?w = "w\<lparr>w_clock := ts, w_polls := es\<rparr>" and ?b = "snd (recv_result e b)"
      have len: "length (w_clock ?w) < length (w_clock w)" using Cons by simp
      note ih = less.hyps [OF len length_recv_result [OF less.prems(1)], of e]
      show ?thesis
        using less.prems(2) Cons Some p sub ih unfolding step
        by (cases c; cases "poll_verdict e"; auto simp: Let_def only_input_def split: if_splits; blast)
    qed
  qed
qed

text \<open>
  The loop returns as soon as the script has one clock reading past the deadline that is not
  preceded by more readings than there are polls.
\<close>

lemma wait_returns:
  assumes ready and "0 \<le> nd_fd dev" and "length b = 2048"
    and "k < length (w_clock w)" and "w_clock w ! k = Some late" and "T * 10 ^ 6 < elapsed_ns start late"
    and "k \<le> length (live_polls (w_polls w))"
  shows "\<exists>r w'. wait_loop T stop dev accept start b w = Outcome r w'"
  using assms(3-)
proof (induction k arbitrary: b w)
  case 0
  then show ?case unfolding wait_step [OF assms(1,2) "0.prems"(1)] by (auto split: list.splits)
next
  case (Suc k)
  obtain c ts where c: "w_clock w = c # ts" using Suc.prems(2) by (cases "w_clock w") auto
  obtain e es where e: "poll_uninterrupted (w_polls w) = Some (e, es)"
    using Suc.prems(5) poll_uninterrupted_None [of "w_polls w"] by (cases "poll_uninterrupted (w_polls w)") auto
  then have es: "live_polls (w_polls w) = e # live_polls es" by (rule poll_uninterrupted_rest)
  have "\<exists>r w'. wait_loop T stop dev accept start (snd (recv_result e b)) (w\<lparr>w_clock := ts, w_polls := es\<rparr>) = Outcome r w'"
    using Suc.prems c es by (intro Suc.IH) (simp_all add: length_recv_result)
  then show ?case
    unfolding wait_step [OF assms(1,2) Suc.prems(1)] using c e
    by (auto simp: Let_def split: option.splits)
qed

text \<open>The first acceptable frame ends the loop.\<close>

lemma wait_finds:
  assumes ready and "0 \<le> nd_fd dev" and "length b = 2048"
    and "w_polls w = es @ e # ps" and "list_all (\<lambda>e. e \<in> range Recv_Frame \<and> poll_verdict e = None) es"
    and "poll_verdict e = Some x"
    and "w_clock w = map Some (ts @ [t]) @ cs" and "length ts = length es"
    and "list_all (\<lambda>now. elapsed_ns start now \<le> T * 10 ^ 6) (ts @ [t])"
  shows "wait_loop T stop dev accept start b w = Outcome (Got x) (w\<lparr>w_clock := cs, w_polls := ps\<rparr>)"
  using assms(3-)
proof (induction es arbitrary: ts b w)
  case Nil
  then have "e \<noteq> Poll_Interrupted" "0 \<le> fst (recv_result e b)"
    by (auto simp: poll_verdict_def recv_result_def split: poll_event.splits)
  with Nil show ?case unfolding wait_step [OF assms(1,2) Nil.prems(1)] by (simp add: not_less)
next
  case (Cons d es)
  then obtain u us where u: "ts = u # us" by (cases ts) auto
  from Cons.prems(3) obtain f where d: "d = Recv_Frame f" "poll_verdict d = None" by auto
  have "wait_loop T stop dev accept start (snd (recv_result d b)) (w\<lparr>w_clock := map Some (us @ [t]) @ cs, w_polls := es @ e # ps\<rparr>) =
      Outcome (Got x) (w\<lparr>w_clock := map Some (us @ [t]) @ cs, w_polls := es @ e # ps, w_clock := cs, w_polls := ps\<rparr>)"
    using Cons.prems u by (intro Cons.IH [of _ _ us]) (simp_all add: length_recv_result)
  moreover have "0 \<le> fst (recv_result d b)" by (simp add: d recv_result_def)
  ultimately show ?case
    unfolding wait_step [OF assms(1,2) Cons.prems(1)] using Cons.prems u d by (simp add: not_less)
qed

end

end
