(* ===== verification/IoLogic.thy ===== *)
theory IoLogic
  imports NetIo
begin

text \<open>
  Partial-correctness triples for programs that talk to the world: started in a world with the
  precondition the program runs into no undefined behaviour, and if it returns, its result and the world
  satisfy the postcondition. A program that waits for more input than the script has satisfies
  every triple that excludes undefined behaviour.
\<close>

definition io_ok :: "(world \<Rightarrow> bool) \<Rightarrow> 'a io \<Rightarrow> ('a \<Rightarrow> world \<Rightarrow> bool) \<Rightarrow> bool" where
  "io_ok P m Q \<longleftrightarrow> (\<forall>w. P w \<longrightarrow> (case m w of Undefined \<Rightarrow> False | Waiting \<Rightarrow> True | Outcome x w' \<Rightarrow> Q x w'))"

named_theorems io_rules \<open>introduction rules for triples\<close>

lemma io_okD:
  assumes "io_ok P m Q" and "P w"
  shows "m w \<noteq> Undefined" and "m w = Outcome x w' \<Longrightarrow> Q x w'"
  using assms by (auto simp: io_ok_def split: outcome.splits)

lemma io_okI:
  "(\<And>w. P w \<Longrightarrow> m w \<noteq> Undefined) \<Longrightarrow> (\<And>w x w'. P w \<Longrightarrow> m w = Outcome x w' \<Longrightarrow> Q x w') \<Longrightarrow> io_ok P m Q"
  by (auto simp: io_ok_def split: outcome.splits)

lemma io_ok_weaken: "io_ok P m Q \<Longrightarrow> (\<And>w. P' w \<Longrightarrow> P w) \<Longrightarrow> (\<And>x w. Q x w \<Longrightarrow> Q' x w) \<Longrightarrow> io_ok P' m Q'"
  by (rule io_okI) (blast dest: io_okD)+

lemma io_ok_return [io_rules]: "(\<And>w. P w \<Longrightarrow> Q x w) \<Longrightarrow> io_ok P (io_return x) Q"
  by (simp add: io_ok_def)

lemma io_ok_outcome [io_rules]: "(\<And>w. P w \<Longrightarrow> Q x w) \<Longrightarrow> io_ok P (Outcome x) Q"
  by (simp add: io_ok_def)

lemma io_ok_bind: "io_ok P m R \<Longrightarrow> (\<And>x. io_ok (R x) (f x) Q) \<Longrightarrow> io_ok P (io_bind m f) Q"
  by (rule io_okI) (auto simp: io_bind_def dest: io_okD split: outcome.splits)

text \<open>A step that only has to keep a precondition, and a computation without input and output.\<close>

lemma io_ok_lift: "m = Some x \<Longrightarrow> (\<And>w. P w \<Longrightarrow> Q x w) \<Longrightarrow> io_ok P (io_lift m) Q"
  by (simp add: io_ok_def)

lemma io_ok_lift_bind: "m = Some x \<Longrightarrow> io_ok P (f x) Q \<Longrightarrow> io_ok P (io_bind (io_lift m) f) Q"
  by simp

lemma io_ok_if [io_rules]: "(b \<Longrightarrow> io_ok P m Q) \<Longrightarrow> (\<not> b \<Longrightarrow> io_ok P m' Q) \<Longrightarrow> io_ok P (if b then m else m') Q"
  by simp

lemma io_ok_option:
  "(x = None \<Longrightarrow> io_ok P m Q) \<Longrightarrow> (\<And>y. x = Some y \<Longrightarrow> io_ok P (f y) Q) \<Longrightarrow>
    io_ok P (case x of None \<Rightarrow> m | Some y \<Rightarrow> f y) Q"
  by (cases x) simp_all

lemma io_ok_fact: "(\<And>w. P w \<Longrightarrow> A) \<Longrightarrow> (A \<Longrightarrow> io_ok P m Q) \<Longrightarrow> io_ok P m Q"
  by (auto simp: io_ok_def)

lemma io_ok_conj: "io_ok (\<lambda>w. A \<and> P w) m Q \<longleftrightarrow> (A \<longrightarrow> io_ok P m Q)"
  by (auto simp: io_ok_def)

lemma io_ok_exec: "io_ok P m Q \<Longrightarrow> P w \<Longrightarrow> m w = Outcome x w' \<Longrightarrow> Q x w'"
  by (simp add: io_okD)

text \<open>The postcondition may name the world the program started in.\<close>

lemma io_ok_traced: "io_ok P m Q \<Longrightarrow> io_ok P m (\<lambda>x w. Q x w \<and> (\<exists>w0. P w0 \<and> m w0 = Outcome x w))"
  by (rule io_okI) (auto dest: io_okD)

section \<open>The primitives\<close>

text \<open>
  A view of the world that the tools' own steps keep: what was written and closed so far, a bound on
  what the network may still deliver and on what the clock may show.
\<close>

definition calm :: "string list \<Rightarrow> int list \<Rightarrow> poll_event set \<Rightarrow> timespec ptr set \<Rightarrow> world \<Rightarrow> bool" where
  "calm out closed net clk w \<longleftrightarrow> w_stdout w = out \<and> w_closed w = closed
     \<and> set (w_polls w) \<subseteq> net \<and> set (w_clock w) \<subseteq> clk"

lemma calm_self: "calm (w_stdout w) (w_closed w) (set (w_polls w)) (set (w_clock w)) w"
  by (simp add: calm_def)

lemma clock_ok:
  "io_ok (calm out closed net clk) clock_gettime (\<lambda>t w. t \<in> clk \<and> calm out closed net clk w)"
  by (auto simp: io_ok_def clock_gettime_def calm_def split: list.splits)

lemma wait_loop_clock:
  "wait_loop T stop dev accept start b w = Outcome r w' \<Longrightarrow> length (w_clock w') \<le> length (w_clock w)
    \<and> set (w_clock w') \<subseteq> set (w_clock w)"
proof (induction T stop dev accept start b w rule: wait_loop.induct)
  case (1 T stop dev accept start b w)
  show ?case
  proof (cases "w_clock w")
    case Nil
    with "1.prems" show ?thesis by (subst (asm) wait_loop.simps) (simp add: clock_gettime_def)
  next
    case (Cons c ts)
    have clk: "clock_gettime w = Outcome c (w\<lparr>w_clock := ts\<rparr>)" using Cons by (simp add: clock_gettime_def)
    show ?thesis
    proof (cases c)
      case None
      with "1.prems" Cons clk show ?thesis by (subst (asm) wait_loop.simps) auto
    next
      case (Some now)
      note ih = "1.IH" [OF clk, unfolded Some, OF refl]
      show ?thesis
        using "1.prems" Cons clk Some ih
        by (subst (asm) wait_loop.simps)
          (auto split: if_splits outcome.splits option.splits prod.splits dest!: netdev_receive_clock; fastforce)
    qed
  qed
qed

context frame_test
begin

lemma wait_ok:
  assumes ready and "0 \<le> nd_fd dev" and "length b = 2048"
    and good: "\<And>e x. e \<in> net \<Longrightarrow> poll_verdict e = Some x \<Longrightarrow> R x"
  shows "io_ok (calm out closed net clk) (wait_loop T stop dev accept start b)
    (\<lambda>r w. (\<forall>x. r = Got x \<longrightarrow> R x) \<and> calm out closed net clk w)"
proof (rule io_okI)
  fix w r w'
  assume c: "calm out closed net clk w" and o: "wait_loop T stop dev accept start b w = Outcome r w'"
  from wait_frame [OF assms(1-3) o] wait_loop_clock [OF o] c good
  show "(\<forall>x. r = Got x \<longrightarrow> R x) \<and> calm out closed net clk w'"
    unfolding calm_def only_input_def by blast
qed (rule wait_safe [OF assms(1-3)])

end

end
