(* ===== verification/ToolFrames.thy ===== *)
theory ToolFrames
  imports IoLogic Ethernet Arp Ipv4
begin

text \<open>
  What the four command-line tools under \<^verbatim>\<open>src/tools\<close> do with whole frames: wrapping a payload in IPv4 and
  Ethernet and handing it to the device, the tests that recognise a packet of the peer, and the
  resolution of the next hop's hardware address. Each tool has its own copy of this code; the
  copies differ only where the definitions below say so. Lines printed for the user are left out.
\<close>

section \<open>Model\<close>

definition memcmp_eq :: "bytes \<Rightarrow> bytes \<Rightarrow> nat \<Rightarrow> bool option" where
  "memcmp_eq a b n = do { x \<leftarrow> mem_read a 0 n; y \<leftarrow> mem_read b 0 n; Some (x = y) }"

text \<open>
  The frame in its array and its length; the inner \<open>None\<close> is where the caller returns -1.
\<close>

type_synonym built_frame = "(bytes \<times> nat) option"

definition ethernet_wrap :: "netdev \<Rightarrow> bytes \<Rightarrow> u16 \<Rightarrow> bytes \<Rightarrow> nat \<Rightarrow> built_frame option" where
  "ethernet_wrap dev destination ethertype payload payload_len = do {
     dst \<leftarrow> memcpy (eth_destination ethernet_zero) 0 destination 0 ETHERNET_ADDR_LEN;
     src \<leftarrow> memcpy (eth_source ethernet_zero) 0 (nd_mac dev) 0 ETHERNET_ADDR_LEN;
     pl \<leftarrow> memcpy (eth_payload ethernet_zero) 0 payload 0 payload_len;
     (frame_len, frame) \<leftarrow> ethernet_serialize
       (Some (ethernet_zero\<lparr>eth_destination := dst, eth_source := src, eth_ethertype := ethertype,
         eth_payload := pl, eth_payload_len := payload_len\<rparr>))
       (Some (uninit ETHERNET_MAX_FRAME_LEN)) ETHERNET_MAX_FRAME_LEN;
     if frame_len = 0 then Some None
     else do { frame \<leftarrow> frame; Some (Some (frame, frame_len)) } }"

definition ip_frame ::
  "netdev \<Rightarrow> bytes \<Rightarrow> bytes \<Rightarrow> u8 \<Rightarrow> bytes \<Rightarrow> nat \<Rightarrow> u16 \<Rightarrow> built_frame option" where
  "ip_frame dev target_ip next_hop_mac protocol payload payload_len identification = do {
     (rc, ip) \<leftarrow> ipv4_build (Some undefined) (Some (nd_ipv4 dev)) (Some target_ip) protocol
       (Some payload) payload_len 64 identification;
     if rc \<noteq> 0 then Some None
     else do {
       (ip_len, ip_bytes) \<leftarrow> ipv4_serialize ip (Some (uninit ETHERNET_MAX_PAYLOAD)) ETHERNET_MAX_PAYLOAD;
       if ip_len = 0 then Some None
       else do {
         ip_bytes \<leftarrow> ip_bytes;
         ethernet_wrap dev next_hop_mac ETHERNET_TYPE_IPV4 ip_bytes ip_len } } }"

text \<open>\<^verbatim>\<open>netdev_send(dev, frame, frame_len) < 0 ? -1 : 0\<close>, after a frame could be built\<close>

definition send_built :: "netdev \<Rightarrow> built_frame option \<Rightarrow> int io" where
  "send_built dev built = io_bind (io_lift built) (\<lambda>f.
     case f of
       None \<Rightarrow> io_return (-1)
     | Some (frame, frame_len) \<Rightarrow>
         io_bind (netdev_send (Some dev) (Some frame) frame_len) (\<lambda>r. io_return (if r < 0 then -1 else 0)))"

text \<open>The tests of the receive loops down to the IPv4 addresses.\<close>

definition ip_from_peer :: "u8 \<Rightarrow> netdev \<Rightarrow> bytes \<Rightarrow> bytes \<Rightarrow> nat \<Rightarrow> ipv4_packet option option" where
  "ip_from_peer protocol dev peer buffer received = do {
     (rc, eth) \<leftarrow> ethernet_parse (Some buffer) received (Some undefined);
     if rc \<noteq> 0 then Some None
     else do {
       eth \<leftarrow> eth;
       if eth_ethertype eth \<noteq> ETHERNET_TYPE_IPV4 then Some None
       else do {
         (rc, ip) \<leftarrow> ipv4_parse (Some (eth_payload eth)) (eth_payload_len eth) (Some undefined);
         if rc \<noteq> 0 then Some None
         else do {
           ip \<leftarrow> ip;
           if ip_protocol ip \<noteq> protocol then Some None
           else do {
             from_peer \<leftarrow> memcmp_eq (ip_source_ip ip) peer IPV4_ADDR_LEN;
             if \<not> from_peer then Some None
             else do {
               to_us \<leftarrow> memcmp_eq (ip_destination_ip ip) (nd_ipv4 dev) IPV4_ADDR_LEN;
               if \<not> to_us then Some None else Some (Some ip) } } } } } }"

definition arp_request_frame :: "netdev \<Rightarrow> bytes \<Rightarrow> built_frame option" where
  "arp_request_frame dev next_hop_ip = do {
     (rc, request) \<leftarrow> arp_build_request (Some undefined) (Some (nd_mac dev)) (Some (nd_ipv4 dev)) (Some next_hop_ip);
     if rc \<noteq> 0 then Some None
     else do {
       (arp_len, arp_bytes) \<leftarrow> arp_serialize request (Some (uninit ARP_PACKET_LEN)) ARP_PACKET_LEN;
       if arp_len = 0 then Some None
       else do {
         arp_bytes \<leftarrow> arp_bytes;
         broadcast \<leftarrow> memset (eth_destination ethernet_zero) 0xFF ETHERNET_ADDR_LEN;
         ethernet_wrap dev broadcast ETHERNET_TYPE_ARP arp_bytes arp_len } } }"

text \<open>
  The tests on a reply; two of the tools do not compare the reply's target address with their own.
  The answer is the sender's hardware address.
\<close>

definition arp_reply_from :: "bool \<Rightarrow> netdev \<Rightarrow> bytes \<Rightarrow> bytes \<Rightarrow> nat \<Rightarrow> bytes option option" where
  "arp_reply_from check_target dev next_hop_ip buffer received = do {
     (rc, eth) \<leftarrow> ethernet_parse (Some buffer) received (Some undefined);
     if rc \<noteq> 0 then Some None
     else do {
       eth \<leftarrow> eth;
       if eth_ethertype eth \<noteq> ETHERNET_TYPE_ARP then Some None
       else do {
         (rc, reply) \<leftarrow> arp_parse (Some (eth_payload eth)) (eth_payload_len eth) (Some undefined);
         if rc \<noteq> 0 then Some None
         else do {
           reply \<leftarrow> reply;
           if arp_opcode reply \<noteq> ARP_OPCODE_REPLY then Some None
           else do {
             from_hop \<leftarrow> memcmp_eq (arp_sender_ip reply) next_hop_ip IPV4_ADDR_LEN;
             if \<not> from_hop then Some None
             else do {
               to_us \<leftarrow> (if check_target then memcmp_eq (arp_target_ip reply) (nd_ipv4 dev) IPV4_ADDR_LEN
                        else Some True);
               if \<not> to_us then Some None else Some (Some (arp_sender_mac reply)) } } } } } }"

definition ARP_TIMEOUT_MS :: int where [const_defs]: "ARP_TIMEOUT_MS = 3000"

text \<open>The result is the return code and the array \<^verbatim>\<open>next_hop_mac\<close>.\<close>

definition resolve_arp_with :: "bool \<Rightarrow> bool \<Rightarrow> netdev \<Rightarrow> bytes \<Rightarrow> bytes \<Rightarrow> (int \<times> bytes) io" where
  "resolve_arp_with stop_on_error check_target dev next_hop_ip next_hop_mac =
    io_bind (send_built dev (arp_request_frame dev next_hop_ip)) (\<lambda>rc.
      if rc < 0 then io_return (-1, next_hop_mac)
      else io_bind clock_gettime (\<lambda>start.
        case start of
          None \<Rightarrow> io_return (-1, next_hop_mac)
        | Some start \<Rightarrow>
            io_bind (wait_loop ARP_TIMEOUT_MS stop_on_error dev (arp_reply_from check_target dev next_hop_ip) start
                (uninit RECEIVE_BUFFER_SIZE)) (\<lambda>answer.
              case answer of
                Got mac \<Rightarrow> io_bind (io_lift (memcpy next_hop_mac 0 mac 0 ETHERNET_ADDR_LEN)) (\<lambda>m. io_return (0, m))
              | _ \<Rightarrow> io_return (-1, next_hop_mac))))"

text \<open>The four copies.\<close>

definition http_resolve_arp :: "netdev \<Rightarrow> bytes \<Rightarrow> bytes \<Rightarrow> (int \<times> bytes) io" where
  "http_resolve_arp = resolve_arp_with True True"

definition ping_resolve_arp :: "netdev \<Rightarrow> bytes \<Rightarrow> bytes \<Rightarrow> (int \<times> bytes) io" where
  "ping_resolve_arp = resolve_arp_with False True"

definition dns_resolve_arp :: "netdev \<Rightarrow> bytes \<Rightarrow> bytes \<Rightarrow> (int \<times> bytes) io" where
  "dns_resolve_arp = resolve_arp_with False False"

definition tcp_resolve_arp :: "netdev \<Rightarrow> bytes \<Rightarrow> bytes \<Rightarrow> (int \<times> bytes) io" where
  "tcp_resolve_arp = resolve_arp_with False False"

section \<open>Sending\<close>

definition eth_image :: "bytes \<Rightarrow> bytes \<Rightarrow> u16 \<Rightarrow> bytes \<Rightarrow> bytes" where
  "eth_image destination source ethertype payload = destination @ source @ u16_bytes ethertype @ payload"

lemma ethernet_wrap_ok:
  assumes "netdev_wf dev" and "length dst = 6" and "n \<le> 1500" and "n \<le> length pd"
  shows "ethernet_wrap dev dst ty pd n =
    Some (Some (eth_image dst (nd_mac dev) ty (take n pd) @ drop (14 + n) (uninit 1514), 14 + n))"
proof -
  let ?f = "ethernet_zero\<lparr>eth_destination := dst, eth_source := nd_mac dev, eth_ethertype := ty,
      eth_payload := take n pd @ replicate (1500 - n) 0, eth_payload_len := n\<rparr>"
  have v: "ethernet_valid ?f" using assms by (simp add: ethernet_defs netdev_wf_def)
  have w: "ethernet_wire ?f = eth_image dst (nd_mac dev) ty (take n pd)"
    using assms by (simp add: ethernet_wire_def eth_image_def)
  have l: "length (eth_image dst (nd_mac dev) ty (take n pd)) = 14 + n"
    using assms by (simp add: eth_image_def netdev_wf_def)
  have "ethernet_serialize (Some ?f) (Some (uninit 1514)) 1514 =
      Some (14 + n, Some (eth_image dst (nd_mac dev) ty (take n pd) @ drop (14 + n) (uninit 1514)))"
    using eth.serialize_wire [OF v, of 1514 "uninit 1514"] assms(3) unfolding w l by simp
  then show ?thesis
    using assms by (simp add: ethernet_wrap_def ethernet_zero_def const_defs netdev_wf_def mem_simps)
qed

lemma ip_frame_ok:
  fixes proto ident
  assumes "netdev_wf dev" and "length tip = 4" and "length mac = 6" and "n \<le> 1480" and "n \<le> length pd"
  defines "p \<equiv> ipv4_built (nd_ipv4 dev) tip proto (take n pd) 64 ident"
  shows "ip_frame dev tip mac proto pd n ident =
    Some (Some (eth_image mac (nd_mac dev) ETHERNET_TYPE_IPV4 (ipv4_wire p) @ drop (34 + n) (uninit 1514), 34 + n))"
proof -
  have dv: "length (nd_ipv4 dev) = 4" using assms(1) by (simp add: netdev_wf_def)
  have b: "ipv4_build (Some undefined) (Some (nd_ipv4 dev)) (Some tip) proto (Some pd) n 64 ident = Some (0, Some p)"
    using ipv4_build_ok [of "nd_ipv4 dev" tip n pd undefined proto 64 ident] assms dv by simp
  have v: "ipv4_valid p" unfolding p_def using assms dv by (intro ipv4_built_valid) simp_all
  have l: "length (ipv4_wire p) = 20 + n"
    using length_ipv4_wire [OF v] assms(5) by (simp add: p_def ipv4_built_def)
  have "ipv4_serialize (Some p) (Some (uninit 1500)) 1500 =
      Some (20 + n, Some (ipv4_wire p @ drop (20 + n) (uninit 1500)))"
    using ipv4_serialize_wire [OF v, of 1500 "uninit 1500"] assms(4) unfolding l by simp
  moreover have "ethernet_wrap dev mac ETHERNET_TYPE_IPV4 (ipv4_wire p @ drop (20 + n) (uninit 1500)) (20 + n) =
      Some (Some (eth_image mac (nd_mac dev) ETHERNET_TYPE_IPV4 (ipv4_wire p) @ drop (34 + n) (uninit 1514), 34 + n))"
    using ethernet_wrap_ok [OF assms(1,3), of "20 + n" "ipv4_wire p @ drop (20 + n) (uninit 1500)"] assms(4) l by simp
  ultimately show ?thesis using b by (simp add: ip_frame_def const_defs)
qed

section \<open>Receiving\<close>

lemma memcmp_eq_ok: "length a = n \<Longrightarrow> length b = n \<Longrightarrow> memcmp_eq a b n = Some (a = b)"
  by (simp add: memcmp_eq_def mem_read_Some)

text \<open>The frame a test sees, as its addresses and payload.\<close>

definition eth_payload_of :: "u16 \<Rightarrow> bytes \<Rightarrow> bytes option" where
  "eth_payload_of ethertype f =
    (if 14 \<le> length f \<and> length f \<le> 1514 \<and> be16 (f ! 12) (f ! 13) = ethertype then Some (drop 14 f) else None)"

lemma ethernet_received:
  assumes "0 < n" and "n \<le> length b"
  shows "\<exists>rc e. ethernet_parse (Some b) n (Some g) = Some (rc, Some e)
    \<and> (if 14 \<le> n \<and> n \<le> 1514
       then rc = 0 \<and> eth_ethertype e = be16 (take n b ! 12) (take n b ! 13)
         \<and> eth_payload e = drop 14 (take n b) @ replicate (1514 - n) 0 \<and> eth_payload_len e = length (drop 14 (take n b))
       else rc \<noteq> 0)"
proof (cases "14 \<le> n \<and> n \<le> 1514")
  case True
  with assms show ?thesis using ethernet_parse_ok [of n b g] by (simp add: drop_take)
next
  case False
  then show ?thesis
    using ethernet_parse_short [of n b g] ethernet_parse_long [of n b g] by (cases "n < 14") auto
qed

lemma ipv4_accepts_append:
  assumes "m = length x"
  shows "ipv4_accepts (x @ r) m \<longleftrightarrow> ipv4_accepts x m"
proof (cases "20 \<le> m")
  case True
  then show ?thesis using assms by (auto simp: ipv4_accepts_def nth_append)
qed (simp add: ipv4_accepts_def)

lemma ipv4_decode_append:
  assumes "ipv4_accepts x (length x)"
  shows "ipv4_decode (x @ r) = ipv4_decode x"
proof -
  let ?h = "unat (x ! 0 AND 0x0F) * 4" and ?t = "unat (be16 (x ! 2) (x ! 3))"
  have b: "20 \<le> length x" "20 \<le> ?h" "?h \<le> ?t" "?t \<le> length x"
    using assms nibble_bound [of "x ! 0"] by (simp_all add: ipv4_accepts_def)
  have sl: "take k (drop j (x @ r)) = take k (drop j x)" if "j + k \<le> length x" for j k using that by simp
  have nth: "(x @ r) ! i = x ! i" if "i < 20" for i using that b(1) by (simp add: nth_append)
  show ?thesis
    unfolding ipv4_decode_def Let_def using b by (simp add: nth sl)
qed

definition ip_verdict :: "u8 \<Rightarrow> netdev \<Rightarrow> bytes \<Rightarrow> bytes \<Rightarrow> ipv4_packet option" where
  "ip_verdict protocol dev peer f = do {
     x \<leftarrow> eth_payload_of ETHERNET_TYPE_IPV4 f;
     if ipv4_accepts x (length x) \<and> ip_protocol (ipv4_decode x) = protocol
        \<and> ip_source_ip (ipv4_decode x) = peer \<and> ip_destination_ip (ipv4_decode x) = nd_ipv4 dev
     then Some (ipv4_decode x) else None }"

lemma ipv4_decode_lengths:
  assumes "ipv4_accepts x (length x)"
  shows "length (ip_source_ip (ipv4_decode x)) = 4" and "length (ip_destination_ip (ipv4_decode x)) = 4"
    and "ip_payload_len (ipv4_decode x) \<le> 65515" and "length (ip_payload (ipv4_decode x)) = 65515"
proof -
  have b: "20 \<le> length x" "20 \<le> unat (x ! 0 AND 0x0F) * 4" "unat (be16 (x ! 2) (x ! 3)) \<le> length x"
    "unat (x ! 0 AND 0x0F) * 4 \<le> unat (be16 (x ! 2) (x ! 3))"
    using assms nibble_bound [of "x ! 0"] by (simp_all add: ipv4_accepts_def)
  then show "length (ip_source_ip (ipv4_decode x)) = 4" "length (ip_destination_ip (ipv4_decode x)) = 4"
    by (simp_all add: ipv4_decode_def Let_def)
  show l: "ip_payload_len (ipv4_decode x) \<le> 65515"
    using b unat_u16_less [of "be16 (x ! 2) (x ! 3)"] by (simp add: ipv4_decode_def Let_def)
  show "length (ip_payload (ipv4_decode x)) = 65515"
    using b l by (simp add: ipv4_decode_def Let_def)
qed

lemma ip_from_peer_eq:
  assumes "netdev_wf dev" and "length peer = 4" and "0 < n" and "n \<le> length b"
  shows "ip_from_peer proto dev peer b n = Some (ip_verdict proto dev peer (take n b))"
proof -
  obtain rc e where e: "ethernet_parse (Some b) n (Some undefined) = Some (rc, Some e)"
    and c: "if 14 \<le> n \<and> n \<le> 1514
       then rc = 0 \<and> eth_ethertype e = be16 (take n b ! 12) (take n b ! 13)
         \<and> eth_payload e = drop 14 (take n b) @ replicate (1514 - n) 0 \<and> eth_payload_len e = length (drop 14 (take n b))
       else rc \<noteq> 0"
    using ethernet_received [OF assms(3,4)] by blast
  show ?thesis
  proof (cases "14 \<le> n \<and> n \<le> 1514 \<and> eth_ethertype e = ETHERNET_TYPE_IPV4")
    case True
    let ?x = "drop 14 (take n b)" and ?z = "replicate (1514 - n) 0"
    have p: "eth_payload_of ETHERNET_TYPE_IPV4 (take n b) = Some ?x"
      using True c assms(4) by (auto simp: eth_payload_of_def)
    have e': "rc = 0" "eth_payload e = ?x @ ?z" "eth_payload_len e = length ?x" using True c by auto
    show ?thesis
    proof (cases "ipv4_accepts ?x (length ?x)")
      case acc: True
      then have "ipv4_parse (Some (?x @ ?z)) (length ?x) (Some undefined) = Some (0, Some (ipv4_decode ?x))"
        using ipv4_parse_ok [of "length ?x" "?x @ ?z"] ipv4_accepts_append [of "length ?x" ?x ?z]
          ipv4_decode_append [OF acc] by simp
      then show ?thesis
        using True acc e e' p ipv4_decode_lengths [OF acc] assms(1,2)
        by (simp add: ip_from_peer_def ip_verdict_def memcmp_eq_ok const_defs netdev_wf_def)
    next
      case rej: False
      then obtain rc' where "rc' \<noteq> 0"
        "ipv4_parse (Some (?x @ ?z)) (length ?x) (Some undefined) = Some (rc', Some undefined)"
        using ipv4_parse_reject [of "length ?x" "?x @ ?z" undefined] ipv4_accepts_append [of "length ?x" ?x ?z] by auto
      then show ?thesis using True rej e e' p by (simp add: ip_from_peer_def ip_verdict_def)
    qed
  next
    case False
    then have "ip_verdict proto dev peer (take n b) = None"
      using c assms(4) by (auto simp: ip_verdict_def eth_payload_of_def)
    then show ?thesis using False c e by (auto simp: ip_from_peer_def split: if_splits)
  qed
qed

text \<open>A packet of the peer, possibly padded by the link.\<close>

lemma ip_verdict_wire:
  assumes v: "ipv4_valid p" and "ip_source_ip p = peer" and "ip_destination_ip p = nd_ipv4 dev"
    and "length d = 6" and "length s = 6" and len: "length (ipv4_wire p) + length pad \<le> 1500"
  shows "ip_verdict (ip_protocol p) dev peer (eth_image d s ETHERNET_TYPE_IPV4 (ipv4_wire p @ pad)) = Some (ipv4_norm p)"
proof -
  have pl: "eth_payload_of ETHERNET_TYPE_IPV4 (eth_image d s ETHERNET_TYPE_IPV4 (ipv4_wire p @ pad)) = Some (ipv4_wire p @ pad)"
    using assms(4-6) by (simp add: eth_payload_of_def eth_image_def nth_append)
  have "ipv4_accepts (ipv4_wire p @ pad) (length (ipv4_wire p @ pad))"
    using ipv4_accepts_wire [OF v, of pad] by (auto simp: ipv4_accepts_def)
  then show ?thesis
    using pl ipv4_decode_wire [OF v, of pad] assms(2,3) by (simp add: ip_verdict_def ipv4_norm_def)
qed

interpretation ipf: frame_test "ip_from_peer proto dev peer" "ip_verdict proto dev peer" "netdev_wf dev \<and> length peer = 4"
  for proto dev peer
  by unfold_locales (simp add: ip_from_peer_eq)

definition arp_verdict :: "bool \<Rightarrow> netdev \<Rightarrow> bytes \<Rightarrow> bytes \<Rightarrow> bytes option" where
  "arp_verdict check_target dev next_hop_ip f = do {
     x \<leftarrow> eth_payload_of ETHERNET_TYPE_ARP f;
     if 28 \<le> length x \<and> arp_header_ok (take 8 x) \<and> arp_opcode (arp_decode x) = ARP_OPCODE_REPLY
        \<and> arp_sender_ip (arp_decode x) = next_hop_ip
        \<and> (check_target \<longrightarrow> arp_target_ip (arp_decode x) = nd_ipv4 dev)
     then Some (arp_sender_mac (arp_decode x)) else None }"

lemma arp_decode_append:
  assumes "28 \<le> length x"
  shows "arp_decode (x @ r) = arp_decode x"
proof -
  have "(x @ r) ! i = x ! i" if "i < 28" for i using that assms by (simp add: nth_append)
  then show ?thesis using assms by (simp add: arp_decode_def)
qed

lemma arp_decode_lengths:
  assumes "28 \<le> length x"
  shows "length (arp_sender_ip (arp_decode x)) = 4" "length (arp_target_ip (arp_decode x)) = 4"
    "length (arp_sender_mac (arp_decode x)) = 6"
  using assms by (simp_all add: arp_decode_def)

lemma arp_reply_from_eq:
  assumes "netdev_wf dev" and "length hop = 4" and "0 < n" and "n \<le> length b"
  shows "arp_reply_from check dev hop b n = Some (arp_verdict check dev hop (take n b))"
proof -
  obtain rc e where e: "ethernet_parse (Some b) n (Some undefined) = Some (rc, Some e)"
    and c: "if 14 \<le> n \<and> n \<le> 1514
       then rc = 0 \<and> eth_ethertype e = be16 (take n b ! 12) (take n b ! 13)
         \<and> eth_payload e = drop 14 (take n b) @ replicate (1514 - n) 0 \<and> eth_payload_len e = length (drop 14 (take n b))
       else rc \<noteq> 0"
    using ethernet_received [OF assms(3,4)] by blast
  show ?thesis
  proof (cases "14 \<le> n \<and> n \<le> 1514 \<and> eth_ethertype e = ETHERNET_TYPE_ARP")
    case True
    let ?x = "drop 14 (take n b)" and ?z = "replicate (1514 - n) 0"
    have p: "eth_payload_of ETHERNET_TYPE_ARP (take n b) = Some ?x"
      using True c assms(4) by (auto simp: eth_payload_of_def)
    have e': "rc = 0" "eth_payload e = ?x @ ?z" "eth_payload_len e = length ?x" using True c by auto
    show ?thesis
    proof (cases "28 \<le> length ?x \<and> arp_header_ok (take 8 ?x)")
      case acc: True
      then have "arp_parse (Some (?x @ ?z)) (length ?x) (Some undefined) = Some (0, Some (arp_decode ?x))"
        using arp_parse_ok [of "length ?x" "?x @ ?z"] arp_decode_append [of ?x ?z] by simp
      moreover have "length (arp_sender_ip (arp_decode ?x)) = 4" "length (arp_target_ip (arp_decode ?x)) = 4"
        using acc arp_decode_lengths [of ?x] by blast+
      ultimately show ?thesis
        using True acc e e' p assms(1,2)
        by (simp add: arp_reply_from_def arp_verdict_def memcmp_eq_ok const_defs netdev_wf_def)
    next
      case rej: False
      then have "length ?x < 28 \<or> \<not> arp_header_ok (take 8 (?x @ ?z))" by (cases "28 \<le> length ?x") auto
      then obtain rc' where "rc' \<noteq> 0" "arp_parse (Some (?x @ ?z)) (length ?x) (Some undefined) = Some (rc', Some undefined)"
        using arp_parse_reject [of "length ?x" "?x @ ?z" undefined] by auto
      then show ?thesis using True rej e e' p by (auto simp: arp_reply_from_def arp_verdict_def)
    qed
  next
    case False
    then have "arp_verdict check dev hop (take n b) = None"
      using c assms(4) by (auto simp: arp_verdict_def eth_payload_of_def)
    then show ?thesis using False c e by (auto simp: arp_reply_from_def split: if_splits)
  qed
qed

interpretation arpf: frame_test "arp_reply_from check dev hop" "arp_verdict check dev hop" "netdev_wf dev \<and> length hop = 4"
  for check dev hop
  by unfold_locales (simp add: arp_reply_from_eq)

lemma poll_verdict_frame:
  "arpf.poll_verdict check dev hop e = Some x \<longleftrightarrow> (\<exists>f. e = Recv_Frame f \<and> arp_verdict check dev hop (take 2048 f) = Some x)"
  by (cases e) (auto simp: arpf.poll_verdict_def arp_verdict_def eth_payload_of_def)

section \<open>Address resolution\<close>

definition arp_request_image :: "netdev \<Rightarrow> bytes \<Rightarrow> bytes" where
  "arp_request_image dev hop = eth_image (replicate 6 0xFF) (nd_mac dev) ETHERNET_TYPE_ARP
     ([0, 1, 8, 0, 6, 4, 0, 1] @ nd_mac dev @ nd_ipv4 dev @ replicate 6 0 @ hop)"

lemma arp_request_frame_ok:
  assumes "netdev_wf dev" and "length hop = 4"
  shows "arp_request_frame dev hop = Some (Some (arp_request_image dev hop @ drop 42 (uninit 1514), 42))"
proof -
  let ?p = "\<lparr> arp_hardware_type = 1, arp_protocol_type = 0x0800, arp_hardware_addr_len = 6,
    arp_protocol_addr_len = 4, arp_opcode = 1, arp_sender_mac = nd_mac dev, arp_sender_ip = nd_ipv4 dev,
    arp_target_mac = replicate 6 0, arp_target_ip = hop \<rparr>"
  let ?w = "[0, 1, 8, 0, 6, 4, 0, 1] @ nd_mac dev @ nd_ipv4 dev @ replicate 6 0 @ hop"
  have v: "arp_valid ?p" using assms by (simp add: arp_defs netdev_wf_def)
  have w: "arp_wire ?p = ?w" by (simp add: arp_wire_def u16_bytes_def)
  have l: "length ?w = 28" using assms by (simp add: netdev_wf_def)
  have "arp_serialize (Some ?p) (Some (uninit 28)) 28 = Some (28, Some (?w @ drop 28 (uninit 28)))"
    using arpc.serialize_wire [OF v, of 28 "uninit 28"] unfolding w l by simp
  moreover have "ethernet_wrap dev (replicate 6 0xFF) ETHERNET_TYPE_ARP (?w @ drop 28 (uninit 28)) 28 =
      Some (Some (arp_request_image dev hop @ drop 42 (uninit 1514), 42))"
    using ethernet_wrap_ok [OF assms(1), of "replicate 6 0xFF" 28 "?w @ drop 28 (uninit 28)"] l
    by (simp add: arp_request_image_def)
  ultimately show ?thesis
    using assms arp_build_request_ok [of "nd_mac dev" "nd_ipv4 dev" hop]
    by (simp add: arp_request_frame_def const_defs netdev_wf_def memset_Some ethernet_zero_def)
qed

lemma send_built_eq:
  assumes "0 \<le> nd_fd dev" and "img \<noteq> []"
  shows "send_built dev (Some (Some (img @ junk, length img))) w =
    (case w_sends w of [] \<Rightarrow> Waiting
     | sent # rest \<Rightarrow> if sent < 0 then Outcome (-1) (w\<lparr>w_sends := rest\<rparr>)
         else Outcome 0 (w\<lparr>w_sends := rest, w_sent := w_sent w @ [img]\<rparr>))"
  using assms
  by (auto simp: send_built_def netdev_send_def io_bind_def mem_read_Some split: list.splits)

lemma arp_send:
  assumes "netdev_wf dev" and "0 \<le> nd_fd dev" and "length hop = 4"
  shows "send_built dev (arp_request_frame dev hop) w =
    (case w_sends w of [] \<Rightarrow> Waiting
     | sent # rest \<Rightarrow> if sent < 0 then Outcome (-1) (w\<lparr>w_sends := rest\<rparr>)
         else Outcome 0 (w\<lparr>w_sends := rest, w_sent := w_sent w @ [arp_request_image dev hop]\<rparr>))"
proof -
  have "length (arp_request_image dev hop) = 42" "arp_request_image dev hop \<noteq> []"
    using assms by (auto simp: arp_request_image_def eth_image_def netdev_wf_def)
  then show ?thesis
    unfolding arp_request_frame_ok [OF assms(1,3)]
    using send_built_eq [OF assms(2), of "arp_request_image dev hop"] by simp
qed

lemma resolve_arp_result:
  assumes "netdev_wf dev" and "0 \<le> nd_fd dev" and "length hop = 4" and "length old_mac = 6"
  shows "resolve_arp_with stop check dev hop old_mac w \<noteq> Undefined"
    and "resolve_arp_with stop check dev hop old_mac w = Outcome (rc, mac) w' \<Longrightarrow>
      rc = -1 \<and> mac = old_mac \<or> rc = 0 \<and> w_sent w' = w_sent w @ [arp_request_image dev hop]
        \<and> (\<exists>f. Recv_Frame f \<in> set (w_polls w) \<and> arp_verdict check dev hop (take 2048 f) = Some mac)"
proof -
  let ?wait = "\<lambda>start. wait_loop ARP_TIMEOUT_MS stop dev (arp_reply_from check dev hop) start (uninit RECEIVE_BUFFER_SIZE)"
  have ready: "netdev_wf dev \<and> length hop = 4" and len: "length (uninit RECEIVE_BUFFER_SIZE) = 2048"
    using assms by (simp_all add: const_defs)
  note safe = arpf.wait_safe [OF ready assms(2) len] and frame = arpf.wait_frame [OF ready assms(2) len]
  have mac6: "length x = 6" if "arp_verdict check dev hop f = Some x" for f x
    using that by (auto simp: arp_verdict_def arp_decode_lengths bind_eq_Some_conv split: if_splits)
  have copy: "memcpy old_mac 0 x 0 ETHERNET_ADDR_LEN = Some x" if "length x = 6" for x
    using that assms(4) by (simp add: memcpy_Some const_defs blit_0)
  have tail: "io_bind (?wait start) (\<lambda>answer. case answer of
          Got x \<Rightarrow> io_bind (io_lift (memcpy old_mac 0 x 0 ETHERNET_ADDR_LEN)) (\<lambda>m. io_return (0, m))
        | _ \<Rightarrow> io_return (-1, old_mac)) v \<noteq> Undefined
    \<and> (\<forall>rc mac w'. io_bind (?wait start) (\<lambda>answer. case answer of
          Got x \<Rightarrow> io_bind (io_lift (memcpy old_mac 0 x 0 ETHERNET_ADDR_LEN)) (\<lambda>m. io_return (0, m))
        | _ \<Rightarrow> io_return (-1, old_mac)) v = Outcome (rc, mac) w' \<longrightarrow>
      rc = -1 \<and> mac = old_mac \<or> rc = 0 \<and> w_sent w' = w_sent v
        \<and> (\<exists>f. Recv_Frame f \<in> set (w_polls v) \<and> arp_verdict check dev hop (take 2048 f) = Some mac))" for start v
  proof (cases "?wait start v")
    case (Outcome r v')
    note fr = frame [OF Outcome]
    show ?thesis
    proof (cases r)
      case (Got x)
      with fr obtain f where f: "Recv_Frame f \<in> set (w_polls v)" "arp_verdict check dev hop (take 2048 f) = Some x"
        by (auto simp: poll_verdict_frame)
      then show ?thesis
        using Outcome Got fr copy [OF mac6 [OF f(2)]] by (auto simp: io_bind_Outcome only_input_def)
    qed (use Outcome in \<open>simp_all add: io_bind_Outcome\<close>)
  qed (use safe in \<open>auto simp: io_bind_def\<close>)
  note defs = resolve_arp_with_def io_bind_def [of "send_built dev (arp_request_frame dev hop)"]
    io_bind_def [of clock_gettime] arp_send [OF assms(1-3)] clock_gettime_def
  show "resolve_arp_with stop check dev hop old_mac w \<noteq> Undefined"
    using tail by (auto simp: defs split: list.splits option.splits)
  show "resolve_arp_with stop check dev hop old_mac w = Outcome (rc, mac) w' \<Longrightarrow>
      rc = -1 \<and> mac = old_mac \<or> rc = 0 \<and> w_sent w' = w_sent w @ [arp_request_image dev hop]
        \<and> (\<exists>f. Recv_Frame f \<in> set (w_polls w) \<and> arp_verdict check dev hop (take 2048 f) = Some mac)"
    using tail by (fastforce simp: defs split: list.splits option.splits if_splits)
qed

text \<open>The reply of the next hop, possibly padded by the link.\<close>

lemma arp_verdict_reply:
  assumes "arp_valid p" and "arp_opcode p = 2" and "arp_sender_ip p = hop" and "arp_target_ip p = nd_ipv4 dev"
    and "length d = 6" and "length s = 6" and "length pad \<le> 1472"
  shows "arp_verdict check dev hop (eth_image d s ETHERNET_TYPE_ARP (arp_wire p @ pad)) = Some (arp_sender_mac p)"
proof -
  have len: "length (arp_wire p) = 28" using assms(1) by (simp add: arp_valid_def length_arp_wire)
  have pl: "eth_payload_of ETHERNET_TYPE_ARP (eth_image d s ETHERNET_TYPE_ARP (arp_wire p @ pad)) = Some (arp_wire p @ pad)"
    using assms(5-7) len by (simp add: eth_payload_of_def eth_image_def nth_append)
  have parsed: "arp_parse (Some (arp_wire p @ pad)) 28 (Some undefined) = Some (0, Some p)"
    using arp_parse_wire [OF assms(1), of pad undefined] len by simp
  have ok: "arp_header_ok (take 8 (arp_wire p @ pad))"
  proof (rule ccontr)
    assume "\<not> arp_header_ok (take 8 (arp_wire p @ pad))"
    then show False
      using arp_parse_reject [of 28 "arp_wire p @ pad" undefined] len parsed by auto
  qed
  then have "arp_decode (arp_wire p @ pad) = p"
    using arp_parse_ok [of 28 "arp_wire p @ pad" undefined] len parsed by simp
  then show ?thesis
    using assms(2-4) pl ok len by (simp add: arp_verdict_def const_defs)
qed

text \<open>A device with an open socket, and a world in which its next hop answers.\<close>

definition example_device :: netdev where
  "example_device = netdev_zero\<lparr>nd_fd := 3, nd_mac := [2, 0, 0, 0, 0, 2], nd_ipv4 := [10, 0, 0, 2],
     nd_netmask := [255, 255, 255, 0]\<rparr>"

definition example_arp_reply :: arp_packet where
  "example_arp_reply = \<lparr> arp_hardware_type = 1, arp_protocol_type = 0x0800, arp_hardware_addr_len = 6,
     arp_protocol_addr_len = 4, arp_opcode = 2, arp_sender_mac = [2, 0, 0, 0, 0, 1], arp_sender_ip = [10, 0, 0, 1],
     arp_target_mac = [2, 0, 0, 0, 0, 2], arp_target_ip = [10, 0, 0, 2] \<rparr>"

definition example_world :: world where
  "example_world = \<lparr> w_clock = [Some \<lparr> tv_sec = 1, tv_nsec = 0 \<rparr>, Some \<lparr> tv_sec = 1, tv_nsec = 5 \<rparr>,
       Some \<lparr> tv_sec = 2, tv_nsec = 0 \<rparr>],
     w_polls = [Recv_Frame [1, 2, 3], Recv_Frame (eth_image [2, 0, 0, 0, 0, 2] [2, 0, 0, 0, 0, 1] ETHERNET_TYPE_ARP
       (arp_wire example_arp_reply @ replicate 18 0))],
     w_sends = [42], w_allocs = [], w_sent = [], w_stdout = [], w_closed = [] \<rparr>"

section \<open>Properties\<close>

text \<open>
  (C37) Address resolution is free of undefined behaviour whatever the network delivers. When it
  succeeds, it has broadcast exactly one request for the next hop, and the address it stores was sent, in a
  received frame, as an ARP reply of the next hop (and to this host's address, where the tool checks
  it); when it fails, the caller's array is unchanged.
\<close>

theorem arp_resolution_sound:
  assumes "netdev_wf dev" and "0 \<le> nd_fd dev" and "length hop = 4" and "length old_mac = 6"
  shows "resolve_arp_with stop check dev hop old_mac w \<noteq> Undefined
    \<and> (\<forall>rc mac w'. resolve_arp_with stop check dev hop old_mac w = Outcome (rc, mac) w' \<longrightarrow>
      rc = -1 \<and> mac = old_mac \<or> rc = 0 \<and> w_sent w' = w_sent w @ [arp_request_image dev hop]
        \<and> (\<exists>f. Recv_Frame f \<in> set (w_polls w) \<and> arp_verdict check dev hop (take 2048 f) = Some mac))"
  using resolve_arp_result [OF assms] by blast

theorem arp_resolution_sound_witness:
  "resolve_arp_with True True example_device [10, 0, 0, 1] (replicate 6 0) example_world \<noteq> Undefined"
  using arp_resolution_sound [of example_device "[10, 0, 0, 1]" "replicate 6 0" True True example_world]
  by (simp add: example_device_def netdev_wf_def netdev_zero_def const_defs)

text \<open>
  (C36) Address resolution succeeds: when the request can be sent and a genuine reply arrives, padded or
  not, behind any number of frames that are not such a reply and before the deadline, the tools store
  the next hop's hardware address and return 0.
\<close>

theorem arp_resolution_completes:
  assumes "netdev_wf dev" and "0 \<le> nd_fd dev" and "length hop = 4" and "length old_mac = 6"
    and "arp_valid p" and "arp_opcode p = 2" and "arp_sender_ip p = hop" and "arp_target_ip p = nd_ipv4 dev"
    and "length d = 6" and "length s = 6" and "length pad \<le> 1472"
    and "w_sends w = sent # sends" and "0 \<le> sent"
    and "w_clock w = Some start # map Some (ts @ [t]) @ cs" and "length ts = length fs"
    and "list_all (\<lambda>now. elapsed_ns start now \<le> 3000000000) (ts @ [t])"
    and "list_all (\<lambda>f. arp_verdict check dev hop (take 2048 f) = None) fs"
    and "w_polls w = map Recv_Frame fs @ Recv_Frame (eth_image d s ETHERNET_TYPE_ARP (arp_wire p @ pad)) # ps"
  shows "\<exists>w'. resolve_arp_with stop check dev hop old_mac w = Outcome (0, arp_sender_mac p) w'
    \<and> w_sent w' = w_sent w @ [arp_request_image dev hop] \<and> w_polls w' = ps \<and> w_clock w' = cs"
proof -
  let ?f = "eth_image d s ETHERNET_TYPE_ARP (arp_wire p @ pad)"
  let ?w = "w\<lparr>w_sends := sends, w_sent := w_sent w @ [arp_request_image dev hop], w_clock := map Some (ts @ [t]) @ cs\<rparr>"
  have len: "length (arp_wire p) = 28" using assms(5) by (simp add: arp_valid_def length_arp_wire)
  have ver: "arp_verdict check dev hop ?f = Some (arp_sender_mac p)"
    by (rule arp_verdict_reply [OF assms(5-11)])
  have short: "take 2048 ?f = ?f" using assms(9-11) len by (simp add: eth_image_def)
  have "arpf.poll_verdict check dev hop (Recv_Frame ?f) = Some (arp_sender_mac p)"
    using ver short by (auto simp: poll_verdict_frame)
  moreover have "list_all (\<lambda>e. e \<in> range Recv_Frame \<and> arpf.poll_verdict check dev hop e = None) (map Recv_Frame fs)"
    using assms(17) by (auto simp: list_all_iff arpf.poll_verdict_def)
  ultimately have "wait_loop ARP_TIMEOUT_MS stop dev (arp_reply_from check dev hop) start (uninit RECEIVE_BUFFER_SIZE) ?w =
      Outcome (Got (arp_sender_mac p)) (?w\<lparr>w_clock := cs, w_polls := ps\<rparr>)"
    using assms(1-3,15,16,18) by (intro arpf.wait_finds [where es = "map Recv_Frame fs" and ts = ts and t = t]) (simp_all add: const_defs)
  moreover have "memcpy old_mac 0 (arp_sender_mac p) 0 ETHERNET_ADDR_LEN = Some (arp_sender_mac p)"
    using assms(4,5) by (simp add: memcpy_Some const_defs blit_0 arp_valid_def arp_wf_def)
  ultimately show ?thesis
    using assms(12-14) arp_send [OF assms(1-3), of w]
    by (simp add: resolve_arp_with_def io_bind_def clock_gettime_def)
qed

theorem arp_resolution_completes_witness:
  "\<exists>w'. resolve_arp_with True True example_device [10, 0, 0, 1] (replicate 6 0) example_world =
      Outcome (0, [2, 0, 0, 0, 0, 1]) w' \<and> w_sent w' = [arp_request_image example_device [10, 0, 0, 1]]"
proof -
  have v: "arp_valid example_arp_reply" by (simp add: example_arp_reply_def arp_defs)
  have "arp_verdict True example_device [10, 0, 0, 1] (take 2048 [1, 2, 3]) = None"
    by (simp add: arp_verdict_def eth_payload_of_def)
  then show ?thesis
    using arp_resolution_completes [where dev = example_device and hop = "[10, 0, 0, 1]" and p = example_arp_reply
        and old_mac = "replicate 6 0" and stop = True and check = True and w = example_world and fs = "[[1, 2, 3]]"
        and d = "[2, 0, 0, 0, 0, 2]" and s = "[2, 0, 0, 0, 0, 1]" and pad = "replicate 18 0" and sent = 42
        and sends = "[]" and ps = "[]" and cs = "[]" and start = "\<lparr> tv_sec = 1, tv_nsec = 0 \<rparr>"
        and ts = "[\<lparr> tv_sec = 1, tv_nsec = 5 \<rparr>]" and t = "\<lparr> tv_sec = 2, tv_nsec = 0 \<rparr>"] v
    by (auto simp: example_device_def netdev_wf_def netdev_zero_def const_defs example_arp_reply_def example_world_def elapsed_ns_def)
qed

end
