(* ===== verification/ToolSession.thy ===== *)
theory ToolSession
  imports ToolFrames
begin

text \<open>
  What the \<^verbatim>\<open>main\<close> functions of the four tools under \<^verbatim>\<open>src/tools\<close> have in common: open the device, choose the
  next hop, resolve its hardware address, run, and close the device on every way out; and the
  exchange of one request and one answer that the ping and the DNS tool consist of. The two
  differ in the frame they send and in the test on what comes back.
\<close>

section \<open>Model\<close>

text \<open>
  Send a frame and wait for the answer. \<open>None\<close> is where the caller returns -1. The clock is read before
  sending, and once more for the round-trip time the tools print.
\<close>

definition exchange :: "int \<Rightarrow> netdev \<Rightarrow> built_frame option \<Rightarrow> (bytes \<Rightarrow> nat \<Rightarrow> 'a option option) \<Rightarrow> 'a option io" where
  "exchange timeout_ms dev built accept = io_bind (io_lift built) (\<lambda>f.
     case f of
       None \<Rightarrow> io_return None
     | Some (frame_bytes, frame_len) \<Rightarrow>
         io_bind clock_gettime (\<lambda>start.
           case start of
             None \<Rightarrow> io_return None
           | Some start \<Rightarrow>
               io_bind (netdev_send (Some dev) (Some frame_bytes) frame_len) (\<lambda>sent.
                 if sent < 0 then io_return None
                 else io_bind (wait_loop timeout_ms False dev accept start (uninit RECEIVE_BUFFER_SIZE)) (\<lambda>answer.
                   case answer of
                     Got x \<Rightarrow> io_bind clock_gettime (\<lambda>end_time.
                       io_return (case end_time of None \<Rightarrow> None | Some _ \<Rightarrow> Some x))
                   | _ \<Rightarrow> io_return None))))"

text \<open>The next hop; the inner \<open>None\<close> is a remote target without a gateway.\<close>

definition next_hop :: "netdev \<Rightarrow> bytes \<Rightarrow> bytes option option" where
  "next_hop dev target_ip = do {
     is_local \<leftarrow> netdev_ipv4_is_local (Some dev) (Some target_ip);
     if is_local \<noteq> 0 then do { hop \<leftarrow> memcpy (uninit IPV4_ADDR_LEN) 0 target_ip 0 IPV4_ADDR_LEN; Some (Some hop) }
     else if nd_has_gateway dev = 0 then Some None
     else do { hop \<leftarrow> memcpy (uninit IPV4_ADDR_LEN) 0 (nd_gateway dev) 0 IPV4_ADDR_LEN; Some (Some hop) } }"

definition io_closed :: "int list \<Rightarrow> unit io" where
  "io_closed fds w = Outcome () (w\<lparr>w_closed := w_closed w @ fds\<rparr>)"

text \<open>\<^verbatim>\<open>netdev_close(&dev); return status;\<close>\<close>

definition tool_close :: "netdev \<Rightarrow> int \<Rightarrow> int io" where
  "tool_close dev status = (let (_, closed) = netdev_close (Some dev) in io_bind (io_closed closed) (\<lambda>_. io_return status))"

text \<open>The body of \<^verbatim>\<open>main\<close> once the arguments are read.\<close>

definition tool_session ::
  "(netdev \<Rightarrow> bytes \<Rightarrow> bytes \<Rightarrow> (int \<times> bytes) io) \<Rightarrow> (netdev \<Rightarrow> bytes \<Rightarrow> bytes \<Rightarrow> int io) \<Rightarrow>
    kernel \<Rightarrow> string \<Rightarrow> bytes \<Rightarrow> int io" where
  "tool_session resolve run k interface_name target_ip =
    io_bind (io_lift (netdev_open k (Some undefined) (Some interface_name))) (\<lambda>(rc, dev, closed).
      io_bind (io_closed closed) (\<lambda>_.
        if rc \<noteq> 0 then io_return 1
        else io_bind (io_lift dev) (\<lambda>dev.
          io_bind (io_lift (next_hop dev target_ip)) (\<lambda>hop.
            case hop of
              None \<Rightarrow> tool_close dev 1
            | Some next_hop_ip \<Rightarrow>
                io_bind (resolve dev next_hop_ip (uninit ETHERNET_ADDR_LEN)) (\<lambda>(rc, next_hop_mac).
                  if rc \<noteq> 0 then tool_close dev 1
                  else io_bind (run dev target_ip next_hop_mac) (\<lambda>result.
                    tool_close dev (if result = 0 then 0 else 1)))))))"

section \<open>The link\<close>

text \<open>What the tools know of their link once the device is open and the next hop resolved.\<close>

definition link_ok :: "netdev \<Rightarrow> bytes \<Rightarrow> bytes \<Rightarrow> bool" where
  "link_ok dev target_ip mac \<longleftrightarrow> netdev_wf dev \<and> 0 \<le> nd_fd dev \<and> length target_ip = 4 \<and> length mac = 6"

text \<open>The frame that carries an IPv4 packet to the next hop.\<close>

definition ip_image :: "netdev \<Rightarrow> bytes \<Rightarrow> bytes \<Rightarrow> u8 \<Rightarrow> bytes \<Rightarrow> u16 \<Rightarrow> bytes" where
  "ip_image dev target_ip mac proto pd ident = eth_image mac (nd_mac dev) ETHERNET_TYPE_IPV4
     (ipv4_wire (ipv4_built (nd_ipv4 dev) target_ip proto pd 64 ident))"

lemma length_ip_image:
  assumes "link_ok dev tip mac" and "length pd \<le> 1480"
  shows "length (ip_image dev tip mac proto pd ident) = 34 + length pd"
proof -
  let ?p = "ipv4_built (nd_ipv4 dev) tip proto pd 64 ident"
  have "ipv4_valid ?p" using assms by (intro ipv4_built_valid) (simp_all add: netdev_wf_def link_ok_def)
  then have "length (ipv4_wire ?p) = 20 + length pd" by (simp add: length_ipv4_wire ipv4_built_def)
  then show ?thesis using assms(1) by (simp add: ip_image_def eth_image_def netdev_wf_def link_ok_def)
qed

lemma ip_frame_image:
  assumes "link_ok dev tip mac" and "n \<le> 1480" and "n \<le> length pd"
  shows "ip_frame dev tip mac proto pd n ident = Some (Some (ip_image dev tip mac proto (take n pd) ident
      @ drop (34 + n) (uninit 1514), length (ip_image dev tip mac proto (take n pd) ident)))"
  using ip_frame_ok [of dev tip mac n pd proto ident] length_ip_image [OF assms(1), of "take n pd"] assms
  by (simp add: ip_image_def link_ok_def)

lemma ip_verdict_facts:
  assumes "ip_verdict proto dev peer f = Some ip"
  shows "ip_source_ip ip = peer" and "ip_destination_ip ip = nd_ipv4 dev"
    and "ip_payload_len ip \<le> 65515" and "length (ip_payload ip) = 65515"
  using assms ipv4_decode_lengths
  by (auto simp: ip_verdict_def bind_eq_Some_conv split: if_splits)

text \<open>
  An IPv4 packet that brings \<open>pd\<close> from one address to another, with any time to live, options,
  identification and other header fields. It may be padded by the link.
\<close>

definition ip_carries :: "ipv4_packet \<Rightarrow> u8 \<Rightarrow> bytes \<Rightarrow> bytes \<Rightarrow> bytes \<Rightarrow> bool" where
  "ip_carries ip proto src dst pd \<longleftrightarrow> ipv4_valid ip \<and> ip_protocol ip = proto \<and> ip_source_ip ip = src
     \<and> ip_destination_ip ip = dst \<and> take (ip_payload_len ip) (ip_payload ip) = pd"

lemma ip_carries_length: "ip_carries ip proto src dst pd \<Longrightarrow> ip_payload_len ip = length pd \<and> 20 + length pd \<le> length (ipv4_wire ip)"
  using length_ipv4_wire [of ip] by (auto simp: ip_carries_def ipv4_defs word_le_nat_alt)

lemma ip_carries_built:
  assumes "length src = 4" and "length dst = 4" and "length pd \<le> 65515"
  shows "ip_carries (ipv4_built src dst proto pd ttl ident) proto src dst pd"
  using ipv4_built_valid [of src dst pd proto ttl ident] assms by (simp add: ip_carries_def ipv4_built_def)

lemma ip_carries_verdict:
  assumes "ip_carries ip proto peer (nd_ipv4 dev) pd" and "length d = 6" and "length s = 6"
    and "length (ipv4_wire ip) + length pad \<le> 1500"
  obtains q where "ip_verdict proto dev peer (eth_image d s ETHERNET_TYPE_IPV4 (ipv4_wire ip @ pad)) = Some q"
    "ip_payload q = pd @ replicate (65515 - length pd) 0" "ip_payload_len q = length pd"
proof -
  have l: "ip_payload_len ip = length pd" using ip_carries_length [OF assms(1)] by simp
  from ip_verdict_wire [of ip peer dev d s pad] assms show thesis
    by (intro that [of "ipv4_norm ip"]) (simp_all add: ip_carries_def ipv4_norm_def flip: l)
qed

lemma ip_verdict_image:
  assumes "netdev_wf dev" and "netdev_wf peer" and "length mac = 6" and n: "length pd + length pad \<le> 1480"
  obtains ip where "ip_verdict proto dev (nd_ipv4 peer) (ip_image peer (nd_ipv4 dev) mac proto pd ident @ pad) = Some ip"
    "ip_payload ip = pd @ replicate (65515 - length pd) 0" "ip_payload_len ip = length pd"
proof -
  let ?p = "ipv4_built (nd_ipv4 peer) (nd_ipv4 dev) proto pd 64 ident"
  have v: "ipv4_valid ?p" using assms by (intro ipv4_built_valid) (simp_all add: netdev_wf_def)
  have l: "length (ipv4_wire ?p) = 20 + length pd" using v by (simp add: length_ipv4_wire ipv4_built_def)
  have img: "ip_image peer (nd_ipv4 dev) mac proto pd ident @ pad = eth_image mac (nd_mac peer) ETHERNET_TYPE_IPV4 (ipv4_wire ?p @ pad)"
    by (simp add: ip_image_def eth_image_def)
  have c: "ip_carries ?p proto (nd_ipv4 peer) (nd_ipv4 dev) pd"
    using assms by (intro ip_carries_built) (simp_all add: netdev_wf_def)
  show thesis
    using ip_carries_verdict [OF c assms(3), of "nd_mac peer" pad] assms(2) n l that unfolding img
    by (auto simp: netdev_wf_def)
qed

text \<open>A frame that was built can be sent; the model of an exchange needs no more.\<close>

definition frame_built :: "built_frame option \<Rightarrow> bytes \<Rightarrow> bool" where
  "frame_built built img \<longleftrightarrow> img \<noteq> [] \<and> (\<exists>junk. built = Some (Some (img @ junk, length img)))"

lemma ip_frame_built:
  assumes "link_ok dev tip mac" and "n \<le> 1480" and "n \<le> length pd"
  shows "frame_built (ip_frame dev tip mac proto pd n ident) (ip_image dev tip mac proto (take n pd) ident)"
proof -
  have "length (ip_image dev tip mac proto (take n pd) ident) = 34 + n"
    using length_ip_image [OF assms(1), of "take n pd"] assms(2,3) by simp
  then show ?thesis unfolding frame_built_def ip_frame_image [OF assms] by auto
qed

lemma netdev_send_built:
  assumes "0 \<le> nd_fd dev" and "img \<noteq> []"
  shows "netdev_send (Some dev) (Some (img @ junk)) (length img) w =
    (case w_sends w of [] \<Rightarrow> Waiting
     | sent # rest \<Rightarrow> if sent < 0 then Outcome (-1) (w\<lparr>w_sends := rest\<rparr>)
         else Outcome sent (w\<lparr>w_sends := rest, w_sent := w_sent w @ [img]\<rparr>))"
  using assms by (auto simp: netdev_send_def mem_read_Some split: list.splits)

lemma netdev_send_ok:
  assumes "0 \<le> nd_fd dev" and "img \<noteq> []"
  shows "io_ok (calm out closed net clk) (netdev_send (Some dev) (Some (img @ junk)) (length img)) (\<lambda>_ w. calm out closed net clk w)"
  using netdev_send_built [OF assms] by (auto simp: io_ok_def calm_def split: list.splits)

context frame_test
begin

text \<open>An exchange is safe, and its answer is the verdict on a frame that arrived.\<close>

lemma exchange_ok:
  assumes ready and "0 \<le> nd_fd dev" and "built = Some None \<or> frame_built built img"
  shows "io_ok (calm out closed net clk) (exchange T dev built accept)
    (\<lambda>r w. calm out closed net clk w \<and> (\<forall>x. r = Some x \<longrightarrow> (\<exists>e \<in> net. poll_verdict e = Some x)))"
proof (cases "built = Some None")
  case True
  then show ?thesis by (auto simp: exchange_def intro!: io_rules)
next
  case False
  with assms(3) obtain junk where img: "img \<noteq> []" and b: "built = Some (Some (img @ junk, length img))"
    by (auto simp: frame_built_def)
  let ?post = "\<lambda>r w. calm out closed net clk w \<and> (\<forall>x. r = Some x \<longrightarrow> (\<exists>e \<in> net. poll_verdict e = Some x))"
  have last: "io_ok (\<lambda>w. (\<forall>x. r = Got x \<longrightarrow> (\<exists>e \<in> net. poll_verdict e = Some x)) \<and> calm out closed net clk w)
      (case r of Got x \<Rightarrow> io_bind clock_gettime (\<lambda>end_time. io_return (case end_time of None \<Rightarrow> None | Some _ \<Rightarrow> Some x))
       | _ \<Rightarrow> io_return None) ?post" for r
    by (cases r) (auto simp: io_ok_conj intro!: io_ok_bind [OF clock_ok] io_rules split: option.splits)
  have wait: "io_ok (calm out closed net clk) (wait_loop T False dev accept start (uninit RECEIVE_BUFFER_SIZE))
      (\<lambda>r w. (\<forall>x. r = Got x \<longrightarrow> (\<exists>e \<in> net. poll_verdict e = Some x)) \<and> calm out closed net clk w)" for start
    by (rule wait_ok [OF assms(1,2)]) (auto simp: const_defs)
  have sent: "io_ok (calm out closed net clk) (io_bind (netdev_send (Some dev) (Some (img @ junk)) (length img)) (\<lambda>sent.
      if sent < 0 then io_return None
      else io_bind (wait_loop T False dev accept start (uninit RECEIVE_BUFFER_SIZE)) (\<lambda>answer.
        case answer of Got x \<Rightarrow> io_bind clock_gettime (\<lambda>end_time. io_return (case end_time of None \<Rightarrow> None | Some _ \<Rightarrow> Some x))
        | _ \<Rightarrow> io_return None))) ?post" for start
    by (rule io_ok_bind [OF netdev_send_ok [OF assms(2) img]]) (auto intro!: io_rules io_ok_bind [OF wait last])
  have start: "io_ok (\<lambda>w. start \<in> clk \<and> calm out closed net clk w) (case start of None \<Rightarrow> io_return None
      | Some start \<Rightarrow> io_bind (netdev_send (Some dev) (Some (img @ junk)) (length img)) (\<lambda>sent.
      if sent < 0 then io_return None
      else io_bind (wait_loop T False dev accept start (uninit RECEIVE_BUFFER_SIZE)) (\<lambda>answer.
        case answer of Got x \<Rightarrow> io_bind clock_gettime (\<lambda>end_time. io_return (case end_time of None \<Rightarrow> None | Some _ \<Rightarrow> Some x))
        | _ \<Rightarrow> io_return None))) ?post" for start
    using sent by (cases start) (auto simp: io_ok_conj intro!: io_rules)
  show ?thesis
    unfolding exchange_def b by simp (rule io_ok_bind [OF clock_ok start])
qed

text \<open>An exchange ends with the first acceptable frame.\<close>

lemma exchange_finds:
  assumes ready and "0 \<le> nd_fd dev" and b: "frame_built built img"
    and "w_clock w = Some start # map Some (ts @ [t]) @ Some stop # cs" and "w_sends w = k # ks" and "0 \<le> k"
    and "w_polls w = es @ e # ps" and "list_all (\<lambda>e. e \<in> range Recv_Frame \<and> poll_verdict e = None) es" and "poll_verdict e = Some x"
    and "length ts = length es" and "list_all (\<lambda>now. elapsed_ns start now \<le> T * 10 ^ 6) (ts @ [t])"
  shows "exchange T dev built accept w =
    Outcome (Some x) (w\<lparr>w_clock := cs, w_sends := ks, w_polls := ps, w_sent := w_sent w @ [img]\<rparr>)"
proof -
  obtain junk where img: "img \<noteq> []" "built = Some (Some (img @ junk, length img))" using b by (auto simp: frame_built_def)
  let ?w = "w\<lparr>w_clock := map Some (ts @ [t]) @ Some stop # cs, w_sends := ks, w_sent := w_sent w @ [img]\<rparr>"
  have "wait_loop T False dev accept start (uninit RECEIVE_BUFFER_SIZE) ?w =
      Outcome (Got x) (?w\<lparr>w_clock := Some stop # cs, w_polls := ps\<rparr>)"
    using assms by (intro wait_finds [where ts = ts and t = t]) (simp_all add: const_defs)
  then show ?thesis
    using netdev_send_built [OF assms(2) img(1)] assms(4-6)
    by (simp add: exchange_def img(2) io_bind_def clock_gettime_def)
qed

end

section \<open>Closing the device\<close>

definition holding :: "int list \<Rightarrow> world \<Rightarrow> bool" where
  "holding closed w \<longleftrightarrow> w_closed w = closed"

lemma calm_closed: "calm out closed net clk w \<Longrightarrow> w_closed w = closed"
  by (simp add: calm_def)

lemma io_ok_holding:
  assumes "\<And>out net clk. io_ok (calm out closed net clk) m (\<lambda>x w. w_closed w = closed \<and> R x)"
  shows "io_ok (holding closed) m (\<lambda>x w. holding closed w \<and> R x)"
proof (rule io_okI)
  fix w
  assume h: "holding closed w"
  have "calm (w_stdout w) closed (set (w_polls w)) (set (w_clock w)) w" using h calm_self [of w] by (simp add: holding_def)
  note ok = io_okD [OF assms this]
  show "m w \<noteq> Undefined" by (rule ok)
  show "holding closed w' \<and> R x" if "m w = Outcome x w'" for x w' using ok(2) [OF that] by (simp add: holding_def)
qed

lemma next_hop_ok:
  assumes "netdev_wf dev" and "length tip = 4"
  shows "\<exists>hop. next_hop dev tip = Some hop \<and> (\<forall>h. hop = Some h \<longrightarrow> length h = 4)"
  using assms by (auto simp: next_hop_def netdev_ipv4_is_local_eq memcpy_Some const_defs netdev_wf_def blit_0)

lemma tool_close_ok:
  "0 \<le> nd_fd dev \<Longrightarrow> io_ok (holding closed) (tool_close dev status) (\<lambda>rc w. rc = status \<and> holding (closed @ [nd_fd dev]) w)"
  by (auto simp: tool_close_def netdev_close_def io_ok_def io_bind_def io_closed_def holding_def)

lemma tool_close_ok':
  "0 \<le> nd_fd dev \<Longrightarrow> status \<in> {0, 1} \<Longrightarrow>
    io_ok (holding closed) (tool_close dev status) (\<lambda>rc w. rc \<in> {0, 1} \<and> holding (closed @ [nd_fd dev]) w)"
  by (rule io_ok_weaken [OF tool_close_ok]) auto

text \<open>
  What a tool supplies: an address resolution and a run that are free of undefined behaviour on an
  open device and close nothing themselves, when the tool's arguments are \<open>ready\<close>.
\<close>

locale tool =
  fixes resolve :: "netdev \<Rightarrow> bytes \<Rightarrow> bytes \<Rightarrow> (int \<times> bytes) io"
    and run :: "netdev \<Rightarrow> bytes \<Rightarrow> bytes \<Rightarrow> int io"
    and ready :: bool
  assumes resolve_ok: "netdev_wf dev \<Longrightarrow> 0 \<le> nd_fd dev \<Longrightarrow> length hop = 4 \<Longrightarrow> length old_mac = 6 \<Longrightarrow>
      io_ok (holding closed) (resolve dev hop old_mac) (\<lambda>(rc, mac) w. holding closed w \<and> length mac = 6)"
    and run_ok: "ready \<Longrightarrow> link_ok dev tip mac \<Longrightarrow> io_ok (holding closed) (run dev tip mac) (\<lambda>_ w. holding closed w)"
begin

lemma session_open:
  assumes ready: ready and dev: "netdev_wf dev" "0 \<le> nd_fd dev" and tip: "length tip = 4"
  shows "io_ok (holding closed) (io_bind (io_lift (next_hop dev tip)) (\<lambda>hop.
      case hop of
        None \<Rightarrow> tool_close dev 1
      | Some next_hop_ip \<Rightarrow>
          io_bind (resolve dev next_hop_ip (uninit ETHERNET_ADDR_LEN)) (\<lambda>(rc, next_hop_mac).
            if rc \<noteq> 0 then tool_close dev 1
            else io_bind (run dev tip next_hop_mac) (\<lambda>result. tool_close dev (if result = 0 then 0 else 1)))))
    (\<lambda>rc w. rc \<in> {0, 1} \<and> holding (closed @ [nd_fd dev]) w)"
proof -
  let ?post = "\<lambda>rc w. rc \<in> {0, 1 :: int} \<and> holding (closed @ [nd_fd dev]) w"
  obtain hop where hop: "next_hop dev tip = Some hop" "\<And>h. hop = Some h \<Longrightarrow> length h = 4"
    using next_hop_ok [OF dev(1) tip] by blast
  have fail: "io_ok (holding closed) (tool_close dev 1) ?post" by (rule tool_close_ok' [OF dev(2)]) simp
  have go: "io_ok (\<lambda>w. holding closed w \<and> length mac = 6) (if rc \<noteq> 0 then tool_close dev 1
      else io_bind (run dev tip mac) (\<lambda>result. tool_close dev (if result = 0 then 0 else 1))) ?post" for rc :: int and mac
  proof (cases "length mac = 6")
    case True
    then have "link_ok dev tip mac" using dev tip by (simp add: link_ok_def)
    from io_ok_bind [OF run_ok [OF ready this] tool_close_ok' [OF dev(2)]] fail True show ?thesis by (simp add: io_ok_if)
  qed (simp add: io_ok_def)
  show ?thesis
  proof (cases hop)
    case None
    then show ?thesis using hop(1) fail by simp
  next
    case (Some h)
    have "io_ok (holding closed) (resolve dev h (uninit ETHERNET_ADDR_LEN)) (\<lambda>(rc, mac) w. holding closed w \<and> length mac = 6)"
      using resolve_ok [OF dev hop(2) [OF Some]] by (simp add: const_defs)
    then show ?thesis using hop(1) Some go by (auto intro!: io_ok_bind simp: case_prod_beta)
  qed
qed

lemma session_ok:
  assumes ready: ready and k: "kernel_ok k" "kernel_route_ok k header rows" and name: "c_text name = Some t" and tip: "length tip = 4"
  shows "io_ok (holding closed) (tool_session resolve run k name tip)
    (\<lambda>rc w. rc \<in> {0, 1} \<and> holding (closed @ (if t \<noteq> [] \<and> length t < 16 \<and> 0 \<le> k_socket k then [k_socket k] else [])) w)"
proof -
  obtain rc d cl where o: "netdev_open k (Some undefined) (Some name) = Some (rc, Some d, cl)"
    and c: "rc = 0 \<and> cl = [] \<and> 0 \<le> k_socket k \<and> t \<noteq> [] \<and> length t < 16 \<and> netdev_opened (k_socket k) (default_route t (map fst rows)) d
       \<or> rc = -1 \<and> cl = (if t \<noteq> [] \<and> length t < 16 \<and> 0 \<le> k_socket k then [k_socket k] else [])"
    using netdev_open_result [OF k name, of undefined] by blast
  show ?thesis
  proof (cases "rc = 0")
    case True
    then have d: "netdev_wf d" "0 \<le> nd_fd d" "nd_fd d = k_socket k" using c by (auto simp: netdev_opened_def)
    have nop: "io_bind (io_closed []) (\<lambda>_. m) = m" for m :: "int io" by (rule ext) (simp add: io_bind_def io_closed_def)
    show ?thesis
      using session_open [OF ready d(1,2) tip] True o c d(3) unfolding tool_session_def by (simp add: nop)
  next
    case False
    then show ?thesis
      using o c by (auto simp: tool_session_def io_ok_def io_bind_def io_closed_def holding_def)
  qed
qed

end

lemma arp_verdict_length: "arp_verdict check dev hop f = Some mac \<Longrightarrow> length mac = 6"
  by (auto simp: arp_verdict_def arp_decode_lengths bind_eq_Some_conv split: if_splits)

lemma resolve_arp_ok:
  assumes "netdev_wf dev" and "0 \<le> nd_fd dev" and "length hop = 4" and "length old_mac = 6"
  shows "io_ok (holding closed) (resolve_arp_with stop check dev hop old_mac) (\<lambda>(rc, mac) w. holding closed w \<and> length mac = 6)"
proof -
  have ready: "netdev_wf dev \<and> length hop = 4" using assms by simp
  have send: "io_ok (calm out closed net clk) (send_built dev (arp_request_frame dev hop)) (\<lambda>_ w. calm out closed net clk w)" for out net clk
    using arp_send [OF assms(1-3)] by (auto simp: io_ok_def calm_def split: list.splits)
  have six: "length mac = 6" if "arpf.poll_verdict check dev hop e = Some mac" for e mac
    using that arp_verdict_length by (auto simp: poll_verdict_frame)
  have wait: "io_ok (calm out closed net clk) (wait_loop ARP_TIMEOUT_MS stop dev (arp_reply_from check dev hop) start (uninit RECEIVE_BUFFER_SIZE))
      (\<lambda>r w. (\<forall>x. r = Got x \<longrightarrow> length x = 6) \<and> calm out closed net clk w)" for out net clk start
    by (rule arpf.wait_ok [OF ready assms(2)]) (use six in \<open>auto simp: const_defs\<close>)
  have last: "io_ok (\<lambda>w. (\<forall>x. r = Got x \<longrightarrow> length x = 6) \<and> calm out closed net clk w) (case r of
      Got mac \<Rightarrow> io_bind (io_lift (memcpy old_mac 0 mac 0 ETHERNET_ADDR_LEN)) (\<lambda>m. io_return (0, m))
    | _ \<Rightarrow> io_return (-1, old_mac)) (\<lambda>x w. w_closed w = closed \<and> length (snd x) = 6)" for r out net clk
    using assms(4) by (cases r) (auto simp: io_ok_conj calm_def memcpy_Some const_defs blit_0 intro!: io_rules)
  have "io_ok (\<lambda>w. start \<in> clk \<and> calm out closed net clk w) (case start of None \<Rightarrow> io_return (-1, old_mac)
      | Some start \<Rightarrow> io_bind (wait_loop ARP_TIMEOUT_MS stop dev (arp_reply_from check dev hop) start (uninit RECEIVE_BUFFER_SIZE)) (\<lambda>r. case r of
          Got mac \<Rightarrow> io_bind (io_lift (memcpy old_mac 0 mac 0 ETHERNET_ADDR_LEN)) (\<lambda>m. io_return (0, m))
        | _ \<Rightarrow> io_return (-1, old_mac))) (\<lambda>x w. w_closed w = closed \<and> length (snd x) = 6)" for start out net clk
    using assms(4) io_ok_bind [OF wait last] by (cases start) (auto simp: io_ok_conj dest: calm_closed intro!: io_rules)
  note start = io_ok_bind [OF clock_ok this]
  have "io_ok (calm out closed net clk) (resolve_arp_with stop check dev hop old_mac) (\<lambda>x w. w_closed w = closed \<and> length (snd x) = 6)" for out net clk
    unfolding resolve_arp_with_def
    using assms(4) by (intro io_ok_bind [OF send]) (auto dest: calm_closed intro!: io_rules start)
  then have "io_ok (holding closed) (resolve_arp_with stop check dev hop old_mac) (\<lambda>x w. holding closed w \<and> length (snd x) = 6)"
    by (rule io_ok_holding)
  then show ?thesis by (rule io_ok_weaken) auto
qed

lemmas resolve_arp_defs = http_resolve_arp_def ping_resolve_arp_def dns_resolve_arp_def tcp_resolve_arp_def

text \<open>A peer of the example device.\<close>

definition example_peer :: netdev where
  "example_peer = netdev_zero\<lparr>nd_fd := 4, nd_mac := [2, 0, 0, 0, 0, 1], nd_ipv4 := [10, 0, 0, 1],
     nd_netmask := [255, 255, 255, 0]\<rparr>"

lemma example_devices: "netdev_wf example_device" "netdev_wf example_peer" "0 \<le> nd_fd example_device" "0 \<le> nd_fd example_peer"
  by (simp_all add: example_device_def example_peer_def netdev_wf_def netdev_zero_def const_defs)

end
