(* ===== verification/TcpFrames.thy ===== *)
theory TcpFrames
  imports ToolSession TcpSafety
begin

text \<open>
  TCP segments in frames, as \<^verbatim>\<open>src/tools/netstack_http.c\<close> and \<^verbatim>\<open>src/tools/netstack_tcp.c\<close> send and receive
  them, and the initial sequence numbers both tools draw from the clock.
\<close>

section \<open>Model\<close>

definition tcp_frame :: "u16 \<Rightarrow> netdev \<Rightarrow> bytes \<Rightarrow> bytes \<Rightarrow> tcp_segment \<Rightarrow> built_frame option" where
  "tcp_frame identification dev target_ip next_hop_mac tcp = do {
     (tcp_len, tcp_bytes) \<leftarrow> tcp_serialize_ipv4 (Some tcp) (Some (nd_ipv4 dev)) (Some target_ip)
       (Some (uninit ETHERNET_MAX_PAYLOAD)) ETHERNET_MAX_PAYLOAD;
     if tcp_len = 0 then Some None
     else do {
       tcp_bytes \<leftarrow> tcp_bytes;
       ip_frame dev target_ip next_hop_mac IPV4_PROTOCOL_TCP tcp_bytes tcp_len identification } }"

definition send_tcp_segment :: "netdev ptr \<Rightarrow> bytes ptr \<Rightarrow> bytes ptr \<Rightarrow> tcp_segment ptr \<Rightarrow> int io" where
  "send_tcp_segment dev target_ip next_hop_mac tcp =
    (case (dev, target_ip, next_hop_mac, tcp) of
       (Some d, Some ip, Some mac, Some t) \<Rightarrow> send_built d (tcp_frame 0x4854 d ip mac t)
     | _ \<Rightarrow> io_return (-1))"

definition send_tcp_frame :: "netdev \<Rightarrow> bytes \<Rightarrow> bytes \<Rightarrow> tcp_segment \<Rightarrow> int io" where
  "send_tcp_frame dev target_ip next_hop_mac segment =
    send_built dev (tcp_frame 0x5443 dev target_ip next_hop_mac segment)"

text \<open>The tests of the receive loops, down to the ports.\<close>

definition tcp_from_peer :: "netdev \<Rightarrow> bytes \<Rightarrow> u16 \<Rightarrow> u16 \<Rightarrow> bytes \<Rightarrow> nat \<Rightarrow> tcp_segment option option" where
  "tcp_from_peer dev target_ip remote_port local_port buffer received = do {
     ip \<leftarrow> ip_from_peer IPV4_PROTOCOL_TCP dev target_ip buffer received;
     (case ip of
        None \<Rightarrow> Some None
      | Some ip \<Rightarrow> do {
          intact \<leftarrow> tcp_checksum_ipv4_valid (Some (ip_source_ip ip)) (Some (ip_destination_ip ip))
            (Some (ip_payload ip)) (ip_payload_len ip);
          if \<not> intact then Some None
          else do {
            (rc, parsed) \<leftarrow> tcp_parse (Some (ip_payload ip)) (ip_payload_len ip) (Some undefined);
            if rc \<noteq> 0 then Some None
            else do {
              parsed \<leftarrow> parsed;
              if tcp_source_port parsed \<noteq> remote_port \<or> tcp_destination_port parsed \<noteq> local_port
              then Some None else Some (Some parsed) } } }) }"

text \<open>\<^verbatim>\<open>generate_isn\<close>: the two tools differ in the number they use when the clock fails.\<close>

definition mix64 :: "64 word \<Rightarrow> 64 word" where
  "mix64 value = (let value = value XOR drop_bit 33 value; value = value * 0xff51afd7ed558ccd
     in value XOR drop_bit 33 value)"

definition isn_of :: "timespec \<Rightarrow> u32" where
  "isn_of now = ucast (mix64 (push_bit 32 (of_int (tv_sec now)) XOR of_int (tv_nsec now)))"

definition http_generate_isn :: "u32 io" where
  "http_generate_isn = io_bind clock_gettime (\<lambda>now. io_return (case now of None \<Rightarrow> 0x42424242 | Some t \<Rightarrow> isn_of t))"

definition tcp_generate_isn :: "u32 io" where
  "tcp_generate_isn = io_bind clock_gettime (\<lambda>now. io_return (case now of None \<Rightarrow> 0x12345678 | Some t \<Rightarrow> isn_of t))"

section \<open>Sending\<close>

definition tcp_image :: "u16 \<Rightarrow> netdev \<Rightarrow> bytes \<Rightarrow> bytes \<Rightarrow> tcp_segment \<Rightarrow> bytes" where
  "tcp_image identification dev target_ip mac s = eth_image mac (nd_mac dev) ETHERNET_TYPE_IPV4
     (ipv4_wire (ipv4_built (nd_ipv4 dev) target_ip IPV4_PROTOCOL_TCP
        (tcp_wire (tcp_sealed (nd_ipv4 dev) target_ip s)) 64 identification))"

lemma length_tcp_image:
  assumes "netdev_wf dev" and "length tip = 4" and "length mac = 6" and "tcp_valid s" and "length (tcp_wire s) \<le> 1480"
  shows "length (tcp_image ident dev tip mac s) = 34 + length (tcp_wire s)"
proof -
  let ?p = "ipv4_built (nd_ipv4 dev) tip IPV4_PROTOCOL_TCP (tcp_wire (tcp_sealed (nd_ipv4 dev) tip s)) 64 ident"
  have l: "length (tcp_wire (tcp_sealed (nd_ipv4 dev) tip s)) = length (tcp_wire s)"
    using assms(4) by (simp add: length_tcp_wire) (simp add: tcp_sealed_def)
  have "ipv4_valid ?p" using assms l by (intro ipv4_built_valid) (simp_all add: netdev_wf_def)
  then have "length (ipv4_wire ?p) = 20 + length (tcp_wire s)" using l by (simp add: length_ipv4_wire ipv4_built_def)
  then show ?thesis using assms(1,3) by (simp add: tcp_image_def eth_image_def netdev_wf_def)
qed

lemma tcp_frame_ok:
  assumes "netdev_wf dev" and "length tip = 4" and "length mac = 6" and v: "tcp_valid s"
    and n: "length (tcp_wire s) \<le> 1480"
  shows "tcp_frame ident dev tip mac s = Some (Some (tcp_image ident dev tip mac s
      @ drop (34 + length (tcp_wire s)) (uninit 1514), 34 + length (tcp_wire s)))"
proof -
  let ?n = "length (tcp_wire s)" and ?w = "tcp_wire (tcp_sealed (nd_ipv4 dev) tip s)"
  have l: "length ?w = ?n" using v by (simp add: length_tcp_wire) (simp add: tcp_sealed_def)
  have "tcp_serialize_ipv4 (Some s) (Some (nd_ipv4 dev)) (Some tip) (Some (uninit 1500)) 1500 =
      Some (?n, Some (?w @ drop ?n (uninit 1500)))"
    using assms by (intro tcp_serialize_ipv4_wire) (simp_all add: netdev_wf_def)
  moreover have "?n \<noteq> 0" using length_tcp_wire [OF v] by simp
  ultimately show ?thesis
    using ip_frame_ok [OF assms(1-3) n, of "?w @ drop ?n (uninit 1500)" IPV4_PROTOCOL_TCP ident] l
    by (simp add: tcp_frame_def tcp_image_def const_defs)
qed

lemma tcp_send:
  assumes "netdev_wf dev" and "0 \<le> nd_fd dev" and "length tip = 4" and "length mac = 6" and "tcp_valid s"
    and "length (tcp_wire s) \<le> 1480"
  shows "send_built dev (tcp_frame ident dev tip mac s) w =
    (case w_sends w of [] \<Rightarrow> Waiting
     | sent # rest \<Rightarrow> if sent < 0 then Outcome (-1) (w\<lparr>w_sends := rest\<rparr>)
         else Outcome 0 (w\<lparr>w_sends := rest, w_sent := w_sent w @ [tcp_image ident dev tip mac s]\<rparr>))"
proof -
  have l: "length (tcp_image ident dev tip mac s) = 34 + length (tcp_wire s)"
    using assms by (intro length_tcp_image)
  then have "tcp_image ident dev tip mac s \<noteq> []" by auto
  then show ?thesis
    using send_built_eq [OF assms(2), of "tcp_image ident dev tip mac s"] l
    unfolding tcp_frame_ok [OF assms(1,3-6)] by simp
qed

text \<open>A segment that does not fit into a frame is refused by one of the serializers.\<close>

lemma tcp_frame_long:
  assumes "netdev_wf dev" and "length tip = 4" and v: "tcp_valid s" and n: "1480 < length (tcp_wire s)"
  shows "tcp_frame ident dev tip mac s = Some None"
proof (cases "length (tcp_wire s) \<le> 1500")
  case True
  let ?n = "length (tcp_wire s)" and ?w = "tcp_wire (tcp_sealed (nd_ipv4 dev) tip s)"
  let ?p = "ipv4_built (nd_ipv4 dev) tip IPV4_PROTOCOL_TCP ?w 64 ident"
  have l: "length ?w = ?n" using v by (simp add: length_tcp_wire) (simp add: tcp_sealed_def)
  have dv: "length (nd_ipv4 dev) = 4" using assms(1) by (simp add: netdev_wf_def)
  have t: "tcp_serialize_ipv4 (Some s) (Some (nd_ipv4 dev)) (Some tip) (Some (uninit 1500)) 1500 =
      Some (?n, Some (?w @ drop ?n (uninit 1500)))"
    using assms True dv by (intro tcp_serialize_ipv4_wire) simp_all
  have b: "ipv4_build (Some undefined) (Some (nd_ipv4 dev)) (Some tip) IPV4_PROTOCOL_TCP (Some (?w @ drop ?n (uninit 1500))) ?n 64 ident =
      Some (0, Some ?p)"
    using ipv4_build_ok [of "nd_ipv4 dev" tip ?n "?w @ drop ?n (uninit 1500)" undefined IPV4_PROTOCOL_TCP 64 ident] True dv l assms(2)
    by simp
  have vp: "ipv4_valid ?p" using True l dv assms(2) by (intro ipv4_built_valid) simp_all
  have "length (ipv4_wire ?p) = 20 + ?n" using length_ipv4_wire [OF vp] l by (simp add: ipv4_built_def)
  then have "ipv4_serialize (Some ?p) (Some (uninit 1500)) 1500 = Some (0, Some (uninit 1500))"
    using ipv4c.serialize_small [OF vp] n by simp
  then show ?thesis using n t b by (simp add: tcp_frame_def ip_frame_def const_defs)
next
  case False
  have "tcp_serialize (Some (s\<lparr>tcp_checksum := 0\<rparr>)) (Some (uninit 1500)) 1500 = Some (0, Some (uninit 1500))"
    using False length_tcp_wire [OF v] tcp_valid_lengths [OF v] by (simp add: tcp_serialize_def Let_def const_defs)
  then show ?thesis by (simp add: tcp_frame_def tcp_serialize_ipv4_def Let_def const_defs)
qed

lemma tcp_send_ok:
  assumes "link_ok dev tip mac" and "tcp_valid s"
  shows "io_ok (calm out closed net clk) (send_built dev (tcp_frame ident dev tip mac s)) (\<lambda>rc w. calm out closed net clk w)"
proof (cases "length (tcp_wire s) \<le> 1480")
  case True
  then show ?thesis
    using assms tcp_send [of dev tip mac s ident]
    by (auto simp: io_ok_def link_ok_def calm_def split: list.splits)
next
  case False
  then show ?thesis
    using assms tcp_frame_long [of dev tip s ident mac] by (simp add: io_ok_def link_ok_def send_built_def)
qed

lemma send_tcp_segment_ok:
  assumes "link_ok dev tip mac" and "tcp_valid s"
  shows "io_ok (calm out closed net clk) (send_tcp_segment (Some dev) (Some tip) (Some mac) (Some s)) (\<lambda>rc w. calm out closed net clk w)"
  using tcp_send_ok [OF assms] by (simp add: send_tcp_segment_def)

section \<open>Receiving\<close>

definition tcp_verdict :: "netdev \<Rightarrow> bytes \<Rightarrow> u16 \<Rightarrow> u16 \<Rightarrow> bytes \<Rightarrow> tcp_segment option" where
  "tcp_verdict dev peer remote_port local_port f = do {
     ip \<leftarrow> ip_verdict IPV4_PROTOCOL_TCP dev peer f;
     let d = ip_payload ip; n = ip_payload_len ip; s = tcp_decode d n in
     if transport_checksum peer (nd_ipv4 dev) 6 (take n d) = 0 \<and> tcp_accepts d n
        \<and> tcp_source_port s = remote_port \<and> tcp_destination_port s = local_port
     then Some s else None }"

lemma tcp_from_peer_eq:
  assumes "netdev_wf dev" and "length peer = 4" and "0 < n" and "n \<le> length b"
  shows "tcp_from_peer dev peer rp lp b n = Some (tcp_verdict dev peer rp lp (take n b))"
proof (cases "ip_verdict IPV4_PROTOCOL_TCP dev peer (take n b)")
  case None
  then show ?thesis by (simp add: tcp_from_peer_def tcp_verdict_def ip_from_peer_eq [OF assms])
next
  case (Some ip)
  note f = ip_verdict_facts [OF Some]
  let ?d = "ip_payload ip" and ?n = "ip_payload_len ip"
  have ck: "tcp_checksum_ipv4_valid (Some peer) (Some (nd_ipv4 dev)) (Some ?d) ?n =
      Some (20 \<le> ?n \<and> transport_checksum peer (nd_ipv4 dev) 6 (take ?n ?d) = 0)"
    using tcp_checksum_ipv4_valid_eq [of peer "nd_ipv4 dev" ?n ?d] assms f by (simp add: netdev_wf_def)
  show ?thesis
  proof (cases "tcp_accepts ?d ?n")
    case True
    then have "20 \<le> ?n" by (simp add: tcp_accepts_def)
    then show ?thesis
      using True Some ck f tcp_parse_ok [of ?n ?d undefined]
      by (simp add: tcp_from_peer_def tcp_verdict_def ip_from_peer_eq [OF assms] Let_def)
  next
    case False
    then obtain rc where "rc \<noteq> 0" "tcp_parse (Some ?d) ?n (Some undefined) = Some (rc, Some undefined)"
      using tcp_parse_reject [of ?n ?d undefined] f by auto
    then show ?thesis
      using False Some ck f by (simp add: tcp_from_peer_def tcp_verdict_def ip_from_peer_eq [OF assms] Let_def)
  qed
qed

interpretation tcpf: frame_test "tcp_from_peer dev peer rp lp" "tcp_verdict dev peer rp lp" "netdev_wf dev \<and> length peer = 4"
  for dev peer rp lp
  by unfold_locales (simp add: tcp_from_peer_eq)

lemma tcp_verdict_facts:
  assumes "tcp_verdict dev peer rp lp f = Some s"
  shows "segment_wf s" and "tcp_source_port s = rp" and "tcp_destination_port s = lp"
proof -
  from assms obtain ip where ip: "ip_verdict IPV4_PROTOCOL_TCP dev peer f = Some ip"
    and acc: "tcp_accepts (ip_payload ip) (ip_payload_len ip)"
    and s: "s = tcp_decode (ip_payload ip) (ip_payload_len ip)" "tcp_source_port s = rp" "tcp_destination_port s = lp"
    by (auto simp: tcp_verdict_def bind_eq_Some_conv Let_def split: if_splits)
  show "segment_wf s"
    using acc ip_verdict_facts(3,4) [OF ip] unfolding s(1) segment_wf_def
    by (simp add: tcp_decode_def Let_def tcp_accepts_def)
  show "tcp_source_port s = rp" "tcp_destination_port s = lp" by (fact s(2,3))+
qed

text \<open>A segment of the peer, sealed for the two addresses and possibly padded by the link.\<close>

lemma tcp_verdict_image:
  assumes "netdev_wf dev" and "netdev_wf peer" and "length mac = 6" and v: "tcp_valid s"
    and n: "length (tcp_wire s) + length pad \<le> 1480"
  shows "tcp_verdict dev (nd_ipv4 peer) (tcp_source_port s) (tcp_destination_port s)
      (tcp_image ident peer (nd_ipv4 dev) mac s @ pad) = Some (tcp_norm (tcp_sealed (nd_ipv4 peer) (nd_ipv4 dev) s))"
proof -
  let ?t = "tcp_sealed (nd_ipv4 peer) (nd_ipv4 dev) s"
  have l: "length (tcp_wire ?t) = length (tcp_wire s)"
    using v by (simp add: length_tcp_wire) (simp add: tcp_sealed_def)
  have img: "tcp_image ident peer (nd_ipv4 dev) mac s = ip_image peer (nd_ipv4 dev) mac IPV4_PROTOCOL_TCP (tcp_wire ?t) ident"
    by (simp add: tcp_image_def ip_image_def)
  obtain p where ip: "ip_verdict IPV4_PROTOCOL_TCP dev (nd_ipv4 peer) (tcp_image ident peer (nd_ipv4 dev) mac s @ pad) = Some p"
    and pd: "ip_payload p = tcp_wire ?t @ replicate (65515 - length (tcp_wire ?t)) 0" "ip_payload_len p = length (tcp_wire ?t)"
    unfolding img using ip_verdict_image [OF assms(1-3), of "tcp_wire ?t" pad IPV4_PROTOCOL_TCP ident] n l by metis
  have vt: "tcp_valid ?t" using v by simp
  have parsed: "tcp_parse (Some (tcp_wire ?t @ r)) (length (tcp_wire ?t)) (Some undefined) = Some (0, Some (tcp_norm ?t))" for r
    by (rule tcp_parse_wire [OF vt])
  have acc: "tcp_accepts (tcp_wire ?t @ r) (length (tcp_wire ?t))" for r
    using parsed [of r] tcp_parse_reject [of "length (tcp_wire ?t)" "tcp_wire ?t @ r" undefined] by fastforce
  have dec: "tcp_decode (tcp_wire ?t @ r) (length (tcp_wire ?t)) = tcp_norm ?t" for r
    using parsed [of r] tcp_parse_ok [OF _ acc, of r undefined] by simp
  have "transport_checksum (nd_ipv4 peer) (nd_ipv4 dev) 6 (tcp_wire ?t) = 0"
    using assms by (intro tcp_sealed_verifies) (simp_all add: netdev_wf_def)
  then show ?thesis
    by (simp add: tcp_verdict_def ip pd acc dec Let_def) (simp add: tcp_norm_def tcp_sealed_def)
qed

section \<open>Properties\<close>

text \<open>
  (C35) A segment crosses the whole stack. When one host sends a segment of at most 1460 payload and option bytes to
  another, exactly one frame leaves, and the receive tests of the other host, whatever padding the link
  added, accept it and give every field, the options and the payload back: sequence numbers, flags,
  window and ports unchanged, the checksum the one of the two addresses.
\<close>

theorem tcp_frame_delivery:
  assumes "netdev_wf here" and "0 \<le> nd_fd here" and "netdev_wf there" and "length mac = 6"
    and "tcp_valid s" and "length (tcp_wire s) + length pad \<le> 1480" and "w_sends w = sent # sends" and "0 \<le> sent"
  shows "\<exists>f. send_tcp_segment (Some here) (Some (nd_ipv4 there)) (Some mac) (Some s) w =
        Outcome 0 (w\<lparr>w_sends := sends, w_sent := w_sent w @ [f]\<rparr>)
    \<and> tcp_from_peer there (nd_ipv4 here) (tcp_source_port s) (tcp_destination_port s) (f @ pad) (length (f @ pad)) =
        Some (Some (tcp_norm (tcp_sealed (nd_ipv4 here) (nd_ipv4 there) s)))"
proof -
  let ?f = "tcp_image 0x4854 here (nd_ipv4 there) mac s"
  have t: "length (nd_ipv4 there) = 4" "length (nd_ipv4 here) = 4" using assms(1,3) by (simp_all add: netdev_wf_def)
  have "length ?f = 34 + length (tcp_wire s)" using assms t by (intro length_tcp_image) simp_all
  then have "0 < length (?f @ pad)" by simp
  then have "tcp_from_peer there (nd_ipv4 here) (tcp_source_port s) (tcp_destination_port s) (?f @ pad) (length (?f @ pad)) =
      Some (tcp_verdict there (nd_ipv4 here) (tcp_source_port s) (tcp_destination_port s) (?f @ pad))"
    using tcp_from_peer_eq [OF assms(3) t(2), of "length (?f @ pad)" "?f @ pad"] by simp
  moreover have "tcp_verdict there (nd_ipv4 here) (tcp_source_port s) (tcp_destination_port s) (?f @ pad) =
      Some (tcp_norm (tcp_sealed (nd_ipv4 here) (nd_ipv4 there) s))"
    using assms by (intro tcp_verdict_image)
  moreover have "send_built here (tcp_frame 0x4854 here (nd_ipv4 there) mac s) w =
      Outcome 0 (w\<lparr>w_sends := sends, w_sent := w_sent w @ [?f]\<rparr>)"
    using tcp_send [OF assms(1,2) t(1) assms(4,5), where ident = "0x4854" and w = w] assms(6-8) by simp
  ultimately show ?thesis by (auto simp: send_tcp_segment_def)
qed

theorem tcp_frame_delivery_witness:
  "\<exists>f w'. send_tcp_segment (Some example_device) (Some (nd_ipv4 example_peer)) (Some (nd_mac example_peer))
        (Some (tcp_built 40001 80 7 9 0x18 100 [1, 2, 3])) example_world = Outcome 0 w'
    \<and> tcp_from_peer example_peer (nd_ipv4 example_device) 40001 80 (f @ replicate 3 0) (length (f @ replicate 3 (0 :: u8))) =
        Some (Some (tcp_norm (tcp_sealed (nd_ipv4 example_device) (nd_ipv4 example_peer) (tcp_built 40001 80 7 9 0x18 100 [1, 2, 3]))))"
proof -
  let ?s = "tcp_built 40001 80 7 9 0x18 100 [1, 2, 3]"
  have v: "tcp_valid ?s" by (rule tcp_built_valid) simp
  have l: "length (tcp_wire ?s) = 23" using v by (simp add: length_tcp_wire tcp_built_def)
  have m: "length (nd_mac example_peer) = 6" by (simp add: example_peer_def)
  have w: "w_sends example_world = [42]" by (simp add: example_world_def)
  show ?thesis
    using tcp_frame_delivery [OF example_devices(1,3,2) m v, of "replicate 3 0" example_world 42 "[]"] l w
    by (auto simp: tcp_built_def)
qed

end
