(* ===== verification/Http.thy ===== *)
theory Http
  imports CString
begin

text \<open>
  \<^verbatim>\<open>src/src/http.c\<close> and \<^verbatim>\<open>src/include/http.h\<close>: the GET request, the status line and header
  block of a response, the search for chunked transfer coding, and the chunk decoder. Pointers
  into the response are offsets into its array; the C library's string functions are undefined
  on an array without a terminator.
\<close>

section \<open>Model\<close>

definition HTTP_MAX_STATUS_TEXT :: nat where [const_defs]: "HTTP_MAX_STATUS_TEXT = 64"

record http_response =
  http_status_code :: int
  http_status_text :: string
  http_header_len :: nat
  http_body :: "nat ptr"
  http_body_len :: nat

definition http_response_zero :: http_response where
  "http_response_zero = \<lparr> http_status_code = 0, http_status_text = replicate HTTP_MAX_STATUS_TEXT NUL,
     http_header_len = 0, http_body = None, http_body_len = 0 \<rparr>"

definition http_request_text :: "string \<Rightarrow> string \<Rightarrow> string" where
  "http_request_text host path = ''GET '' @ path @ '' HTTP/1.1'' @ CRLF
     @ ''Host: '' @ host @ CRLF
     @ ''User-Agent: BLACKTERM-NETSTACK/0.1'' @ CRLF
     @ ''Accept: */*'' @ CRLF
     @ ''Connection: close'' @ CRLF
     @ CRLF"

definition http_build_get_request ::
  "string ptr \<Rightarrow> nat \<Rightarrow> string ptr \<Rightarrow> string ptr \<Rightarrow> (nat \<times> string ptr) option" where
  "http_build_get_request buffer buffer_len host path =
    (case (buffer, host, path) of
       (Some b, Some h, Some p) \<Rightarrow> do {
         h0 \<leftarrow> rd h 0;
         p0 \<leftarrow> (if h0 = NUL then Some NUL else rd p 0);
         if h0 = NUL \<or> p0 = NUL then Some (0, buffer)
         else do {
           ht \<leftarrow> c_text h;
           pt \<leftarrow> c_text p;
           (written, b) \<leftarrow> snprintf b buffer_len (http_request_text ht pt);
           if written < 0 \<or> nat written \<ge> buffer_len then Some (0, Some b)
           else Some (nat written, Some b) } }
     | _ \<Rightarrow> Some (0, buffer))"

text \<open>The reason phrase: \<open>endptr\<close> and \<open>line_end\<close> are offsets into the response.\<close>

definition http_copy_status_text :: "string \<Rightarrow> nat \<Rightarrow> nat \<Rightarrow> http_response \<Rightarrow> http_response option" where
  "http_copy_status_text d endptr line_end r =
    (if endptr < line_end
     then do {
       c \<leftarrow> rd d endptr;
       if c = CHR '' ''
       then let text = endptr + 1;
                text_len = line_end - text;
                text_len = (if text_len \<ge> HTTP_MAX_STATUS_TEXT then HTTP_MAX_STATUS_TEXT - 1 else text_len)
            in do {
              s \<leftarrow> memcpy (http_status_text r) 0 d text text_len;
              s \<leftarrow> wr s text_len NUL;
              Some (r\<lparr>http_status_text := s\<rparr>) }
       else Some r }
     else Some r)"

definition http_locate_body :: "string \<Rightarrow> nat \<Rightarrow> http_response \<Rightarrow> (int \<times> http_response ptr) option" where
  "http_locate_body d data_len r = do {
     h \<leftarrow> c_strstr d 0 (CRLF @ CRLF);
     (case h of
        None \<Rightarrow> Some (-3, Some r)
      | Some header_end \<Rightarrow>
          let r = r\<lparr>http_header_len := header_end + 4\<rparr> in
          if http_header_len r > data_len then Some (-3, Some r)
          else Some (0, Some (r\<lparr>http_body := Some (http_header_len r),
                 http_body_len := data_len - http_header_len r\<rparr>))) }"

definition http_parse_response ::
  "string ptr \<Rightarrow> nat \<Rightarrow> http_response ptr \<Rightarrow> (int \<times> http_response ptr) option" where
  "http_parse_response data data_len response =
    (case (data, response) of
       (Some d, Some _) \<Rightarrow>
         if data_len = 0 then Some (-1, response)
         else let r = http_response_zero in do {
           l \<leftarrow> c_strstr d 0 CRLF;
           (case l of
              None \<Rightarrow> Some (-2, Some r)
            | Some line_end \<Rightarrow> do {
                http \<leftarrow> (if line_end < 12 then Some False else c_has_prefix d ''HTTP/'');
                if line_end < 12 \<or> \<not> http then Some (-2, Some r)
                else do {
                  s \<leftarrow> c_strchr d 0 (CHR '' '');
                  (case s of
                     None \<Rightarrow> Some (-2, Some r)
                   | Some space \<Rightarrow>
                       if space \<ge> line_end then Some (-2, Some r)
                       else do {
                         (status, endptr) \<leftarrow> c_strtol d (space + 1);
                         if endptr = space + 1 \<or> status < 100 \<or> status > 999 then Some (-2, Some r)
                         else do {
                           r \<leftarrow> http_copy_status_text d endptr line_end (r\<lparr>http_status_code := status\<rparr>);
                           http_locate_body d data_len r } }) } }) }
     | _ \<Rightarrow> Some (-1, response))"

definition ascii_equal_nocase :: "char \<Rightarrow> char \<Rightarrow> bool" where
  "ascii_equal_nocase a b \<longleftrightarrow> c_tolower a = c_tolower b"

text \<open>
  The comparison loop shared by \<^verbatim>\<open>header_name_matches\<close> and the inner loop of
  \<^verbatim>\<open>value_contains_chunked\<close>: \<open>needle\<close> against the bytes from \<open>pos\<close> on.
\<close>

fun nocase_match :: "string \<Rightarrow> nat \<Rightarrow> string \<Rightarrow> bool option" where
  "nocase_match d pos [] = Some True"
| "nocase_match d pos (n # needle) =
    (case rd d pos of None \<Rightarrow> None | Some c \<Rightarrow>
       if \<not> ascii_equal_nocase c n then Some False else nocase_match d (pos + 1) needle)"

definition header_name_matches :: "string \<Rightarrow> nat \<Rightarrow> nat \<Rightarrow> string \<Rightarrow> bool option" where
  "header_name_matches d line line_len name =
    (let name_len = length name in
     if line_len < name_len + 1 then Some False
     else do {
       m \<leftarrow> nocase_match d line name;
       if \<not> m then Some False
       else do { c \<leftarrow> rd d (line + name_len); Some (c = CHR '':'') } })"

function chunked_loop :: "string \<Rightarrow> nat \<Rightarrow> nat \<Rightarrow> nat \<Rightarrow> int option" where
  "chunked_loop d value value_len i =
    (if i + 7 \<le> value_len
     then case nocase_match d (value + i) ''chunked'' of None \<Rightarrow> None | Some m \<Rightarrow>
       if m then Some 1 else chunked_loop d value value_len (i + 1)
     else Some 0)"
  by pat_completeness auto
termination by (relation "measure (\<lambda>(d, v, n, i). n - i)") auto

declare chunked_loop.simps [simp del]

definition value_contains_chunked :: "string \<Rightarrow> nat \<Rightarrow> nat \<Rightarrow> int option" where
  "value_contains_chunked d value value_len =
    (if value_len < 7 then Some 0 else chunked_loop d value value_len 0)"

text \<open>The value of a matched header: \<^verbatim>\<open>memchr(cursor, ':', line_len)\<close> and the search behind it.\<close>

definition transfer_encoding_value :: "string \<Rightarrow> nat \<Rightarrow> nat \<Rightarrow> int option" where
  "transfer_encoding_value d cursor line_end = do {
     line \<leftarrow> mem_read d cursor (line_end - cursor);
     (case find_char (CHR '':'') line of
        None \<Rightarrow> Some 0
      | Some colon \<Rightarrow>
          let value = cursor + colon + 1 in
          value_contains_chunked d value (line_end - value)) }"

function header_loop :: "string \<Rightarrow> nat \<Rightarrow> nat \<Rightarrow> int option" where
  "header_loop d hend cursor =
    (if cursor < hend
     then case c_strstr d cursor CRLF of
         None \<Rightarrow> None
       | Some None \<Rightarrow> Some 0
       | Some (Some line_end) \<Rightarrow>
           if line_end > hend then Some 0
           else if line_end - cursor = 0 then Some 0
           else case header_name_matches d cursor (line_end - cursor) ''Transfer-Encoding'' of
               None \<Rightarrow> None
             | Some True \<Rightarrow> transfer_encoding_value d cursor line_end
             | Some False \<Rightarrow> header_loop d hend (line_end + 2)
     else Some 0)"
  by pat_completeness auto
termination by (relation "measure (\<lambda>(d, e, c). e - c)") (auto dest!: c_strstr_ge)

declare header_loop.simps [simp del]

definition http_response_is_chunked :: "string ptr \<Rightarrow> nat \<Rightarrow> int option" where
  "http_response_is_chunked data header_len =
    (case data of
       None \<Rightarrow> Some (-1)
     | Some d \<Rightarrow>
         if header_len = 0 then Some (-1)
         else do {
           l \<leftarrow> c_strstr d 0 CRLF;
           (case l of
              None \<Rightarrow> Some 0
            | Some first_line_end \<Rightarrow>
                if first_line_end \<ge> header_len then Some 0
                else header_loop d header_len (first_line_end + 2)) })"

definition hex_value :: "char \<Rightarrow> int" where
  "hex_value c = (let k = (of_char c :: int) in
     if 48 \<le> k \<and> k \<le> 57 then k - 48
     else if 97 \<le> k \<and> k \<le> 102 then 10 + (k - 97)
     else if 65 \<le> k \<and> k \<le> 70 then 10 + (k - 65)
     else -1)"

text \<open>
  The loop of \<^verbatim>\<open>parse_chunk_size\<close>: \<open>None\<close> in the result stands for its return of -1.
\<close>

function chunk_size_loop :: "string \<Rightarrow> nat \<Rightarrow> nat \<Rightarrow> nat \<Rightarrow> nat \<Rightarrow> bool \<Rightarrow> nat option option" where
  "chunk_size_loop d line line_len i v saw_digit =
    (if i < line_len
     then case rd d (line + i) of None \<Rightarrow> None | Some c \<Rightarrow>
       if c = CHR '';'' then Some (if saw_digit then Some v else None)
       else if c = CHR '' '' \<or> c = TAB then chunk_size_loop d line line_len (i + 1) v saw_digit
       else if hex_value c < 0 then Some None
       else if v > size_sub (SIZE_LIMIT - 1) (nat (hex_value c)) div 16 then Some None
       else chunk_size_loop d line line_len (i + 1) (v * 16 + nat (hex_value c)) True
     else Some (if saw_digit then Some v else None))"
  by pat_completeness auto
termination by (relation "measure (\<lambda>(d, l, n, i, v, s). n - i)") auto

declare chunk_size_loop.simps [simp del]

definition parse_chunk_size :: "string \<Rightarrow> nat \<Rightarrow> nat \<Rightarrow> nat option option" where
  "parse_chunk_size d line line_len =
    (if line_len = 0 then Some None else chunk_size_loop d line line_len 0 0 False)"

text \<open>The \<^verbatim>\<open>for\<close> loop that looks for the end of a size line.\<close>

function crlf_loop :: "string \<Rightarrow> nat \<Rightarrow> nat \<Rightarrow> nat option option" where
  "crlf_loop d input_len i =
    (if i + 1 < input_len
     then case rd d i of None \<Rightarrow> None | Some c \<Rightarrow>
       if c = CR
       then case rd d (i + 1) of None \<Rightarrow> None | Some c' \<Rightarrow>
         if c' = LF then Some (Some i) else crlf_loop d input_len (i + 1)
       else crlf_loop d input_len (i + 1)
     else Some None)"
  by pat_completeness auto
termination by (relation "measure (\<lambda>(d, n, i). n - i)") auto

declare crlf_loop.simps [simp del]

lemma crlf_loop_bounds: "crlf_loop d n i = Some (Some e) \<Longrightarrow> i \<le> e \<and> e + 1 < n"
proof (induction d n i rule: crlf_loop.induct)
  case (1 d n i)
  from "1.prems" show ?case
    using "1.IH" unfolding crlf_loop.simps [of d n i]
    by (fastforce split: if_splits option.splits)
qed

text \<open>
  One iteration of the decoder either ends it with a result or goes on at a later input offset.
\<close>

datatype chunk_outcome = Finished nat string | Continue nat nat string

definition chunk_step :: "string \<Rightarrow> nat \<Rightarrow> nat \<Rightarrow> nat \<Rightarrow> nat \<Rightarrow> string \<Rightarrow> chunk_outcome option" where
  "chunk_step d input_len output_len input_offset output_offset out = do {
     e \<leftarrow> crlf_loop d input_len input_offset;
     (case e of
        None \<Rightarrow> Some (Finished 0 out)
      | Some line_end \<Rightarrow> do {
          size \<leftarrow> parse_chunk_size d input_offset (line_end - input_offset);
          (case size of
             None \<Rightarrow> Some (Finished 0 out)
           | Some chunk_size \<Rightarrow>
               let input_offset = line_end + 2 in
               if chunk_size = 0
               then if output_offset \<ge> output_len then Some (Finished 0 out)
                    else do { out \<leftarrow> wr out output_offset NUL; Some (Finished output_offset out) }
               else if chunk_size > size_sub input_len input_offset then Some (Finished 0 out)
               else if chunk_size > size_sub (size_sub output_len output_offset) 1 then Some (Finished 0 out)
               else do {
                 out \<leftarrow> memcpy out output_offset d input_offset chunk_size;
                 let output_offset = output_offset + chunk_size;
                 let input_offset = input_offset + chunk_size;
                 if input_offset + 2 > input_len then Some (Finished 0 out)
                 else do {
                   c \<leftarrow> rd d input_offset;
                   if c \<noteq> CR then Some (Finished 0 out)
                   else do {
                     c' \<leftarrow> rd d (input_offset + 1);
                     if c' \<noteq> LF then Some (Finished 0 out)
                     else Some (Continue (input_offset + 2) output_offset out) } } }) }) }"

lemma chunk_step_advances:
  assumes "chunk_step d n m i j out = Some (Continue i' j' out')"
  shows "i < i' \<and> i' \<le> n"
  using assms unfolding chunk_step_def
  by (auto simp: bind_eq_Some_conv Let_def split: option.splits if_splits dest!: crlf_loop_bounds)

function decode_loop :: "string \<Rightarrow> nat \<Rightarrow> nat \<Rightarrow> nat \<Rightarrow> nat \<Rightarrow> string \<Rightarrow> (nat \<times> string) option" where
  "decode_loop d input_len output_len input_offset output_offset out =
    (if input_offset < input_len
     then case chunk_step d input_len output_len input_offset output_offset out of
         None \<Rightarrow> None
       | Some (Finished result out) \<Rightarrow> Some (result, out)
       | Some (Continue input_offset output_offset out) \<Rightarrow>
           decode_loop d input_len output_len input_offset output_offset out
     else Some (0, out))"
  by pat_completeness auto
termination
  by (relation "measure (\<lambda>(d, n, m, i, j, out). n - i)") (auto dest!: chunk_step_advances)

declare decode_loop.simps [simp del]

definition http_decode_chunked_body ::
  "string ptr \<Rightarrow> nat \<Rightarrow> string ptr \<Rightarrow> nat \<Rightarrow> (nat \<times> string ptr) option" where
  "http_decode_chunked_body input input_len output output_len =
    (case (input, output) of
       (Some d, Some out) \<Rightarrow>
         if output_len = 0 then Some (0, output)
         else do { (result, out) \<leftarrow> decode_loop d input_len output_len 0 0 out; Some (result, Some out) }
     | _ \<Rightarrow> Some (0, output))"

end
