(* ===== verification/HttpClient.thy ===== *)
theory HttpClient
  imports TcpFrames Http
begin

text \<open>
  \<^verbatim>\<open>src/tools/netstack_http.c\<close>: one HTTP request over the TCP engine, from the connection to the
  printed response. The variables of \<^verbatim>\<open>run_http\<close> that live through its loop are the record
  \<open>http_session\<close>. The heap block of the response is the list \<open>hs_data\<close>, whose length is the size of the
  block; an allocation succeeds or fails as the world's script says, and \<^verbatim>\<open>free\<close> has no effect. Of what
  the tool prints the model keeps what it writes with \<^verbatim>\<open>fwrite\<close>. The kernel and \<^verbatim>\<open>inet_pton\<close> are parameters
  of \<^verbatim>\<open>main\<close>; an argument is the character array with its terminator.
\<close>

definition TCP_POLL_MS :: int where [const_defs]: "TCP_POLL_MS = 250"
definition TCP_CONNECT_TIMEOUT_MS :: int where [const_defs]: "TCP_CONNECT_TIMEOUT_MS = 10000"
definition HTTP_TIMEOUT_MS :: int where [const_defs]: "HTTP_TIMEOUT_MS = 15000"
definition HTTP_SOURCE_PORT :: u16 where [const_defs]: "HTTP_SOURCE_PORT = 40001"
definition HTTP_DESTINATION_PORT :: u16 where [const_defs]: "HTTP_DESTINATION_PORT = 80"
definition TCP_WINDOW_SIZE :: u16 where [const_defs]: "TCP_WINDOW_SIZE = 64240"
definition HTTP_RESPONSE_INITIAL_CAPACITY :: nat where [const_defs]: "HTTP_RESPONSE_INITIAL_CAPACITY = 8192"
definition HTTP_RESPONSE_MAX_SIZE :: nat where [const_defs]: "HTTP_RESPONSE_MAX_SIZE = 1024 * 1024"
definition TCP_APP_READ_BUFFER :: nat where [const_defs]: "TCP_APP_READ_BUFFER = 4096"
definition HTTP_MAX_REQUEST_LEN :: nat where [const_defs]: "HTTP_MAX_REQUEST_LEN = 4096"

section \<open>Segments\<close>

text \<open>The result is the return code and the segment \<^verbatim>\<open>*tcp\<close>.\<close>

definition receive_tcp_segment :: "netdev \<Rightarrow> bytes \<Rightarrow> tcp_segment \<Rightarrow> int \<Rightarrow> (int \<times> tcp_segment) io" where
  "receive_tcp_segment dev target_ip tcp timeout_ms = io_bind clock_gettime (\<lambda>start.
     case start of
       None \<Rightarrow> io_return (-1, tcp)
     | Some start \<Rightarrow>
         io_bind (wait_loop timeout_ms True dev (tcp_from_peer dev target_ip HTTP_DESTINATION_PORT HTTP_SOURCE_PORT)
             start (uninit RECEIVE_BUFFER_SIZE)) (\<lambda>answer.
           io_return (case answer of Got parsed \<Rightarrow> (1, parsed) | Timed_Out \<Rightarrow> (0, tcp) | Broken \<Rightarrow> (-1, tcp))))"

definition send_connection_ack :: "netdev \<Rightarrow> bytes \<Rightarrow> bytes \<Rightarrow> tcp_connection \<Rightarrow> int io" where
  "send_connection_ack dev target_ip next_hop_mac connection =
    io_bind (io_lift (tcp_connection_build_ack (Some connection) (Some undefined) TCP_WINDOW_SIZE)) (\<lambda>(rc, ack).
      if rc \<noteq> 0 then io_return (-1)
      else send_tcp_segment (Some dev) (Some target_ip) (Some next_hop_mac) ack)"

section \<open>The response buffer\<close>

definition byte_char :: "u8 \<Rightarrow> char" where
  "byte_char b = char_of (unat b)"

definition uninit_text :: "nat \<Rightarrow> string" where
  "uninit_text n = map byte_char (uninit n)"

definition heap_alloc :: "bool io" where
  "heap_alloc w = (case w_allocs w of [] \<Rightarrow> Waiting | ok # rest \<Rightarrow> Outcome ok (w\<lparr>w_allocs := rest\<rparr>))"

definition c_realloc :: "string \<Rightarrow> nat \<Rightarrow> string" where
  "c_realloc b n = take n b @ drop (length b) (uninit_text n)"

text \<open>
  The doubling loop of \<^verbatim>\<open>append_response\<close>. The outer \<open>None\<close> is a loop that does not end, the inner one its
  \<^verbatim>\<open>return -1\<close>.
\<close>

partial_function (option) grow_capacity :: "nat \<Rightarrow> nat \<Rightarrow> nat option option" where
  "grow_capacity new_capacity required =
    (if new_capacity < required
     then let new_capacity = (if new_capacity \<ge> HTTP_RESPONSE_MAX_SIZE div 2 then HTTP_RESPONSE_MAX_SIZE
                              else new_capacity * 2) in
       if new_capacity < required \<and> new_capacity = HTTP_RESPONSE_MAX_SIZE then Some None
       else grow_capacity new_capacity required
     else Some (Some new_capacity))"

text \<open>The block and its capacity with room for \<open>required\<close> bytes; \<open>None\<close> where the caller returns -1.\<close>

definition response_room :: "string \<Rightarrow> nat \<Rightarrow> nat \<Rightarrow> (string \<times> nat) option io" where
  "response_room b capacity required =
    (if required > capacity
     then io_bind (io_lift (grow_capacity (if capacity = 0 then HTTP_RESPONSE_INITIAL_CAPACITY else capacity) required))
       (\<lambda>g. case g of
          None \<Rightarrow> io_return None
        | Some new_capacity \<Rightarrow>
            io_bind heap_alloc (\<lambda>ok. io_return (if ok then Some (c_realloc b new_capacity, new_capacity) else None)))
     else io_return (Some (b, capacity)))"

definition append_response ::
  "string ptr \<Rightarrow> nat ptr \<Rightarrow> nat ptr \<Rightarrow> bytes ptr \<Rightarrow> nat \<Rightarrow> (int \<times> string ptr \<times> nat ptr \<times> nat ptr) io" where
  "append_response buffer len capacity data data_len =
    (case (buffer, len, capacity, data) of
       (Some b, Some n, Some cap, Some d) \<Rightarrow>
         if data_len = 0 then io_return (0, buffer, len, capacity)
         else if n \<ge> HTTP_RESPONSE_MAX_SIZE then io_return (-1, buffer, len, capacity)
         else if data_len > HTTP_RESPONSE_MAX_SIZE - n - 1 then io_return (-1, buffer, len, capacity)
         else io_bind (response_room b cap (n + data_len + 1)) (\<lambda>room.
           case room of
             None \<Rightarrow> io_return (-1, buffer, len, capacity)
           | Some (b, cap) \<Rightarrow>
               io_bind (io_lift (do {
                 b \<leftarrow> memcpy b n (map byte_char d) 0 data_len;
                 wr b (n + data_len) NUL })) (\<lambda>b.
               io_return (0, Some b, Some (n + data_len), Some cap)))
     | _ \<Rightarrow> io_return (-1, buffer, len, capacity))"

record http_session =
  hs_connection :: tcp_connection
  hs_data :: string
  hs_len :: nat
  hs_capacity :: nat

lemma tcp_connection_read_shrinks:
  assumes "tcp_connection_read (Some c) (Some b) n = Some (k, Some c', b')" and "k \<noteq> 0"
  shows "conn_receive_ready_len c' < conn_receive_ready_len c"
  using assms by (auto simp: tcp_connection_read_def Let_def bind_eq_Some_conv split: if_splits)

function drain_loop :: "http_session \<Rightarrow> bytes \<Rightarrow> (int \<times> http_session) io" where
  "drain_loop hs buffer w =
    (if tcp_connection_readable (Some (hs_connection hs)) > 0
     then case tcp_connection_read (Some (hs_connection hs)) (Some buffer) TCP_APP_READ_BUFFER of
         Some (read_len, Some c, Some buffer) \<Rightarrow>
           if read_len = 0 then Outcome (0, hs\<lparr>hs_connection := c\<rparr>) w
           else (case append_response (Some (hs_data hs)) (Some (hs_len hs)) (Some (hs_capacity hs)) (Some buffer) read_len w of
               Undefined \<Rightarrow> Undefined
             | Waiting \<Rightarrow> Waiting
             | Outcome (rc, Some data, Some len, Some capacity) w \<Rightarrow>
                 let hs = \<lparr> hs_connection = c, hs_data = data, hs_len = len, hs_capacity = capacity \<rparr> in
                 if rc \<noteq> 0 then Outcome (-1, hs) w else drain_loop hs buffer w
             | _ \<Rightarrow> Undefined)
       | _ \<Rightarrow> Undefined
     else Outcome (0, hs) w)"
  by pat_completeness auto
termination
  by (relation "measure (\<lambda>(hs, b, w). conn_receive_ready_len (hs_connection hs))")
    (auto dest: tcp_connection_read_shrinks)

declare drain_loop.simps [simp del]

definition drain_tcp_application_data :: "http_session \<Rightarrow> (int \<times> http_session) io" where
  "drain_tcp_application_data hs = drain_loop hs (uninit TCP_APP_READ_BUFFER)"

section \<open>The response\<close>

definition c_fwrite :: "string \<Rightarrow> nat \<Rightarrow> nat \<Rightarrow> unit io" where
  "c_fwrite d off n = io_bind (io_lift (mem_read d off n)) (\<lambda>bs w. Outcome () (w\<lparr>w_stdout := w_stdout w @ [bs]\<rparr>))"

definition print_chunked_body :: "string \<Rightarrow> http_response \<Rightarrow> int io" where
  "print_chunked_body response_data response =
    (let decoded_capacity = size_add (http_body_len response) 1 in
     io_bind heap_alloc (\<lambda>ok.
       if \<not> ok then io_return (-1)
       else io_bind (io_lift (do {
           body \<leftarrow> http_body response;
           (decoded_len, decoded) \<leftarrow> http_decode_chunked_body (Some (drop body response_data)) (http_body_len response)
             (Some (uninit_text decoded_capacity)) decoded_capacity;
           decoded \<leftarrow> decoded;
           Some (decoded_len, decoded) })) (\<lambda>(decoded_len, decoded).
         if decoded_len = 0 \<and> http_body_len response > 5 then io_return (-1)
         else io_bind (if decoded_len > 0 then c_fwrite decoded 0 decoded_len else io_return ()) (\<lambda>_. io_return 0))))"

definition print_plain_body :: "string \<Rightarrow> http_response \<Rightarrow> int io" where
  "print_plain_body response_data response =
    io_bind (if http_body_len response > 0
             then io_bind (io_lift (http_body response)) (\<lambda>body. c_fwrite response_data body (http_body_len response))
             else io_return ()) (\<lambda>_. io_return 0)"

definition print_http_response :: "string \<Rightarrow> nat \<Rightarrow> int io" where
  "print_http_response response_data response_len =
    io_bind (io_lift (http_parse_response (Some response_data) response_len (Some undefined))) (\<lambda>(rc, response).
      if rc \<noteq> 0 then io_return (-1)
      else io_bind (io_lift response) (\<lambda>response.
        io_bind (io_lift (http_response_is_chunked (Some response_data) (http_header_len response))) (\<lambda>chunked.
          if chunked < 0 then io_return (-1)
          else io_bind (c_fwrite response_data 0 (http_header_len response)) (\<lambda>_.
            if chunked \<noteq> 0 then print_chunked_body response_data response
            else print_plain_body response_data response))))"

section \<open>The connection\<close>

text \<open>
  The timer branch of both loops: tick, and retransmit when the engine says so. \<open>False\<close> where the caller
  gives up.
\<close>

definition client_tick :: "netdev \<Rightarrow> bytes \<Rightarrow> bytes \<Rightarrow> tcp_connection \<Rightarrow> (bool \<times> tcp_connection) io" where
  "client_tick dev target_ip next_hop_mac connection =
    (let (retransmit_result, connection, retransmit) =
           tcp_connection_tick (Some connection) (of_int TCP_POLL_MS) (Some undefined) in
     io_bind (io_lift connection) (\<lambda>c.
       if retransmit_result < 0 then io_return (False, c)
       else if retransmit_result = 1
       then io_bind (send_tcp_segment (Some dev) (Some target_ip) (Some next_hop_mac) retransmit) (\<lambda>rc.
         io_return (rc = 0, c))
       else io_return (True, c)))"

text \<open>One turn of the loop of \<^verbatim>\<open>connect_tcp\<close>: \<open>Inl\<close> goes on, \<open>Inr\<close> returns.\<close>

type_synonym connect_turn = "tcp_connection + int \<times> tcp_connection"

definition connect_tick :: "netdev \<Rightarrow> bytes \<Rightarrow> bytes \<Rightarrow> tcp_connection \<Rightarrow> connect_turn io" where
  "connect_tick dev target_ip next_hop_mac connection =
    io_bind (client_tick dev target_ip next_hop_mac connection) (\<lambda>(ok, c).
      io_return (if ok then Inl c else Inr (-1, c)))"

definition connect_segment :: "netdev \<Rightarrow> bytes \<Rightarrow> bytes \<Rightarrow> tcp_connection \<Rightarrow> tcp_segment \<Rightarrow> connect_turn io" where
  "connect_segment dev target_ip next_hop_mac connection incoming =
    io_bind (io_lift (tcp_connection_on_segment (Some connection) (Some incoming))) (\<lambda>(state_result, c).
      io_bind (io_lift c) (\<lambda>c.
        if state_result < 0 then io_return (Inl c)
        else if conn_state c = TCP_STATE_RESET then io_return (Inr (-1, c))
        else if conn_state c = TCP_STATE_ESTABLISHED
        then io_bind (send_connection_ack dev target_ip next_hop_mac c) (\<lambda>rc.
          io_return (Inr (if rc \<noteq> 0 then -1 else 0, c)))
        else connect_tick dev target_ip next_hop_mac c))"

definition connect_step :: "netdev \<Rightarrow> bytes \<Rightarrow> bytes \<Rightarrow> timespec \<Rightarrow> tcp_connection \<Rightarrow> connect_turn io" where
  "connect_step dev target_ip next_hop_mac start connection =
    io_bind clock_gettime (\<lambda>now.
      case now of
        None \<Rightarrow> io_return (Inr (-1, connection))
      | Some now \<Rightarrow>
          if elapsed_ns start now > TCP_CONNECT_TIMEOUT_MS * 10 ^ 6 then io_return (Inr (-1, connection))
          else io_bind (receive_tcp_segment dev target_ip undefined TCP_POLL_MS) (\<lambda>(result, incoming).
            if result < 0 then io_return (Inr (-1, connection))
            else if result = 1 then connect_segment dev target_ip next_hop_mac connection incoming
            else connect_tick dev target_ip next_hop_mac connection))"

text \<open>Every step reads the clock, so the script's readings bound the loops.\<close>

definition clock_le :: "'a io \<Rightarrow> bool" where
  "clock_le m \<longleftrightarrow> (\<forall>w x w'. m w = Outcome x w' \<longrightarrow> length (w_clock w') \<le> length (w_clock w))"

named_theorems clock_rules

lemma clock_le_basic [clock_rules]:
  "clock_le (io_return x)" "clock_le (io_lift m)" "clock_le clock_gettime" "clock_le heap_alloc"
  "clock_le (wait_loop T stop d accept start b)"
  by (auto simp: clock_le_def clock_gettime_def heap_alloc_def io_return_def io_lift_def
      split: list.splits option.splits dest!: wait_loop_clock)

lemma clock_le_netdev_send [clock_rules]: "clock_le (netdev_send dev f n)"
proof -
  have "length (w_clock w') \<le> length (w_clock w)" if "netdev_send (Some d) (Some b) n w = Outcome x w'" for d b w x w'
    using that by (cases "mem_read b 0 n"; cases "w_sends w") (auto simp: netdev_send_def split: if_splits)
  then show ?thesis
    by (cases dev; cases f) (auto simp: clock_le_def netdev_send_def)
qed

lemma clock_le_bind [clock_rules]: "clock_le m \<Longrightarrow> (\<And>x. clock_le (f x)) \<Longrightarrow> clock_le (io_bind m f)"
  unfolding clock_le_def io_bind_eq_Outcome by (blast intro: le_trans)

lemma clock_le_cases [clock_rules]:
  "clock_le a \<Longrightarrow> clock_le b \<Longrightarrow> clock_le (if c then a else b)"
  "clock_le n \<Longrightarrow> (\<And>x. clock_le (s x)) \<Longrightarrow> clock_le (case p of None \<Rightarrow> n | Some x \<Rightarrow> s x)"
  "(\<And>x y. clock_le (g x y)) \<Longrightarrow> clock_le (case q of (x, y) \<Rightarrow> g x y)"
  by (cases p; cases q; simp)+

lemma clock_le_send [clock_rules]: "clock_le (send_built dev built)" "clock_le (send_tcp_segment d t m s)"
  unfolding send_built_def send_tcp_segment_def by (intro clock_rules | rule clock_rules)+

lemma clock_le_client_tick [clock_rules]: "clock_le (client_tick dev ip mac c)"
  unfolding client_tick_def Let_def by (intro clock_rules)

lemma clock_le_receive [clock_rules]: "clock_le (receive_tcp_segment dev ip s T)"
  unfolding receive_tcp_segment_def by (intro clock_rules)

lemma clock_le_ack [clock_rules]: "clock_le (send_connection_ack dev ip mac c)"
  unfolding send_connection_ack_def by (intro clock_rules)

lemma clock_first:
  assumes "io_bind clock_gettime f w = Outcome x w'" and "\<And>t. clock_le (f t)"
  shows "length (w_clock w') < length (w_clock w)"
proof -
  from assms(1) obtain t ts where "w_clock w = t # ts" "f t (w\<lparr>w_clock := ts\<rparr>) = Outcome x w'"
    by (auto simp: io_bind_def clock_gettime_def split: list.splits)
  with assms(2) [of t] show ?thesis unfolding clock_le_def by fastforce
qed

lemma connect_step_clock:
  assumes "connect_step dev ip mac start c w = Outcome x w'"
  shows "length (w_clock w') < length (w_clock w)"
  using assms unfolding connect_step_def connect_segment_def connect_tick_def
  by (rule clock_first) (intro clock_rules)

function connect_loop ::
  "netdev \<Rightarrow> bytes \<Rightarrow> bytes \<Rightarrow> timespec \<Rightarrow> tcp_connection \<Rightarrow> (int \<times> tcp_connection) io" where
  "connect_loop dev target_ip next_hop_mac start connection w =
    (case connect_step dev target_ip next_hop_mac start connection w of
       Undefined \<Rightarrow> Undefined
     | Waiting \<Rightarrow> Waiting
     | Outcome (Inl c) w \<Rightarrow> connect_loop dev target_ip next_hop_mac start c w
     | Outcome (Inr r) w \<Rightarrow> Outcome r w)"
  by pat_completeness auto
termination
  by (relation "measure (\<lambda>(d, t, m, s, c, w). length (w_clock w))") (auto dest: connect_step_clock)

declare connect_loop.simps [simp del]

definition connect_tcp :: "netdev \<Rightarrow> bytes \<Rightarrow> bytes \<Rightarrow> tcp_connection \<Rightarrow> (int \<times> tcp_connection) io" where
  "connect_tcp dev target_ip next_hop_mac connection =
    io_bind (io_lift (tcp_connection_build_syn (Some connection) (Some undefined) TCP_WINDOW_SIZE)) (\<lambda>(rc, c, syn).
      io_bind (io_lift c) (\<lambda>c.
        if rc \<noteq> 0 then io_return (-1, c)
        else io_bind (send_tcp_segment (Some dev) (Some target_ip) (Some next_hop_mac) syn) (\<lambda>rc.
          if rc \<noteq> 0 then io_return (-1, c)
          else io_bind clock_gettime (\<lambda>start.
            case start of
              None \<Rightarrow> io_return (-1, c)
            | Some start \<Rightarrow> connect_loop dev target_ip next_hop_mac start c))))"

section \<open>The request and its answer\<close>

text \<open>A turn of the loop of \<^verbatim>\<open>run_http\<close> goes on, leaves the loop, or returns -1 from the function.\<close>

datatype http_turn = Turn http_session | Leave http_session | Give_Up

definition http_segment :: "netdev \<Rightarrow> bytes \<Rightarrow> bytes \<Rightarrow> http_session \<Rightarrow> tcp_segment \<Rightarrow> http_turn io" where
  "http_segment dev target_ip next_hop_mac hs incoming =
    (if tcp_flags incoming AND TCP_FLAG_RST \<noteq> 0
     then io_bind (io_lift (tcp_connection_on_segment (Some (hs_connection hs)) (Some incoming))) (\<lambda>_. io_return Give_Up)
     else let state_before = conn_state (hs_connection hs) in
       io_bind (io_lift (tcp_connection_on_segment (Some (hs_connection hs)) (Some incoming))) (\<lambda>(state_result, c).
         io_bind (io_lift c) (\<lambda>c.
           if state_result = -2 then io_return Give_Up
           else if state_result < 0 then io_return (Turn (hs\<lparr>hs_connection := c\<rparr>))
           else io_bind (drain_tcp_application_data (hs\<lparr>hs_connection := c\<rparr>)) (\<lambda>(rc, hs).
             if rc \<noteq> 0 then io_return Give_Up
             else io_bind (if tcp_payload_len incoming > 0 \<or> tcp_flags incoming AND TCP_FLAG_FIN \<noteq> 0
                           then send_connection_ack dev target_ip next_hop_mac (hs_connection hs)
                           else io_return 0) (\<lambda>rc.
               if rc \<noteq> 0 then io_return Give_Up
               else io_return (if state_before \<noteq> TCP_STATE_CLOSE_WAIT
                                 \<and> conn_state (hs_connection hs) = TCP_STATE_CLOSE_WAIT
                               then Leave hs else Turn hs))))))"

definition http_step :: "netdev \<Rightarrow> bytes \<Rightarrow> bytes \<Rightarrow> timespec \<Rightarrow> http_session \<Rightarrow> http_turn io" where
  "http_step dev target_ip next_hop_mac start hs = io_bind clock_gettime (\<lambda>now.
     case now of
       None \<Rightarrow> io_return Give_Up
     | Some now \<Rightarrow>
         if elapsed_ns start now > HTTP_TIMEOUT_MS * 10 ^ 6 then io_return (Leave hs)
         else io_bind (receive_tcp_segment dev target_ip undefined TCP_POLL_MS) (\<lambda>(receive_result, incoming).
           if receive_result < 0 then io_return Give_Up
           else if receive_result = 0
           then io_bind (client_tick dev target_ip next_hop_mac (hs_connection hs)) (\<lambda>(ok, c).
             io_return (if ok then Turn (hs\<lparr>hs_connection := c\<rparr>) else Give_Up))
           else http_segment dev target_ip next_hop_mac hs incoming))"

lemma clock_le_append [clock_rules]: "clock_le (append_response b n cap d k)"
  unfolding append_response_def response_room_def by (intro clock_rules | rule clock_rules)+

lemma drain_loop_clock: "drain_loop hs b w = Outcome x w' \<Longrightarrow> length (w_clock w') \<le> length (w_clock w)"
proof (induction hs b w rule: drain_loop.induct)
  case (1 hs b w)
  show ?case
  proof (cases "drain_loop hs b w = Outcome (0, hs) w")
    case True
    with "1.prems" show ?thesis by simp
  next
    case False
    then have r: "tcp_connection_readable (Some (hs_connection hs)) > 0"
      by (subst (asm) drain_loop.simps) (auto split: if_splits)
    obtain k c b' where rd: "tcp_connection_read (Some (hs_connection hs)) (Some b) TCP_APP_READ_BUFFER = Some (k, Some c, Some b')"
      using "1.prems" r by (subst (asm) drain_loop.simps) (auto split: option.splits prod.splits)
    show ?thesis
    proof (cases "k = 0")
      case True
      with "1.prems" r rd show ?thesis by (subst (asm) drain_loop.simps) simp
    next
      case k: False
      let ?app = "append_response (Some (hs_data hs)) (Some (hs_len hs)) (Some (hs_capacity hs)) (Some b') k w"
      obtain rc d n cap w1 where app: "?app = Outcome (rc, Some d, Some n, Some cap) w1"
        using "1.prems" r rd k
        by (subst (asm) drain_loop.simps) (simp split: outcome.splits prod.splits option.splits)
      have "length (w_clock w1) \<le> length (w_clock w)" using clock_le_append app unfolding clock_le_def by blast
      moreover have "length (w_clock w') \<le> length (w_clock w1)"
      proof (cases "rc = 0")
        case True
        with "1.prems" r rd k app have "drain_loop \<lparr> hs_connection = c, hs_data = d, hs_len = n, hs_capacity = cap \<rparr> b' w1 = Outcome x w'"
          by (subst (asm) drain_loop.simps) simp
        with "1.IH" [OF r rd refl refl refl refl k app] True show ?thesis by simp
      next
        case False
        with "1.prems" r rd k app show ?thesis by (subst (asm) drain_loop.simps) simp
      qed
      ultimately show ?thesis by simp
    qed
  qed
qed

lemma clock_le_drain [clock_rules]: "clock_le (drain_tcp_application_data hs)"
  using drain_loop_clock by (auto simp: clock_le_def drain_tcp_application_data_def)

lemma clock_le_segment [clock_rules]: "clock_le (http_segment dev ip mac hs s)"
  unfolding http_segment_def Let_def by (intro clock_rules)

lemma http_step_clock:
  assumes "http_step dev ip mac start hs w = Outcome x w'"
  shows "length (w_clock w') < length (w_clock w)"
  using assms unfolding http_step_def
  by (rule clock_first) (intro clock_rules)

text \<open>\<open>None\<close> is a return of -1 from inside the loop.\<close>

function http_loop :: "netdev \<Rightarrow> bytes \<Rightarrow> bytes \<Rightarrow> timespec \<Rightarrow> http_session \<Rightarrow> http_session option io" where
  "http_loop dev target_ip next_hop_mac start hs w =
    (case http_step dev target_ip next_hop_mac start hs w of
       Undefined \<Rightarrow> Undefined
     | Waiting \<Rightarrow> Waiting
     | Outcome (Turn hs) w \<Rightarrow> http_loop dev target_ip next_hop_mac start hs w
     | Outcome (Leave hs) w \<Rightarrow> Outcome (Some hs) w
     | Outcome Give_Up w \<Rightarrow> Outcome None w)"
  by pat_completeness auto
termination
  by (relation "measure (\<lambda>(d, t, m, s, hs, w). length (w_clock w))") (auto dest: http_step_clock)

declare http_loop.simps [simp del]

text \<open>What \<^verbatim>\<open>run_http\<close> does after its loop.\<close>

definition http_finish :: "netdev \<Rightarrow> bytes \<Rightarrow> bytes \<Rightarrow> http_session \<Rightarrow> int io" where
  "http_finish dev target_ip next_hop_mac hs =
    io_bind (drain_tcp_application_data hs) (\<lambda>(rc, hs).
      if rc \<noteq> 0 then io_return (-1)
      else if hs_len hs = 0 then io_return (-1)
      else io_bind (print_http_response (hs_data hs) (hs_len hs)) (\<lambda>rc.
        if rc \<noteq> 0 then io_return (-1)
        else if conn_state (hs_connection hs) = TCP_STATE_CLOSE_WAIT
        then io_bind (io_lift (tcp_connection_build_fin (Some (hs_connection hs)) (Some undefined) TCP_WINDOW_SIZE)) (\<lambda>(rc, c, fin).
          io_bind (if rc = 0 then send_tcp_segment (Some dev) (Some target_ip) (Some next_hop_mac) fin else io_return 0)
            (\<lambda>_. io_return 0))
        else io_return 0))"

text \<open>\<^verbatim>\<open>run_http\<close> from the successful connection on.\<close>

definition http_request :: "netdev \<Rightarrow> bytes \<Rightarrow> bytes \<Rightarrow> string \<Rightarrow> string \<Rightarrow> tcp_connection \<Rightarrow> int io" where
  "http_request dev target_ip next_hop_mac host path connection =
    io_bind (io_lift (http_build_get_request (Some (uninit_text HTTP_MAX_REQUEST_LEN)) HTTP_MAX_REQUEST_LEN (Some host) (Some path)))
      (\<lambda>(request_len, request).
        if request_len = 0 then io_return (-1)
        else io_bind (io_lift (do {
            request \<leftarrow> request;
            tcp_connection_build_data (Some connection) (Some undefined) (Some (map of_char request)) request_len TCP_WINDOW_SIZE }))
          (\<lambda>(rc, c, segment).
            if rc \<noteq> 0 then io_return (-1)
            else io_bind (send_tcp_segment (Some dev) (Some target_ip) (Some next_hop_mac) segment) (\<lambda>rc.
              if rc \<noteq> 0 then io_return (-1)
              else io_bind heap_alloc (\<lambda>ok.
                if \<not> ok then io_return (-1)
                else io_bind (io_lift (wr (uninit_text HTTP_RESPONSE_INITIAL_CAPACITY) 0 NUL)) (\<lambda>response_data.
                  io_bind (io_lift c) (\<lambda>c.
                    io_bind clock_gettime (\<lambda>start.
                      case start of
                        None \<Rightarrow> io_return (-1)
                      | Some start \<Rightarrow>
                          io_bind (http_loop dev target_ip next_hop_mac start
                              \<lparr> hs_connection = c, hs_data = response_data, hs_len = 0,
                                hs_capacity = HTTP_RESPONSE_INITIAL_CAPACITY \<rparr>) (\<lambda>left.
                            case left of
                              None \<Rightarrow> io_return (-1)
                            | Some hs \<Rightarrow> http_finish dev target_ip next_hop_mac hs))))))))"

definition run_http :: "netdev \<Rightarrow> bytes \<Rightarrow> bytes \<Rightarrow> string \<Rightarrow> string \<Rightarrow> int io" where
  "run_http dev target_ip next_hop_mac host path =
    io_bind http_generate_isn (\<lambda>isn.
      io_bind (io_lift (tcp_connection_init (Some undefined) HTTP_SOURCE_PORT HTTP_DESTINATION_PORT isn)) (\<lambda>c.
        io_bind (connect_tcp dev target_ip next_hop_mac c) (\<lambda>(rc, c).
          if rc \<noteq> 0 then io_return (-1)
          else http_request dev target_ip next_hop_mac host path c)))"

definition http_main :: "(string \<Rightarrow> bytes option) \<Rightarrow> kernel \<Rightarrow> string list \<Rightarrow> int io" where
  "http_main inet_pton k argv =
    (if length argv \<noteq> 5 then io_return 1
     else case inet_pton (argv ! 2) of
         None \<Rightarrow> io_return 1
       | Some address \<Rightarrow>
           io_bind (io_lift (memcpy (uninit IPV4_ADDR_LEN) 0 address 0 IPV4_ADDR_LEN)) (\<lambda>target_ip.
             tool_session http_resolve_arp (\<lambda>dev ip mac. run_http dev ip mac (argv ! 3) (argv ! 4)) k (argv ! 1) target_ip))"

end
