(* ===== verification/HttpResponse.thy ===== *)
theory HttpResponse
  imports Http
begin

text \<open>
  The request builder, the response parser and the header search of \<^verbatim>\<open>src/src/http.c\<close>: safety on any
  terminated array, and the exact result on a well-formed message head.
\<close>

section \<open>Text searches\<close>

definition http_lines :: "string list \<Rightarrow> string" where
  "http_lines hs = concat (map (\<lambda>h. h @ CRLF) hs)"

definition http_line_ok :: "string \<Rightarrow> bool" where
  "http_line_ok h \<longleftrightarrow> h \<noteq> [] \<and> CR \<notin> set h \<and> NUL \<notin> set h"

lemma http_lines_simps [simp]: "http_lines [] = []" "http_lines (h # hs) = h @ CRLF @ http_lines hs"
  by (simp_all add: http_lines_def)

lemma http_lines_no_NUL: "list_all http_line_ok hs \<Longrightarrow> NUL \<notin> set (http_lines hs)"
  by (induction hs) (auto simp: http_line_ok_def CRLF_def NUL_def)

text \<open>The blank line behind a block of nonempty lines is the first double line break.\<close>

lemma find_blank_line:
  assumes "list_all http_line_ok (h # hs)"
  shows "find_sub (CRLF @ CRLF) (h @ CRLF @ http_lines hs @ CRLF @ r) =
    Some (length h + length (http_lines hs))"
  using assms
proof (induction hs arbitrary: h)
  case Nil
  then show ?case
    using find_sub_skip [of CR h "[LF, CR, LF]" "CRLF @ CRLF @ r"] find_sub_here [of "CRLF @ CRLF" r]
    by (simp add: CRLF_def http_line_ok_def)
next
  case (Cons g gs)
  then obtain c g' where g: "g = c # g'" "c \<noteq> CR" by (cases g) (auto simp: http_line_ok_def)
  have "find_sub (CRLF @ CRLF) (CRLF @ g @ CRLF @ http_lines gs @ CRLF @ r) =
      map_option (\<lambda>i. i + 2) (find_sub (CRLF @ CRLF) (g @ CRLF @ http_lines gs @ CRLF @ r))"
    using g by (simp add: CRLF_def option.map_comp comp_def)
  also have "\<dots> = Some (length g + length (http_lines gs) + 2)" using Cons by simp
  finally show ?case
    using Cons.prems find_sub_skip [of CR h "[LF, CR, LF]" "CRLF @ g @ CRLF @ http_lines gs @ CRLF @ r"]
    by (simp add: CRLF_def http_line_ok_def)
qed

section \<open>A response and its head\<close>

definition http_status_line :: "string \<Rightarrow> nat \<Rightarrow> string \<Rightarrow> string" where
  "http_status_line version code reason = ''HTTP/'' @ version @ '' '' @ fmt_u code @ '' '' @ reason"

definition http_head :: "string \<Rightarrow> nat \<Rightarrow> string \<Rightarrow> string list \<Rightarrow> string" where
  "http_head version code reason hs = http_status_line version code reason @ CRLF @ http_lines hs @ CRLF"

definition http_status_ok :: "string \<Rightarrow> nat \<Rightarrow> string \<Rightarrow> bool" where
  "http_status_ok version code reason \<longleftrightarrow> set version \<inter> {CHR '' '', CR, NUL} = {} \<and> 100 \<le> code \<and> code \<le> 999
     \<and> set reason \<inter> {CR, NUL} = {} \<and> 2 \<le> length version + length reason"

text \<open>The \<^verbatim>\<open>status_text\<close> field: at most 63 characters of the reason phrase, then zeros.\<close>

definition http_reason_field :: "string \<Rightarrow> string" where
  "http_reason_field reason = take 63 reason @ replicate (64 - length (take 63 reason)) NUL"

lemma fmt_u_set: "set (fmt_u n) \<inter> {CHR '' '', CR, NUL} = {}"
  using fmt_u_digits [of n] c_isdigit_plain by (auto simp: list_all_iff c_isspace_def)

lemma length_fmt_u_3:
  assumes "100 \<le> n" "n \<le> 999"
  shows "length (fmt_u n) = 3"
proof -
  have "\<not> n < 10" "\<not> n div 10 < 10" "n div 10 div 10 < 10" using assms by auto
  then show ?thesis
    by (simp add: fmt_u.simps [of n] fmt_u.simps [of "n div 10"] fmt_u.simps [of "n div 10 div 10"])
qed

lemma http_status_line_ok:
  assumes "http_status_ok version code reason"
  shows "http_line_ok (http_status_line version code reason)"
    and "12 \<le> length (http_status_line version code reason)"
  using assms fmt_u_set [of code] length_fmt_u_3 [of code]
  by (auto simp: http_status_ok_def http_line_ok_def http_status_line_def NUL_def)

lemma http_copy_status_text_reason:
  assumes "drop endptr d = CHR '' '' # reason @ r" and "line_end = endptr + 1 + length reason"
    and "http_status_text resp = replicate 64 NUL"
  shows "http_copy_status_text d endptr line_end resp = Some (resp\<lparr>http_status_text := http_reason_field reason\<rparr>)"
proof -
  let ?n = "min 63 (length reason)"
  have len: "endptr + 1 + length reason \<le> length d"
  proof -
    have "length (drop endptr d) = 1 + length reason + length r" using assms(1) by simp
    then show ?thesis by simp
  qed
  have at: "rd d endptr = Some (CHR '' '')" "drop (endptr + 1) d = reason @ r"
    using assms(1) len by (auto simp: rd_def Cons_nth_drop_Suc [symmetric])
  have n: "(if length reason \<ge> HTTP_MAX_STATUS_TEXT then HTTP_MAX_STATUS_TEXT - 1 else length reason) = ?n"
    by (simp add: const_defs)
  have t: "take ?n (drop (endptr + 1) d) = take 63 reason"
    unfolding at(2) by (simp add: min_def)
  have "memcpy (replicate 64 NUL) 0 d (endptr + 1) ?n = Some (take 63 reason @ replicate (64 - ?n) NUL)"
    using len t by (subst memcpy_Some) (simp_all add: blit_0)
  moreover have "wr (take 63 reason @ replicate (64 - ?n) NUL) ?n NUL = Some (take 63 reason @ replicate (64 - ?n) NUL)"
  proof -
    have "64 - ?n = Suc (63 - ?n)" by simp
    then show ?thesis by (subst wr_Some) (simp_all add: blit_append blit_0 min.commute)
  qed
  ultimately show ?thesis
    using at(1) assms(2,3) n by (simp add: http_copy_status_text_def Let_def http_reason_field_def min.commute split del: if_split cong: if_cong)
qed

lemma http_status_number:
  assumes "drop off d = fmt_u code @ CHR '' '' # r @ body" and "NUL \<notin> set r" and "c_text body = Some t"
    and "code \<le> 999"
  shows "c_strtol d off = Some (int code, off + length (fmt_u code))"
proof (rule c_strtol_number)
  have "NUL \<notin> set (CHR '' '' # r)" using assms(2) by (simp add: NUL_def)
  then show "c_text (CHR '' '' # r @ body) = Some ((CHR '' '' # r) @ t)"
    using c_text_append [of "CHR '' '' # r" body] assms(3) by simp
qed (use assms in \<open>auto simp: c_isdigit_def\<close>)

lemma http_parse_response_head:
  assumes ok: "http_status_ok version code reason" and hs: "list_all http_line_ok hs"
    and t: "c_text body = Some t" and n: "length (http_head version code reason hs) \<le> n"
  shows "http_parse_response (Some (http_head version code reason hs @ body)) n (Some g) =
    Some (0, Some \<lparr> http_status_code = int code, http_status_text = http_reason_field reason,
      http_header_len = length (http_head version code reason hs),
      http_body = Some (length (http_head version code reason hs)),
      http_body_len = n - length (http_head version code reason hs) \<rparr>)"
proof -
  let ?s = "http_status_line version code reason" and ?h = "http_head version code reason hs"
  let ?d = "?h @ body" and ?t = "?h @ t" and ?v = "''HTTP/'' @ version"
  note s = http_status_line_ok [OF ok]
  have h: "?h = ?s @ CRLF @ http_lines hs @ CRLF" by (simp add: http_head_def)
  have "NUL \<notin> set ?h"
    using s(1) http_lines_no_NUL [OF hs] by (auto simp: h http_line_ok_def CRLF_def NUL_def)
  then have tx: "c_text ?d = Some ?t" by (simp add: c_text_append t)
  have line: "c_strstr ?d 0 CRLF = Some (Some (length ?s))"
    unfolding c_strstr_def drop_0 tx using s(1) find_sub_skip [of CR ?s "[LF]" "CRLF @ http_lines hs @ CRLF @ t"] find_sub_here [of CRLF]
    by (simp add: h http_line_ok_def CRLF_def)
  have pre: "c_has_prefix ?d ''HTTP/'' = Some True"
    unfolding c_has_prefix_def tx by (simp add: h http_status_line_def)
  have vs: "?s = ?v @ CHR '' '' # fmt_u code @ CHR '' '' # reason" by (simp add: http_status_line_def)
  have sp: "c_strchr ?d 0 (CHR '' '') = Some (Some (length ?v))"
    unfolding c_strchr_def drop_0 tx using ok find_char_skip [of "CHR '' ''" ?v "CHR '' '' # fmt_u code @ CHR '' '' # reason @ CRLF @ http_lines hs @ CRLF @ t"]
    by (simp add: h vs http_status_ok_def)
  have d: "?d = (?v @ '' '' @ fmt_u code) @ CHR '' '' # reason @ CRLF @ http_lines hs @ CRLF @ body"
    by (simp add: h vs)
  have num: "c_strtol ?d (length ?v + 1) = Some (int code, length ?v + 1 + length (fmt_u code))"
    using ok hs t by (intro http_status_number [where r = "reason @ CRLF @ http_lines hs @ CRLF"])
      (auto simp: d http_status_ok_def CRLF_def NUL_def dest: http_lines_no_NUL)
  have reason: "http_copy_status_text ?d (length ?v + 1 + length (fmt_u code)) (length ?s)
      (http_response_zero\<lparr>http_status_code := int code\<rparr>) =
    Some (http_response_zero\<lparr>http_status_code := int code, http_status_text := http_reason_field reason\<rparr>)"
    by (rule http_copy_status_text_reason [where r = "CRLF @ http_lines hs @ CRLF @ body"])
      (simp_all add: d vs http_response_zero_def const_defs)
  have blank: "c_strstr ?d 0 (CRLF @ CRLF) = Some (Some (length ?s + length (http_lines hs)))"
    unfolding c_strstr_def drop_0 tx using find_blank_line [of ?s hs t] s(1) hs by (simp add: h)
  have hl: "length ?s + length (http_lines hs) + 4 = length ?h" by (simp add: h CRLF_def)
  have fits: "\<not> length ?s < 12" "length ?v < length ?s" using s(2) by (simp_all add: vs)
  have digits: "length ?v + 1 + length (fmt_u code) \<noteq> length ?v + 1" "100 \<le> code" "code \<le> 999"
    using ok fmt_u_nonempty [of code] by (simp_all add: http_status_ok_def)
  show ?thesis
    using line pre sp num reason blank hl fits digits n ok
    by (simp add: http_parse_response_def http_locate_body_def http_response_zero_def)
qed

section \<open>Safety of the response parser\<close>

lemma http_copy_status_text_safe:
  assumes "line_end \<le> length d" and "length (http_status_text r) = 64"
  shows "\<exists>s. http_copy_status_text d endptr line_end r = Some (r\<lparr>http_status_text := s\<rparr>) \<and> length s = 64"
proof (cases "endptr < line_end")
  case True
  let ?k = "if line_end - (endptr + 1) \<ge> 64 then 63 else line_end - (endptr + 1)"
  have k: "?k < 64" "endptr + 1 + ?k \<le> length d" using True assms(1) by auto
  obtain s where "memcpy (http_status_text r) 0 d (endptr + 1) ?k = Some s" "length s = 64"
    using k assms(2) by (simp only: memcpy_Some) simp
  moreover from this obtain s' where "wr s ?k NUL = Some s'" "length s' = 64"
    using k(1) by (simp only: wr_Some) simp
  moreover have "rd d endptr = Some (d ! endptr)" using True assms(1) by (simp add: rd_def)
  moreover have "r = r\<lparr>http_status_text := http_status_text r\<rparr>" by simp
  ultimately show ?thesis
    using True assms(2) unfolding http_copy_status_text_def Let_def HTTP_MAX_STATUS_TEXT_def
    by (cases "d ! endptr = CHR '' ''") (auto intro: exI [of _ "http_status_text r"])
next
  case False
  have "r = r\<lparr>http_status_text := http_status_text r\<rparr>" by simp
  with False assms(2) show ?thesis unfolding http_copy_status_text_def by metis
qed

definition http_located :: "nat \<Rightarrow> http_response \<Rightarrow> bool" where
  "http_located n r \<longleftrightarrow> 100 \<le> http_status_code r \<and> http_status_code r \<le> 999 \<and> length (http_status_text r) = 64
     \<and> http_header_len r \<le> n \<and> http_body r = Some (http_header_len r) \<and> http_body_len r = n - http_header_len r"

lemma http_locate_body_safe:
  assumes "NUL \<in> set d" and "100 \<le> http_status_code r" "http_status_code r \<le> 999" "length (http_status_text r) = 64"
  shows "\<exists>rc r'. http_locate_body d n r = Some (rc, Some r') \<and> (rc = 0 \<and> http_located n r' \<or> rc = -3)"
proof -
  from assms(1) have "NUL \<in> set (drop 0 d)" by simp
  then consider "c_strstr d 0 (CRLF @ CRLF) = Some None" | p where "c_strstr d 0 (CRLF @ CRLF) = Some (Some p)"
    by (rule c_strstr_safe)
  then show ?thesis
    using assms(2-) by cases (auto simp: http_locate_body_def http_located_def Let_def)
qed

lemma http_parse_response_safe:
  assumes "NUL \<in> set d" and "0 < n"
  shows "\<exists>rc r. http_parse_response (Some d) n (Some g) = Some (rc, Some r)
    \<and> (rc = 0 \<and> http_located n r \<or> rc \<in> {-2, -3})"
proof -
  from assms(1) have nul: "NUL \<in> set (drop 0 d)" by simp
  then have pre: "\<exists>b. c_has_prefix d ''HTTP/'' = Some b"
    using c_text_terminator [OF nul] by (auto simp: c_has_prefix_def)
  consider "c_strstr d 0 CRLF = Some None" | le where "c_strstr d 0 CRLF = Some (Some le)" "le + length CRLF < length d"
    using c_strstr_safe [OF nul] by metis
  then show ?thesis
  proof cases
    case 1
    with assms show ?thesis by (simp add: http_parse_response_def)
  next
    case 2
    consider "c_strchr d 0 (CHR '' '') = Some None"
      | sp where "c_strchr d 0 (CHR '' '') = Some (Some sp)" "NUL \<in> set (drop (sp + 1) d)"
      using c_strchr_safe [OF nul] by metis
    then show ?thesis
    proof cases
      case 1
      with 2 assms(2) pre show ?thesis by (auto simp: http_parse_response_def)
    next
      case sp: 2
      obtain v e where v: "c_strtol d (sp + 1) = Some (v, e)" using c_strtol_safe [OF sp(2)] by blast
      obtain s where s: "http_copy_status_text d e le (http_response_zero\<lparr>http_status_code := v\<rparr>) =
          Some (http_response_zero\<lparr>http_status_code := v, http_status_text := s\<rparr>)" "length s = 64"
        using http_copy_status_text_safe [of le d "http_response_zero\<lparr>http_status_code := v\<rparr>" e] 2(2)
        by (auto simp: http_response_zero_def const_defs)
      have "\<exists>rc r'. http_locate_body d n (http_response_zero\<lparr>http_status_code := v, http_status_text := s\<rparr>) =
          Some (rc, Some r') \<and> (rc = 0 \<and> http_located n r' \<or> rc = -3)" if "100 \<le> v" "v \<le> 999"
        using that s(2) by (intro http_locate_body_safe [OF assms(1)]) simp_all
      then show ?thesis
        using 2(1) sp(1) v s(1) assms(2) pre by (fastforce simp: http_parse_response_def)
    qed
  qed
qed

section \<open>The search for chunked coding\<close>

text \<open>The header search as a function of the header lines.\<close>

definition line_is_transfer_encoding :: "string \<Rightarrow> bool" where
  "line_is_transfer_encoding h \<longleftrightarrow> 17 < length h \<and> h ! 17 = CHR '':''
     \<and> map c_tolower (take 17 h) = map c_tolower ''Transfer-Encoding''"

definition mentions_chunked :: "string \<Rightarrow> bool" where
  "mentions_chunked v \<longleftrightarrow> find_sub ''chunked'' (map c_tolower v) \<noteq> None"

fun chunked_by_headers :: "string list \<Rightarrow> int" where
  "chunked_by_headers [] = 0"
| "chunked_by_headers (h # hs) =
    (if line_is_transfer_encoding h then (if mentions_chunked (drop 18 h) then 1 else 0)
     else chunked_by_headers hs)"

lemma nocase_match_eq:
  assumes "pos + length needle \<le> length d"
  shows "nocase_match d pos needle = Some (map c_tolower (take (length needle) (drop pos d)) = map c_tolower needle)"
  using assms
proof (induction d pos needle rule: nocase_match.induct)
  case (2 d pos x needle)
  then have "drop pos d = d ! pos # drop (pos + 1) d" by (simp add: Cons_nth_drop_Suc)
  with 2 show ?case by (auto simp: rd_def ascii_equal_nocase_def)
qed simp

declare nocase_match.simps [simp del]

lemma nocase_match_len:
  "length needle = n \<Longrightarrow> pos + n \<le> length d \<Longrightarrow>
    nocase_match d pos needle = Some (map c_tolower (take n (drop pos d)) = map c_tolower needle)"
  using nocase_match_eq by blast

lemma literal_lengths: "length ''chunked'' = 7" "length ''Transfer-Encoding'' = 17"
  by simp_all

lemma lower_chunked: "map c_tolower ''chunked'' = ''chunked''"
  by (simp add: c_tolower_def)

lemma ex_from_step: "(\<exists>j\<ge>i. P j) \<longleftrightarrow> P i \<or> (\<exists>j\<ge>i + 1. P j)" for i :: nat
  by (metis Suc_eq_plus1 Suc_leD not_less_eq_eq order_antisym order_refl)

lemma chunked_loop_eq:
  assumes "val + n \<le> length d"
  shows "chunked_loop d val n i =
    Some (if \<exists>j\<ge>i. j + 7 \<le> n \<and> map c_tolower (take 7 (drop (val + j) d)) = ''chunked'' then 1 else 0)"
  using assms
proof (induction d val n i rule: chunked_loop.induct)
  case (1 d val n i)
  let ?m = "map c_tolower (take 7 (drop (val + i) d)) = ''chunked''"
  show ?case
  proof (cases "i + 7 \<le> n")
    case True
    then have m: "nocase_match d (val + i) ''chunked'' = Some ?m"
      using "1.prems" nocase_match_len [of "''chunked''" 7 "val + i" d] unfolding lower_chunked by simp
    show ?thesis
      unfolding chunked_loop.simps [of d val n i] ex_from_step [of i] using True m "1.IH" [OF True m] "1.prems"
      by (cases ?m) (simp_all only: option.case if_True if_False not_True_eq_False not_False_eq_True simp_thms)
  next
    case False
    then have "\<not> (\<exists>j\<ge>i. j + 7 \<le> n \<and> map c_tolower (take 7 (drop (val + j) d)) = ''chunked'')" by auto
    with False show ?thesis by (simp only: chunked_loop.simps [of d val n i] if_False)
  qed
qed

lemma value_contains_chunked_eq:
  assumes "val + n \<le> length d"
  shows "value_contains_chunked d val n = Some (if mentions_chunked (take n (drop val d)) then 1 else 0)"
proof -
  let ?v = "map c_tolower (take n (drop val d))"
  have len: "length ?v = n" using assms by simp
  have at: "take 7 (drop j ?v) = map c_tolower (take 7 (drop (val + j) d))" if "j + 7 \<le> n" for j
    using that by (simp add: take_map drop_map drop_take add.commute)
  have "mentions_chunked (take n (drop val d)) \<longleftrightarrow>
      (\<exists>j. j + 7 \<le> n \<and> map c_tolower (take 7 (drop (val + j) d)) = ''chunked'')"
    unfolding mentions_chunked_def find_sub_step literal_lengths len using at by metis
  then show ?thesis
    using chunked_loop_eq [OF assms, of 0] by (auto simp: value_contains_chunked_def)
qed

lemma header_name_matches_line:
  assumes "drop cursor d = h @ r"
  shows "header_name_matches d cursor (length h) ''Transfer-Encoding'' = Some (line_is_transfer_encoding h)"
proof (cases "17 < length h")
  case True
  have "length (drop cursor d) = length h + length r" using assms by simp
  then have l: "cursor + length h \<le> length d" using True by simp
  have "nocase_match d cursor ''Transfer-Encoding'' =
      Some (map c_tolower (take 17 h) = map c_tolower ''Transfer-Encoding'')"
    using nocase_match_len [of "''Transfer-Encoding''" 17 cursor d] True l unfolding assms by simp
  moreover have "rd d (cursor + 17) = Some (h ! 17)"
    using True l assms by (simp add: rd_def) (metis append_eq_conv_conj le_add1 nth_append nth_drop order_trans)
  ultimately show ?thesis
    using True unfolding header_name_matches_def line_is_transfer_encoding_def Let_def literal_lengths
    by simp
qed (auto simp: header_name_matches_def line_is_transfer_encoding_def)

lemma transfer_encoding_no_colon:
  assumes "line_is_transfer_encoding h"
  shows "find_char (CHR '':'') h = Some 17"
proof -
  have low: "map c_tolower (take 17 h) = map c_tolower ''Transfer-Encoding''" "17 < length h" "h ! 17 = CHR '':''"
    using assms by (auto simp: line_is_transfer_encoding_def)
  have "c_tolower (CHR '':'') \<notin> set (map c_tolower ''Transfer-Encoding'')"
    by code_simp
  then have "CHR '':'' \<notin> set (take 17 h)" unfolding low(1) [symmetric] by (metis image_eqI list.set_map)
  moreover have "h = take 17 h @ CHR '':'' # drop 18 h"
    using low(2,3) id_take_nth_drop [of 17 h] by simp
  ultimately show ?thesis
    using low(2) find_char_skip [of "CHR '':''" "take 17 h" "CHR '':'' # drop 18 h"] by simp
qed

lemma transfer_encoding_value_line:
  assumes "drop cursor d = h @ r" and "line_is_transfer_encoding h"
  shows "transfer_encoding_value d cursor (cursor + length h) =
    Some (if mentions_chunked (drop 18 h) then 1 else 0)"
proof -
  have h: "17 < length h" using assms(2) by (simp add: line_is_transfer_encoding_def)
  have "length (drop cursor d) = length h + length r" using assms(1) by simp
  then have l: "cursor + length h \<le> length d" using h by simp
  have "drop (cursor + 18) d = drop 18 h @ r" using drop_within [OF assms(1), of 18] h by simp
  then have "take (length h - 18) (drop (cursor + 18) d) = drop 18 h" by simp
  then show ?thesis
    using l h assms value_contains_chunked_eq [of "cursor + 18" "length h - 18" d]
    by (simp add: add.commute transfer_encoding_value_def mem_read_Some transfer_encoding_no_colon Let_def)
qed

lemma header_loop_lines:
  assumes "list_all http_line_ok hs" and "drop cursor d = http_lines hs @ CRLF @ body"
    and "hend = cursor + length (http_lines hs) + 2" and "c_text body = Some t"
  shows "header_loop d hend cursor = Some (chunked_by_headers hs)"
  using assms(1-3)
proof (induction hs arbitrary: cursor)
  case Nil
  have "c_text (CRLF @ body) = Some (CRLF @ t)"
    using assms(4) by (subst c_text_append) (simp_all add: CRLF_def NUL_def)
  then have "c_strstr d cursor CRLF = Some (Some cursor)"
    using Nil find_sub_here [of CRLF t] by (simp add: c_strstr_def)
  with Nil show ?case by (simp add: header_loop.simps [of d])
next
  case (Cons h hs)
  let ?r = "CRLF @ http_lines hs @ CRLF @ body"
  have hs: "list_all http_line_ok hs" and "http_line_ok h" using Cons.prems(1) by simp_all
  then have h: "h \<noteq> []" "CR \<notin> set h" by (simp_all add: http_line_ok_def)
  have d: "drop cursor d = h @ ?r" using Cons.prems(2) by simp
  have "NUL \<notin> set (h @ CRLF @ http_lines hs @ CRLF)"
    using http_lines_no_NUL [OF Cons.prems(1)] by (auto simp: CRLF_def NUL_def)
  then have "c_text (drop cursor d) = Some (h @ CRLF @ http_lines hs @ CRLF @ t)"
    using c_text_append [of "h @ CRLF @ http_lines hs @ CRLF" body] assms(4) d by simp
  then have line: "c_strstr d cursor CRLF = Some (Some (cursor + length h))"
    using h find_sub_skip [of CR h "[LF]" "CRLF @ http_lines hs @ CRLF @ t"] find_sub_here [of CRLF]
    by (simp add: c_strstr_def CRLF_def)
  have rest: "header_loop d hend (cursor + length h + 2) = Some (chunked_by_headers hs)"
  proof (rule Cons.IH [OF hs])
    show "drop (cursor + length h + 2) d = http_lines hs @ CRLF @ body"
      using drop_within [of cursor d "h @ CRLF" "http_lines hs @ CRLF @ body" "length (h @ CRLF)"] d
      by (simp add: CRLF_def add.assoc)
  qed (use Cons.prems(3) in \<open>simp add: CRLF_def\<close>)
  note lems = header_name_matches_line [OF d] transfer_encoding_value_line [OF d] rest
  have "cursor < hend" "\<not> hend < cursor + length h" using Cons.prems(3) h(1) by simp_all
  with line h lems show ?case
    by (cases "line_is_transfer_encoding h") (simp_all add: header_loop.simps [of d hend cursor])
qed

lemma http_is_chunked_head:
  assumes "http_status_ok version code reason" and "list_all http_line_ok hs" and "c_text body = Some t"
  shows "http_response_is_chunked (Some (http_head version code reason hs @ body))
      (length (http_head version code reason hs)) = Some (chunked_by_headers hs)"
proof -
  let ?s = "http_status_line version code reason" and ?h = "http_head version code reason hs"
  note s = http_status_line_ok [OF assms(1)]
  have h: "?h = ?s @ CRLF @ http_lines hs @ CRLF" by (simp add: http_head_def)
  have "NUL \<notin> set ?h"
    using s(1) http_lines_no_NUL [OF assms(2)] by (auto simp: h http_line_ok_def CRLF_def NUL_def)
  then have tx: "c_text (?h @ body) = Some (?h @ t)" by (simp add: c_text_append assms(3))
  have line: "c_strstr (?h @ body) 0 CRLF = Some (Some (length ?s))"
    unfolding c_strstr_def drop_0 tx
    using s(1) find_sub_skip [of CR ?s "[LF]" "CRLF @ http_lines hs @ CRLF @ t"] find_sub_here [of CRLF]
    by (simp add: h http_line_ok_def CRLF_def)
  have "header_loop (?h @ body) (length ?h) (length ?s + 2) = Some (chunked_by_headers hs)"
    by (rule header_loop_lines [OF assms(2) _ _ assms(3)]) (simp_all add: h CRLF_def)
  moreover have "length ?s < length ?h" "length ?h \<noteq> 0" by (simp_all add: h CRLF_def)
  ultimately show ?thesis using line by (simp add: http_response_is_chunked_def)
qed

section \<open>Properties\<close>

text \<open>
  The request for a nonempty host and path is the five header lines and the blank line, stored with
  a terminator, and the result is its length; when the text and the terminator do not fit in
  \<^verbatim>\<open>buffer_len\<close>, the result is 0 and nothing behind \<^verbatim>\<open>buffer_len\<close> is written.
\<close>

theorem http_request_exact:
  assumes "NUL \<notin> set host" "host \<noteq> []" and "NUL \<notin> set path" "path \<noteq> []" and "n \<le> length buf"
  shows "http_build_get_request (Some buf) n (Some (host @ NUL # x)) (Some (path @ NUL # y)) =
    (if length (http_request_text host path) < n
     then Some (length (http_request_text host path),
       Some (http_request_text host path @ NUL # drop (length (http_request_text host path) + 1) buf))
     else Some (0, Some (if n = 0 then buf else take (n - 1) (http_request_text host path) @ NUL # drop n buf)))"
proof -
  let ?t = "http_request_text host path"
  have "hd host \<noteq> NUL" "hd path \<noteq> NUL" using assms(1-4) by (metis hd_in_set)+
  then have "rd (host @ NUL # x) 0 = Some (hd host)" "rd (path @ NUL # y) 0 = Some (hd path)"
    "hd host \<noteq> NUL" "hd path \<noteq> NUL"
    using assms(2,4) by (simp_all add: rd_def nth_append hd_conv_nth)
  moreover have "snprintf buf n ?t = Some (int (length ?t), if length ?t < n then ?t @ NUL # drop (length ?t + 1) buf
      else if n = 0 then buf else take (n - 1) ?t @ NUL # drop n buf)"
    using snprintf_fits [of ?t n buf] snprintf_truncates [of n ?t buf] assms(5)
    by (auto simp: snprintf_def)
  ultimately show ?thesis
    using assms(1,3) by (simp add: http_build_get_request_def c_text_terminated)
qed

theorem http_request_exact_witness:
  "http_build_get_request (Some (replicate 20 NUL)) 10 (Some (''a.b'' @ [NUL])) (Some (''/'' @ [NUL])) =
    Some (0, Some (''GET / HTT'' @ replicate 11 NUL))"
  using http_request_exact [of "''a.b''" "''/''" 10 "replicate 20 NUL" "[]" "[]"]
  by (simp add: http_request_text_def CRLF_def NUL_def numeral_eq_Suc)

text \<open>
  (C28) A response with a status line, header lines and a blank line, followed by any terminated body,
  is parsed exactly: the status code, the reason phrase cut to 63 characters and padded with zeros,
  the length of the head, and the body behind it.
\<close>

theorem http_response_exact:
  assumes "http_status_ok version code reason" and "list_all http_line_ok hs" and "NUL \<in> set body"
    and "length (http_head version code reason hs) \<le> n"
  shows "http_parse_response (Some (http_head version code reason hs @ body)) n (Some g) =
    Some (0, Some \<lparr> http_status_code = int code, http_status_text = http_reason_field reason,
      http_header_len = length (http_head version code reason hs),
      http_body = Some (length (http_head version code reason hs)),
      http_body_len = n - length (http_head version code reason hs) \<rparr>)"
  using http_parse_response_head [OF assms(1,2) _ assms(4)] assms(3) by (simp add: c_text_def)

theorem http_response_exact_witness:
  "http_parse_response (Some (http_head ''1.1'' 404 ''Not Found'' [''A: b''] @ ''xyz'' @ [NUL]))
      (length (http_head ''1.1'' 404 ''Not Found'' [''A: b'']) + 3) (Some http_response_zero) =
    Some (0, Some \<lparr> http_status_code = 404, http_status_text = http_reason_field ''Not Found'',
      http_header_len = length (http_head ''1.1'' 404 ''Not Found'' [''A: b'']),
      http_body = Some (length (http_head ''1.1'' 404 ''Not Found'' [''A: b''])), http_body_len = 3 \<rparr>)"
  using http_response_exact [of "''1.1''" 404 "''Not Found''" "[''A: b'']" "''xyz'' @ [NUL]"
      "length (http_head ''1.1'' 404 ''Not Found'' [''A: b'']) + 3" http_response_zero]
  by (simp add: http_status_ok_def http_line_ok_def NUL_def)

text \<open>
  On any array that holds a terminator, the response parser is free of undefined behaviour; it
  returns 0 only with a status code between 100 and 999 and a body that lies within the data, and -2 or -3
  otherwise.
\<close>

theorem http_parse_safety:
  assumes "NUL \<in> set d" and "0 < n"
  shows "\<exists>rc r. http_parse_response (Some d) n (Some g) = Some (rc, Some r)
    \<and> (rc = 0 \<and> http_located n r \<or> rc \<in> {-2, -3})"
  using assms by (rule http_parse_response_safe)

theorem http_parse_safety_witness:
  "\<exists>rc r. http_parse_response (Some (''HTTP/ -7 '' @ [CR, NUL])) 9 (Some http_response_zero) = Some (rc, Some r)
    \<and> (rc = 0 \<and> http_located 9 r \<or> rc \<in> {-2, -3})"
  by (rule http_parse_safety) simp_all

text \<open>
  (C29) The header search agrees with its reference definition on the list of header lines: the first
  line named Transfer-Encoding, in any case, decides, by whether its value mentions chunked in any case;
  without such a line the response is not chunked.
\<close>

theorem http_chunked_header:
  assumes "http_status_ok version code reason" and "list_all http_line_ok hs" and "NUL \<in> set body"
  shows "http_response_is_chunked (Some (http_head version code reason hs @ body))
      (length (http_head version code reason hs)) = Some (chunked_by_headers hs)"
  using http_is_chunked_head [OF assms(1,2)] assms(3) by (simp add: c_text_def)

theorem http_chunked_header_witness:
  "http_response_is_chunked (Some (http_head ''1.1'' 200 ''OK'' [''A: b'', ''transfer-ENCODING: Chunked''] @ [NUL]))
      (length (http_head ''1.1'' 200 ''OK'' [''A: b'', ''transfer-ENCODING: Chunked''])) = Some 1"
proof -
  have "chunked_by_headers [''A: b'', ''transfer-ENCODING: Chunked''] = 1" by code_simp
  then show ?thesis
    using http_chunked_header [of "''1.1''" 200 "''OK''" "[''A: b'', ''transfer-ENCODING: Chunked'']" "[NUL]"]
    by (simp add: http_status_ok_def http_line_ok_def NUL_def)
qed

end
