(* ===== verification/HttpChunked.thy ===== *)
theory HttpChunked
  imports Http
begin

text \<open>
  The chunk decoder of \<^verbatim>\<open>src/src/http.c\<close>: it stays inside both buffers on any input, and it
  decodes every well-formed chunked body exactly.
\<close>

section \<open>Safety of the chunk decoder\<close>

lemma crlf_loop_safe: "n \<le> length d \<Longrightarrow> \<exists>r. crlf_loop d n i = Some r"
proof (induction d n i rule: crlf_loop.induct)
  case (1 d n i)
  then show ?case
    unfolding crlf_loop.simps [of d n i] by (auto simp: rd_def)
qed

lemma chunk_size_loop_safe:
  "line + n \<le> length d \<Longrightarrow> \<exists>r. chunk_size_loop d line n i v saw = Some r"
proof (induction d line n i v saw rule: chunk_size_loop.induct)
  case (1 d line n i v saw)
  show ?case
  proof (cases "i < n")
    case True
    then have "rd d (line + i) = Some (d ! (line + i))" using "1.prems" by (simp add: rd_def)
    with 1 True show ?thesis unfolding chunk_size_loop.simps [of d line n i v saw] by simp
  qed (simp add: chunk_size_loop.simps [of d line n i v saw])
qed

lemma parse_chunk_size_safe: "line + n \<le> length d \<Longrightarrow> \<exists>r. parse_chunk_size d line n = Some r"
  by (simp add: parse_chunk_size_def chunk_size_loop_safe)

text \<open>What an iteration guarantees: no write at or behind \<open>m\<close>, and room for the terminator.\<close>

definition chunk_outcome_ok :: "nat \<Rightarrow> string \<Rightarrow> chunk_outcome \<Rightarrow> bool" where
  "chunk_outcome_ok m out o' = (case o' of
     Finished r out' \<Rightarrow> r < m \<and> length out' = length out \<and> drop m out' = drop m out \<and> (r \<noteq> 0 \<longrightarrow> out' ! r = NUL)
   | Continue i j out' \<Rightarrow> j < m \<and> length out' = length out \<and> drop m out' = drop m out)"

lemma chunk_step_safe:
  assumes n: "n \<le> length d" and m: "j < m" "m \<le> length out"
  shows "\<exists>o'. chunk_step d n m i j out = Some o' \<and> chunk_outcome_ok m out o'"
proof -
  have stop: "chunk_outcome_ok m out (Finished 0 out)" using m by (simp add: chunk_outcome_ok_def)
  obtain e where e: "crlf_loop d n i = Some e" using crlf_loop_safe [OF n] by blast
  show ?thesis
  proof (cases e)
    case None
    with e stop show ?thesis by (simp add: chunk_step_def)
  next
    case (Some le)
    with e have le: "i \<le> le" "le + 1 < n" using crlf_loop_bounds by auto
    then obtain z where z: "parse_chunk_size d i (le - i) = Some z"
      using parse_chunk_size_safe [of i "le - i" d] n by auto
    show ?thesis
    proof (cases z)
      case None
      with e Some z stop show ?thesis by (simp add: chunk_step_def)
    next
      case (Some k)
      let ?o = "blit j (take k (drop (le + 2) d)) out"
      have cp: "memcpy out j d (le + 2) k = Some ?o" "chunk_outcome_ok m out (Finished 0 ?o)"
        "chunk_outcome_ok m out (Continue i' (j + k) ?o)" if "k \<le> n - (le + 2)" "k \<le> m - j - 1" for i'
        using that le n m by (auto simp: memcpy_Some chunk_outcome_ok_def drop_blit)
      have last: "\<exists>out'. wr out j NUL = Some out' \<and> chunk_outcome_ok m out (Finished j out')"
        using m by (simp add: wr_Some chunk_outcome_ok_def drop_blit nth_blit)
      show ?thesis
        using e \<open>e = Some le\<close> z Some stop cp last le n m
        by (auto simp: chunk_step_def Let_def not_less rd_Some)
    qed
  qed
qed

lemma decode_loop_safe:
  assumes "n \<le> length d" and "j < m" and "m \<le> length out"
  shows "\<exists>r out'. decode_loop d n m i j out = Some (r, out') \<and> chunk_outcome_ok m out (Finished r out')"
  using assms
proof (induction d n m i j out rule: decode_loop.induct)
  case (1 d n m i j out)
  obtain o' where o': "chunk_step d n m i j out = Some o'" "chunk_outcome_ok m out o'"
    using chunk_step_safe [OF "1.prems"] by blast
  show ?case
  proof (cases "i < n")
    case True
    show ?thesis
    proof (cases o')
      case (Finished r out')
      with o' True show ?thesis by (simp add: decode_loop.simps [of d n m i j out])
    next
      case (Continue i' j' out')
      with o' have ok: "j' < m" "length out' = length out" "drop m out' = drop m out"
        by (simp_all add: chunk_outcome_ok_def)
      with "1.IH" [OF True o'(1) Continue] "1.prems" o' Continue True show ?thesis
        by (auto simp: decode_loop.simps [of d n m i j out] chunk_outcome_ok_def)
    qed
  next
    case False
    with "1.prems" show ?thesis by (simp add: decode_loop.simps [of d n m i j out] chunk_outcome_ok_def)
  qed
qed

section \<open>Exact decoding\<close>

lemma crlf_loop_line:
  assumes "CR \<notin> set l" and "length pre + length l + 1 < n"
  shows "crlf_loop (pre @ l @ CR # LF # post) n (length pre) = Some (Some (length pre + length l))"
  using assms
proof (induction l arbitrary: pre)
  case Nil
  then show ?case by (simp add: crlf_loop.simps rd_def nth_append)
next
  case (Cons c l)
  then have "crlf_loop ((pre @ [c]) @ l @ CR # LF # post) n (length (pre @ [c])) =
      Some (Some (length (pre @ [c]) + length l))" by (intro Cons.IH) simp_all
  with Cons.prems show ?case
    by (auto simp: crlf_loop.simps [of _ n "length pre"] rd_def nth_append)
qed

definition hex_text :: "string \<Rightarrow> bool" where
  "hex_text ds \<longleftrightarrow> ds \<noteq> [] \<and> list_all (\<lambda>c. 0 \<le> hex_value c) ds"

definition hex_number :: "string \<Rightarrow> nat" where
  "hex_number ds = foldl (\<lambda>v c. v * 16 + nat (hex_value c)) 0 ds"

definition chunk_extension :: "string \<Rightarrow> bool" where
  "chunk_extension ext \<longleftrightarrow> (ext = [] \<or> hd ext = CHR '';'') \<and> CR \<notin> set ext"

lemma hex_value_special:
  "0 \<le> hex_value c \<Longrightarrow> c \<noteq> CHR '';'' \<and> c \<noteq> CHR '' '' \<and> c \<noteq> TAB \<and> c \<noteq> CR"
  by (auto simp: hex_value_def Let_def)

lemma hex_value_le: "hex_value c \<le> 15"
  by (simp add: hex_value_def Let_def)

lemma hex_fold_ge: "v \<le> foldl (\<lambda>v c. v * 16 + nat (hex_value c)) v ds"
proof (induction ds arbitrary: v)
  case (Cons c ds)
  have "v \<le> v * 16 + nat (hex_value c)" by simp
  also have "\<dots> \<le> foldl (\<lambda>v c. v * 16 + nat (hex_value c)) (v * 16 + nat (hex_value c)) ds"
    by (rule Cons.IH)
  finally show ?case by simp
qed simp

lemma chunk_size_digits:
  assumes "list_all (\<lambda>c. 0 \<le> hex_value c) ds" and "drop (line + i) d = ds @ r" and "i + length ds \<le> n"
    and "foldl (\<lambda>v c. v * 16 + nat (hex_value c)) v ds < SIZE_LIMIT"
  shows "chunk_size_loop d line n i v saw = chunk_size_loop d line n (i + length ds)
    (foldl (\<lambda>v c. v * 16 + nat (hex_value c)) v ds) (saw \<or> ds \<noteq> [])"
  using assms
proof (induction ds arbitrary: i v saw)
  case (Cons c ds)
  let ?v = "v * 16 + nat (hex_value c)"
  have len: "line + i < length d" using Cons.prems(2) by (metis append_Cons drop_eq_Nil linorder_not_le list.distinct(1))
  then have c: "rd d (line + i) = Some c" "drop (line + (i + 1)) d = ds @ r"
    using Cons.prems(2) by (auto simp: rd_def Cons_nth_drop_Suc [symmetric])
  have "?v < SIZE_LIMIT" using hex_fold_ge [of ?v ds] Cons.prems(4) by simp
  then have small: "\<not> v > size_sub (SIZE_LIMIT - 1) (nat (hex_value c)) div 16"
    using hex_value_le [of c] by (simp add: size_sub_def)
  have ch: "c \<noteq> CHR '';''" "\<not> (c = CHR '' '' \<or> c = TAB)" "\<not> hex_value c < 0"
    using hex_value_special [of c] Cons.prems(1) by auto
  have "chunk_size_loop d line n i v saw = chunk_size_loop d line n (i + 1) ?v True"
    unfolding chunk_size_loop.simps [of d line n i v saw] using c(1) small ch Cons.prems(3) by simp
  also have "\<dots> = chunk_size_loop d line n (i + 1 + length ds)
      (foldl (\<lambda>v c. v * 16 + nat (hex_value c)) ?v ds) (True \<or> ds \<noteq> [])"
    using Cons.prems c(2) by (intro Cons.IH) simp_all
  finally show ?case by simp
qed simp

lemma parse_chunk_size_line:
  assumes "hex_text ds" and "chunk_extension ext" and "hex_number ds < SIZE_LIMIT"
  shows "parse_chunk_size (pre @ ds @ ext @ post) (length pre) (length ds + length ext) = Some (Some (hex_number ds))"
proof -
  let ?d = "pre @ ds @ ext @ post" and ?n = "length ds + length ext"
  have "chunk_size_loop ?d (length pre) ?n 0 0 False = chunk_size_loop ?d (length pre) ?n (length ds) (hex_number ds) True"
    using chunk_size_digits [of ds "length pre" 0 ?d "ext @ post" ?n 0 False] assms(1,3)
    by (simp add: hex_text_def hex_number_def)
  also have "\<dots> = Some (Some (hex_number ds))"
    using assms(2) by (cases ext) (simp_all add: chunk_size_loop.simps rd_def nth_append chunk_extension_def)
  finally show ?thesis using assms(1) by (simp add: parse_chunk_size_def hex_text_def)
qed

record http_chunk =
  chunk_digits :: string
  chunk_ext :: string
  chunk_data :: string

definition http_chunk_ok :: "http_chunk \<Rightarrow> bool" where
  "http_chunk_ok ck \<longleftrightarrow> hex_text (chunk_digits ck) \<and> chunk_extension (chunk_ext ck)
     \<and> hex_number (chunk_digits ck) = length (chunk_data ck) \<and> 0 < length (chunk_data ck)
     \<and> length (chunk_data ck) < SIZE_LIMIT"

definition http_chunk_bytes :: "http_chunk \<Rightarrow> string" where
  "http_chunk_bytes ck = chunk_digits ck @ chunk_ext ck @ CRLF @ chunk_data ck @ CRLF"

lemma hex_line_no_CR: "hex_text ds \<Longrightarrow> chunk_extension ext \<Longrightarrow> CR \<notin> set (ds @ ext)"
  by (auto simp: hex_text_def chunk_extension_def list_all_iff dest: hex_value_special)

lemma chunk_line_found:
  assumes "hex_text ds" and "chunk_extension ext" and "d = pre @ ds @ ext @ CRLF @ post"
  shows "crlf_loop d (length d) (length pre) = Some (Some (length pre + (length ds + length ext)))"
  using crlf_loop_line [OF hex_line_no_CR [OF assms(1,2)], of pre "length d" post] assms(3)
  by (simp add: CRLF_def)

lemma chunk_step_data:
  assumes ck: "http_chunk_ok ck" and d: "d = pre @ http_chunk_bytes ck @ post"
    and m: "j < m" "m \<le> length out"
  shows "chunk_step d (length d) m (length pre) j out =
    Some (if j + length (chunk_data ck) < m
          then Continue (length (pre @ http_chunk_bytes ck)) (j + length (chunk_data ck))
            (blit j (chunk_data ck) out)
          else Finished 0 out)"
proof -
  let ?ds = "chunk_digits ck" and ?ext = "chunk_ext ck" and ?b = "chunk_data ck"
  let ?k = "length ?ds + length ?ext"
  have d': "d = pre @ ?ds @ ?ext @ CRLF @ ?b @ CRLF @ post" by (simp add: d http_chunk_bytes_def)
  have line: "crlf_loop d (length d) (length pre) = Some (Some (length pre + ?k))"
    using ck d' by (intro chunk_line_found) (simp_all add: http_chunk_ok_def)
  have size: "parse_chunk_size d (length pre) ?k = Some (Some (length ?b))"
    using parse_chunk_size_line [of ?ds ?ext pre "CRLF @ ?b @ CRLF @ post"] ck d'
    by (simp add: http_chunk_ok_def)
  have pos: "drop (length pre + ?k + 2) d = ?b @ CRLF @ post"
    by (simp add: d' CRLF_def)
  then have "rd d (length pre + ?k + 2 + length ?b) = Some CR"
    "rd d (length pre + ?k + 2 + length ?b + 1) = Some LF"
    by (auto simp: d' CRLF_def rd_def nth_append)
  moreover have "length d = length pre + ?k + 2 + length ?b + 2 + length post" by (simp add: d' CRLF_def)
  moreover have "length (pre @ http_chunk_bytes ck) = length pre + ?k + 2 + length ?b + 2"
    by (simp add: http_chunk_bytes_def CRLF_def)
  ultimately show ?thesis
    using line size pos ck m
    by (auto simp: chunk_step_def Let_def memcpy_Some http_chunk_ok_def)
qed

lemma chunk_step_last:
  assumes "hex_text ds" and "chunk_extension ext" and "hex_number ds = 0"
    and d: "d = pre @ ds @ ext @ CRLF @ post" and m: "j < m" "m \<le> length out"
  shows "chunk_step d (length d) m (length pre) j out = Some (Finished j (blit j [NUL] out))"
proof -
  have "crlf_loop d (length d) (length pre) = Some (Some (length pre + (length ds + length ext)))"
    using assms(1,2) d by (rule chunk_line_found)
  moreover have "parse_chunk_size d (length pre) (length ds + length ext) = Some (Some 0)"
    using parse_chunk_size_line [of ds ext pre "CRLF @ post"] assms(1-3) d by simp
  ultimately show ?thesis using m by (simp add: chunk_step_def Let_def wr_Some)
qed

text \<open>A chunked body: chunks, the last chunk of size zero, and a trailer the decoder ignores.\<close>

definition http_chunked_body :: "http_chunk list \<Rightarrow> string \<Rightarrow> string \<Rightarrow> string \<Rightarrow> string" where
  "http_chunked_body cks ds ext trailer = concat (map http_chunk_bytes cks) @ ds @ ext @ CRLF @ trailer"

definition http_chunk_text :: "http_chunk list \<Rightarrow> string" where
  "http_chunk_text cks = concat (map chunk_data cks)"

lemma decode_loop_chunks:
  assumes "list_all http_chunk_ok cks" and last: "hex_text ds" "chunk_extension ext" "hex_number ds = 0"
    and "d = pre @ http_chunked_body cks ds ext trailer" and "j < m" and "m \<le> length out"
  shows "if j + length (http_chunk_text cks) < m
    then decode_loop d (length d) m (length pre) j out =
      Some (j + length (http_chunk_text cks), blit j (http_chunk_text cks @ [NUL]) out)
    else \<exists>out'. decode_loop d (length d) m (length pre) j out = Some (0, out') \<and> length out' = length out"
  using assms(1,5-)
proof (induction cks arbitrary: pre j out)
  case Nil
  then have d: "d = pre @ ds @ ext @ CRLF @ trailer" by (simp add: http_chunked_body_def)
  then have "length pre < length d" by (simp add: CRLF_def)
  then show ?case
    using chunk_step_last [OF last d Nil(3,4)] Nil(3)
    by (simp add: decode_loop.simps [of d] http_chunk_text_def)
next
  case (Cons ck cks)
  let ?rest = "http_chunked_body cks ds ext trailer" and ?b = "chunk_data ck"
  have d: "d = pre @ http_chunk_bytes ck @ ?rest" using Cons.prems(2) by (simp add: http_chunked_body_def)
  have "length pre < length d" by (simp add: d http_chunk_bytes_def CRLF_def)
  then have step: "decode_loop d (length d) m (length pre) j out =
      (if j + length ?b < m
       then decode_loop d (length d) m (length (pre @ http_chunk_bytes ck)) (j + length ?b) (blit j ?b out)
       else Some (0, out))"
    using chunk_step_data [OF _ d Cons.prems(3,4)] Cons.prems(1) by (simp add: decode_loop.simps [of d _ m "length pre"])
  show ?case
  proof (cases "j + length ?b < m")
    case True
    then have l: "length (blit j ?b out) = length out" using Cons.prems(4) by simp
    have "blit (j + length ?b) (http_chunk_text cks @ [NUL]) (blit j ?b out) =
        blit j (?b @ http_chunk_text cks @ [NUL]) out" if "j + length ?b + length (http_chunk_text cks) < m"
      using that Cons.prems(4) by (intro blit_adjacent) simp
    then show ?thesis
      using Cons.IH [of "pre @ http_chunk_bytes ck" "j + length ?b" "blit j ?b out"] Cons.prems(1,4) True l d
      unfolding step by (auto simp: http_chunk_text_def add.assoc split: if_splits)
  next
    case False
    then show ?thesis unfolding step by (simp add: http_chunk_text_def)
  qed
qed

section \<open>Properties\<close>

definition http_example_chunks :: "http_chunk list" where
  "http_example_chunks = [\<lparr> chunk_digits = ''4'', chunk_ext = ''; x=y'', chunk_data = ''Wiki'' \<rparr>,
     \<lparr> chunk_digits = ''05'', chunk_ext = [], chunk_data = ''pedia'' \<rparr>]"

text \<open>
  (C27) A chunked body of nonempty chunks with hexadecimal sizes in either case, leading zeros and
  chunk extensions, ended by a chunk of size zero and any trailer, decodes to the concatenation of the
  chunk data with a terminator behind it, and the result is its length; the rest of the output buffer
  is unchanged. When the data and the terminator do not fit, the result is 0.
\<close>

theorem http_chunked_decode:
  assumes "list_all http_chunk_ok cks" and "hex_text ds" "chunk_extension ext" "hex_number ds = 0"
    and "m \<le> length out"
  shows "if length (http_chunk_text cks) < m
    then http_decode_chunked_body (Some (http_chunked_body cks ds ext trailer))
        (length (http_chunked_body cks ds ext trailer)) (Some out) m =
      Some (length (http_chunk_text cks),
        Some (http_chunk_text cks @ NUL # drop (length (http_chunk_text cks) + 1) out))
    else \<exists>out'. http_decode_chunked_body (Some (http_chunked_body cks ds ext trailer))
        (length (http_chunked_body cks ds ext trailer)) (Some out) m = Some (0, Some out')
      \<and> length out' = length out"
proof (cases "m = 0")
  case True
  then show ?thesis by (simp add: http_decode_chunked_body_def)
next
  case False
  then show ?thesis
    using decode_loop_chunks [of cks ds ext "http_chunked_body cks ds ext trailer" "[]" trailer 0 m out] assms
    by (auto simp: http_decode_chunked_body_def blit_0)
qed

theorem http_chunked_decode_witness:
  "http_decode_chunked_body (Some (http_chunked_body http_example_chunks ''0'' [] CRLF))
      (length (http_chunked_body http_example_chunks ''0'' [] CRLF)) (Some ''------------'') 12 =
    Some (9, Some (''Wikipedia'' @ NUL # ''--''))"
proof -
  have t: "http_chunk_text http_example_chunks = ''Wikipedia''" "length ''Wikipedia'' = 9" "length ''------------'' = 12"
    by (simp_all add: http_chunk_text_def http_example_chunks_def)
  have "list_all http_chunk_ok http_example_chunks"
    by (simp add: http_example_chunks_def http_chunk_ok_def hex_text_def hex_value_def hex_number_def
        chunk_extension_def)
  moreover have "hex_text ''0''" "chunk_extension []" "hex_number ''0'' = 0" by code_simp+
  ultimately show ?thesis
    using http_chunked_decode [of http_example_chunks "''0''" "[]" 12 "''------------''" CRLF] unfolding t by simp
qed

text \<open>
  (C30) On any input bytes, the chunk decoder terminates, reads only inside the input and writes only
  inside the first \<^verbatim>\<open>output_len\<close> bytes of the output; a nonzero result is smaller than
  \<^verbatim>\<open>output_len\<close> and the byte at that index is the terminator.
\<close>

theorem http_decode_safety:
  assumes "n \<le> length d" and "m \<le> length out"
  shows "\<exists>r out'. http_decode_chunked_body (Some d) n (Some out) m = Some (r, Some out')
    \<and> length out' = length out \<and> drop m out' = drop m out \<and> (r \<noteq> 0 \<longrightarrow> r < m \<and> out' ! r = NUL)"
proof (cases "m = 0")
  case True
  then show ?thesis by (simp add: http_decode_chunked_body_def)
next
  case False
  then show ?thesis
    using decode_loop_safe [OF assms(1) _ assms(2), of 0 0]
    by (auto simp: http_decode_chunked_body_def chunk_outcome_ok_def)
qed

theorem http_decode_safety_witness:
  "\<exists>r out'. http_decode_chunked_body (Some ''fffffffffffffffff'') 17 (Some ''abc'') 2 = Some (r, Some out')
    \<and> length out' = length ''abc'' \<and> drop 2 out' = drop 2 ''abc'' \<and> (r \<noteq> 0 \<longrightarrow> r < 2 \<and> out' ! r = NUL)"
  by (rule http_decode_safety) simp_all

end
