(* ===== verification/HttpSession.thy ===== *)
theory HttpSession
  imports HttpClient TcpMachine TcpStream HttpResponse HttpChunked
begin

text \<open>
  The HTTP client's data path: the response buffer of \<^verbatim>\<open>append_response\<close>, the loop that moves bytes from
  the TCP engine into it, and the session loop, for any invariant of the engine. The locale
  \<open>client_invariant\<close> says what the client needs of the engine; it is interpreted twice, with the
  invariant that gives safety on an arbitrary network and with the one that gives delivery of the peer's
  stream.
\<close>

section \<open>The response buffer\<close>

definition response_ok :: "bytes \<Rightarrow> string \<Rightarrow> nat \<Rightarrow> nat \<Rightarrow> bool" where
  "response_ok log data len cap \<longleftrightarrow> take len data = map byte_char log \<and> length log = len \<and> len < cap
     \<and> length data = cap \<and> data ! len = NUL \<and> cap \<le> 1048576"

lemma grow_capacity_ok:
  assumes "0 < cap" and "cap \<le> 1048576" and "required \<le> 1048576"
  shows "\<exists>n. grow_capacity cap required = Some (Some n) \<and> required \<le> n \<and> cap \<le> n \<and> n \<le> 1048576"
  using assms
proof (induction "1048576 - cap" arbitrary: cap rule: less_induct)
  case less
  show ?case
  proof (cases "cap < required")
    case True
    let ?n = "if cap \<ge> 524288 then 1048576 else cap * 2"
    have step: "grow_capacity cap required = grow_capacity ?n required"
      using True less.prems by (subst grow_capacity.simps) (auto simp: const_defs Let_def)
    have n: "cap < ?n" "0 < ?n" "?n \<le> 1048576" "1048576 - ?n < 1048576 - cap" using True less.prems by auto
    from less.hyps [OF n(4,2,3) less.prems(3)] obtain m where
      "grow_capacity ?n required = Some (Some m)" "required \<le> m" "?n \<le> m" "m \<le> 1048576" by blast
    with n(1) step show ?thesis by (intro exI [of _ m]) simp
  next
    case False
    then show ?thesis using less.prems by (subst grow_capacity.simps) auto
  qed
qed

lemma length_uninit_text [simp]: "length (uninit_text n) = n"
  by (simp add: uninit_text_def)

lemma realloc_ok:
  assumes "response_ok log data len cap" and "cap \<le> n" and "n \<le> 1048576"
  shows "response_ok log (c_realloc data n) len n"
proof -
  have l: "length data = cap" "len < cap" using assms(1) by (simp_all add: response_ok_def)
  then have "c_realloc data n = data @ drop cap (uninit_text n)" using assms(2) by (simp add: c_realloc_def)
  then show ?thesis using assms l by (simp add: response_ok_def nth_append)
qed

lemma response_write:
  assumes "response_ok log data len cap" and "len + n < cap" and "n \<le> length d"
  shows "\<exists>data'. (do { b \<leftarrow> memcpy data len (map byte_char d) 0 n; wr b (len + n) NUL }) = Some data'
    \<and> response_ok (log @ take n d) data' (len + n) cap"
proof -
  note r = assms(1) [unfolded response_ok_def]
  let ?b = "blit len (map byte_char (take n d)) data"
  let ?c = "blit (len + n) [NUL] ?b"
  have m: "memcpy data len (map byte_char d) 0 n = Some ?b"
    using r assms(2,3) by (simp add: memcpy_Some take_map)
  have lb: "length ?b = cap" using r assms(2,3) by simp
  have w: "wr ?b (len + n) NUL = Some ?c" using lb assms(2) by (simp add: wr_Some)
  have "take (len + n) ?b = map byte_char (log @ take n d)"
    using take_blit_end [of len "map byte_char (take n d)" data] r assms(2,3) by simp
  moreover have "take (len + n) ?c = take (len + n) ?b" using lb assms(2) by (intro blit_take) simp
  moreover have "?c ! (len + n) = NUL" using lb assms(2) by (intro nth_blit) simp
  moreover have "length ?c = cap" using lb assms(2) by simp
  ultimately have "response_ok (log @ take n d) ?c (len + n) cap"
    using r assms(2,3) by (simp add: response_ok_def)
  with m w show ?thesis by auto
qed

lemma append_response_cases:
  assumes "response_ok log data len cap" and "n \<le> length d"
  obtains (empty) "n = 0" "append_response (Some data) (Some len) (Some cap) (Some d) n w = Outcome (0, Some data, Some len, Some cap) w"
  | (full) "1048576 \<le> len + n" "0 < n"
      "append_response (Some data) (Some len) (Some cap) (Some d) n w = Outcome (-1, Some data, Some len, Some cap) w"
  | (stays) data' where "0 < n" "len + n < cap" "response_ok (log @ take n d) data' (len + n) cap"
      "append_response (Some data) (Some len) (Some cap) (Some d) n w = Outcome (0, Some data', Some (len + n), Some cap) w"
  | (waits) "0 < n" "cap \<le> len + n" "len + n < 1048576" "w_allocs w = []"
      "append_response (Some data) (Some len) (Some cap) (Some d) n w = Waiting"
  | (refused) rest where "0 < n" "cap \<le> len + n" "len + n < 1048576" "w_allocs w = False # rest"
      "append_response (Some data) (Some len) (Some cap) (Some d) n w =
        Outcome (-1, Some data, Some len, Some cap) (w\<lparr>w_allocs := rest\<rparr>)"
  | (grows) rest data' cap' where "0 < n" "cap \<le> len + n" "len + n < 1048576" "w_allocs w = True # rest"
      "response_ok (log @ take n d) data' (len + n) cap'"
      "append_response (Some data) (Some len) (Some cap) (Some d) n w =
        Outcome (0, Some data', Some (len + n), Some cap') (w\<lparr>w_allocs := rest\<rparr>)"
proof -
  note r = assms(1) [unfolded response_ok_def]
  have lim: "len < 1048576" "0 < cap" using r by simp_all
  note app = append_response_def [of "Some data" "Some len" "Some cap" "Some d"]
  consider "n = 0" | "0 < n" "1048576 \<le> len + n" | "0 < n" "len + n < cap" "len + n < 1048576"
    | "0 < n" "cap \<le> len + n" "len + n < 1048576"
    using r by linarith
  then show thesis
  proof cases
    case 1
    then show thesis by (intro empty) (simp_all add: app)
  next
    case 2
    then have "1048575 - len < n" by linarith
    then show thesis using 2 lim by (intro full) (simp_all add: app const_defs)
  next
    case 3
    then obtain data' where d': "(do { b \<leftarrow> memcpy data len (map byte_char d) 0 n; wr b (len + n) NUL }) = Some data'"
      "response_ok (log @ take n d) data' (len + n) cap"
      using response_write [OF assms(1) _ assms(2)] by blast
    then show thesis using 3 lim by (intro stays [of data']) (simp_all add: app response_room_def const_defs)
  next
    case 4
    then obtain c where c: "grow_capacity cap (len + n + 1) = Some (Some c)" "len + n + 1 \<le> c" "cap \<le> c" "c \<le> 1048576"
      using grow_capacity_ok [of cap "len + n + 1"] r lim by auto
    have room: "response_room data cap (len + n + 1) = io_bind heap_alloc (\<lambda>ok. io_return (if ok then Some (c_realloc data c, c) else None))"
      using 4 lim c by (simp add: response_room_def)
    obtain data' where d': "(do { b \<leftarrow> memcpy (c_realloc data c) len (map byte_char d) 0 n; wr b (len + n) NUL }) = Some data'"
      "response_ok (log @ take n d) data' (len + n) c"
      using response_write [OF realloc_ok [OF assms(1) c(3,4)] _ assms(2)] c(2) by auto
    have go: "append_response (Some data) (Some len) (Some cap) (Some d) n w =
        (case w_allocs w of [] \<Rightarrow> Waiting
         | ok # rest \<Rightarrow> if ok then Outcome (0, Some data', Some (len + n), Some c) (w\<lparr>w_allocs := rest\<rparr>)
             else Outcome (-1, Some data, Some len, Some cap) (w\<lparr>w_allocs := rest\<rparr>))"
      using 4 lim d'(1) room by (auto simp: app const_defs io_bind_def heap_alloc_def split: list.splits)
    show thesis
    proof (cases "w_allocs w")
      case Nil
      with 4 go show thesis by (intro waits) simp_all
    next
      case (Cons ok rest)
      with 4 go d' show thesis by (cases ok) (auto intro: grows refused)
    qed
  qed
qed

lemma append_response_ok:
  assumes "response_ok log data len cap" and "n \<le> length d"
  shows "io_ok (calm out closed net clk) (append_response (Some data) (Some len) (Some cap) (Some d) n)
    (\<lambda>(rc, b, l, c) w. calm out closed net clk w \<and> (\<exists>data' len' cap'. b = Some data' \<and> l = Some len' \<and> c = Some cap'
      \<and> (rc = 0 \<and> response_ok (log @ take n d) data' len' cap' \<or> rc = -1 \<and> response_ok log data' len' cap')))"
  apply (rule io_okI)
  subgoal for w by (rule append_response_cases [OF assms, of w]) simp_all
  subgoal for w x w' by (rule append_response_cases [OF assms, of w]) (use assms(1) in \<open>auto simp: calm_def\<close>)
  done

section \<open>Segments\<close>

text \<open>Every segment of the peer that the network may still deliver has the property.\<close>

definition net_ok :: "netdev \<Rightarrow> bytes \<Rightarrow> (tcp_segment \<Rightarrow> bool) \<Rightarrow> poll_event set \<Rightarrow> bool" where
  "net_ok dev target_ip R net \<longleftrightarrow>
    (\<forall>f s. Recv_Frame f \<in> net \<longrightarrow> tcp_verdict dev target_ip 80 40001 (take 2048 f) = Some s \<longrightarrow> R s)"

lemma receive_ok:
  assumes link: "link_ok dev tip mac" and net: "net_ok dev tip R net"
  shows "io_ok (calm out closed net clk) (receive_tcp_segment dev tip s0 T)
    (\<lambda>(rc, s) w. calm out closed net clk w \<and> (rc = 1 \<longrightarrow> R s) \<and> rc \<in> {-1, 0, 1})"
proof -
  have ready: "netdev_wf dev \<and> length tip = 4" "0 \<le> nd_fd dev" using link by (simp_all add: link_ok_def)
  have good: "R s" if "e \<in> net" "tcpf.poll_verdict dev tip 80 40001 e = Some s" for e s
    using that net by (cases e) (auto simp: tcpf.poll_verdict_def net_ok_def split: if_splits)
  have wait: "io_ok (calm out closed net clk) (wait_loop T True dev (tcp_from_peer dev tip 80 40001) start (uninit 2048))
      (\<lambda>r w. (\<forall>s. r = Got s \<longrightarrow> R s) \<and> calm out closed net clk w)" for start
    by (rule tcpf.wait_ok [OF ready _ good]) simp_all
  show ?thesis
    unfolding receive_tcp_segment_def const_defs
  proof (rule io_ok_bind [OF clock_ok], goal_cases)
    case (1 start)
    show ?case
    proof (cases start)
      case (Some t)
      have "io_ok (calm out closed net clk) (io_bind (wait_loop T True dev (tcp_from_peer dev tip 80 40001) t (uninit 2048))
          (\<lambda>answer. io_return (case answer of Got parsed \<Rightarrow> (1, parsed) | Timed_Out \<Rightarrow> (0, s0) | Broken \<Rightarrow> (-1, s0))))
        (\<lambda>(rc, s) w. calm out closed net clk w \<and> (rc = (1 :: int) \<longrightarrow> R s) \<and> rc \<in> {-1, 0, 1})"
        by (rule io_ok_bind [OF wait]) (auto intro!: io_ok_return split: waited.splits)
      then show ?thesis using Some by (simp add: io_ok_conj)
    qed (auto intro!: io_ok_return)
  qed
qed

lemma send_connection_ack_ok:
  assumes "link_ok dev tip mac"
  shows "io_ok (calm out closed net clk) (send_connection_ack dev tip mac c) (\<lambda>rc w. calm out closed net clk w)"
  using send_tcp_segment_ok [OF assms tcp_built_valid]
  by (simp add: send_connection_ack_def tcp_connection_build_ack_def tcp_build_empty)

section \<open>Sessions over an engine with an invariant\<close>

lemma conn_read_same:
  assumes "tcp_connection_read (Some c) (Some b) n = Some (k, p, Some x)"
    and "tcp_connection_read (Some c) (Some b') n = Some (k', p', Some x')"
  shows "k' = k" and "p' = p"
  using assms by (auto simp: tcp_connection_read_def Let_def split: if_splits bind_splits)

locale client_invariant = conn_invariant +
  assumes inv_ok: "inv (c, log) \<Longrightarrow> conn_wf c \<and> sender_ok c"
    and client_calls: "admissible (Read n)" "admissible (Tick t)" "admissible (Send pd window)"
begin

definition session_ok :: "http_session \<Rightarrow> bool" where
  "session_ok hs \<longleftrightarrow> (\<exists>log. inv (hs_connection hs, log) \<and> response_ok log (hs_data hs) (hs_len hs) (hs_capacity hs))"

lemma read_inv:
  assumes i: "inv (c, log)" and n: "n \<le> length b"
  shows "\<exists>k c' b'. tcp_connection_read (Some c) (Some b) n = Some (k, Some c', Some b') \<and> inv (c', log @ take k b')
    \<and> k = min n (conn_receive_ready_len c) \<and> conn_receive_ready_len c' = conn_receive_ready_len c - k
    \<and> conn_state c' = conn_state c \<and> length b' = length b"
proof -
  have wf: "conn_wf c" using inv_ok [OF i] by simp
  from conn_read_safe [OF wf n] obtain k c' b' where
    r: "tcp_connection_read (Some c) (Some b) n = Some (k, Some c', Some b')" and k: "k = min n (conn_receive_ready_len c)"
    and b': "b' = take k (conn_receive_ready c) @ drop k b" and l: "conn_receive_ready_len c' = conn_receive_ready_len c - k"
    and eq: "c' = c\<lparr>conn_receive_ready := conn_receive_ready c', conn_receive_ready_len := conn_receive_ready_len c'\<rparr>"
    by blast
  from conn_read_safe [OF wf, of n "replicate n 0"] obtain k2 c2 b2 where
    r2: "tcp_connection_read (Some c) (Some (replicate n 0)) n = Some (k2, Some c2, Some b2)"
    and b2: "b2 = take k2 (conn_receive_ready c) @ drop k2 (replicate n 0)"
    by auto
  note same = conn_read_same [OF r r2]
  have kl: "k \<le> length (conn_receive_ready c)" "k \<le> n" using wf k by (auto simp: conn_wf_def)
  from step [OF i client_calls(1) [of n]] r2 same obtain st where "inv (c', log @ take k b2)" by auto
  moreover have "take k b2 = take k b'" using b' b2 same kl by simp
  moreover have "conn_state c' = conn_state c" by (subst eq) simp
  moreover have "length b' = length b" using b' kl n by simp
  ultimately show ?thesis using r k l by auto
qed

lemma drain_loop_ok:
  assumes "inv (hs_connection hs, log)" and "response_ok log (hs_data hs) (hs_len hs) (hs_capacity hs)" and "length b = 4096"
  shows "io_ok (calm out closed net clk) (drain_loop hs b)
    (\<lambda>(rc, hs') w. calm out closed net clk w \<and> (rc = 0 \<longrightarrow> session_ok hs' \<and> conn_receive_ready_len (hs_connection hs') = 0
      \<and> conn_state (hs_connection hs') = conn_state (hs_connection hs)))"
  using assms
proof (induction "conn_receive_ready_len (hs_connection hs)" arbitrary: hs log b rule: less_induct)
  case less
  let ?c = "hs_connection hs"
  let ?post = "\<lambda>(rc, hs') w. calm out closed net clk w \<and> (rc = 0 \<longrightarrow> session_ok hs' \<and> conn_receive_ready_len (hs_connection hs') = 0
      \<and> conn_state (hs_connection hs') = conn_state ?c)"
  show ?case
  proof (cases "conn_receive_ready_len ?c = 0")
    case True
    then have "drain_loop hs b w = Outcome (0, hs) w" for w
      by (subst drain_loop.simps) (simp add: tcp_connection_readable_def)
    then show ?thesis using True less.prems by (auto simp: io_ok_def session_ok_def)
  next
    case False
    from read_inv [OF less.prems(1), of 4096 b] less.prems(3) obtain k c' b' where
      r: "tcp_connection_read (Some ?c) (Some b) 4096 = Some (k, Some c', Some b')" and i: "inv (c', log @ take k b')"
      and k: "k = min 4096 (conn_receive_ready_len ?c)" and l: "conn_receive_ready_len c' = conn_receive_ready_len ?c - k"
      and st: "conn_state c' = conn_state ?c" and lb: "length b' = 4096"
      by auto
    have k0: "k \<noteq> 0" "k \<le> length b'" using k lb False by simp_all
    have "drain_loop hs b = io_bind (append_response (Some (hs_data hs)) (Some (hs_len hs)) (Some (hs_capacity hs)) (Some b') k)
        (\<lambda>(rc, d, n, cap). case (d, n, cap) of
          (Some data, Some len, Some capacity) \<Rightarrow>
            (let hs = \<lparr> hs_connection = c', hs_data = data, hs_len = len, hs_capacity = capacity \<rparr> in
             if rc \<noteq> 0 then io_return (-1, hs) else drain_loop hs b')
        | _ \<Rightarrow> (\<lambda>w. Undefined))"
      using False r k0
      by (intro ext, subst drain_loop.simps)
        (auto simp: tcp_connection_readable_def const_defs io_bind_def Let_def split: outcome.splits prod.splits option.splits)
    moreover have "io_ok (calm out closed net clk) \<dots> ?post"
    proof (rule io_ok_bind [OF append_response_ok [OF less.prems(2) k0(2)]], goal_cases)
      case (1 x)
      obtain rc d n cap where x: "x = (rc, d, n, cap)" by (cases x)
      show ?case
      proof (cases "\<exists>data len c. d = Some data \<and> n = Some len \<and> cap = Some c \<and> rc = 0 \<and> response_ok (log @ take k b') data len c")
        case True
        then obtain data len c where e: "d = Some data" "n = Some len" "cap = Some c" "rc = 0"
          "response_ok (log @ take k b') data len c" by blast
        let ?hs = "\<lparr> hs_connection = c', hs_data = data, hs_len = len, hs_capacity = c \<rparr>"
        have "io_ok (calm out closed net clk) (drain_loop ?hs b') ?post"
          using less.hyps [of ?hs "log @ take k b'" b'] e i l lb k0 st False by simp
        then show ?thesis by (auto simp: x e Let_def elim: io_ok_weaken)
      next
        case False
        then show ?thesis by (auto simp: x io_ok_def Let_def)
      qed
    qed
    ultimately show ?thesis by simp
  qed
qed

lemma drain_ok:
  assumes "session_ok hs"
  shows "io_ok (calm out closed net clk) (drain_tcp_application_data hs)
    (\<lambda>(rc, hs') w. calm out closed net clk w \<and> (rc = 0 \<longrightarrow> session_ok hs' \<and> conn_receive_ready_len (hs_connection hs') = 0
      \<and> conn_state (hs_connection hs') = conn_state (hs_connection hs)))"
proof -
  from assms obtain log where "inv (hs_connection hs, log)" "response_ok log (hs_data hs) (hs_len hs) (hs_capacity hs)"
    by (auto simp: session_ok_def)
  then show ?thesis
    unfolding drain_tcp_application_data_def by (rule drain_loop_ok) (simp add: const_defs)
qed

lemma segment_inv:
  assumes "inv (c, log)" and "admissible (Receive s)"
  shows "\<exists>rc c'. tcp_connection_on_segment (Some c) (Some s) = Some (rc, Some c') \<and> inv (c', log)"
proof -
  from step [OF assms] obtain st where "conn_step (Receive s) (c, log) = Some st" "inv st" by blast
  then show ?thesis by (auto split: bind_splits)
qed

lemma tick_inv:
  assumes "inv (c, log)"
  shows "\<exists>r c' s. tcp_connection_tick (Some c) e (Some g) = (r, Some c', s) \<and> inv (c', log)
    \<and> (r = 1 \<longrightarrow> (\<exists>t. s = Some t \<and> tcp_valid t))"
proof -
  have "sender_ok c" using inv_ok [OF assms] by simp
  moreover obtain st where "conn_step (Tick e) (c, log) = Some st" "inv st"
    using step [OF assms client_calls(2) [of e]] by blast
  ultimately show ?thesis
    by (auto simp: tcp_connection_tick_def Let_def sender_ok_def split: if_splits)
qed

lemma client_tick_ok:
  assumes "link_ok dev tip mac" and "inv (c, log)"
  shows "io_ok (calm out closed net clk) (client_tick dev tip mac c)
    (\<lambda>(ok, c') w. calm out closed net clk w \<and> inv (c', log))"
proof -
  obtain r c' s where t: "tcp_connection_tick (Some c) (of_int TCP_POLL_MS) (Some undefined) = (r, Some c', s)"
    and i: "inv (c', log)" and v: "r = 1 \<longrightarrow> (\<exists>t. s = Some t \<and> tcp_valid t)"
    using tick_inv [OF assms(2)] by blast
  have "io_ok (calm out closed net clk) (io_bind (send_tcp_segment (Some dev) (Some tip) (Some mac) s) (\<lambda>rc. io_return (rc = 0, c')))
      (\<lambda>(ok, c') w. calm out closed net clk w \<and> inv (c', log))" if "r = 1"
    using that v i send_tcp_segment_ok [OF assms(1)] by (auto intro!: io_ok_bind io_ok_return)
  then show ?thesis
    using i by (auto simp: client_tick_def t Let_def intro!: io_ok_return)
qed

definition turn_ok :: "timespec \<Rightarrow> timespec ptr set \<Rightarrow> http_turn \<Rightarrow> bool" where
  "turn_ok start clk t = (case t of
     Turn hs \<Rightarrow> session_ok hs
   | Leave hs \<Rightarrow> session_ok hs \<and> (conn_state (hs_connection hs) = TCP_STATE_CLOSE_WAIT
       \<or> (\<exists>now. Some now \<in> clk \<and> HTTP_TIMEOUT_MS * 10 ^ 6 < elapsed_ns start now))
   | Give_Up \<Rightarrow> True)"

lemma http_segment_ok:
  assumes link: "link_ok dev tip mac" and "session_ok hs" and "admissible (Receive s)"
  shows "io_ok (calm out closed net clk) (http_segment dev tip mac hs s)
    (\<lambda>t w. calm out closed net clk w \<and> turn_ok start clk t)"
proof -
  from assms(2) obtain log where i: "inv (hs_connection hs, log)"
    and r: "response_ok log (hs_data hs) (hs_len hs) (hs_capacity hs)" by (auto simp: session_ok_def)
  obtain rc c where on: "tcp_connection_on_segment (Some (hs_connection hs)) (Some s) = Some (rc, Some c)" and i': "inv (c, log)"
    using segment_inv [OF i assms(3)] by blast
  have ok: "session_ok (hs\<lparr>hs_connection := c\<rparr>)" using i' r by (auto simp: session_ok_def)
  have ack: "io_ok (calm out closed net clk) (if b then send_connection_ack dev tip mac c' else io_return 0)
      (\<lambda>rc w. calm out closed net clk w)" for b c'
    using send_connection_ack_ok [OF link] by (simp add: io_ok_return)
  have "io_ok (calm out closed net clk) (io_bind (drain_tcp_application_data (hs\<lparr>hs_connection := c\<rparr>)) (\<lambda>(rc, hs').
        if rc \<noteq> 0 then io_return Give_Up
        else io_bind (if tcp_payload_len s > 0 \<or> tcp_flags s AND TCP_FLAG_FIN \<noteq> 0
                      then send_connection_ack dev tip mac (hs_connection hs') else io_return 0) (\<lambda>rc.
          if rc \<noteq> 0 then io_return Give_Up
          else io_return (if conn_state (hs_connection hs) \<noteq> TCP_STATE_CLOSE_WAIT
              \<and> conn_state (hs_connection hs') = TCP_STATE_CLOSE_WAIT then Leave hs' else Turn hs'))))
      (\<lambda>t w. calm out closed net clk w \<and> turn_ok start clk t)"
  proof (rule io_ok_bind [OF drain_ok [OF ok]], goal_cases)
    case (1 x)
    obtain rc hs' where x: "x = (rc, hs')" by (cases x)
    show ?case
    proof (cases "rc = 0")
      case False
      then show ?thesis by (auto simp: x turn_ok_def intro!: io_ok_return)
    next
      case True
      have "io_ok (\<lambda>w. session_ok hs' \<and> calm out closed net clk w)
          (io_bind (if tcp_payload_len s > 0 \<or> tcp_flags s AND TCP_FLAG_FIN \<noteq> 0
                      then send_connection_ack dev tip mac (hs_connection hs') else io_return 0) (\<lambda>rc.
          if rc \<noteq> 0 then io_return Give_Up
          else io_return (if conn_state (hs_connection hs) \<noteq> TCP_STATE_CLOSE_WAIT
              \<and> conn_state (hs_connection hs') = TCP_STATE_CLOSE_WAIT then Leave hs' else Turn hs')))
        (\<lambda>t w. calm out closed net clk w \<and> turn_ok start clk t)"
        unfolding io_ok_conj
        by (intro impI, rule io_ok_bind [OF ack]) (auto simp: turn_ok_def intro!: io_rules)
      then show ?thesis by (simp only: x True prod.case simp_thms if_False) (erule io_ok_weaken; simp)
    qed
  qed
  then show ?thesis
    using ok by (auto simp: http_segment_def on Let_def turn_ok_def intro!: io_rules)
qed

lemma http_step_ok:
  assumes link: "link_ok dev tip mac" and "session_ok hs" and net: "net_ok dev tip (\<lambda>s. admissible (Receive s)) net"
  shows "io_ok (calm out closed net clk) (http_step dev tip mac start hs)
    (\<lambda>t w. calm out closed net clk w \<and> turn_ok start clk t)"
proof -
  from assms(2) obtain log where i: "inv (hs_connection hs, log)"
    and r: "response_ok log (hs_data hs) (hs_len hs) (hs_capacity hs)" by (auto simp: session_ok_def)
  have tick: "io_ok (calm out closed net clk) (io_bind (client_tick dev tip mac (hs_connection hs)) (\<lambda>(ok, c).
      io_return (if ok then Turn (hs\<lparr>hs_connection := c\<rparr>) else Give_Up)))
      (\<lambda>t w. calm out closed net clk w \<and> turn_ok start clk t)"
    by (rule io_ok_bind [OF client_tick_ok [OF link i]])
      (use r in \<open>auto simp: turn_ok_def session_ok_def intro!: io_ok_return\<close>)
  have body: "io_ok (calm out closed net clk) (io_bind (receive_tcp_segment dev tip undefined TCP_POLL_MS) (\<lambda>(receive_result, incoming).
           if receive_result < 0 then io_return Give_Up
           else if receive_result = 0
           then io_bind (client_tick dev tip mac (hs_connection hs)) (\<lambda>(ok, c).
             io_return (if ok then Turn (hs\<lparr>hs_connection := c\<rparr>) else Give_Up))
           else http_segment dev tip mac hs incoming))
      (\<lambda>t w. calm out closed net clk w \<and> turn_ok start clk t)"
  proof (rule io_ok_bind [OF receive_ok [OF link net]], goal_cases)
    case (1 x)
    obtain rc s where x: "x = (rc, s)" by (cases x)
    consider "rc = -1" | "rc = 0" | "rc = 1" "admissible (Receive s)" | "\<not> (rc \<in> {-1, 0, 1} \<and> (rc = 1 \<longrightarrow> admissible (Receive s)))"
      by blast
    then show ?case
    proof cases
      case 1
      then show ?thesis by (auto simp: x turn_ok_def intro!: io_ok_return)
    next
      case 2
      then show ?thesis using tick by (simp add: x)
    next
      case 3
      then show ?thesis using http_segment_ok [OF link assms(2) 3(2)] by (simp add: x)
    next
      case 4
      then show ?thesis by (auto simp: x io_ok_def)
    qed
  qed
  show ?thesis
    unfolding http_step_def
  proof (rule io_ok_bind [OF clock_ok], goal_cases)
    case (1 now)
    show ?case
    proof (cases now)
      case None
      then show ?thesis by (auto simp: turn_ok_def intro!: io_ok_return)
    next
      case (Some t)
      show ?thesis
      proof (cases "elapsed_ns start t > HTTP_TIMEOUT_MS * 10 ^ 6")
        case True
        then show ?thesis using assms(2) Some by (auto simp: turn_ok_def intro!: io_ok_return)
      next
        case False
        then show ?thesis using Some body by (simp add: io_ok_conj)
      qed
    qed
  qed
qed

lemma http_loop_ok:
  assumes "link_ok dev tip mac" and "session_ok hs" and "net_ok dev tip (\<lambda>s. admissible (Receive s)) net"
  shows "io_ok (calm out closed net clk) (http_loop dev tip mac start hs)
    (\<lambda>r w. calm out closed net clk w \<and> (\<forall>hs'. r = Some hs' \<longrightarrow> turn_ok start clk (Leave hs')))"
proof -
  let ?post = "\<lambda>r w. calm out closed net clk w \<and> (\<forall>hs'. r = Some hs' \<longrightarrow> turn_ok start clk (Leave hs'))"
  have "case http_loop dev tip mac start hs w of Undefined \<Rightarrow> False | Waiting \<Rightarrow> True | Outcome r w' \<Rightarrow> ?post r w'"
    if "calm out closed net clk w" and "session_ok hs" for w hs
    using that
  proof (induction "length (w_clock w)" arbitrary: w hs rule: less_induct)
    case less
    note step = io_okD [OF http_step_ok [OF assms(1) less.prems(2) assms(3)] less.prems(1)]
    show ?case
    proof (cases "http_step dev tip mac start hs w")
      case Undefined
      with step(1) show ?thesis by blast
    next
      case Waiting
      then show ?thesis by (subst http_loop.simps) simp
    next
      case (Outcome t w')
      note post = step(2) [OF Outcome]
      show ?thesis
      proof (cases t)
        case (Turn hs')
        have "case http_loop dev tip mac start hs' w' of Undefined \<Rightarrow> False | Waiting \<Rightarrow> True | Outcome r w' \<Rightarrow> ?post r w'"
          using post Turn by (intro less.hyps [OF http_step_clock [OF Outcome]]) (simp_all add: turn_ok_def)
        then show ?thesis using Outcome Turn by (subst http_loop.simps) simp
      qed (use Outcome post in \<open>subst http_loop.simps, simp\<close>)+
    qed
  qed
  then show ?thesis using assms(2) by (simp add: io_ok_def)
qed

end

end
