(* ===== verification/HttpPrint.thy ===== *)
theory HttpPrint
  imports HttpSession
begin

text \<open>
  The end of the HTTP client: \<^verbatim>\<open>print_http_response\<close> is free of undefined behaviour on whatever bytes the
  peer sent, and writes the head and the content of a well-formed response, plain or chunked.
\<close>

section \<open>The decoder reads only its input\<close>

lemma rd_append: "i < length d \<Longrightarrow> rd (d @ r) i = rd d i"
  by (simp add: rd_def nth_append)

lemma crlf_loop_append:
  assumes "n \<le> length d"
  shows "crlf_loop (d @ r) n i = crlf_loop d n i"
proof (induction "n - i" arbitrary: i rule: less_induct)
  case less
  show ?case
  proof (cases "i + 1 < n")
    case True
    then have "crlf_loop (d @ r) n (i + 1) = crlf_loop d n (i + 1)" by (intro less) simp
    moreover have "rd (d @ r) i = rd d i" "rd (d @ r) (i + 1) = rd d (i + 1)"
      using True assms by (simp_all add: rd_append)
    ultimately show ?thesis using True by (simp only: crlf_loop.simps [of _ n i])
  next
    case False
    then show ?thesis by (simp add: crlf_loop.simps [of _ n i])
  qed
qed

lemma chunk_size_loop_append:
  "line + n \<le> length d \<Longrightarrow> chunk_size_loop (d @ r) line n i v saw = chunk_size_loop d line n i v saw"
proof (induction d line n i v saw rule: chunk_size_loop.induct)
  case (1 d line n i v saw)
  show ?case
  proof (cases "i < n")
    case True
    then have "rd (d @ r) (line + i) = rd d (line + i)" "rd d (line + i) = Some (d ! (line + i))"
      using "1.prems" by (simp_all add: rd_def nth_append)
    with True "1.IH" [OF True] "1.prems" show ?thesis
      by (simp add: chunk_size_loop.simps [of _ line n i v saw])
  next
    case False
    then show ?thesis by (simp add: chunk_size_loop.simps [of _ line n i v saw])
  qed
qed

lemma memcpy_append: "off + n \<le> length d \<Longrightarrow> memcpy out j (d @ r) off n = memcpy out j d off n"
  by (simp add: memcpy_def mem_read_def)

lemma chunk_step_append:
  assumes "n \<le> length d" and "j < m"
  shows "chunk_step (d @ r) n m i j out = chunk_step d n m i j out"
proof (cases "crlf_loop d n i")
  case None
  then show ?thesis by (simp add: chunk_step_def crlf_loop_append [OF assms(1)])
next
  case (Some e)
  show ?thesis
  proof (cases e)
    case None
    then show ?thesis using Some by (simp add: chunk_step_def crlf_loop_append [OF assms(1)])
  next
    case (Some le)
    note e = \<open>crlf_loop d n i = Some e\<close> [unfolded Some]
    have b: "i \<le> le" "le + 1 < n" using crlf_loop_bounds [OF e] by simp_all
    have size: "parse_chunk_size (d @ r) i (le - i) = parse_chunk_size d i (le - i)"
      using b assms(1) by (simp add: parse_chunk_size_def chunk_size_loop_append)
    have sub: "size_sub n (le + 2) = n - (le + 2)" using b by simp
    have "memcpy out j (d @ r) (le + 2) k = memcpy out j d (le + 2) k" if "\<not> n - (le + 2) < k" for k
      using that b assms(1) by (intro memcpy_append) linarith
    moreover have "rd (d @ r) p = rd d p" "rd (d @ r) (Suc p) = rd d (Suc p)" if "\<not> n < p + 2" for p
      using that assms(1) by (simp_all add: rd_append)
    ultimately show ?thesis
      unfolding chunk_step_def crlf_loop_append [OF assms(1)] e Option.bind.simps option.case size Let_def sub
      by (intro Option.bind_cong refl) (auto split: option.split cong: if_cong)
  qed
qed

lemma decode_loop_append:
  assumes "n \<le> length d" and "j < m" and "m \<le> length out"
  shows "decode_loop (d @ r) n m i j out = decode_loop d n m i j out"
  using assms
proof (induction d n m i j out rule: decode_loop.induct)
  case (1 d n m i j out)
  show ?case
  proof (cases "i < n")
    case True
    obtain o' where o': "chunk_step d n m i j out = Some o'" "chunk_outcome_ok m out o'"
      using chunk_step_safe [OF "1.prems"] by blast
    then show ?thesis
      using True "1.IH" [OF True o'(1)] "1.prems" chunk_step_append [OF "1.prems"(1,2)]
      by (cases o') (simp_all add: decode_loop.simps [of _ n m i j out] chunk_outcome_ok_def)
  next
    case False
    then show ?thesis by (simp add: decode_loop.simps [of _ n m i j out])
  qed
qed

section \<open>Safety\<close>

lemma header_loop_safe:
  assumes "NUL \<in> set (drop cursor d)"
  shows "\<exists>r\<ge>0. header_loop d hend cursor = Some r"
  using assms
proof (induction d hend cursor rule: header_loop.induct)
  case (1 d hend cursor)
  show ?case
  proof (cases "cursor < hend")
    case True
    consider "c_strstr d cursor CRLF = Some None"
      | p where "c_strstr d cursor CRLF = Some (Some p)" "cursor \<le> p" "p + 2 < length d" "NUL \<in> set (drop (p + 2) d)"
      using c_strstr_safe [OF "1.prems", of CRLF] by (metis CRLF_def length_Cons list.size(3) numeral_2_eq_2)
    then show ?thesis
    proof cases
      case 1
      with True show ?thesis by (subst header_loop.simps) simp
    next
      case (2 p)
      show ?thesis
      proof (cases "p > hend \<or> p - cursor = 0")
        case True
        with 2 \<open>cursor < hend\<close> show ?thesis by (subst header_loop.simps) auto
      next
        case False
        have m: "\<exists>b. header_name_matches d cursor (p - cursor) ''Transfer-Encoding'' = Some b"
          using 2 False nocase_match_len [of "''Transfer-Encoding''" 17 cursor d]
          unfolding header_name_matches_def literal_lengths by (auto simp: Let_def rd_def literal_lengths)
        have v: "\<exists>r\<ge>0. transfer_encoding_value d cursor p = Some r"
        proof -
          have "mem_read d cursor (p - cursor) = Some (take (p - cursor) (drop cursor d))"
            using 2 by (intro mem_read_Some) simp
          moreover have "value_contains_chunked d (cursor + i + 1) (p - (cursor + i + 1)) =
              Some (if mentions_chunked (take (p - (cursor + i + 1)) (drop (cursor + i + 1) d)) then 1 else 0)"
            if "find_char (CHR '':'') (take (p - cursor) (drop cursor d)) = Some i" for i
            using that 2 find_char_Some [OF that] by (intro value_contains_chunked_eq) auto
          ultimately show ?thesis
            by (auto simp: transfer_encoding_value_def Let_def split: option.split)
        qed
        from m obtain b where b: "header_name_matches d cursor (p - cursor) ''Transfer-Encoding'' = Some b" by blast
        show ?thesis
        proof (cases b)
          case True
          with v b 2 False \<open>cursor < hend\<close> show ?thesis by (subst header_loop.simps) simp
        next
          case b': False
          have "\<exists>r\<ge>0. header_loop d hend (p + 2) = Some r"
            using 2 False \<open>cursor < hend\<close> b b' by (intro "1.IH") auto
          with b b' 2 False \<open>cursor < hend\<close> show ?thesis by (subst header_loop.simps) simp
        qed
      qed
    qed
  next
    case False
    then show ?thesis by (subst header_loop.simps) simp
  qed
qed

lemma is_chunked_safe:
  assumes "NUL \<in> set d"
  shows "\<exists>r. http_response_is_chunked (Some d) n = Some r"
proof (cases "n = 0")
  case False
  have "NUL \<in> set (drop 0 d)" using assms by simp
  then consider "c_strstr d 0 CRLF = Some None" | p where "c_strstr d 0 CRLF = Some (Some p)" "NUL \<in> set (drop (p + 2) d)"
    using c_strstr_safe [of 0 d CRLF] by (metis CRLF_def length_Cons list.size(3) numeral_2_eq_2)
  then show ?thesis
  proof cases
    case (2 p)
    with header_loop_safe [of "p + 2" d n] False show ?thesis by (auto simp: http_response_is_chunked_def)
  qed (use False in \<open>simp add: http_response_is_chunked_def\<close>)
qed (simp add: http_response_is_chunked_def)

definition printed :: "string list \<Rightarrow> int list \<Rightarrow> poll_event set \<Rightarrow> timespec ptr set \<Rightarrow> world \<Rightarrow> bool" where
  "printed out closed net clk w \<longleftrightarrow> (\<exists>more. calm (out @ more) closed net clk w)"

lemma c_fwrite_ok:
  assumes "off + n \<le> length d"
  shows "io_ok (printed out closed net clk) (c_fwrite d off n) (\<lambda>_ w. printed out closed net clk w)"
  using assms
  by (auto simp: io_ok_def c_fwrite_def printed_def calm_def mem_read_Some)

lemma heap_alloc_ok: "io_ok (printed out closed net clk) heap_alloc (\<lambda>_ w. printed out closed net clk w)"
  by (auto simp: io_ok_def heap_alloc_def printed_def calm_def split: list.splits)

lemma print_plain_ok:
  assumes "http_located n r" and "n \<le> length data"
  shows "io_ok (printed out closed net clk) (print_plain_body data r) (\<lambda>rc w. printed out closed net clk w)"
proof -
  have "io_ok (printed out closed net clk) (if http_body_len r > 0
      then io_bind (io_lift (http_body r)) (\<lambda>body. c_fwrite data body (http_body_len r)) else io_return ())
      (\<lambda>_ w. printed out closed net clk w)"
    using assms by (auto simp: http_located_def intro!: c_fwrite_ok io_ok_return io_ok_outcome)
  then show ?thesis
    unfolding print_plain_body_def by (rule io_ok_bind) (rule io_ok_return)
qed

lemma decode_chunked_safe:
  assumes "n \<le> length d"
  shows "\<exists>k out'. http_decode_chunked_body (Some d) n (Some (uninit_text (n + 1))) (n + 1) = Some (k, Some out')
    \<and> k \<le> n \<and> length out' = n + 1"
  using decode_loop_safe [OF assms, of 0 "n + 1" "uninit_text (n + 1)" 0]
  by (auto simp: http_decode_chunked_body_def chunk_outcome_ok_def)

lemma print_chunked_ok:
  assumes "http_located n r" and "n \<le> length data" and "n < 1048576"
  shows "io_ok (printed out closed net clk) (print_chunked_body data r) (\<lambda>rc w. printed out closed net clk w)"
proof -
  have b: "http_body r = Some (http_header_len r)" "http_body_len r \<le> length (drop (http_header_len r) data)"
    "size_add (http_body_len r) 1 = http_body_len r + 1"
    using assms by (auto simp: http_located_def)
  from decode_chunked_safe [OF b(2)] obtain k out' where
    d: "http_decode_chunked_body (Some (drop (http_header_len r) data)) (http_body_len r)
        (Some (uninit_text (http_body_len r + 1))) (http_body_len r + 1) = Some (k, Some out')"
    "k \<le> http_body_len r" "length out' = http_body_len r + 1" by blast
  show ?thesis
    unfolding print_chunked_body_def Let_def b(1,3)
    by (rule io_ok_bind [OF heap_alloc_ok]) (auto simp: d(1) [simplified] intro!: io_rules io_ok_bind [OF c_fwrite_ok] simp: d(2,3) le_SucI)
qed

lemma print_http_response_ok:
  assumes "response_ok log data len cap" and "0 < len"
  shows "io_ok (calm out closed net clk) (print_http_response data len) (\<lambda>rc w. printed out closed net clk w)"
proof -
  have nul: "NUL \<in> set data" and l: "len < length data" "len < 1048576"
    using assms(1) nth_mem [of len data] by (auto simp: response_ok_def)
  obtain rc r where p: "http_parse_response (Some data) len (Some undefined) = Some (rc, Some r)"
    "rc = 0 \<and> http_located len r \<or> rc \<in> {-2, -3}"
    using http_parse_response_safe [OF nul assms(2)] by blast
  have out: "io_ok (calm out closed net clk) m Q" if "io_ok (printed out closed net clk) m Q" for m :: "int io" and Q
    using that by (rule io_ok_weaken) (auto simp: printed_def intro: exI [of _ "[]"])
  show ?thesis
  proof (cases "rc = 0")
    case False
    then show ?thesis by (intro out) (auto simp: print_http_response_def p(1) intro!: io_rules)
  next
    case True
    then have loc: "http_located len r" using p(2) by auto
    obtain ch where ch: "http_response_is_chunked (Some data) (http_header_len r) = Some ch"
      using is_chunked_safe [OF nul] by blast
    have w: "io_ok (printed out closed net clk) (c_fwrite data 0 (http_header_len r)) (\<lambda>_ w. printed out closed net clk w)"
      using loc l by (intro c_fwrite_ok) (simp add: http_located_def)
    have "io_ok (printed out closed net clk) (io_bind (c_fwrite data 0 (http_header_len r)) (\<lambda>_.
        if ch \<noteq> 0 then print_chunked_body data r else print_plain_body data r)) (\<lambda>rc w. printed out closed net clk w)"
      using print_chunked_ok [OF loc] print_plain_ok [OF loc] l
      by (intro io_ok_bind [OF w] io_ok_if) auto
    then show ?thesis using True by (intro out) (auto simp: print_http_response_def p(1) ch intro!: io_rules)
  qed
qed

section \<open>Well-formed responses\<close>

text \<open>
  The content a response body carries: the body itself, or, when the headers ask for it, the data of
  its chunks. The tool takes a result of length 0 from a body of more than five bytes for an error,
  so an empty chunked body is only covered in its shortest forms.
\<close>

inductive http_content :: "string list \<Rightarrow> string \<Rightarrow> string \<Rightarrow> bool" where
  plain: "chunked_by_headers hs = 0 \<Longrightarrow> http_content hs body body"
| chunked: "chunked_by_headers hs = 1 \<Longrightarrow> list_all http_chunk_ok cks \<Longrightarrow> hex_text ds \<Longrightarrow> chunk_extension ext \<Longrightarrow>
    hex_number ds = 0 \<Longrightarrow> cks \<noteq> [] \<or> length (http_chunked_body cks ds ext trailer) \<le> 5 \<Longrightarrow>
    http_content hs (http_chunked_body cks ds ext trailer) (http_chunk_text cks)"

inductive_cases http_contentE: "http_content hs body content"

definition http_pieces :: "string \<Rightarrow> string \<Rightarrow> string list" where
  "http_pieces head content = head # (if content = [] then [] else [content])"

lemma c_fwrite_eq: "off + n \<le> length d \<Longrightarrow> c_fwrite d off n w = Outcome () (w\<lparr>w_stdout := w_stdout w @ [take n (drop off d)]\<rparr>)"
  by (simp add: c_fwrite_def mem_read_Some)

lemma http_chunk_text_length: "length (http_chunk_text cks) \<le> length (http_chunked_body cks ds ext trailer)"
proof (induction cks)
  case (Cons ck cks)
  then show ?case by (simp add: http_chunk_text_def http_chunked_body_def http_chunk_bytes_def)
qed (simp add: http_chunk_text_def)

lemma decode_chunked_exact:
  assumes "list_all http_chunk_ok cks" and "hex_text ds" "chunk_extension ext" "hex_number ds = 0"
    and "n = length (http_chunked_body cks ds ext trailer)"
  shows "\<exists>out. http_decode_chunked_body (Some (http_chunked_body cks ds ext trailer @ junk)) n (Some (uninit_text (n + 1))) (n + 1) =
      Some (length (http_chunk_text cks), Some out) \<and> take (length (http_chunk_text cks)) out = http_chunk_text cks"
proof -
  let ?d = "http_chunked_body cks ds ext trailer" and ?t = "http_chunk_text cks"
  have l: "length ?t < n + 1" using http_chunk_text_length [of cks ds ext trailer] assms(5) by simp
  have "decode_loop ?d (length ?d) (n + 1) 0 0 (uninit_text (n + 1)) =
      Some (length ?t, blit 0 (?t @ [NUL]) (uninit_text (n + 1)))"
    using decode_loop_chunks [OF assms(1-4), of ?d "[]" trailer 0 "n + 1" "uninit_text (n + 1)"] l by simp
  then have "decode_loop (?d @ junk) n (n + 1) 0 0 (uninit_text (n + 1)) =
      Some (length ?t, blit 0 (?t @ [NUL]) (uninit_text (n + 1)))"
    using decode_loop_append [of n ?d 0 "n + 1" "uninit_text (n + 1)" junk 0] assms(5) by simp
  then show ?thesis by (simp add: http_decode_chunked_body_def blit_0)
qed

lemma print_plain_exact:
  assumes "http_body r = Some (length h)" and "http_body_len r = length body"
  shows "print_plain_body (h @ body @ junk) r w =
    Outcome 0 (w\<lparr>w_stdout := w_stdout w @ (if body = [] then [] else [body])\<rparr>)"
  using assms c_fwrite_eq [of "length h" "length body" "h @ body @ junk" w]
  by (simp add: print_plain_body_def io_bind_Outcome)

lemma print_chunked_exact:
  assumes "http_body r = Some (length h)" and "http_body_len r = length body" and "length body < 1048576"
    and body: "body = http_chunked_body cks ds ext trailer" and cks: "list_all http_chunk_ok cks"
    and last: "hex_text ds" "chunk_extension ext" "hex_number ds = 0" and short: "cks \<noteq> [] \<or> length body \<le> 5"
  shows "print_chunked_body (h @ body @ junk) r w = (case w_allocs w of [] \<Rightarrow> Waiting
      | ok # rest \<Rightarrow> if ok then Outcome 0 (w\<lparr>w_allocs := rest,
            w_stdout := w_stdout w @ (if http_chunk_text cks = [] then [] else [http_chunk_text cks])\<rparr>)
          else Outcome (-1) (w\<lparr>w_allocs := rest\<rparr>))"
proof -
  let ?t = "http_chunk_text cks"
  obtain o' where d: "http_decode_chunked_body (Some (body @ junk)) (length body) (Some (uninit_text (length body + 1)))
      (length body + 1) = Some (length ?t, Some o')" and tk: "take (length ?t) o' = ?t"
    using decode_chunked_exact [OF cks last, of "length body" trailer junk] unfolding body by blast
  have lo: "length ?t \<le> length o'" using tk by (metis length_take min.cobounded1)
  have sz: "size_add (length body) 1 = length body + 1" using assms(3) by (intro size_add_exact) simp
  have ne: "\<not> (length ?t = 0 \<and> length body > 5)"
    using short cks by (cases cks) (auto simp: http_chunk_ok_def http_chunk_text_def)
  show ?thesis
  proof (cases "?t = []")
    case True
    then show ?thesis
      using d sz ne assms(1,2)
      by (simp add: print_chunked_body_def Let_def io_bind_def [of heap_alloc] heap_alloc_def split: list.split)
  next
    case False
    then show ?thesis
      using d sz ne assms(1,2) c_fwrite_eq [of 0 "length ?t" o'] lo tk
      by (simp add: print_chunked_body_def Let_def io_bind_def [of heap_alloc] io_bind_def [of "c_fwrite o' 0 (length ?t)"]
          heap_alloc_def split: list.split)
  qed
qed

text \<open>The whole printer: an allocation is needed for a chunked body only.\<close>

lemma print_response_run:
  assumes ok: "http_status_ok version code reason" "list_all http_line_ok hs" and c: "http_content hs body content"
    and r: "response_ok log data len cap" and log: "map byte_char log = http_head version code reason hs @ body"
  shows "print_http_response data len w =
    (let w1 = w\<lparr>w_stdout := w_stdout w @ http_pieces (http_head version code reason hs) content\<rparr> in
     if chunked_by_headers hs = 0 then Outcome 0 w1
     else case w_allocs w of [] \<Rightarrow> Waiting
       | True # rest \<Rightarrow> Outcome 0 (w1\<lparr>w_allocs := rest\<rparr>)
       | False # rest \<Rightarrow> Outcome (-1) (w\<lparr>w_stdout := w_stdout w @ [http_head version code reason hs], w_allocs := rest\<rparr>))"
proof -
  let ?h = "http_head version code reason hs"
  have len: "length ?h + length body = len" using r log by (metis length_append length_map response_ok_def)
  obtain junk where data: "data = ?h @ body @ NUL # junk"
    using r log id_take_nth_drop [of len data] by (simp add: response_ok_def)
  have t: "c_text (body @ NUL # junk) = Some (takeWhile (\<lambda>c. c \<noteq> NUL) (body @ NUL # junk))"
    by (simp add: c_text_def)
  define resp where "resp = \<lparr> http_status_code = int code, http_status_text = http_reason_field reason,
      http_header_len = length ?h, http_body = Some (length ?h), http_body_len = len - length ?h \<rparr>"
  have b: "http_body resp = Some (length ?h)" "http_body_len resp = length body" "length body < 1048576"
    using len r by (auto simp: resp_def response_ok_def)
  have p: "http_parse_response (Some data) len (Some undefined) = Some (0, Some resp)"
    unfolding resp_def using http_parse_response_head [OF ok t, of len undefined] len data by simp
  have ch: "http_response_is_chunked (Some data) (length ?h) = Some (chunked_by_headers hs)"
    using http_is_chunked_head [OF ok t] data by simp
  have hd: "c_fwrite data 0 (length ?h) w = Outcome () (w\<lparr>w_stdout := w_stdout w @ [?h]\<rparr>)"
    using c_fwrite_eq [of 0 "length ?h" data w] by (simp add: data)
  let ?w = "w\<lparr>w_stdout := w_stdout w @ [?h]\<rparr>"
  have run: "print_http_response data len w = (if chunked_by_headers hs < 0 then Outcome (-1) w
      else if chunked_by_headers hs \<noteq> 0 then print_chunked_body data resp ?w else print_plain_body data resp ?w)"
    using p ch by (simp add: print_http_response_def io_bind_def [of "c_fwrite data 0 (length ?h)"] hd resp_def)
  from c show ?thesis
  proof cases
    case plain
    then show ?thesis using run print_plain_exact [OF b(1,2), of "NUL # junk" ?w] by (simp add: data http_pieces_def)
  next
    case (chunked cks ds ext trailer)
    with run print_chunked_exact [OF b chunked(1,4-7), of "NUL # junk" ?w] show ?thesis
      by (auto simp: data http_pieces_def split: list.split)
  qed
qed

lemma print_response_exact:
  assumes "http_status_ok version code reason" "list_all http_line_ok hs" "http_content hs body content"
    and "response_ok log data len cap" and "map byte_char log = http_head version code reason hs @ body"
    and "print_http_response data len w = Outcome 0 w'"
  shows "w_stdout w' = w_stdout w @ http_pieces (http_head version code reason hs) content"
  using assms(6) unfolding print_response_run [OF assms(1-5)]
  by (auto simp: Let_def split: if_splits list.splits bool.splits)

end
