(* ===== verification/HttpFetch.thy ===== *)
theory HttpFetch
  imports HttpPrint TcpHandshake
begin

text \<open>
  The HTTP client as a whole: opening the connection, sending the request, and everything behind it.
  With the engine's well-formedness as the invariant this gives freedom from undefined behaviour on
  an arbitrary network; with the stream invariant, that the response printed is the one the peer
  sent.
\<close>

section \<open>The request\<close>

lemma http_build_get_request_safe:
  assumes "NUL \<in> set host" and "NUL \<in> set path" and "length buf = n" and "0 < n"
  shows "\<exists>k b. http_build_get_request (Some buf) n (Some host) (Some path) = Some (k, Some b) \<and> k < n \<and> length b = n"
proof -
  obtain ht where h: "c_text host = Some ht" using c_text_terminator [of 0 host] assms(1) by auto
  obtain pt where p: "c_text path = Some pt" using c_text_terminator [of 0 path] assms(2) by auto
  let ?t = "http_request_text ht pt"
  have ne: "host \<noteq> []" "path \<noteq> []" using assms(1,2) by auto
  have "\<exists>b. snprintf buf n ?t = Some (int (length ?t), b) \<and> length b = n"
    using snprintf_fits [of ?t n buf] snprintf_truncates [of n ?t buf] assms(3,4) by (cases "length ?t < n") auto
  then show ?thesis
    using h p ne assms(3,4) by (auto simp: http_build_get_request_def rd_def)
qed

lemma build_data_prefix:
  assumes "0 < n" and "n \<le> length pd" and "n \<le> 65515" and "conn_state c = TCP_STATE_ESTABLISHED"
  shows "\<exists>c' s. tcp_connection_build_data (Some c) (Some g) (Some pd) n w = Some (0, Some c', Some s) \<and> tcp_valid s
    \<and> conn_step (Send (take n pd) w) (c, log) = Some (c', log) \<and> conn_state c' = TCP_STATE_ESTABLISHED"
proof -
  have l: "length (take n pd) = n" "take n pd \<noteq> []" using assms by auto
  show ?thesis
    using assms build_data_eq [of c tcp_zero "take n pd" w] l
    by (auto simp: tcp_connection_build_data_def Let_def tcp_build_ok const_defs remember_for_retransmission_def
        intro!: tcp_built_valid)
qed

text \<open>The response buffer before the first byte.\<close>

lemma fresh_response:
  obtains data where "wr (uninit_text HTTP_RESPONSE_INITIAL_CAPACITY) 0 NUL = Some data" "response_ok [] data 0 8192"
proof -
  let ?d = "blit 0 [NUL] (uninit_text 8192)"
  have "wr (uninit_text 8192) 0 NUL = Some ?d" by (simp add: wr_Some)
  moreover have "response_ok [] ?d 0 8192" by (simp add: response_ok_def blit_0)
  ultimately show thesis using that by (simp add: const_defs)
qed

text \<open>A step that writes nothing keeps what is known of the output.\<close>

lemma io_ok_printed:
  assumes "\<And>o'. io_ok (calm o' closed net clk) m (\<lambda>x w. calm o' closed net clk w)"
  shows "io_ok (\<lambda>w. printed out closed net clk w \<and> K (w_stdout w)) m (\<lambda>x w. printed out closed net clk w \<and> K (w_stdout w))"
proof (rule io_okI)
  fix w
  assume p: "printed out closed net clk w \<and> K (w_stdout w)"
  then have "calm (w_stdout w) closed net clk w" by (auto simp: printed_def calm_def)
  note ok = io_okD [OF assms this]
  show "m w \<noteq> Undefined" by (rule ok)
  fix x w'
  assume "m w = Outcome x w'"
  then have "calm (w_stdout w) closed net clk w'" by (rule ok)
  then show "printed out closed net clk w' \<and> K (w_stdout w')" using p by (auto simp: printed_def calm_def)
qed

context client_invariant
begin

definition delivered :: "string list \<Rightarrow> timespec ptr set \<Rightarrow> string list \<Rightarrow> bool" where
  "delivered out clk written \<longleftrightarrow> (\<exists>c log data len cap wa wb.
     inv (c, log) \<and> conn_receive_ready_len c = 0
     \<and> (conn_state c = TCP_STATE_CLOSE_WAIT
        \<or> (\<exists>start now. Some start \<in> clk \<and> Some now \<in> clk \<and> HTTP_TIMEOUT_MS * 10 ^ 6 < elapsed_ns start now))
     \<and> response_ok log data len cap \<and> print_http_response data len wa = Outcome 0 wb
     \<and> w_stdout wa = out \<and> w_stdout wb = written)"

lemma print_delivered:
  assumes "turn_ok start clk (Leave hs)" and "Some start \<in> clk" and ok: "session_ok hs'"
    and "conn_receive_ready_len (hs_connection hs') = 0" and st: "conn_state (hs_connection hs') = conn_state (hs_connection hs)"
    and len: "hs_len hs' \<noteq> 0"
  shows "io_ok (calm out closed net clk) (print_http_response (hs_data hs') (hs_len hs'))
    (\<lambda>rc w. printed out closed net clk w \<and> (rc = 0 \<longrightarrow> delivered out clk (w_stdout w)))"
proof -
  from ok obtain log where i: "inv (hs_connection hs', log)"
    and r: "response_ok log (hs_data hs') (hs_len hs') (hs_capacity hs')" by (auto simp: session_ok_def)
  have late: "conn_state (hs_connection hs') = TCP_STATE_CLOSE_WAIT
      \<or> (\<exists>start now. Some start \<in> clk \<and> Some now \<in> clk \<and> HTTP_TIMEOUT_MS * 10 ^ 6 < elapsed_ns start now)"
    using assms(1,2) st by (auto simp: turn_ok_def)
  have "delivered out clk (w_stdout w)" if "calm out closed net clk wa" "print_http_response (hs_data hs') (hs_len hs') wa = Outcome 0 w"
    for w wa
    using that i r assms(4) late unfolding delivered_def calm_def by blast
  then show ?thesis
    using len by (intro io_ok_weaken [OF io_ok_traced [OF print_http_response_ok [OF r]]]) auto
qed

lemma http_finish_ok:
  assumes link: "link_ok dev tip mac" and leave: "turn_ok start clk (Leave hs)" and "Some start \<in> clk"
  shows "io_ok (calm out closed net clk) (http_finish dev tip mac hs)
    (\<lambda>rc w. printed out closed net clk w \<and> (rc = 0 \<longrightarrow> delivered out clk (w_stdout w)))"
  unfolding http_finish_def
proof (rule io_ok_bind [OF drain_ok], goal_cases)
  case 1
  then show ?case using leave by (simp add: turn_ok_def)
next
  case (2 x)
  obtain rc hs' where x: "x = (rc, hs')" by (cases x)
  let ?c = "hs_connection hs'"
  let ?post = "\<lambda>rc w. printed out closed net clk w \<and> (rc = (0 :: int) \<longrightarrow> delivered out clk (w_stdout w))"
  have fin: "io_ok (\<lambda>w. printed out closed net clk w \<and> delivered out clk (w_stdout w))
      (if conn_state ?c = TCP_STATE_CLOSE_WAIT
       then io_bind (io_lift (tcp_connection_build_fin (Some ?c) (Some undefined) TCP_WINDOW_SIZE)) (\<lambda>(rc, c, fin).
          io_bind (if rc = 0 then send_tcp_segment (Some dev) (Some tip) (Some mac) fin else io_return 0) (\<lambda>_. io_return 0))
       else io_return 0) ?post"
    by (auto simp: build_fin_eq Let_def intro!: io_rules io_ok_bind [OF io_ok_printed [OF send_tcp_segment_ok [OF link tcp_built_valid]]])
  show ?case
  proof (cases "rc = 0 \<and> hs_len hs' \<noteq> 0 \<and> session_ok hs' \<and> conn_receive_ready_len ?c = 0 \<and> conn_state ?c = conn_state (hs_connection hs)")
    case True
    then have t: "session_ok hs'" "conn_receive_ready_len ?c = 0" "conn_state ?c = conn_state (hs_connection hs)" "hs_len hs' \<noteq> 0"
      by simp_all
    have "io_ok (calm out closed net clk) (io_bind (print_http_response (hs_data hs') (hs_len hs')) (\<lambda>rc.
        if rc \<noteq> 0 then io_return (-1)
        else if conn_state ?c = TCP_STATE_CLOSE_WAIT
        then io_bind (io_lift (tcp_connection_build_fin (Some ?c) (Some undefined) TCP_WINDOW_SIZE)) (\<lambda>(rc, c, fin).
          io_bind (if rc = 0 then send_tcp_segment (Some dev) (Some tip) (Some mac) fin else io_return 0) (\<lambda>_. io_return 0))
        else io_return 0)) ?post"
    proof (rule io_ok_bind [OF print_delivered [OF leave assms(3) t]], goal_cases)
      case (1 rc)
      show ?case using fin by (cases "rc = 0") (auto intro!: io_rules)
    qed
    then show ?thesis using True by (simp add: x)
  next
    case False
    then show ?thesis by (auto simp: x printed_def io_ok_def intro: exI [of _ "[]"])
  qed
qed

lemma start_session:
  assumes "inv (c, [])"
  shows "\<exists>data. wr (uninit_text HTTP_RESPONSE_INITIAL_CAPACITY) 0 NUL = Some data
    \<and> session_ok \<lparr> hs_connection = c, hs_data = data, hs_len = 0, hs_capacity = HTTP_RESPONSE_INITIAL_CAPACITY \<rparr>"
  using fresh_response assms by (fastforce simp: session_ok_def const_defs)

lemma http_await_ok:
  assumes link: "link_ok dev tip mac" and i: "inv (c, [])" and net: "net_ok dev tip (\<lambda>s. admissible (Receive s)) net"
    and ok: "session_ok hs"
  shows "io_ok (calm out closed net clk) (io_bind clock_gettime (\<lambda>start. case start of None \<Rightarrow> io_return (-1)
      | Some start \<Rightarrow> io_bind (http_loop dev tip mac start hs) (\<lambda>left. case left of None \<Rightarrow> io_return (-1)
          | Some hs \<Rightarrow> http_finish dev tip mac hs)))
    (\<lambda>rc w. printed out closed net clk w \<and> (rc = 0 \<longrightarrow> delivered out clk (w_stdout w)))"
proof (rule io_ok_bind [OF clock_ok], goal_cases)
  case (1 start)
  have quiet: "printed out closed net clk w" if "calm out closed net clk w" for w
    using that by (auto simp: printed_def intro: exI [of _ "[]"])
  show ?case
  proof (cases start)
    case None
    then show ?thesis using quiet by (auto intro!: io_rules)
  next
    case (Some t)
    have "io_ok (calm out closed net clk) (io_bind (http_loop dev tip mac t hs) (\<lambda>left. case left of None \<Rightarrow> io_return (-1)
        | Some hs \<Rightarrow> http_finish dev tip mac hs))
      (\<lambda>rc w. printed out closed net clk w \<and> (rc = 0 \<longrightarrow> delivered out clk (w_stdout w)))" if "Some t \<in> clk"
    proof (rule io_ok_bind [OF http_loop_ok [OF link ok net]], goal_cases)
      case (1 left)
      show ?case
      proof (cases left)
        case None
        then show ?thesis using quiet by (auto intro!: io_rules)
      next
        case (Some hs')
        have "io_ok (calm out closed net clk) (http_finish dev tip mac hs')
            (\<lambda>rc w. printed out closed net clk w \<and> (rc = 0 \<longrightarrow> delivered out clk (w_stdout w)))" if "turn_ok t clk (Leave hs')"
          using http_finish_ok [OF link that \<open>Some t \<in> clk\<close>] .
        then show ?thesis using Some by (auto intro!: io_okI dest: io_okD)
      qed
    qed
    then show ?thesis using Some by (simp add: io_ok_conj)
  qed
qed

lemma http_request_ok:
  assumes link: "link_ok dev tip mac" and i: "inv (c, [])" and st: "conn_state c = TCP_STATE_ESTABLISHED"
    and net: "net_ok dev tip (\<lambda>s. admissible (Receive s)) net" and args: "NUL \<in> set host" "NUL \<in> set path"
  shows "io_ok (calm out closed net clk) (http_request dev tip mac host path c)
    (\<lambda>rc w. printed out closed net clk w \<and> (rc = 0 \<longrightarrow> delivered out clk (w_stdout w)))"
proof -
  let ?post = "\<lambda>rc w. printed out closed net clk w \<and> (rc = (0 :: int) \<longrightarrow> delivered out clk (w_stdout w))"
  have quiet: "io_ok (calm out closed net clk) (io_return (-1)) ?post"
    by (auto simp: printed_def intro!: io_ok_return exI [of _ "[]"])
  have ret: "io_return x = Outcome x" for x :: int by (rule ext) simp
  obtain k b where req: "http_build_get_request (Some (uninit_text HTTP_MAX_REQUEST_LEN)) HTTP_MAX_REQUEST_LEN (Some host) (Some path) =
      Some (k, Some b)" "k < 4096" "length b = 4096"
    using http_build_get_request_safe [OF args, of "uninit_text 4096" 4096] by (auto simp: const_defs)
  show ?thesis
  proof (cases "k = 0")
    case True
    then show ?thesis using quiet by (simp add: http_request_def req ret)
  next
    case False
    then obtain c' s where d: "tcp_connection_build_data (Some c) (Some undefined) (Some (map of_char b)) k TCP_WINDOW_SIZE =
        Some (0, Some c', Some s)" "tcp_valid s" "conn_step (Send (take k (map of_char b)) TCP_WINDOW_SIZE) (c, []) = Some (c', [])"
      using build_data_prefix [of k "map of_char b" c undefined TCP_WINDOW_SIZE "[]"] st req(2,3) by auto
    from step [OF i client_calls(3)] d(3) have i': "inv (c', [])" by (metis option.inject)
    obtain data where dat: "wr (uninit_text HTTP_RESPONSE_INITIAL_CAPACITY) 0 NUL = Some data"
      and ok: "session_ok \<lparr> hs_connection = c', hs_data = data, hs_len = 0, hs_capacity = HTTP_RESPONSE_INITIAL_CAPACITY \<rparr>"
      using start_session [OF i'] by blast
    have alloc: "io_ok (calm out closed net clk) heap_alloc (\<lambda>ok w. calm out closed net clk w)"
      by (auto simp: io_ok_def heap_alloc_def calm_def split: list.splits)
    show ?thesis
      using False http_await_ok [OF link i' net ok] quiet
      by (auto simp: http_request_def req(1) d(1) dat
          intro!: io_ok_bind [OF send_tcp_segment_ok [OF link d(2)]] io_ok_bind [OF alloc] io_ok_if)
  qed
qed

end

section \<open>Opening the connection\<close>

definition unopened :: "tcp_connection \<Rightarrow> bool" where
  "unopened c \<longleftrightarrow> conn_wf c \<and> sender_ok c \<and> conn_receive_ready_len c = 0 \<and> \<not> conn_pending_fin c
     \<and> list_all (\<lambda>s. \<not> slot_used s) (conn_reassembly c)"

definition opened_by :: "(tcp_segment \<Rightarrow> bool) \<Rightarrow> tcp_connection \<Rightarrow> bool" where
  "opened_by R c \<longleftrightarrow> unopened c \<and> conn_state c = TCP_STATE_ESTABLISHED
     \<and> (\<exists>s. R s \<and> tcp_flags s AND 0x12 = 0x12 \<and> conn_receive_next c = tcp_sequence_number s + 1)"

lemma unopened_segment:
  assumes "unopened c" and "conn_state c = TCP_STATE_SYN_SENT" and "segment_wf s" and "R s"
  shows "\<exists>rc c'. tcp_connection_on_segment (Some c) (Some s) = Some (rc, Some c')
    \<and> (conn_state c' = TCP_STATE_RESET \<and> 0 \<le> rc \<or> unopened c' \<and> conn_state c' = TCP_STATE_SYN_SENT \<or> opened_by R c' \<and> 0 \<le> rc)"
proof -
  have wf: "conn_wf c" and ok: "sender_ok c" using assms(1) by (simp_all add: unopened_def)
  obtain rc c' where on: "tcp_connection_on_segment (Some c) (Some s) = Some (rc, Some c')" and wf': "conn_wf c'"
    using on_segment_safe [OF wf assms(3)] by blast
  have ok': "sender_ok c'" using on_segment_sender [OF wf assms(3) ok on] .
  show ?thesis
    using on wf' ok' assms(1,2,4)
    by (auto simp: tcp_connection_on_segment_def Let_def on_rst_def clear_reassembly_def on_syn_sent_def unopened_def opened_by_def
        const_defs split: if_splits)
qed

lemma unopened_tick:
  assumes "unopened c" and "conn_state c = TCP_STATE_SYN_SENT"
  shows "\<exists>r c' s. tcp_connection_tick (Some c) e (Some g) = (r, Some c', s)
    \<and> (r < 0 \<or> unopened c' \<and> conn_state c' = TCP_STATE_SYN_SENT) \<and> (r = 1 \<longrightarrow> (\<exists>t. s = Some t \<and> tcp_valid t))"
proof -
  have ok: "sender_ok c" and wf: "conn_wf c" using assms(1) by (simp_all add: unopened_def)
  have "\<exists>r c' s. tcp_connection_tick (Some c) e (Some g) = (r, Some c', s)"
    by (auto simp: tcp_connection_tick_def Let_def)
  then obtain r c' s where t: "tcp_connection_tick (Some c) e (Some g) = (r, Some c', s)" by blast
  have "sender_ok c'" using tick_sender [OF ok t] .
  moreover have "same_buffers c c'" using t by (auto simp: tcp_connection_tick_def Let_def same_buffers_def split: if_splits)
  then have "conn_wf c'" using wf by (rule same_buffers_wf)
  ultimately show ?thesis
    using t assms ok
    by (auto simp: tcp_connection_tick_def Let_def unopened_def sender_ok_def split: if_splits)
qed

definition connecting_ok :: "(tcp_segment \<Rightarrow> bool) \<Rightarrow> tcp_connection + int \<times> tcp_connection \<Rightarrow> bool" where
  "connecting_ok R t = (case t of Inl c \<Rightarrow> unopened c \<and> conn_state c = TCP_STATE_SYN_SENT
     | Inr (rc, c) \<Rightarrow> rc = 0 \<longrightarrow> opened_by R c)"

lemma connect_tick_ok:
  assumes "link_ok dev tip mac" and "unopened c" and "conn_state c = TCP_STATE_SYN_SENT"
  shows "io_ok (calm out closed net clk) (connect_tick dev tip mac c) (\<lambda>t w. calm out closed net clk w \<and> connecting_ok R t)"
proof -
  obtain r c' s where t: "tcp_connection_tick (Some c) (of_int TCP_POLL_MS) (Some undefined) = (r, Some c', s)"
    and u: "r < 0 \<or> unopened c' \<and> conn_state c' = TCP_STATE_SYN_SENT" and v: "r = 1 \<longrightarrow> (\<exists>t. s = Some t \<and> tcp_valid t)"
    using unopened_tick [OF assms(2,3)] by blast
  have "io_ok (calm out closed net clk) (client_tick dev tip mac c)
      (\<lambda>(ok, c') w. calm out closed net clk w \<and> (ok \<longrightarrow> unopened c' \<and> conn_state c' = TCP_STATE_SYN_SENT))"
  proof (cases "r = 1")
    case True
    with v obtain t' where "s = Some t'" "tcp_valid t'" by blast
    with True u t show ?thesis
      by (auto simp: client_tick_def Let_def intro!: io_ok_bind [OF send_tcp_segment_ok [OF assms(1)]] io_rules)
  qed (use t u in \<open>auto simp: client_tick_def Let_def intro!: io_rules\<close>)
  then show ?thesis unfolding connect_tick_def by (rule io_ok_bind) (auto simp: connecting_ok_def intro!: io_rules)
qed

lemma connect_segment_ok:
  assumes link: "link_ok dev tip mac" and "unopened c" "conn_state c = TCP_STATE_SYN_SENT" and "segment_wf s" "R s"
  shows "io_ok (calm out closed net clk) (connect_segment dev tip mac c s) (\<lambda>t w. calm out closed net clk w \<and> connecting_ok R t)"
proof -
  obtain rc c' where on: "tcp_connection_on_segment (Some c) (Some s) = Some (rc, Some c')"
    and r: "conn_state c' = TCP_STATE_RESET \<and> 0 \<le> rc \<or> unopened c' \<and> conn_state c' = TCP_STATE_SYN_SENT \<or> opened_by R c' \<and> 0 \<le> rc"
    using unopened_segment [where R = R, OF assms(2-5)] by blast
  then consider "conn_state c' = TCP_STATE_RESET" "0 \<le> rc" | "unopened c'" "conn_state c' = TCP_STATE_SYN_SENT"
    | "opened_by R c'" "0 \<le> rc" "conn_state c' = TCP_STATE_ESTABLISHED" by (auto simp: opened_by_def)
  then show ?thesis
  proof cases
    case 1
    then show ?thesis using on by (auto simp: connect_segment_def connecting_ok_def intro!: io_rules)
  next
    case 2
    then show ?thesis
      using connect_tick_ok [OF link 2] on by (auto simp: connect_segment_def connecting_ok_def intro!: io_rules)
  next
    case 3
    then show ?thesis
      using on by (auto simp: connect_segment_def connecting_ok_def intro!: io_ok_bind [OF send_connection_ack_ok [OF link]] io_rules)
  qed
qed

lemma connect_step_ok:
  assumes link: "link_ok dev tip mac" and c: "unopened c" "conn_state c = TCP_STATE_SYN_SENT"
    and net: "net_ok dev tip (\<lambda>s. segment_wf s \<and> R s) net"
  shows "io_ok (calm out closed net clk) (connect_step dev tip mac start c) (\<lambda>t w. calm out closed net clk w \<and> connecting_ok R t)"
proof -
  let ?post = "\<lambda>t w. calm out closed net clk w \<and> connecting_ok R t"
  have fail: "io_ok (calm out closed net clk) (io_return (Inr (-1, c'))) ?post" for c'
    by (auto simp: connecting_ok_def intro!: io_rules)
  have body: "io_ok (calm out closed net clk) (io_bind (receive_tcp_segment dev tip undefined TCP_POLL_MS) (\<lambda>(result, incoming).
      if result < 0 then io_return (Inr (-1, c))
      else if result = 1 then connect_segment dev tip mac c incoming
      else connect_tick dev tip mac c)) ?post"
  proof (rule io_ok_bind [OF receive_ok [OF link net]], goal_cases)
    case (1 x)
    obtain rc s where x: "x = (rc, s)" by (cases x)
    consider "rc < 0" | "rc = 1" "segment_wf s" "R s" | "rc = 0" | "\<not> (rc \<in> {-1, 0, 1} \<and> (rc = 1 \<longrightarrow> segment_wf s \<and> R s))" by force
    then show ?case
    proof cases
      case 1
      then show ?thesis by (auto simp: x connecting_ok_def intro!: io_rules)
    next
      case 2
      then show ?thesis using connect_segment_ok [where R = R, OF link c 2(2,3)] by (simp add: x)
    next
      case 3
      then show ?thesis using connect_tick_ok [OF link c] by (simp add: x)
    next
      case 4
      then show ?thesis by (auto simp: x io_ok_def)
    qed
  qed
  show ?thesis
    unfolding connect_step_def
    using body fail by (intro io_ok_bind [OF clock_ok]) (auto simp: io_ok_conj split: option.split)
qed

lemma connect_loop_ok:
  assumes "link_ok dev tip mac" and "unopened c" and "conn_state c = TCP_STATE_SYN_SENT"
    and "net_ok dev tip (\<lambda>s. segment_wf s \<and> R s) net"
  shows "io_ok (calm out closed net clk) (connect_loop dev tip mac start c)
    (\<lambda>(rc, c) w. calm out closed net clk w \<and> (rc = 0 \<longrightarrow> opened_by R c))"
proof -
  let ?post = "\<lambda>(rc, c) w. calm out closed net clk w \<and> (rc = (0 :: int) \<longrightarrow> opened_by R c)"
  have "case connect_loop dev tip mac start c w of Undefined \<Rightarrow> False | Waiting \<Rightarrow> True | Outcome r w' \<Rightarrow> ?post r w'"
    if "calm out closed net clk w" and "unopened c" and "conn_state c = TCP_STATE_SYN_SENT" for w c
    using that
  proof (induction "length (w_clock w)" arbitrary: w c rule: less_induct)
    case less
    note step = io_okD [OF connect_step_ok [OF assms(1) less.prems(2,3) assms(4)] less.prems(1)]
    show ?case
    proof (cases "connect_step dev tip mac start c w")
      case Undefined
      with step(1) show ?thesis by blast
    next
      case Waiting
      then show ?thesis by (subst connect_loop.simps) simp
    next
      case (Outcome t w')
      note post = step(2) [OF Outcome]
      show ?thesis
      proof (cases t)
        case (Inl c')
        have "case connect_loop dev tip mac start c' w' of Undefined \<Rightarrow> False | Waiting \<Rightarrow> True | Outcome r w' \<Rightarrow> ?post r w'"
          using post Inl by (intro less.hyps [OF connect_step_clock [OF Outcome]]) (simp_all add: connecting_ok_def)
        then show ?thesis using Outcome Inl by (subst connect_loop.simps) simp
      next
        case (Inr r)
        then show ?thesis using Outcome post by (subst connect_loop.simps) (auto simp: connecting_ok_def split: prod.splits)
      qed
    qed
  qed
  then show ?thesis using assms(2,3) by (simp add: io_ok_def)
qed

lemma init_unopened:
  "\<exists>c s. tcp_connection_build_syn (tcp_connection_init (Some g) lp rp isn) (Some h) w = Some (0, Some c, Some s)
    \<and> unopened c \<and> conn_state c = TCP_STATE_SYN_SENT \<and> tcp_valid s"
proof -
  let ?c = "clear_reassembly (conn_zero\<lparr>conn_state := TCP_STATE_CLOSED, conn_local_port := lp, conn_remote_port := rp,
    conn_send_unacknowledged := isn, conn_send_next := isn, conn_receive_next := 0, conn_remote_window := 0,
    conn_retransmit_timeout_ms := TCP_DEFAULT_RTO_MS, conn_retransmit_limit := TCP_DEFAULT_RETRANSMIT_LIMIT\<rparr>)"
  have wf: "conn_wf ?c" using conn_init_wf [of g lp rp isn] by (simp add: tcp_connection_init_def)
  have ok: "sender_ok ?c" by (simp add: sender_ok_def clear_reassembly_def conn_zero_def const_defs tcp_wf_def tcp_zero_def)
  let ?s = "tcp_built lp rp isn 0 2 w []"
  have v: "tcp_valid ?s" by (rule tcp_built_valid) simp
  let ?d = "remember_for_retransmission (?c\<lparr>conn_send_unacknowledged := conn_send_next ?c,
      conn_send_next := conn_send_next ?c + 1, conn_state := TCP_STATE_SYN_SENT\<rparr>) ?s"
  have "sender_ok ?d" by (rule built_sender [OF ok]) simp_all
  moreover have "same_buffers ?c ?d" by (simp add: same_buffers_def remember_for_retransmission_def)
  then have "conn_wf ?d" using wf by (rule same_buffers_wf)
  moreover have "tcp_connection_build_syn (tcp_connection_init (Some g) lp rp isn) (Some h) w = Some (0, Some ?d, Some ?s)"
    by (simp add: tcp_connection_init_def build_syn_eq Let_def clear_reassembly_def)
  ultimately show ?thesis
    using v by (auto simp: unopened_def remember_for_retransmission_def clear_reassembly_def list_all_length slot_zero_def const_defs)
qed

lemma connect_tcp_ok:
  assumes link: "link_ok dev tip mac" and net: "net_ok dev tip (\<lambda>s. segment_wf s \<and> R s) net"
    and c: "tcp_connection_init (Some g) lp rp isn = Some c"
  shows "io_ok (calm out closed net clk) (connect_tcp dev tip mac c)
    (\<lambda>(rc, c) w. calm out closed net clk w \<and> (rc = 0 \<longrightarrow> opened_by R c))"
proof -
  obtain c' s where b: "tcp_connection_build_syn (Some c) (Some undefined) TCP_WINDOW_SIZE = Some (0, Some c', Some s)"
    "unopened c'" "conn_state c' = TCP_STATE_SYN_SENT" "tcp_valid s"
    using init_unopened [of g lp rp isn undefined TCP_WINDOW_SIZE] c by auto
  have loop: "io_ok (\<lambda>w. start \<in> clk \<and> calm out closed net clk w) (case start of None \<Rightarrow> io_return (-1, c')
      | Some start \<Rightarrow> connect_loop dev tip mac start c')
      (\<lambda>(rc, c) w. calm out closed net clk w \<and> (rc = 0 \<longrightarrow> opened_by R c))" for start
    using connect_loop_ok [OF link b(2,3) net] by (cases start) (auto simp: io_ok_conj intro!: io_rules)
  show ?thesis
    by (auto simp: connect_tcp_def b(1)
        intro!: io_ok_bind [OF send_tcp_segment_ok [OF link b(4)]] io_ok_bind [OF clock_ok] io_ok_if io_ok_return io_ok_outcome loop)
qed

context client_invariant
begin

lemma run_http_ok:
  assumes link: "link_ok dev tip mac" and net: "net_ok dev tip (\<lambda>s. segment_wf s \<and> R s) net"
    "net_ok dev tip (\<lambda>s. admissible (Receive s)) net"
    and opened: "\<And>c. opened_by R c \<Longrightarrow> inv (c, [])" and args: "NUL \<in> set host" "NUL \<in> set path"
  shows "io_ok (calm out closed net clk) (run_http dev tip mac host path)
    (\<lambda>rc w. printed out closed net clk w \<and> (rc = 0 \<longrightarrow> delivered out clk (w_stdout w)))"
proof -
  let ?post = "\<lambda>rc w. printed out closed net clk w \<and> (rc = (0 :: int) \<longrightarrow> delivered out clk (w_stdout w))"
  have quiet: "printed out closed net clk w" if "calm out closed net clk w" for w
    using that by (auto simp: printed_def intro: exI [of _ "[]"])
  have isn: "io_ok (calm out closed net clk) http_generate_isn (\<lambda>_ w. calm out closed net clk w)"
    unfolding http_generate_isn_def by (rule io_ok_bind [OF clock_ok]) (auto intro!: io_rules)
  have main: "io_ok (calm out closed net clk) (io_bind (connect_tcp dev tip mac c) (\<lambda>(rc, c).
      if rc \<noteq> 0 then io_return (-1) else http_request dev tip mac host path c)) ?post"
    if c: "tcp_connection_init (Some undefined) HTTP_SOURCE_PORT HTTP_DESTINATION_PORT isn = Some c" for c isn
  proof (rule io_ok_bind [OF connect_tcp_ok [OF link net(1) c]], goal_cases)
    case (1 x)
    obtain rc c' where x: "x = (rc, c')" by (cases x)
    show ?case
    proof (cases "rc = 0 \<and> opened_by R c'")
      case True
      then have "conn_state c' = TCP_STATE_ESTABLISHED" by (simp add: opened_by_def)
      then show ?thesis using True http_request_ok [OF link opened _ net(2) args] by (simp add: x)
    next
      case False
      then show ?thesis using quiet by (auto simp: x io_ok_def)
    qed
  qed
  show ?thesis
    unfolding run_http_def
    by (rule io_ok_bind [OF isn]) (use main in \<open>auto simp: tcp_connection_init_def\<close>)
qed

end

section \<open>The two invariants\<close>

interpretation web_safe: client_invariant "\<lambda>(c, log). conn_wf c \<and> sender_ok c" event_wf
  by unfold_locales (auto simp: event_wf_def)

definition peer_event :: "u32 \<Rightarrow> bytes \<Rightarrow> conn_event \<Rightarrow> bool" where
  "peer_event base S e = (case e of Open _ \<Rightarrow> False | Receive s \<Rightarrow> segment_in base S s | _ \<Rightarrow> True)"

interpretation web_stream: client_invariant
  "\<lambda>(c, log). stream_inv base S (c, log) \<and> sender_ok c \<and> length S < 2147483647" "peer_event base S" for base S
proof unfold_locales
  fix st :: "tcp_connection \<times> bytes" and e
  assume i: "case st of (c, log) \<Rightarrow> stream_inv base S (c, log) \<and> sender_ok c \<and> length S < 2147483647" and e: "peer_event base S e"
  obtain c log where st: "st = (c, log)" by (cases st)
  have wf: "conn_wf c" using i st by (auto simp: stream_inv_def stream_at_def received_def)
  obtain c' log' where s: "conn_step e (c, log) = Some (c', log')" "stream_inv base S (c', log')"
    using stream.step [of base S "(c, log)" e] i st e by (auto simp: event_in_def peer_event_def)
  have "event_wf e" using e by (auto simp: event_wf_def peer_event_def segment_in_def split: conn_event.splits)
  then have "sender_ok c'" using sender.step [of "(c, log)" e] i st wf s(1) by auto
  then show "\<exists>st'. conn_step e st = Some st' \<and> (case st' of (c, log) \<Rightarrow> stream_inv base S (c, log) \<and> sender_ok c \<and> length S < 2147483647)"
    using s i st by auto
qed (auto simp: peer_event_def stream_inv_def stream_at_def received_def)

lemma opened_stream:
  assumes "opened_by (\<lambda>s. tcp_flags s AND 0x12 = 0x12 \<longrightarrow> tcp_sequence_number s + 1 = base) c"
  shows "stream_inv base S (c, [])"
proof -
  have "stream_at base S c [] 0"
    using assms
    by (auto simp: opened_by_def unopened_def stream_at_def received_def ready_bytes_def stream_open_def slot_in_def list_all_length)
  then show ?thesis by (auto simp: stream_inv_def)
qed

lemma all_segments_wf: "net_ok dev tip (\<lambda>s. segment_wf s \<and> True) net" "net_ok dev tip (\<lambda>s. event_wf (Receive s)) net"
  using tcp_verdict_facts(1) by (auto simp: net_ok_def event_wf_def)

lemma delivered_stream:
  assumes "web_stream.delivered base S out clk written"
    and "\<forall>start now. Some start \<in> clk \<longrightarrow> Some now \<in> clk \<longrightarrow> elapsed_ns start now \<le> 15000000000"
  shows "\<exists>data len cap wa wb. response_ok S data len cap \<and> print_http_response data len wa = Outcome 0 wb
    \<and> w_stdout wa = out \<and> w_stdout wb = written"
proof -
  from assms obtain c log data len cap wa wb where i: "stream_inv base S (c, log)" and z: "conn_receive_ready_len c = 0"
    and st: "conn_state c = TCP_STATE_CLOSE_WAIT" and r: "response_ok log data len cap"
    and p: "print_http_response data len wa = Outcome 0 wb" "w_stdout wa = out" "w_stdout wb = written"
    unfolding web_stream.delivered_def by (fastforce simp: const_defs)
  from i st obtain q where "stream_at base S c log q" by (auto simp: stream_inv_def)
  with st z have "log = S" by (auto simp: stream_at_def stream_states received_def ready_bytes_def)
  with r p show ?thesis by blast
qed

interpretation web: tool http_resolve_arp "\<lambda>dev ip mac. run_http dev ip mac host path" "NUL \<in> set host \<and> NUL \<in> set path"
  for host path
proof unfold_locales
  show "io_ok (holding closed) (run_http dev tip mac host path) (\<lambda>_ w. holding closed w)"
    if args: "NUL \<in> set host \<and> NUL \<in> set path" and link: "link_ok dev tip mac" for dev tip mac closed
  proof -
    have "io_ok (calm out closed net clk) (run_http dev tip mac host path) (\<lambda>rc w. w_closed w = closed \<and> True)" for out net clk
      by (rule io_ok_weaken [OF web_safe.run_http_ok [where out = out and closed = closed and net = net and clk = clk, OF link all_segments_wf]])
        (use args in \<open>auto simp: printed_def opened_by_def unopened_def calm_def\<close>)
    from io_ok_holding [OF this] show ?thesis by simp
  qed
qed (simp add: http_resolve_arp_def resolve_arp_ok)

section \<open>Properties\<close>

text \<open>
  (C34) The HTTP client is free of undefined behaviour on an arbitrary network: whatever frames arrive, in
  whatever order, and whichever system calls and allocations fail, from the first SYN to the printed
  response no read or write leaves its buffer. It closes nothing, and only appends to its output.
\<close>

theorem http_client_safe:
  assumes "link_ok dev tip mac" and "NUL \<in> set host" and "NUL \<in> set path"
  shows "run_http dev tip mac host path w \<noteq> Undefined
    \<and> (\<forall>rc w'. run_http dev tip mac host path w = Outcome rc w' \<longrightarrow>
        w_closed w' = w_closed w \<and> (\<exists>more. w_stdout w' = w_stdout w @ more))"
proof -
  note ok = io_okD [OF web_safe.run_http_ok [OF assms(1) all_segments_wf _ assms(2,3)] calm_self]
  show ?thesis using ok by (auto simp: opened_by_def unopened_def printed_def calm_def)
qed

theorem http_client_safe_witness:
  "run_http example_device [10, 0, 0, 1] [2, 0, 0, 0, 0, 1] (''a.b'' @ [NUL]) [NUL] example_world \<noteq> Undefined"
proof -
  have "link_ok example_device [10, 0, 0, 1] [2, 0, 0, 0, 0, 1]" using example_devices by (simp add: link_ok_def)
  from http_client_safe [OF this, of "''a.b'' @ [NUL]" "[NUL]" example_world] show ?thesis by simp
qed

end
