(* ===== verification/HttpComplete.thy ===== *)
theory HttpComplete
  imports HttpFetch
begin

text \<open>
  The HTTP client succeeds: when the peer answers the handshake and its response arrives in order, before
  the deadlines and with the resources the client asks for, the client returns 0 and prints the
  response.
\<close>

section \<open>In-order segments\<close>

lemma no_slots_promote:
  assumes "list_all (\<lambda>s. \<not> slot_used s) (conn_reassembly c)" and "conn_wf c" and "promote_step\<^sup>*\<^sup>* c c'"
  shows "c' = c"
  using assms(3)
proof (cases rule: converse_rtranclpE)
  case (step d)
  from step(1) show ?thesis
    using assms(1,2) by (cases rule: promote_step.cases) (auto simp: conn_wf_def list_all_length slot_due_def)
qed simp

lemma seq_next_segment:
  assumes "0 < n" and "n \<le> 65515"
  shows "\<not> seq_le (x + of_nat n) x" and "\<not> seq_gt x x" and "seq_le x x"
  using seq_at(2) [of n 0 x] seq_at(3) [of 0 0 x] seq_at(2) [of 0 0 x] assms by simp_all

lemma process_payload_next:
  assumes wf: "conn_wf c" and sl: "list_all (\<lambda>s. \<not> slot_used s) (conn_reassembly c)" and pf: "\<not> conn_pending_fin c"
    and sw: "segment_wf s" and sq: "tcp_sequence_number s = conn_receive_next c"
    and room: "conn_receive_ready_len c + tcp_payload_len s \<le> 32768"
  shows "process_payload c s = Some (0, if tcp_payload_len s = 0 then c else ready_put c (segment_data s))"
proof (cases "tcp_payload_len s = 0")
  case True
  then show ?thesis by (simp add: process_payload_def)
next
  case False
  have n: "tcp_payload_len s \<le> 65515" using sw by (simp add: segment_wf_def)
  have rest: "segment_rest c s = segment_data s" by (simp add: segment_rest_def sq)
  have o: "\<not> seq_le (segment_end s) (conn_receive_next c)" "\<not> seq_gt (tcp_sequence_number s) (conn_receive_next c)"
    using seq_next_segment [of "tcp_payload_len s" "conn_receive_next c"] False n by (simp_all add: segment_end_def sq)
  have len: "conn_receive_ready_len c + length (segment_data s) \<le> 32768"
    using room length_segment_data [OF sw] by simp
  let ?d = "ready_put c (segment_data s)"
  have wd: "conn_wf ?d" using ready_put_wf [OF wf len] .
  have sd: "list_all (\<lambda>s. \<not> slot_used s) (conn_reassembly ?d)" using sl by simp
  obtain rc c' where r: "promote_loop ?d = Some (rc, c')" "promote_step\<^sup>*\<^sup>* ?d c'"
    "rc = 0 \<and> all_future c' 0 \<or> rc = -1 \<and> promotion_blocked c'"
    using promote_loop_spec [OF wd] by auto
  have "c' = ?d" by (rule no_slots_promote [OF sd wd r(2)])
  moreover have "\<not> promotion_blocked ?d"
    using sd wd by (auto simp: promotion_blocked_def slot_due_def list_all_length conn_wf_def)
  ultimately have "promote_reassembly ?d = Some (0, consume_pending_fin ?d)"
    using r by (auto simp: promote_reassembly_def)
  moreover have "consume_pending_fin ?d = ?d" using pf by (simp add: consume_pending_fin_def)
  ultimately show ?thesis
    using process_payload_inorder(1) [OF wf sw _ o] False rest len by simp
qed

definition streaming :: "u32 \<Rightarrow> tcp_connection \<Rightarrow> bool" where
  "streaming seq c \<longleftrightarrow> unopened c \<and> conn_state c = TCP_STATE_ESTABLISHED \<and> conn_receive_next c = seq
     \<and> conn_local_port c = 40001 \<and> conn_remote_port c = 80"

text \<open>After the next segment its bytes are ready, and the connection is closed by its FIN.\<close>

lemma on_segment_next:
  assumes c: "streaming seq c" and sw: "segment_wf s" and sq: "tcp_sequence_number s = seq"
    and ports: "tcp_source_port s = 80" "tcp_destination_port s = 40001" and rst: "tcp_flags s AND 4 = 0"
    and n: "tcp_payload_len s \<le> 32768"
  shows "\<exists>c'. tcp_connection_on_segment (Some c) (Some s) = Some (0, Some c') \<and> ready_bytes c' = segment_data s
    \<and> conn_wf c' \<and> sender_ok c' \<and> \<not> conn_pending_fin c' \<and> list_all (\<lambda>s. \<not> slot_used s) (conn_reassembly c')
    \<and> conn_local_port c' = 40001 \<and> conn_remote_port c' = 80
    \<and> (if tcp_flags s AND 1 = 0
       then conn_state c' = TCP_STATE_ESTABLISHED \<and> conn_receive_next c' = seq + of_nat (tcp_payload_len s)
       else conn_state c' = TCP_STATE_CLOSE_WAIT)"
proof -
  define d where "d = (on_ack c s)\<lparr>conn_remote_window := tcp_window_size s\<rparr>"
  have wf: "conn_wf c" and ok: "sender_ok c" using c by (simp_all add: streaming_def unopened_def)
  have wd: "conn_wf d"
    unfolding d_def using same_buffers_wf [OF same_buffers_ops(8) same_buffers_wf [OF same_buffers_ops(4) wf]] .
  have d: "conn_receive_ready_len d = 0" "\<not> conn_pending_fin d" "list_all (\<lambda>s. \<not> slot_used s) (conn_reassembly d)"
    "conn_state d = TCP_STATE_ESTABLISHED" "conn_receive_next d = seq" "conn_local_port d = 40001" "conn_remote_port d = 80"
    using c by (simp_all add: d_def streaming_def unopened_def)
  define e where "e = (if tcp_payload_len s = 0 then d else ready_put d (segment_data s))"
  have pp: "process_payload d s = Some (0, e)"
    unfolding e_def using process_payload_next [OF wd d(3,2) sw] sq d n by simp
  have len: "length (segment_data s) = tcp_payload_len s" using length_segment_data [OF sw] .
  have e: "conn_receive_next e = seq + of_nat (tcp_payload_len s)" "ready_bytes e = segment_data s" "conn_state e = TCP_STATE_ESTABLISHED"
    "\<not> conn_pending_fin e" "list_all (\<lambda>s. \<not> slot_used s) (conn_reassembly e)" "conn_local_port e = 40001" "conn_remote_port e = 80"
    using d len ready_put_bytes [OF wd, of "segment_data s"] n unfolding e_def
    by (simp_all add: ready_bytes_def segment_data_def) (simp_all add: ready_put_def)
  let ?f = "process_fin e s"
  have f: "?f = (if tcp_flags s AND 1 = 0 then e else e\<lparr>conn_receive_next := conn_receive_next e + 1, conn_state := TCP_STATE_CLOSE_WAIT\<rparr>)"
    using e(1,3) sq by (simp add: process_fin_def Let_def const_defs fin_transition_def)
  have g: "on_fin_acked (consume_pending_fin ?f) = ?f"
    using e(3,4) by (simp add: f consume_pending_fin_def on_fin_acked_def Let_def)
  have on: "tcp_connection_on_segment (Some c) (Some s) = Some (0, Some ?f)"
    using c ports rst pp g d(4)
    by (simp add: tcp_connection_on_segment_def Let_def streaming_def const_defs receives_data_def flip: d_def)
  have "conn_wf ?f" using on_segment_safe [OF wf sw] on by auto
  moreover have "sender_ok ?f" using on_segment_sender [OF wf sw ok on] .
  ultimately show ?thesis using on e by (auto simp: f ready_bytes_def)
qed

section \<open>Resources\<close>

text \<open>
  Every reading of the clock succeeds, and any two are at most ten seconds apart: the shorter of the
  client's two deadlines.
\<close>

definition punctual :: "timespec ptr set \<Rightarrow> bool" where
  "punctual clk \<longleftrightarrow> None \<notin> clk \<and> (\<forall>a b. Some a \<in> clk \<longrightarrow> Some b \<in> clk \<longrightarrow> elapsed_ns a b \<le> 10000000000)"

text \<open>The client is not kept waiting longer than a poll between one reading and the next.\<close>

definition within_poll :: "timespec ptr \<Rightarrow> timespec ptr \<Rightarrow> bool" where
  "within_poll x y \<longleftrightarrow> (case (x, y) of (Some a, Some b) \<Rightarrow> elapsed_ns a b \<le> 250000000 | _ \<Rightarrow> True)"

text \<open>Enough clock readings, successful sends and allocations for \<open>n\<close> turns.\<close>

definition plenty :: "timespec ptr set \<Rightarrow> nat \<Rightarrow> world \<Rightarrow> bool" where
  "plenty clk n w \<longleftrightarrow> set (w_clock w) \<subseteq> clk \<and> 3 * n \<le> length (w_clock w)
     \<and> successively within_poll (w_clock w)
     \<and> n \<le> length (w_sends w) \<and> list_all (\<lambda>k. 0 \<le> k) (w_sends w)
     \<and> n \<le> length (w_allocs w) \<and> list_all (\<lambda>a. a) (w_allocs w)"

text \<open>What a turn may change of the world besides the frames received.\<close>

definition spends :: "world \<Rightarrow> world \<Rightarrow> bool" where
  "spends w w' \<longleftrightarrow> w_stdout w' = w_stdout w \<and> w_closed w' = w_closed w \<and> (\<exists>more. w_sent w' = w_sent w @ more)
     \<and> (\<forall>clk n. plenty clk (Suc n) w \<longrightarrow> plenty clk n w')"

lemma clock_readings:
  assumes "punctual clk" and "set cs \<subseteq> clk" and "k < length cs"
  shows "\<exists>t. cs ! k = Some t \<and> Some t \<in> clk"
proof -
  have "cs ! k \<in> clk" using nth_mem [OF assms(3)] assms(2) by blast
  then show ?thesis using assms(1) by (cases "cs ! k") (auto simp: punctual_def)
qed

lemma plenty_turn:
  assumes "punctual clk" and "plenty clk (Suc n) w"
  obtains a b c cs k ks as where "w_clock w = Some a # Some b # Some c # cs" "Some a \<in> clk" "Some b \<in> clk" "Some c \<in> clk"
    "w_sends w = k # ks" "0 \<le> k" "w_allocs w = True # as" "elapsed_ns a b \<le> 250000000" "elapsed_ns b c \<le> 250000000"
proof -
  from assms(2) obtain x y z cs where cl: "w_clock w = x # y # z # cs"
    by (cases "w_clock w"; cases "tl (w_clock w)"; cases "tl (tl (w_clock w))") (auto simp: plenty_def)
  then have "x \<in> clk" "y \<in> clk" "z \<in> clk" using assms(2) by (auto simp: plenty_def)
  moreover from this obtain a b c where "x = Some a" "y = Some b" "z = Some c"
    using assms(1) by (metis not_Some_eq punctual_def)
  moreover obtain k ks where "w_sends w = k # ks" "0 \<le> k" using assms(2) by (cases "w_sends w") (auto simp: plenty_def)
  moreover obtain as where "w_allocs w = True # as" using assms(2) by (cases "w_allocs w") (auto simp: plenty_def)
  moreover have "successively within_poll (x # y # z # cs)" using assms(2) cl by (simp add: plenty_def)
  then have "within_poll x y" "within_poll y z" by simp_all
  ultimately show thesis using that cl by (simp add: within_poll_def)
qed

lemma receive_exact:
  assumes link: "link_ok dev tip mac" and p: "elapsed_ns a b \<le> 250000000"
    and w: "w_clock w = Some a # Some b # cs" "w_polls w = Recv_Frame f # ps"
    and v: "tcp_verdict dev tip 80 40001 (take 2048 f) = Some s"
  shows "receive_tcp_segment dev tip s0 TCP_POLL_MS w = Outcome (1, s) (w\<lparr>w_clock := cs, w_polls := ps\<rparr>)"
proof -
  have ready: "netdev_wf dev \<and> length tip = 4" "0 \<le> nd_fd dev" using link by (simp_all add: link_ok_def)
  have "f \<noteq> []" using v by (auto simp: tcp_verdict_def ip_verdict_def eth_payload_of_def)
  then have pv: "tcpf.poll_verdict dev tip 80 40001 (Recv_Frame f) = Some s" using v by (simp add: tcpf.poll_verdict_def)
  have "elapsed_ns a b \<le> 250 * 10 ^ 6" using p by simp
  then have "wait_loop 250 True dev (tcp_from_peer dev tip 80 40001) a (uninit 2048) (w\<lparr>w_clock := Some b # cs\<rparr>) =
      Outcome (Got s) (w\<lparr>w_clock := Some b # cs, w_clock := cs, w_polls := ps\<rparr>)"
    using w pv by (intro tcpf.wait_finds [OF ready, where es = "[]" and ts = "[]" and t = b and e = "Recv_Frame f"]) simp_all
  then show ?thesis
    using w(1) by (simp add: receive_tcp_segment_def io_bind_def clock_gettime_def const_defs)
qed

lemma send_exact:
  assumes "link_ok dev tip mac" and "tcp_valid s" and "length (tcp_wire s) \<le> 1480" and "w_sends w = k # ks" and "0 \<le> k"
  shows "send_tcp_segment (Some dev) (Some tip) (Some mac) (Some s) w =
    Outcome 0 (w\<lparr>w_sends := ks, w_sent := w_sent w @ [tcp_image 0x4854 dev tip mac s]\<rparr>)"
  using assms tcp_send [of dev tip mac s "0x4854" w] by (simp add: send_tcp_segment_def link_ok_def)

lemma wire_empty: "length (tcp_wire (tcp_built sp dp sq ak fl win [])) \<le> 1480"
  using length_tcp_wire [OF tcp_built_valid [of "[]"]] by (simp add: tcp_built_def)

lemma ack_exact:
  assumes "link_ok dev tip mac" and "w_sends w = k # ks" and "0 \<le> k"
  shows "\<exists>f. send_connection_ack dev tip mac c w = Outcome 0 (w\<lparr>w_sends := ks, w_sent := w_sent w @ [f]\<rparr>)"
  using send_exact [OF assms(1) tcp_built_valid wire_empty assms(2,3)]
  by (auto simp: send_connection_ack_def tcp_connection_build_ack_def tcp_build_empty)

section \<open>A turn\<close>

definition drained :: "bytes \<Rightarrow> bool list \<Rightarrow> http_session \<Rightarrow> http_session \<Rightarrow> bool list \<Rightarrow> bool" where
  "drained log al hs hs' al' \<longleftrightarrow> al' \<in> {al, tl al}
    \<and> response_ok (log @ ready_bytes (hs_connection hs)) (hs_data hs') (hs_len hs') (hs_capacity hs')
    \<and> conn_wf (hs_connection hs') \<and> conn_receive_ready_len (hs_connection hs') = 0
    \<and> (\<exists>ready n. hs_connection hs' = (hs_connection hs)\<lparr>conn_receive_ready := ready, conn_receive_ready_len := n\<rparr>)"

lemma drain_some:
  assumes wf: "conn_wf (hs_connection hs)" and n: "0 < n" "n \<le> 4096" "conn_receive_ready_len (hs_connection hs) = n"
    and r: "response_ok log (hs_data hs) (hs_len hs) (hs_capacity hs)"
    and max: "length log + n < 1048576" and al: "w_allocs w = True # as"
  shows "\<exists>hs' al'. drain_tcp_application_data hs w = Outcome (0, hs') (w\<lparr>w_allocs := al'\<rparr>) \<and> drained log (w_allocs w) hs hs' al'"
proof -
  let ?c = "hs_connection hs"
  from conn_read_safe [OF wf, of 4096 "uninit 4096"] obtain k c' b' where
    rd: "tcp_connection_read (Some ?c) (Some (uninit 4096)) 4096 = Some (k, Some c', Some b')" and wf': "conn_wf c'"
    and k: "k = min 4096 (conn_receive_ready_len ?c)" and b': "b' = take k (conn_receive_ready ?c) @ drop k (uninit 4096)"
    and z: "conn_receive_ready_len c' = conn_receive_ready_len ?c - k"
    and c': "c' = ?c\<lparr>conn_receive_ready := conn_receive_ready c', conn_receive_ready_len := conn_receive_ready_len c'\<rparr>"
    by auto
  have kn: "k = n" using k n by simp
  have tb: "take n b' = ready_bytes ?c" "n \<le> length b'" using b' kn wf n by (auto simp: ready_bytes_def conn_wf_def)
  have lim: "\<not> 1048576 \<le> hs_len hs + n" using r max by (auto simp: response_ok_def)
  have "\<exists>d' cap' al'. append_response (Some (hs_data hs)) (Some (hs_len hs)) (Some (hs_capacity hs)) (Some b') n w =
      Outcome (0, Some d', Some (hs_len hs + n), Some cap') (w\<lparr>w_allocs := al'\<rparr>) \<and> al' \<in> {w_allocs w, tl (w_allocs w)}
      \<and> response_ok (log @ ready_bytes ?c) d' (hs_len hs + n) cap'"
  proof (cases rule: append_response_cases [OF r tb(2), of w, case_names empty full stays waits refused grows])
    case (stays data')
    then show ?thesis using tb by (intro exI [of _ data'] exI [of _ "hs_capacity hs"] exI [of _ "w_allocs w"]) simp
  next
    case (grows rest data' cap')
    then show ?thesis using tb by (intro exI [of _ data'] exI [of _ cap'] exI [of _ rest]) simp
  qed (use n lim al in auto)
  then obtain d' cap' al' where app: "append_response (Some (hs_data hs)) (Some (hs_len hs)) (Some (hs_capacity hs)) (Some b') n w =
      Outcome (0, Some d', Some (hs_len hs + n), Some cap') (w\<lparr>w_allocs := al'\<rparr>)" "al' \<in> {w_allocs w, tl (w_allocs w)}"
    "response_ok (log @ ready_bytes ?c) d' (hs_len hs + n) cap'" by blast
  let ?hs = "\<lparr> hs_connection = c', hs_data = d', hs_len = hs_len hs + n, hs_capacity = cap' \<rparr>"
  have last: "drain_loop ?hs b' v = Outcome (0, ?hs) v" for v
    using z kn n by (subst drain_loop.simps) (simp add: tcp_connection_readable_def)
  have "drain_tcp_application_data hs w = Outcome (0, ?hs) (w\<lparr>w_allocs := al'\<rparr>)"
    unfolding drain_tcp_application_data_def
    using n rd kn app(1) last by (subst drain_loop.simps) (simp add: tcp_connection_readable_def const_defs)
  moreover have "\<exists>ready m. c' = ?c\<lparr>conn_receive_ready := ready, conn_receive_ready_len := m\<rparr>" using c' by blast
  then have "drained log (w_allocs w) hs ?hs al'" using app(2,3) wf' z kn n by (simp add: drained_def)
  ultimately show ?thesis by blast
qed

lemma drain_exact:
  assumes wf: "conn_wf (hs_connection hs)" and bs: "length (ready_bytes (hs_connection hs)) \<le> 4096"
    and r: "response_ok log (hs_data hs) (hs_len hs) (hs_capacity hs)"
    and max: "length log + length (ready_bytes (hs_connection hs)) < 1048576" and al: "w_allocs w = True # as"
  shows "\<exists>hs' al'. drain_tcp_application_data hs w = Outcome (0, hs') (w\<lparr>w_allocs := al'\<rparr>) \<and> drained log (w_allocs w) hs hs' al'"
proof -
  let ?c = "hs_connection hs"
  have rl: "length (ready_bytes ?c) = conn_receive_ready_len ?c" using wf by (simp add: ready_bytes_def conn_wf_def)
  show ?thesis
  proof (cases "conn_receive_ready_len ?c = 0")
    case True
    then have d: "drain_tcp_application_data hs w = Outcome (0, hs) (w\<lparr>w_allocs := w_allocs w\<rparr>)"
      unfolding drain_tcp_application_data_def by (subst drain_loop.simps) (simp add: tcp_connection_readable_def)
    have e: "ready_bytes ?c = []" using True rl by simp
    have "?c = ?c\<lparr>conn_receive_ready := conn_receive_ready ?c, conn_receive_ready_len := conn_receive_ready_len ?c\<rparr>" by simp
    then have "\<exists>ready n. ?c = ?c\<lparr>conn_receive_ready := ready, conn_receive_ready_len := n\<rparr>" by blast
    then have "drained log (w_allocs w) hs hs (w_allocs w)" using r e True wf by (simp add: drained_def)
    with d show ?thesis by blast
  next
    case False
    then show ?thesis using drain_some [OF wf _ _ refl r _ al] bs max rl by simp
  qed
qed

text \<open>What is known of the session while the response arrives, and when it is complete.\<close>

definition receiving :: "u32 \<Rightarrow> bytes \<Rightarrow> http_session \<Rightarrow> bool" where
  "receiving seq log hs \<longleftrightarrow> streaming seq (hs_connection hs) \<and> response_ok log (hs_data hs) (hs_len hs) (hs_capacity hs)"

definition complete :: "bytes \<Rightarrow> http_session \<Rightarrow> bool" where
  "complete log hs \<longleftrightarrow> conn_state (hs_connection hs) = TCP_STATE_CLOSE_WAIT \<and> conn_receive_ready_len (hs_connection hs) = 0
     \<and> response_ok log (hs_data hs) (hs_len hs) (hs_capacity hs)"

definition turned :: "u32 \<Rightarrow> bytes \<Rightarrow> tcp_segment \<Rightarrow> http_session \<Rightarrow> http_turn \<Rightarrow> bool" where
  "turned seq log s hs t \<longleftrightarrow>
    (if tcp_flags s AND 1 = 0 then t = Turn hs \<and> receiving (seq + of_nat (tcp_payload_len s)) (log @ segment_data s) hs
     else t = Leave hs \<and> complete (log @ segment_data s) hs)"

lemma http_segment_exact:
  assumes link: "link_ok dev tip mac" and hs: "receiving seq log hs" and sw: "segment_wf s" and sq: "tcp_sequence_number s = seq"
    and ports: "tcp_source_port s = 80" "tcp_destination_port s = 40001" and rst: "tcp_flags s AND 4 = 0"
    and n: "tcp_payload_len s \<le> 4096" "length log + tcp_payload_len s < 1048576"
    and w: "w_sends w = k # ks" "0 \<le> k" "w_allocs w = True # as"
  shows "\<exists>t hs' al' ks' sent'. http_segment dev tip mac hs s w = Outcome t (w\<lparr>w_allocs := al', w_sends := ks', w_sent := w_sent w @ sent'\<rparr>)
    \<and> turned seq log s hs' t \<and> al' \<in> {w_allocs w, tl (w_allocs w)} \<and> ks' \<in> {w_sends w, tl (w_sends w)}"
proof -
  have c: "streaming seq (hs_connection hs)" and r: "response_ok log (hs_data hs) (hs_len hs) (hs_capacity hs)"
    using hs by (simp_all add: receiving_def)
  obtain c' where on: "tcp_connection_on_segment (Some (hs_connection hs)) (Some s) = Some (0, Some c')" and rb: "ready_bytes c' = segment_data s"
    and wf: "conn_wf c'" "sender_ok c'" "\<not> conn_pending_fin c'" "list_all (\<lambda>s. \<not> slot_used s) (conn_reassembly c')"
    "conn_local_port c' = 40001" "conn_remote_port c' = 80"
    and st: "if tcp_flags s AND 1 = 0 then conn_state c' = TCP_STATE_ESTABLISHED \<and> conn_receive_next c' = seq + of_nat (tcp_payload_len s)
       else conn_state c' = TCP_STATE_CLOSE_WAIT"
    using on_segment_next [OF c sw sq ports rst] n by auto
  let ?hs = "hs\<lparr>hs_connection := c'\<rparr>"
  have len: "length (segment_data s) = tcp_payload_len s" using length_segment_data [OF sw] .
  obtain hs' al' where dr: "drain_tcp_application_data ?hs w = Outcome (0, hs') (w\<lparr>w_allocs := al'\<rparr>)" and d: "drained log (w_allocs w) ?hs hs' al'"
    using drain_exact [of ?hs log w as] wf r n w rb len by auto
  from d obtain ready m where c'': "hs_connection hs' = c'\<lparr>conn_receive_ready := ready, conn_receive_ready_len := m\<rparr>"
    and d': "response_ok (log @ segment_data s) (hs_data hs') (hs_len hs') (hs_capacity hs')" "conn_wf (hs_connection hs')"
      "conn_receive_ready_len (hs_connection hs') = 0" "al' \<in> {w_allocs w, tl (w_allocs w)}"
    using rb by (auto simp: drained_def)
  let ?t = "if tcp_flags s AND 1 = 0 then Turn hs' else Leave hs'"
  have "turned seq log s hs' ?t"
    using st wf d' c'' by (auto simp: turned_def receiving_def complete_def streaming_def unopened_def sender_ok_def)
  moreover have "\<exists>ks' sent'. http_segment dev tip mac hs s w = Outcome ?t (w\<lparr>w_allocs := al', w_sends := ks', w_sent := w_sent w @ sent'\<rparr>)
      \<and> ks' \<in> {w_sends w, tl (w_sends w)}"
  proof (cases "tcp_payload_len s > 0 \<or> tcp_flags s AND 1 \<noteq> 0")
    case True
    obtain f where "send_connection_ack dev tip mac (hs_connection hs') (w\<lparr>w_allocs := al'\<rparr>) =
        Outcome 0 (w\<lparr>w_allocs := al', w_sends := ks, w_sent := w_sent w @ [f]\<rparr>)"
      using ack_exact [OF link, of "w\<lparr>w_allocs := al'\<rparr>" k ks] w by auto
    then show ?thesis
      using True on dr c st c'' rst w
      by (intro exI [of _ ks] exI [of _ "[f]"]) (simp add: http_segment_def Let_def io_bind_def const_defs streaming_def)
  next
    case False
    then show ?thesis
      using on dr c st c'' rst w
      by (intro exI [of _ "w_sends w"] exI [of _ "[]"]) (simp add: http_segment_def Let_def io_bind_def const_defs streaming_def)
  qed
  ultimately show ?thesis using d'(4) by blast
qed

lemma spends_turn:
  assumes "w_clock w = a # b # c # cs" and "al \<in> {w_allocs w, tl (w_allocs w)}" and "ks \<in> {w_sends w, tl (w_sends w)}"
  shows "spends w (w\<lparr>w_clock := cs, w_polls := ps, w_allocs := al, w_sends := ks, w_sent := w_sent w @ sent\<rparr>)"
  using assms by (cases "w_allocs w"; cases "w_sends w") (auto simp: spends_def plenty_def successively_Cons)

lemma http_step_exact:
  assumes link: "link_ok dev tip mac" and p: "punctual clk" "plenty clk (Suc n) w" "Some start \<in> clk"
    and hs: "receiving seq log hs" and w: "w_polls w = Recv_Frame f # ps"
    and v: "tcp_verdict dev tip 80 40001 (take 2048 f) = Some s" and sq: "tcp_sequence_number s = seq" and rst: "tcp_flags s AND 4 = 0"
    and m: "tcp_payload_len s \<le> 4096" "length log + tcp_payload_len s < 1048576"
  shows "\<exists>t hs' w'. http_step dev tip mac start hs w = Outcome t w' \<and> turned seq log s hs' t \<and> w_polls w' = ps \<and> spends w w'"
proof -
  obtain a b c cs k ks as where cl: "w_clock w = Some a # Some b # Some c # cs" "Some a \<in> clk" "Some b \<in> clk" "Some c \<in> clk"
    and sn: "w_sends w = k # ks" "0 \<le> k" and al: "w_allocs w = True # as" and poll: "elapsed_ns b c \<le> 250000000"
    by (rule plenty_turn [OF p(1,2)]) blast
  let ?w1 = "w\<lparr>w_clock := Some b # Some c # cs\<rparr>" and ?w2 = "w\<lparr>w_clock := cs, w_polls := ps\<rparr>"
  have rc: "receive_tcp_segment dev tip undefined TCP_POLL_MS ?w1 = Outcome (1, s) ?w2"
    using receive_exact [OF link poll, of ?w1 cs f ps s undefined] w v by simp
  obtain t hs' al' ks' sent' where sg: "http_segment dev tip mac hs s ?w2 =
      Outcome t (?w2\<lparr>w_allocs := al', w_sends := ks', w_sent := w_sent ?w2 @ sent'\<rparr>)"
    and t: "turned seq log s hs' t" and res: "al' \<in> {w_allocs w, tl (w_allocs w)}" "ks' \<in> {w_sends w, tl (w_sends w)}"
    using http_segment_exact [OF link hs tcp_verdict_facts(1) [OF v] sq tcp_verdict_facts(2,3) [OF v] rst m, of ?w2 k ks as] sn al by auto
  have "elapsed_ns start a \<le> 10000000000" using p(1,3) cl(2) by (auto simp: punctual_def)
  then have "http_step dev tip mac start hs w =
      Outcome t (w\<lparr>w_clock := cs, w_polls := ps, w_allocs := al', w_sends := ks', w_sent := w_sent w @ sent'\<rparr>)"
    using cl(1) rc sg by (simp add: http_step_def io_bind_def clock_gettime_def const_defs)
  then show ?thesis using t spends_turn [OF cl(1) res] by fastforce
qed

section \<open>The whole response\<close>

text \<open>The segments carry the stream in order from \<open>seq\<close> on, and the last one its FIN.\<close>

fun in_order :: "u32 \<Rightarrow> bytes \<Rightarrow> tcp_segment list \<Rightarrow> bool" where
  "in_order seq S [] = False"
| "in_order seq S (s # ss) \<longleftrightarrow> tcp_sequence_number s = seq \<and> tcp_flags s AND 4 = 0 \<and> tcp_payload_len s \<le> 4096
     \<and> tcp_payload_len s \<le> length S \<and> segment_data s = take (tcp_payload_len s) S
     \<and> (if tcp_flags s AND 1 = 0 then in_order (seq + of_nat (tcp_payload_len s)) (drop (tcp_payload_len s) S) ss
        else ss = [] \<and> tcp_payload_len s = length S)"

definition quiet :: "world \<Rightarrow> world \<Rightarrow> bool" where
  "quiet w w' \<longleftrightarrow> w_stdout w' = w_stdout w \<and> w_closed w' = w_closed w \<and> (\<exists>more. w_sent w' = w_sent w @ more)"

lemma quiet_trans: "quiet u v \<Longrightarrow> quiet v w \<Longrightarrow> quiet u w"
  by (auto simp: quiet_def)

lemma spends_quiet: "spends w w' \<Longrightarrow> quiet w w'"
  by (auto simp: spends_def quiet_def)

lemma http_loop_exact:
  assumes link: "link_ok dev tip mac" and p: "punctual clk" "Some start \<in> clk"
    and "list_all2 (\<lambda>f s. tcp_verdict dev tip 80 40001 (take 2048 f) = Some s) fs ss" and "in_order seq S ss"
    and "receiving seq log hs" and "plenty clk (length ss + n) w" and "w_polls w = map Recv_Frame fs @ ps"
    and "length log + length S < 1048576"
  shows "\<exists>hs' w'. http_loop dev tip mac start hs w = Outcome (Some hs') w' \<and> complete (log @ S) hs' \<and> plenty clk n w' \<and> quiet w w'"
  using assms(4-)
proof (induction ss arbitrary: fs seq S log hs w rule: list.induct)
  case (Cons s ss)
  from Cons.prems(1) obtain f fs' where fs: "fs = f # fs'" "tcp_verdict dev tip 80 40001 (take 2048 f) = Some s"
    "list_all2 (\<lambda>f s. tcp_verdict dev tip 80 40001 (take 2048 f) = Some s) fs' ss"
    by (cases fs) auto
  let ?m = "tcp_payload_len s"
  have s: "tcp_sequence_number s = seq" "tcp_flags s AND 4 = 0" "?m \<le> 4096" "?m \<le> length S" "segment_data s = take ?m S"
    using Cons.prems(2) by simp_all
  have pl: "plenty clk (Suc (length ss + n)) w" using Cons.prems(4) by simp
  obtain t hs' w1 where st: "http_step dev tip mac start hs w = Outcome t w1" and t: "turned seq log s hs' t"
    and w1: "w_polls w1 = map Recv_Frame fs' @ ps" "spends w w1"
    using http_step_exact [OF link p(1) pl p(2) Cons.prems(3) _ fs(2) s(1-3)] Cons.prems(5,6) s(4) fs(1) by auto
  have p1: "plenty clk (length ss + n) w1" using w1(2) pl by (simp add: spends_def)
  show ?case
  proof (cases "tcp_flags s AND 1 = 0")
    case True
    then have "t = Turn hs'" and r: "receiving (seq + of_nat ?m) (log @ take ?m S) hs'" using t s(5) by (simp_all add: turned_def)
    then have loop: "http_loop dev tip mac start hs w = http_loop dev tip mac start hs' w1"
      using st by (subst http_loop.simps) simp
    obtain hs2 w2 where r2: "http_loop dev tip mac start hs' w1 = Outcome (Some hs2) w2"
      "complete ((log @ take ?m S) @ drop ?m S) hs2" "plenty clk n w2" "quiet w1 w2"
      using Cons.IH [OF fs(3) _ r p1 w1(1), of "drop ?m S"] Cons.prems(2,6) True s(4) by auto
    have "quiet w w2" by (rule quiet_trans [OF spends_quiet [OF w1(2)] r2(4)])
    then show ?thesis using loop r2 by simp
  next
    case False
    then have "t = Leave hs'" "complete (log @ S) hs'" "ss = []" using t s(5) Cons.prems(2) by (simp_all add: turned_def)
    then show ?thesis using st p1 spends_quiet [OF w1(2)] by (subst http_loop.simps) simp
  qed
qed simp

lemma http_finish_exact:
  assumes link: "link_ok dev tip mac" and c: "complete S hs" and S: "map byte_char S = http_head version code reason hds @ body"
    and ok: "http_status_ok version code reason" "list_all http_line_ok hds" "http_content hds body content"
    and p: "plenty clk (Suc n) w"
  shows "\<exists>w'. http_finish dev tip mac hs w = Outcome 0 w' \<and> w_closed w' = w_closed w
    \<and> w_stdout w' = w_stdout w @ http_pieces (http_head version code reason hds) content \<and> (\<exists>f. w_sent w' = w_sent w @ [f])"
proof -
  let ?out = "w_stdout w @ http_pieces (http_head version code reason hds) content"
  have r: "response_ok S (hs_data hs) (hs_len hs) (hs_capacity hs)" and z: "conn_receive_ready_len (hs_connection hs) = 0"
    and st: "conn_state (hs_connection hs) = TCP_STATE_CLOSE_WAIT" using c by (simp_all add: complete_def)
  have dr: "drain_tcp_application_data hs w = Outcome (0, hs) w"
    unfolding drain_tcp_application_data_def using z by (subst drain_loop.simps) (simp add: tcp_connection_readable_def)
  obtain k ks as where sn: "w_sends w = k # ks" "0 \<le> k" and al: "w_allocs w = True # as"
    using p by (cases "w_sends w"; cases "w_allocs w") (auto simp: plenty_def)
  have "length S = hs_len hs" using r by (simp add: response_ok_def)
  moreover have "length S \<noteq> 0" using S by (auto simp: http_head_def CRLF_def)
  ultimately have len: "hs_len hs \<noteq> 0" by simp
  let ?al = "if chunked_by_headers hds = 0 then w_allocs w else as"
  let ?w = "w\<lparr>w_stdout := ?out, w_allocs := ?al\<rparr>"
  have pr: "print_http_response (hs_data hs) (hs_len hs) w = Outcome 0 ?w"
    using print_response_run [OF ok r S, of w] al by (simp add: Let_def)
  let ?s = "tcp_built (conn_local_port (hs_connection hs)) (conn_remote_port (hs_connection hs)) (conn_send_next (hs_connection hs))
      (conn_receive_next (hs_connection hs)) 0x11 TCP_WINDOW_SIZE []"
  have sd: "send_tcp_segment (Some dev) (Some tip) (Some mac) (Some ?s) ?w =
      Outcome 0 (?w\<lparr>w_sends := ks, w_sent := w_sent w @ [tcp_image 0x4854 dev tip mac ?s]\<rparr>)"
    using send_exact [OF link tcp_built_valid wire_empty, where w = ?w] sn by simp
  show ?thesis
    using dr len pr st sd by (simp add: http_finish_def io_bind_def build_fin_eq Let_def)
qed

section \<open>The connection and the request\<close>

text \<open>The SYN-ACK opens the connection.\<close>

lemma syn_answered:
  assumes c: "unopened c" "conn_state c = TCP_STATE_SYN_SENT" "conn_local_port c = 40001" "conn_remote_port c = 80"
    "conn_send_next c = iss + 1" and sw: "segment_wf a" and h: "handshake_ok 40001 80 iss a"
  shows "\<exists>c'. tcp_connection_on_segment (Some c) (Some a) = Some (1, Some c') \<and> streaming (tcp_sequence_number a + 1) c'
    \<and> conn_send_next c' = iss + 1"
proof -
  have f: "tcp_flags a AND TCP_FLAG_RST = 0" "tcp_flags a AND (TCP_FLAG_SYN OR TCP_FLAG_ACK) = TCP_FLAG_SYN OR TCP_FLAG_ACK"
    "tcp_acknowledgment_number a = iss + 1" "tcp_source_port a = 80" "tcp_destination_port a = 40001"
    using h unfolding syn_ack_flags by (simp_all add: handshake_ok_def)
  obtain rc c' where on: "tcp_connection_on_segment (Some c) (Some a) = Some (rc, Some c')" and wf: "conn_wf c'"
    using on_segment_safe [of c a] c(1) sw by (auto simp: unopened_def)
  have ok: "sender_ok c'" using on_segment_sender [OF _ sw _ on] c(1) by (simp add: unopened_def)
  show ?thesis
    using on f c wf ok by (auto simp: tcp_connection_on_segment_def Let_def on_syn_sent_def streaming_def unopened_def)
qed

lemma init_syn:
  assumes "tcp_connection_init (Some g) HTTP_SOURCE_PORT HTTP_DESTINATION_PORT iss = Some c"
  shows "\<exists>c'. tcp_connection_build_syn (Some c) (Some undefined) TCP_WINDOW_SIZE =
      Some (0, Some c', Some (tcp_built 40001 80 iss 0 2 TCP_WINDOW_SIZE []))
    \<and> unopened c' \<and> conn_state c' = TCP_STATE_SYN_SENT \<and> conn_local_port c' = 40001 \<and> conn_remote_port c' = 80 \<and> conn_send_next c' = iss + 1"
  using init_unopened [of g HTTP_SOURCE_PORT HTTP_DESTINATION_PORT iss undefined TCP_WINDOW_SIZE] assms
  by (auto simp: tcp_connection_init_def build_syn_eq Let_def clear_reassembly_def remember_for_retransmission_def const_defs)

lemma connect_tcp_exact:
  assumes link: "link_ok dev tip mac" and c: "tcp_connection_init (Some g) HTTP_SOURCE_PORT HTTP_DESTINATION_PORT iss = Some c"
    and p: "elapsed_ns t0 t1 \<le> 10000000000" "elapsed_ns t2 t3 \<le> 250000000"
    and w: "w_clock w = Some t0 # Some t1 # Some t2 # Some t3 # cs" "w_sends w = k0 # k1 # ks" "0 \<le> k0" "0 \<le> k1"
      "w_polls w = Recv_Frame f # ps"
    and v: "tcp_verdict dev tip 80 40001 (take 2048 f) = Some a" and h: "handshake_ok 40001 80 iss a"
  shows "\<exists>c'. connect_tcp dev tip mac c w = Outcome (0, c') (w\<lparr>w_clock := cs, w_sends := ks, w_polls := ps,
      w_sent := w_sent w @ map (tcp_image 0x4854 dev tip mac)
        [tcp_built 40001 80 iss 0 2 TCP_WINDOW_SIZE [],
         tcp_built 40001 80 (iss + 1) (tcp_sequence_number a + 1) 16 TCP_WINDOW_SIZE []]\<rparr>)
    \<and> streaming (tcp_sequence_number a + 1) c' \<and> conn_send_next c' = iss + 1"
proof -
  let ?base = "tcp_sequence_number a + 1" and ?img = "tcp_image 0x4854 dev tip mac"
  let ?syn = "tcp_built 40001 80 iss 0 2 TCP_WINDOW_SIZE []" and ?ack = "tcp_built 40001 80 (iss + 1) ?base 16 TCP_WINDOW_SIZE []"
  obtain c1 where b: "tcp_connection_build_syn (Some c) (Some undefined) TCP_WINDOW_SIZE = Some (0, Some c1, Some ?syn)"
    and c1: "unopened c1" "conn_state c1 = TCP_STATE_SYN_SENT" "conn_local_port c1 = 40001" "conn_remote_port c1 = 80" "conn_send_next c1 = iss + 1"
    using init_syn [OF c] by blast
  obtain c2 where on: "tcp_connection_on_segment (Some c1) (Some a) = Some (1, Some c2)" and st: "streaming ?base c2"
    and sn: "conn_send_next c2 = iss + 1"
    using syn_answered [OF c1 tcp_verdict_facts(1) [OF v] h] by blast
  let ?w1 = "w\<lparr>w_sends := k1 # ks, w_sent := w_sent w @ [?img ?syn]\<rparr>"
  have s1: "send_tcp_segment (Some dev) (Some tip) (Some mac) (Some ?syn) w = Outcome 0 ?w1"
    using send_exact [OF link tcp_built_valid wire_empty w(2,3)] by simp
  let ?w2 = "?w1\<lparr>w_clock := Some t2 # Some t3 # cs\<rparr>" and ?w3 = "?w1\<lparr>w_clock := cs, w_polls := ps\<rparr>"
  have rc: "receive_tcp_segment dev tip undefined TCP_POLL_MS ?w2 = Outcome (1, a) ?w3"
    using receive_exact [OF link p(2), of ?w2 cs f ps a undefined] w(5) v by simp
  have s2: "send_tcp_segment (Some dev) (Some tip) (Some mac) (Some ?ack) ?w3 =
      Outcome 0 (?w3\<lparr>w_sends := ks, w_sent := w_sent w @ map ?img [?syn, ?ack]\<rparr>)"
    using send_exact [OF link tcp_built_valid wire_empty, where w = ?w3 and k = k1 and ks = ks] w(4) by simp
  have ack: "send_connection_ack dev tip mac c2 = send_tcp_segment (Some dev) (Some tip) (Some mac) (Some ?ack)"
    using st sn by (simp add: send_connection_ack_def tcp_connection_build_ack_def tcp_build_empty streaming_def const_defs)
  have step: "connect_step dev tip mac t0 c1 (?w1\<lparr>w_clock := Some t1 # Some t2 # Some t3 # cs\<rparr>) =
      Outcome (Inr (0, c2)) (?w3\<lparr>w_sends := ks, w_sent := w_sent w @ map ?img [?syn, ?ack]\<rparr>)"
    using rc on st s2 p(1) by (simp add: connect_step_def connect_segment_def io_bind_def clock_gettime_def streaming_def ack) (simp add: const_defs)
  have "connect_loop dev tip mac t0 c1 (?w1\<lparr>w_clock := Some t1 # Some t2 # Some t3 # cs\<rparr>) =
      Outcome (0, c2) (?w3\<lparr>w_sends := ks, w_sent := w_sent w @ map ?img [?syn, ?ack]\<rparr>)"
    using step by (subst connect_loop.simps) simp
  then have "connect_tcp dev tip mac c w = Outcome (0, c2) (?w3\<lparr>w_sends := ks, w_sent := w_sent w @ map ?img [?syn, ?ack]\<rparr>)"
    using b s1 w(1) by (simp add: connect_tcp_def io_bind_def clock_gettime_def)
  then show ?thesis using st sn by simp
qed

lemma get_request:
  assumes "NUL \<notin> set h" "NUL \<notin> set p" "h \<noteq> []" "p \<noteq> []" "length (http_request_text h p) < n" "length buf = n"
  shows "\<exists>r. http_build_get_request (Some buf) n (Some (h @ NUL # x)) (Some (p @ NUL # y)) =
    Some (length (http_request_text h p), Some (http_request_text h p @ r))"
proof -
  have "snprintf buf n (http_request_text h p) = Some (int (length (http_request_text h p)),
      http_request_text h p @ NUL # drop (Suc (length (http_request_text h p))) buf)"
    using snprintf_fits [of "http_request_text h p" n buf] assms(5,6) by simp
  moreover have "hd h \<noteq> NUL" "hd p \<noteq> NUL" using assms(1-4) hd_in_set by metis+
  ultimately show ?thesis
    using assms c_text_terminated [OF assms(1), of x] c_text_terminated [OF assms(2), of y]
    by (cases h; cases p) (auto simp: http_build_get_request_def rd_def)
qed

text \<open>The connection once the request is on its way.\<close>

lemma request_built:
  assumes c: "streaming base c" and pd: "pd \<noteq> []" "length pd \<le> 1460" and sn: "conn_send_next c = sn"
  shows "\<exists>c'. tcp_connection_build_data (Some c) (Some g) (Some (pd @ r)) (length pd) w =
      Some (0, Some c', Some (tcp_built 40001 80 sn base 24 w pd)) \<and> streaming base c'"
proof -
  let ?s = "tcp_built 40001 80 sn base 24 w pd"
  let ?d = "\<lambda>st. remember_for_retransmission (c\<lparr>conn_send_unacknowledged := conn_send_next c,
      conn_send_next := conn_send_next c + of_nat (length pd), conn_state := st\<rparr>) ?s"
  let ?c = "?d (conn_state c)"
  have sc: "unopened c" "conn_state c = TCP_STATE_ESTABLISHED" "conn_receive_next c = base" "conn_local_port c = 40001" "conn_remote_port c = 80"
    using c by (simp_all add: streaming_def)
  have e: "?c = remember_for_retransmission (c\<lparr>conn_send_unacknowledged := conn_send_next c,
      conn_send_next := conn_send_next c + of_nat (length pd)\<rparr>) ?s" by simp
  have n: "unat (of_nat (length pd) :: u32) = length pd" using pd(2) by (simp add: unat_of_nat take_bit_nat_eq_self)
  have "tcp_connection_build_data (Some c) (Some g) (Some (pd @ r)) (length pd) w = Some (0, Some ?c, Some ?s)"
    unfolding e using pd sc sn by (simp add: tcp_connection_build_data_def Let_def tcp_build_ok const_defs)
  moreover have "sender_ok ?c" using sc(1) pd n by (intro built_sender) (simp_all add: unopened_def)
  moreover have "same_buffers c ?c" by (simp add: same_buffers_def remember_for_retransmission_def)
  then have "conn_wf ?c" using sc(1) same_buffers_wf by (auto simp: unopened_def)
  ultimately show ?thesis using sc by (auto simp: streaming_def unopened_def remember_for_retransmission_def)
qed

lemma http_request_run:
  assumes link: "link_ok dev tip mac" and c: "streaming base c" "conn_send_next c = sn"
    and args: "NUL \<notin> set h" "NUL \<notin> set p" "h \<noteq> []" "p \<noteq> []" "length (http_request_text h p) \<le> 1460"
    and p: "punctual clk" "plenty clk (Suc (length ss + Suc n)) w"
    and net: "list_all2 (\<lambda>f s. tcp_verdict dev tip 80 40001 (take 2048 f) = Some s) fs ss" "in_order base S ss"
      "w_polls w = map Recv_Frame fs @ ps" "length S < 1048576"
    and S: "map byte_char S = http_head version code reason hds @ body"
    and ok: "http_status_ok version code reason" "list_all http_line_ok hds" "http_content hds body content"
  shows "\<exists>w'. http_request dev tip mac (h @ NUL # x) (p @ NUL # y) c w = Outcome 0 w'
    \<and> w_closed w' = w_closed w \<and> w_stdout w' = w_stdout w @ http_pieces (http_head version code reason hds) content
    \<and> (\<exists>more. w_sent w' = w_sent w @ tcp_image 0x4854 dev tip mac
        (tcp_built 40001 80 sn base 24 TCP_WINDOW_SIZE (map of_char (http_request_text h p))) # more)"
proof -
  let ?t = "http_request_text h p"
  obtain r where req: "http_build_get_request (Some (uninit_text 4096)) 4096 (Some (h @ NUL # x)) (Some (p @ NUL # y)) =
      Some (length ?t, Some (?t @ r))"
    using get_request [OF args(1-4), of 4096 "uninit_text 4096" x y] args(5) by (auto simp: uninit_text_def)
  let ?pd = "map of_char ?t :: bytes"
  let ?s = "tcp_built 40001 80 sn base 24 TCP_WINDOW_SIZE ?pd"
  have pd: "?pd \<noteq> []" "length ?pd \<le> 1460" using args(5) by (simp_all add: http_request_text_def)
  have v: "tcp_valid ?s" using pd(2) by (intro tcp_built_valid) simp
  obtain c' where b: "tcp_connection_build_data (Some c) (Some undefined) (Some (map of_char (?t @ r))) (length ?t) TCP_WINDOW_SIZE =
      Some (0, Some c', Some ?s)" and c': "streaming base c'"
    using request_built [OF c(1) pd c(2), of undefined "map of_char r" TCP_WINDOW_SIZE] by auto
  obtain t0 t1 t2 cs k ks as where cl: "w_clock w = Some t0 # Some t1 # Some t2 # cs" "Some t0 \<in> clk"
    and k: "w_sends w = k # ks" "0 \<le> k" and al: "w_allocs w = True # as"
    by (rule plenty_turn [OF p]) blast
  let ?w1 = "w\<lparr>w_sends := ks, w_sent := w_sent w @ [tcp_image 0x4854 dev tip mac ?s]\<rparr>"
  have s1: "send_tcp_segment (Some dev) (Some tip) (Some mac) (Some ?s) w = Outcome 0 ?w1"
    using send_exact [OF link v _ k] length_tcp_wire [OF v] pd(2) by (simp add: tcp_built_def)
  let ?w2 = "?w1\<lparr>w_allocs := as, w_clock := Some t1 # Some t2 # cs\<rparr>"
  obtain data where d: "wr (uninit_text HTTP_RESPONSE_INITIAL_CAPACITY) 0 NUL = Some data" "response_ok [] data 0 8192"
    by (rule fresh_response)
  let ?hs = "\<lparr> hs_connection = c', hs_data = data, hs_len = 0, hs_capacity = HTTP_RESPONSE_INITIAL_CAPACITY \<rparr>"
  have hs: "receiving base [] ?hs" using c' d(2) by (simp add: receiving_def const_defs)
  have p2: "plenty clk (length ss + Suc n) ?w2" using p(2) cl(1) k(1) al by (auto simp: plenty_def successively_Cons)
  obtain hs' w3 where l: "http_loop dev tip mac t0 ?hs ?w2 = Outcome (Some hs') w3" "complete S hs'" "plenty clk (Suc n) w3" "quiet ?w2 w3"
    using http_loop_exact [OF link p(1) cl(2) net(1,2) hs p2] net(3,4) by auto
  obtain w' where f: "http_finish dev tip mac hs' w3 = Outcome 0 w'" "w_closed w' = w_closed w3"
    "w_stdout w' = w_stdout w3 @ http_pieces (http_head version code reason hds) content" "\<exists>f. w_sent w' = w_sent w3 @ [f]"
    using http_finish_exact [OF link l(2) S ok l(3)] by blast
  have "http_request dev tip mac (h @ NUL # x) (p @ NUL # y) c w = Outcome 0 w'"
    using req b s1 al cl(1) d(1) l(1) f(1) args(5) pd(1)
    by (simp add: http_request_def io_bind_def heap_alloc_def clock_gettime_def const_defs)
  then show ?thesis using f(2-4) l(4) by (auto simp: quiet_def)
qed

lemma plenty_start:
  assumes "punctual clk" and "plenty clk (n + 3) w"
  obtains t0 t1 t2 t3 t4 cs k0 k1 ks where "w_clock w = Some t0 # Some t1 # Some t2 # Some t3 # Some t4 # cs"
    "elapsed_ns t1 t2 \<le> 10000000000" "elapsed_ns t3 t4 \<le> 250000000" "w_sends w = k0 # k1 # ks" "0 \<le> k0" "0 \<le> k1"
    "plenty clk (Suc n) (w\<lparr>w_clock := cs, w_sends := ks, w_polls := ps, w_sent := sent\<rparr>)"
proof -
  have "plenty clk (Suc (n + 2)) w" using assms(2) by (simp add: numeral_eq_Suc)
  then obtain t0 t1 t2 ds k0 ls as where a: "w_clock w = Some t0 # Some t1 # Some t2 # ds" "Some t0 \<in> clk"
    "Some t1 \<in> clk" "Some t2 \<in> clk" "w_sends w = k0 # ls" "0 \<le> k0" "w_allocs w = True # as"
    by (rule plenty_turn [OF assms(1)])
  let ?w = "w\<lparr>w_clock := ds, w_sends := ls, w_allocs := as\<rparr>"
  have "plenty clk (Suc (Suc n)) ?w" using assms(2) a by (auto simp: plenty_def successively_Cons)
  then obtain t3 t4 t5 cs k1 ks bs where b: "w_clock ?w = Some t3 # Some t4 # Some t5 # cs" "Some t3 \<in> clk" "Some t4 \<in> clk"
    "Some t5 \<in> clk" "w_sends ?w = k1 # ks" "0 \<le> k1" "w_allocs ?w = True # bs" "elapsed_ns t3 t4 \<le> 250000000"
    by (rule plenty_turn [OF assms(1)])
  have "plenty clk (Suc n) (w\<lparr>w_clock := Some t5 # cs, w_sends := ks, w_polls := ps, w_sent := sent\<rparr>)"
    using assms(2) a b by (auto simp: plenty_def successively_Cons)
  moreover have "w_clock w = Some t0 # Some t1 # Some t2 # Some t3 # Some t4 # Some t5 # cs" "w_sends w = k0 # k1 # ks"
    using a(1,5) b(1,5) by simp_all
  moreover have "elapsed_ns t1 t2 \<le> 10000000000" using a(3,4) assms(1) by (auto simp: punctual_def)
  ultimately show thesis using that a(6) b(6,8) by blast
qed

lemma http_fetch_run:
  assumes link: "link_ok dev tip mac" and args: "NUL \<notin> set h" "NUL \<notin> set p" "h \<noteq> []" "p \<noteq> []" "length (http_request_text h p) \<le> 1460"
    and time: "w_clock w = Some now # clock" "punctual (set (w_clock w))" "plenty (set (w_clock w)) (length ss + 4) w"
    and syn: "tcp_verdict dev tip 80 40001 (take 2048 f) = Some a" "handshake_ok 40001 80 (isn_of now) a"
    and net: "list_all2 (\<lambda>f s. tcp_verdict dev tip 80 40001 (take 2048 f) = Some s) fs ss" "in_order (tcp_sequence_number a + 1) S ss"
      "w_polls w = Recv_Frame f # map Recv_Frame fs @ ps" "length S < 1048576"
    and S: "map byte_char S = http_head version code reason hds @ body"
    and ok: "http_status_ok version code reason" "list_all http_line_ok hds" "http_content hds body content"
  shows "\<exists>w' more. run_http dev tip mac (h @ NUL # x) (p @ NUL # y) w = Outcome 0 w'
    \<and> w_closed w' = w_closed w \<and> w_stdout w' = w_stdout w @ http_pieces (http_head version code reason hds) content
    \<and> w_sent w' = w_sent w @ map (tcp_image 0x4854 dev tip mac)
        [tcp_built 40001 80 (isn_of now) 0 2 TCP_WINDOW_SIZE [],
         tcp_built 40001 80 (isn_of now + 1) (tcp_sequence_number a + 1) 16 TCP_WINDOW_SIZE [],
         tcp_built 40001 80 (isn_of now + 1) (tcp_sequence_number a + 1) 24 TCP_WINDOW_SIZE (map of_char (http_request_text h p))] @ more"
proof -
  let ?iss = "isn_of now" and ?base = "tcp_sequence_number a + 1" and ?img = "tcp_image 0x4854 dev tip mac" and ?clk = "set (w_clock w)"
  let ?syn = "tcp_built 40001 80 ?iss 0 2 TCP_WINDOW_SIZE []" and ?ack = "tcp_built 40001 80 (?iss + 1) ?base 16 TCP_WINDOW_SIZE []"
  have "plenty ?clk (length ss + 1 + 3) w" using time(3) by (simp add: numeral_eq_Suc)
  then obtain t0 t1 t2 t3 t4 cs k0 k1 ks where cl: "w_clock w = Some t0 # Some t1 # Some t2 # Some t3 # Some t4 # cs"
    "elapsed_ns t1 t2 \<le> 10000000000" "elapsed_ns t3 t4 \<le> 250000000" and k: "w_sends w = k0 # k1 # ks" "0 \<le> k0" "0 \<le> k1"
    and pl: "plenty ?clk (Suc (length ss + 1)) (w\<lparr>w_clock := cs, w_sends := ks, w_polls := map Recv_Frame fs @ ps,
        w_sent := w_sent w @ map ?img [?syn, ?ack]\<rparr>)"
    by (rule plenty_start [OF time(2)])
  let ?w0 = "w\<lparr>w_clock := Some t1 # Some t2 # Some t3 # Some t4 # cs\<rparr>"
  let ?w1 = "w\<lparr>w_clock := cs, w_sends := ks, w_polls := map Recv_Frame fs @ ps, w_sent := w_sent w @ map ?img [?syn, ?ack]\<rparr>"
  have t0: "t0 = now" using time(1) cl(1) by simp
  obtain c where c: "tcp_connection_init (Some undefined) HTTP_SOURCE_PORT HTTP_DESTINATION_PORT ?iss = Some c"
    by (auto simp: tcp_connection_init_def)
  obtain c' where con: "connect_tcp dev tip mac c ?w0 = Outcome (0, c') ?w1" and c': "streaming ?base c'" "conn_send_next c' = ?iss + 1"
    using connect_tcp_exact [OF link c cl(2,3), of ?w0 cs k0 k1 ks f "map Recv_Frame fs @ ps" a] k net(3) syn by auto
  obtain w' where r: "http_request dev tip mac (h @ NUL # x) (p @ NUL # y) c' ?w1 = Outcome 0 w'" "w_closed w' = w_closed w"
    "w_stdout w' = w_stdout w @ http_pieces (http_head version code reason hds) content"
    "\<exists>more. w_sent w' = w_sent ?w1 @ ?img (tcp_built 40001 80 (?iss + 1) ?base 24 TCP_WINDOW_SIZE (map of_char (http_request_text h p))) # more"
    using http_request_run [OF link c' args time(2) _ net(1,2) _ net(4) S ok, of 0 ?w1 ps x y] pl by auto
  have "run_http dev tip mac (h @ NUL # x) (p @ NUL # y) w = Outcome 0 w'"
    using cl(1) t0 c con r(1) by (simp add: run_http_def http_generate_isn_def io_bind_def clock_gettime_def)
  then show ?thesis using r(2-4) by auto
qed

section \<open>A concrete exchange\<close>

definition example_reply :: "u32 \<Rightarrow> u8 \<Rightarrow> bytes \<Rightarrow> bytes" where
  "example_reply seq flags pd = tcp_image 7 example_peer (nd_ipv4 example_device) (nd_mac example_device)
     (tcp_built 80 40001 seq 1 flags 64240 pd)"

definition example_stream :: bytes where
  "example_stream = map of_char (http_head ''1.1'' 200 ''OK'' [''A: b''] @ ''hi'')"

definition example_web :: world where
  "example_web = \<lparr> w_clock = replicate 30 (Some \<lparr> tv_sec = 0, tv_nsec = 0 \<rparr>),
     w_polls = [Recv_Frame (example_reply 99 18 []), Recv_Frame (example_reply 100 16 (take 9 example_stream)),
       Recv_Frame (example_reply 109 17 (drop 9 example_stream))],
     w_sends = replicate 10 0, w_allocs = replicate 10 True, w_sent = [], w_stdout = [], w_closed = [] \<rparr>"

definition example_segment :: "u32 \<Rightarrow> u8 \<Rightarrow> bytes \<Rightarrow> tcp_segment" where
  "example_segment seq flags pd = tcp_norm (tcp_sealed (nd_ipv4 example_peer) (nd_ipv4 example_device) (tcp_built 80 40001 seq 1 flags 64240 pd))"

lemma example_verdict:
  assumes "length pd \<le> 1460"
  shows "tcp_verdict example_device [10, 0, 0, 1] 80 40001 (take 2048 (example_reply seq fl pd)) = Some (example_segment seq fl pd)"
proof -
  let ?s = "tcp_built 80 40001 seq 1 fl 64240 pd"
  have v: "tcp_valid ?s" using assms by (intro tcp_built_valid) simp
  have l: "length (tcp_wire ?s) \<le> 1480" using length_tcp_wire [OF v] assms by (simp add: tcp_built_def)
  have m: "length (nd_mac example_device) = 6" "length (nd_ipv4 example_device) = 4" "nd_ipv4 example_peer = [10, 0, 0, 1]"
    by (simp_all add: example_device_def example_peer_def)
  have "length (example_reply seq fl pd) \<le> 1514"
    unfolding example_reply_def using length_tcp_image [OF example_devices(2) m(2,1) v l] l by simp
  then show ?thesis
    using tcp_verdict_image [OF example_devices(1,2) m(1) v, of "[]" 7] l
    unfolding example_reply_def example_segment_def by (simp add: m(3)) (simp add: tcp_built_def)
qed

lemma example_segment_simps [simp]:
  "tcp_sequence_number (example_segment seq fl pd) = seq" "tcp_flags (example_segment seq fl pd) = fl"
  "tcp_acknowledgment_number (example_segment seq fl pd) = 1" "tcp_payload_len (example_segment seq fl pd) = length pd"
  "segment_data (example_segment seq fl pd) = pd"
  "tcp_source_port (example_segment seq fl pd) = 80" "tcp_destination_port (example_segment seq fl pd) = 40001"
  by (simp_all add: example_segment_def tcp_norm_def tcp_sealed_def tcp_built_def segment_data_def)

lemma byte_char_of_char: "byte_char (of_char ch) = ch"
proof -
  have "(of_char ch :: u8) = of_nat (of_char ch)" by (rule of_nat_of_char [symmetric])
  then have "unat (of_char ch :: u8) = of_char ch" by (simp only: unat_of_nat) (simp add: take_bit_eq_mod)
  then show ?thesis by (simp add: byte_char_def)
qed

lemma example_link: "link_ok example_device [10, 0, 0, 1] [2, 0, 0, 0, 0, 1]"
  using example_devices by (simp add: link_ok_def)

lemma example_stream_facts:
  "map byte_char example_stream = http_head ''1.1'' 200 ''OK'' [''A: b''] @ ''hi''" "length example_stream = 27"
  "http_status_ok ''1.1'' 200 ''OK''" "list_all http_line_ok [''A: b'']" "http_content [''A: b''] ''hi'' ''hi''"
proof -
  show "map byte_char example_stream = http_head ''1.1'' 200 ''OK'' [''A: b''] @ ''hi''"
    unfolding example_stream_def map_map comp_def byte_char_of_char by simp
  show "length example_stream = 27" unfolding example_stream_def by code_simp
  show "http_status_ok ''1.1'' 200 ''OK''" "list_all http_line_ok [''A: b'']" by code_simp+
  have "chunked_by_headers [''A: b''] = 0" by code_simp
  then show "http_content [''A: b''] ''hi'' ''hi''" by (rule http_content.plain)
qed

lemma example_run_facts:
  "isn_of \<lparr> tv_sec = 0, tv_nsec = 0 \<rparr> = 0"
  "punctual (set (w_clock example_web))"
  "handshake_ok 40001 80 0 (example_segment 99 18 [])"
  "in_order 100 example_stream [example_segment 100 16 (take 9 example_stream), example_segment 109 17 (drop 9 example_stream)]"
  "length (http_request_text ''a.b'' ''/'') \<le> 1460"
  using example_stream_facts(2)
  by (simp_all add: isn_of_def mix64_def example_web_def punctual_def elapsed_ns_def handshake_ok_def const_defs
      http_request_text_def CRLF_def)

lemma example_plenty: "plenty (set (w_clock example_web)) (2 + 4) example_web"
proof -
  have w: "within_poll (Some \<lparr> tv_sec = 0, tv_nsec = 0 \<rparr>) (Some \<lparr> tv_sec = 0, tv_nsec = 0 \<rparr>)"
    by (simp add: within_poll_def elapsed_ns_def)
  have "successively within_poll (replicate n (Some \<lparr> tv_sec = 0, tv_nsec = 0 \<rparr>))" for n
  proof (induction n)
    case (Suc n)
    then show ?case using w by (cases n) simp_all
  qed simp
  then show ?thesis by (simp add: plenty_def example_web_def list_all_length)
qed

lemma example_frames:
  "tcp_verdict example_device [10, 0, 0, 1] 80 40001 (take 2048 (example_reply 99 18 [])) = Some (example_segment 99 18 [])"
  "tcp_verdict example_device [10, 0, 0, 1] 80 40001 (take 2048 (example_reply 100 16 (take 9 example_stream))) =
    Some (example_segment 100 16 (take 9 example_stream))"
  "tcp_verdict example_device [10, 0, 0, 1] 80 40001 (take 2048 (example_reply 109 17 (drop 9 example_stream))) =
    Some (example_segment 109 17 (drop 9 example_stream))"
  using example_stream_facts(2) by (simp_all add: example_verdict)

lemma example_run:
  "\<exists>w'. run_http example_device [10, 0, 0, 1] [2, 0, 0, 0, 0, 1] (''a.b'' @ [NUL]) (''/'' @ [NUL]) example_web = Outcome 0 w'"
proof -
  have clk: "w_clock example_web = Some \<lparr> tv_sec = 0, tv_nsec = 0 \<rparr> # replicate 29 (Some \<lparr> tv_sec = 0, tv_nsec = 0 \<rparr>)"
    by (simp add: example_web_def numeral_eq_Suc)
  show ?thesis
    using http_fetch_run [OF example_link, of "''a.b''" "''/''" example_web _ _
        "[example_segment 100 16 (take 9 example_stream), example_segment 109 17 (drop 9 example_stream)]"
        "example_reply 99 18 []" "example_segment 99 18 []"
        "[example_reply 100 16 (take 9 example_stream), example_reply 109 17 (drop 9 example_stream)]" example_stream "[]"
        "''1.1''" 200 "''OK''" "[''A: b'']" "''hi''" "''hi''" "[]" "[]", OF _ _ _ _ _ clk]
      example_run_facts example_plenty example_frames example_stream_facts
    by (auto simp: example_web_def NUL_def)
qed

lemma example_peer_stream:
  assumes "Recv_Frame f \<in> set (w_polls example_web)" and "tcp_verdict example_device [10, 0, 0, 1] 80 40001 (take 2048 f) = Some s"
  shows "segment_in 100 example_stream s \<and> (tcp_flags s AND 0x12 = 0x12 \<longrightarrow> tcp_sequence_number s + 1 = 100)"
proof -
  note wf = tcp_verdict_facts(1) [OF assms(2)]
  have "s = example_segment 99 18 [] \<or> s = example_segment 100 16 (take 9 example_stream) \<or> s = example_segment 109 17 (drop 9 example_stream)"
    using assms example_frames by (auto simp: example_web_def)
  moreover have "bytes_at 100 example_stream 100 (take 9 example_stream) 0" "bytes_at 100 example_stream 109 (drop 9 example_stream) 9"
    using example_stream_facts(2) by (simp_all add: bytes_at_def)
  ultimately show ?thesis
    using wf example_stream_facts(2) by (auto simp: segment_in_def const_defs intro: exI [of _ 0] exI [of _ 9])
qed

section \<open>Properties\<close>

text \<open>
  (C4) The HTTP client delivers. Let the peer's stream be a well-formed response, plain or chunked, and
  let every segment of the peer that reaches the client be part of that stream: in any order, repeated,
  overlapping, split anywhere, with other traffic in between and retransmissions on either side. If the
  client reports success and no deadline passed, then what it wrote is exactly the head and
  the decoded content of the response.
\<close>

theorem http_client_delivers:
  assumes "link_ok dev tip mac" and "NUL \<in> set host" and "NUL \<in> set path" and "length S < 2147483647"
    and peer: "\<forall>f s. Recv_Frame f \<in> set (w_polls w) \<longrightarrow> tcp_verdict dev tip 80 40001 (take 2048 f) = Some s \<longrightarrow>
      segment_in base S s \<and> (tcp_flags s AND 0x12 = 0x12 \<longrightarrow> tcp_sequence_number s + 1 = base)"
    and "map byte_char S = http_head version code reason hs @ body"
    and "http_status_ok version code reason" and "list_all http_line_ok hs" and "http_content hs body content"
    and "\<forall>start now. Some start \<in> set (w_clock w) \<longrightarrow> Some now \<in> set (w_clock w) \<longrightarrow> elapsed_ns start now \<le> 15000000000"
    and "run_http dev tip mac host path w = Outcome 0 w'"
  shows "w_stdout w' = w_stdout w @ http_pieces (http_head version code reason hs) content"
proof -
  let ?R = "\<lambda>s. tcp_flags s AND 0x12 = 0x12 \<longrightarrow> tcp_sequence_number s + 1 = base"
  let ?net = "set (w_polls w)" and ?clk = "set (w_clock w)"
  have net: "net_ok dev tip (\<lambda>s. segment_wf s \<and> ?R s) ?net" "net_ok dev tip (\<lambda>s. peer_event base S (Receive s)) ?net"
    using peer by (auto simp: net_ok_def peer_event_def segment_in_def)
  have opened: "case (c, []) of (c, log) \<Rightarrow> stream_inv base S (c, log) \<and> sender_ok c \<and> length S < 2147483647"
    if "opened_by ?R c" for c
    using opened_stream [OF that] that assms(4) by (simp add: opened_by_def unopened_def)
  have "web_stream.delivered base S (w_stdout w) ?clk (w_stdout w')"
    using io_okD(2) [OF web_stream.run_http_ok [OF assms(1) net opened assms(2,3)] calm_self assms(11)] by simp
  then obtain data len cap wa wb where r: "response_ok S data len cap" "print_http_response data len wa = Outcome 0 wb"
    "w_stdout wa = w_stdout w" "w_stdout wb = w_stdout w'"
    using delivered_stream [OF _ assms(10)] by blast
  show ?thesis
    using print_response_exact [OF assms(7-9) r(1) assms(6) r(2)] r(3,4) by simp
qed

theorem http_client_delivers_witness:
  "\<exists>w'. run_http example_device [10, 0, 0, 1] [2, 0, 0, 0, 0, 1] (''a.b'' @ [NUL]) (''/'' @ [NUL]) example_web = Outcome 0 w'
    \<and> w_stdout w' = [http_head ''1.1'' 200 ''OK'' [''A: b''], ''hi'']"
proof -
  obtain w' where run: "run_http example_device [10, 0, 0, 1] [2, 0, 0, 0, 0, 1] (''a.b'' @ [NUL]) (''/'' @ [NUL]) example_web = Outcome 0 w'"
    using example_run by blast
  have "w_stdout w' = w_stdout example_web @ http_pieces (http_head ''1.1'' 200 ''OK'' [''A: b'']) ''hi''"
  proof (rule http_client_delivers [OF example_link _ _ _ _ example_stream_facts(1,3,4,5) _ run])
    show "length example_stream < 2147483647" using example_stream_facts(2) by simp
  qed (use example_peer_stream in \<open>auto simp: example_web_def elapsed_ns_def\<close>)
  then show ?thesis using run by (simp add: example_web_def http_pieces_def)
qed

text \<open>
  (C5) The HTTP client succeeds. Let host and path be non-empty and the request text have at most 1460
  bytes. Let the peer answer the SYN with a SYN-ACK that acknowledges it, and then send a well-formed
  response, plain or chunked, of less than 1 MiB in order, in segments of at most 4096 bytes (the read
  buffer), the last of which carries the FIN; each poll finds the next of these frames. Let every send,
  every allocation and every reading of the clock succeed, with each reading at most 250 ms after the one before and
  any two at most ten seconds apart, so that no poll and no deadline runs out. Then the client returns 0:
  it has sent the SYN, the ACK and the GET request, each with the right sequence numbers, and has printed the
  head and the decoded content.
\<close>

theorem http_fetch_completes:
  assumes "link_ok dev tip mac"
    and "NUL \<notin> set h" and "NUL \<notin> set p" and "h \<noteq> []" and "p \<noteq> []" and "length (http_request_text h p) \<le> 1460"
    and "w_clock w = Some now # clock" and "punctual (set (w_clock w))" and "plenty (set (w_clock w)) (length ss + 4) w"
    and "tcp_verdict dev tip 80 40001 (take 2048 f) = Some a" and "handshake_ok 40001 80 (isn_of now) a"
    and "list_all2 (\<lambda>f s. tcp_verdict dev tip 80 40001 (take 2048 f) = Some s) fs ss" and "in_order (tcp_sequence_number a + 1) S ss"
    and "w_polls w = Recv_Frame f # map Recv_Frame fs @ ps" and "length S < 1048576"
    and "map byte_char S = http_head version code reason hds @ body"
    and "http_status_ok version code reason" and "list_all http_line_ok hds" and "http_content hds body content"
  shows "\<exists>w' more. run_http dev tip mac (h @ NUL # x) (p @ NUL # y) w = Outcome 0 w'
    \<and> w_stdout w' = w_stdout w @ http_pieces (http_head version code reason hds) content
    \<and> w_sent w' = w_sent w @ map (tcp_image 0x4854 dev tip mac)
        [tcp_built 40001 80 (isn_of now) 0 2 TCP_WINDOW_SIZE [],
         tcp_built 40001 80 (isn_of now + 1) (tcp_sequence_number a + 1) 16 TCP_WINDOW_SIZE [],
         tcp_built 40001 80 (isn_of now + 1) (tcp_sequence_number a + 1) 24 TCP_WINDOW_SIZE (map of_char (http_request_text h p))] @ more"
  using http_fetch_run [OF assms] by blast

theorem http_fetch_completes_witness:
  "\<exists>w'. run_http example_device [10, 0, 0, 1] [2, 0, 0, 0, 0, 1] (''a.b'' @ NUL # []) (''/'' @ NUL # []) example_web = Outcome 0 w'
    \<and> w_stdout w' = [http_head ''1.1'' 200 ''OK'' [''A: b''], ''hi'']"
proof -
  let ?now = "\<lparr> tv_sec = 0, tv_nsec = 0 \<rparr>"
  have "w_clock example_web = Some ?now # replicate 29 (Some ?now)" by (simp add: example_web_def numeral_eq_Suc)
  then show ?thesis
    using http_fetch_completes [OF example_link, of "''a.b''" "''/''" example_web ?now "replicate 29 (Some ?now)"
        "[example_segment 100 16 (take 9 example_stream), example_segment 109 17 (drop 9 example_stream)]"
        "example_reply 99 18 []" "example_segment 99 18 []"
        "[example_reply 100 16 (take 9 example_stream), example_reply 109 17 (drop 9 example_stream)]" example_stream "[]"
        "''1.1''" 200 "''OK''" "[''A: b'']" "''hi''" "''hi''" "[]" "[]"]
      example_run_facts example_plenty example_frames example_stream_facts
    by (auto simp: example_web_def NUL_def http_pieces_def)
qed

end
