(* ===== verification/ToolTime.thy ===== *)
theory ToolTime
  imports ToolSession
begin

text \<open>
  The tools return. Their loops end on a deadline, so a tool returns after a bounded number of system
  calls once every reading of the clock is at least \<open>d\<close> nanoseconds later than the one before, whatever
  the network delivers in between. Polls that a signal interrupts are not counted here; theory \<open>Tools\<close>
  bounds them separately. \<open>costs d J c m\<close> says that the program \<open>m\<close> needs at most \<open>c\<close> results of each kind
  of system call; \<open>J\<close> holds the times some deadline is counted from.
\<close>

section \<open>Supplies\<close>

definition spaced :: "int \<Rightarrow> timespec ptr list \<Rightarrow> bool" where
  "spaced d ts \<longleftrightarrow> (\<forall>i j a b. i < j \<and> j < length ts \<and> ts ! i = Some a \<and> ts ! j = Some b \<longrightarrow> int (j - i) * d \<le> elapsed_ns a b)"

text \<open>The next reading is at least \<open>k + 1\<close> steps after \<open>s\<close>, the one behind it \<open>k + 2\<close>, and so on.\<close>

definition after :: "int \<Rightarrow> nat \<Rightarrow> timespec \<Rightarrow> timespec ptr list \<Rightarrow> bool" where
  "after d k s ts \<longleftrightarrow> (\<forall>i t. i < length ts \<and> ts ! i = Some t \<longrightarrow> int (i + k + 1) * d \<le> elapsed_ns s t)"

definition fed :: "int \<Rightarrow> nat \<Rightarrow> world \<Rightarrow> bool" where
  "fed d n w \<longleftrightarrow> spaced d (w_clock w) \<and> n \<le> length (w_clock w) \<and> n \<le> length (live_polls (w_polls w))
     \<and> n \<le> length (w_sends w) \<and> n \<le> length (w_allocs w)"

lemma fed_mono: "fed d n w \<Longrightarrow> m \<le> n \<Longrightarrow> fed d m w"
  by (simp add: fed_def)

lemma spaced_Cons: "spaced d (t # ts) \<Longrightarrow> spaced d ts \<and> (\<forall>s. t = Some s \<longrightarrow> after d 0 s ts)"
  unfolding spaced_def after_def
  by (intro conjI allI impI; elim allE conjE) (force, fastforce)

lemma after_drop:
  assumes "0 < d" and "after d k s ts" and "k' \<le> k + n"
  shows "after d k' s (drop n ts)"
  unfolding after_def
proof (intro allI impI; elim conjE)
  fix i t
  assume i: "i < length (drop n ts)" and t: "drop n ts ! i = Some t"
  have "n + i < length ts" "ts ! (n + i) = Some t" using i t by simp_all
  then have "int (n + i + k + 1) * d \<le> elapsed_ns s t" using assms(2) unfolding after_def by blast
  moreover have "int (i + k' + 1) * d \<le> int (n + i + k + 1) * d" using assms(1,3) by (intro mult_right_mono) simp_all
  ultimately show "int (i + k' + 1) * d \<le> elapsed_ns s t" by linarith
qed

definition later :: "world \<Rightarrow> world \<Rightarrow> bool" where
  "later w w' \<longleftrightarrow> (\<exists>n. w_clock w' = drop n (w_clock w))"

lemma later_refl [simp]: "later w w"
  unfolding later_def by (metis drop0)

lemma later_trans: "later u v \<Longrightarrow> later v w \<Longrightarrow> later u w"
  unfolding later_def by (metis drop_drop)

definition since :: "int \<Rightarrow> (timespec \<times> nat) set \<Rightarrow> world \<Rightarrow> bool" where
  "since d J w \<longleftrightarrow> 0 < d \<and> (\<forall>(s, k) \<in> J. after d k s (w_clock w))"

lemma since_later: "since d J w \<Longrightarrow> later w w' \<Longrightarrow> since d J w'"
  unfolding since_def later_def by (auto intro!: after_drop [where k' = k and k = k for k])

section \<open>Costs\<close>

definition costs :: "int \<Rightarrow> (timespec \<times> nat) set \<Rightarrow> nat \<Rightarrow> 'a io \<Rightarrow> ('a \<Rightarrow> bool) \<Rightarrow> bool" where
  "costs d J c m R \<longleftrightarrow> (\<forall>n w. since d J w \<longrightarrow> fed d (n + c) w \<longrightarrow>
     m w \<noteq> Waiting \<and> (\<forall>x w'. m w = Outcome x w' \<longrightarrow> fed d n w' \<and> later w w' \<and> R x))"

lemma costsD:
  assumes "costs d J c m R" and "since d J w" and "fed d (n + c) w"
  shows "m w \<noteq> Waiting" and "m w = Outcome x w' \<Longrightarrow> fed d n w' \<and> later w w' \<and> R x"
  using assms by (auto simp: costs_def)

lemma costsI:
  assumes "\<And>n w. since d J w \<Longrightarrow> fed d (n + c) w \<Longrightarrow> m w \<noteq> Waiting"
    and "\<And>n w x w'. since d J w \<Longrightarrow> fed d (n + c) w \<Longrightarrow> m w = Outcome x w' \<Longrightarrow> fed d n w' \<and> later w w' \<and> R x"
  shows "costs d J c m R"
  using assms unfolding costs_def by blast

lemma costs_mono: "costs d J c m R \<Longrightarrow> c \<le> c' \<Longrightarrow> (\<And>x. R x \<Longrightarrow> R' x) \<Longrightarrow> costs d J c' m R'"
  unfolding costs_def by (metis fed_mono add_left_mono)

lemma costs_bind:
  assumes "costs d J a m R" and "\<And>x. R x \<Longrightarrow> costs d J b (f x) R'"
  shows "costs d J (a + b) (io_bind m f) R'"
proof (rule costsI)
  fix n w
  assume s: "since d J w" and fd: "fed d (n + (a + b)) w"
  then have fd': "fed d (n + b + a) w" by (simp add: ac_simps)
  note m = costsD [OF assms(1) s fd']
  have rest: "f x w1 \<noteq> Waiting \<and> (\<forall>y w2. f x w1 = Outcome y w2 \<longrightarrow> fed d n w2 \<and> later w1 w2 \<and> R' y)" if "m w = Outcome x w1" for x w1
    using costsD [OF assms(2) since_later [OF s]] m(2) [OF that] by blast
  show "io_bind m f w \<noteq> Waiting" using m(1) rest by (auto simp: io_bind_def split: outcome.splits)
  show "fed d n w' \<and> later w w' \<and> R' y" if "io_bind m f w = Outcome y w'" for y w'
    using that rest m(2) by (auto simp: io_bind_eq_Outcome intro: later_trans)
qed

lemma costs_return: "R x \<Longrightarrow> costs d J c (io_return x) R" "R x \<Longrightarrow> costs d J c (Outcome x) R"
  by (auto simp: costs_def intro: fed_mono)

lemma costs_lift: "(\<And>x. m = Some x \<Longrightarrow> R x) \<Longrightarrow> costs d J c (io_lift m) R"
  by (auto simp: costs_def io_lift_def intro: fed_mono split: option.splits)

lemma costs_lift_bind: "(\<And>x. m = Some x \<Longrightarrow> costs d J c (f x) R) \<Longrightarrow> costs d J c (io_bind (io_lift m) f) R"
  by (cases m) (auto simp: costs_def)

lemma costs_if: "(b \<Longrightarrow> costs d J c m R) \<Longrightarrow> (\<not> b \<Longrightarrow> costs d J c m' R) \<Longrightarrow> costs d J c (if b then m else m') R"
  by simp

lemma costs_option:
  "(x = None \<Longrightarrow> costs d J c m R) \<Longrightarrow> (\<And>y. x = Some y \<Longrightarrow> costs d J c (f y) R) \<Longrightarrow>
    costs d J c (case x of None \<Rightarrow> m | Some y \<Rightarrow> f y) R"
  by (cases x) simp_all

lemma costs_prod: "(\<And>x y. p = (x, y) \<Longrightarrow> costs d J c (f x y) R) \<Longrightarrow> costs d J c (case p of (x, y) \<Rightarrow> f x y) R"
  by (cases p) simp

lemmas cost_rules = costs_if costs_option costs_prod costs_lift_bind costs_return costs_lift

lemma costs_send: "costs d J 1 (netdev_send dev f k) (\<lambda>_. True)"
proof (rule costsI)
  fix n w
  assume fd: "fed d (n + 1) w"
  then obtain s ss where s: "w_sends w = s # ss" by (cases "w_sends w") (auto simp: fed_def)
  have fed: "fed d n w" "fed d n (w\<lparr>w_sends := ss\<rparr>)" "\<And>p. fed d n (w\<lparr>w_sends := ss, w_sent := p\<rparr>)"
    using fd s by (auto simp: fed_def)
  have r: "case netdev_send dev f k w of Undefined \<Rightarrow> True | Waiting \<Rightarrow> False | Outcome x w' \<Rightarrow> fed d n w' \<and> later w w'"
    using fed s by (auto simp: netdev_send_def io_bind_def io_lift_def later_def intro: exI [of _ 0] split: option.splits)
  from r show "netdev_send dev f k w \<noteq> Waiting" by auto
  from r show "fed d n w' \<and> later w w' \<and> True" if "netdev_send dev f k w = Outcome x w'" for x w' using that by simp
qed

lemma costs_send_built: "costs d J 1 (send_built dev built) (\<lambda>_. True)"
  unfolding send_built_def
  using costs_bind [OF costs_send, of d J 0 "\<lambda>r. io_return (if r < 0 then -1 else 0)" "\<lambda>_. True"]
  by (auto intro!: cost_rules)

lemma costs_clock:
  assumes "\<And>t. costs d (case t of None \<Rightarrow> J | Some s \<Rightarrow> insert (s, 0) J) b (f t) R"
  shows "costs d J (1 + b) (io_bind clock_gettime f) R"
proof (rule costsI)
  fix n w
  assume s: "since d J w" and fd: "fed d (n + (1 + b)) w"
  then obtain t ts where t: "w_clock w = t # ts" by (cases "w_clock w") (auto simp: fed_def)
  let ?w = "w\<lparr>w_clock := ts\<rparr>"
  have ts: "spaced d ts" "\<And>s. t = Some s \<Longrightarrow> after d 0 s ts" using fd t spaced_Cons [of d t ts] by (auto simp: fed_def)
  have l: "later w ?w" using t by (auto simp: later_def intro: exI [of _ 1])
  have s': "since d (case t of None \<Rightarrow> J | Some s \<Rightarrow> insert (s, 0) J) ?w"
    using since_later [OF s l] ts(2) by (auto simp: since_def split: option.split)
  have fd': "fed d (n + b) ?w" using fd t ts(1) by (simp add: fed_def)
  have eq: "io_bind clock_gettime f w = f t ?w" using t by (simp add: io_bind_def clock_gettime_def)
  note m = costsD [OF assms s' fd']
  show "io_bind clock_gettime f w \<noteq> Waiting" using m(1) eq by simp
  show "fed d n w' \<and> later w w' \<and> R x" if "io_bind clock_gettime f w = Outcome x w'" for x w'
    using m(2) [of x w'] eq that later_trans [OF l] by auto
qed

lemma costs_clock_return: "costs d J 1 (io_bind clock_gettime (\<lambda>t. io_return (g t))) (\<lambda>_. True)"
  using costs_clock [of d J 0 "\<lambda>t. io_return (g t)" "\<lambda>_. True"] by (simp add: costs_return)

text \<open>The common use: give up when the clock fails, else wait from that time on.\<close>

lemma costs_clock_start:
  assumes "costs d J b m R" and "\<And>s. costs d (insert (s, 0) J) b (f s) R"
  shows "costs d J (1 + b) (io_bind clock_gettime (\<lambda>t. case t of None \<Rightarrow> m | Some s \<Rightarrow> f s)) R"
  using assms by (intro costs_clock) (simp split: option.split)

text \<open>The number of turns a loop with a deadline of \<open>T\<close> milliseconds can take.\<close>

definition turns :: "int \<Rightarrow> int \<Rightarrow> nat" where
  "turns d T = nat (T * 10 ^ 6 div d) + 1"

lemma turns_enough: "0 < d \<Longrightarrow> T * 10 ^ 6 < int (turns d T) * d"
proof -
  assume d: "0 < d"
  have "T * 10 ^ 6 < (T * 10 ^ 6 div d + 1) * d"
    using d by (simp add: distrib_right) (metis add_strict_left_mono div_mult_mod_eq pos_mod_bound)
  also have "\<dots> \<le> int (turns d T) * d" using d by (intro mult_right_mono) (auto simp: turns_def)
  finally show ?thesis .
qed

lemma receive_costs:
  assumes "fed d (Suc n) w" and "w_clock w = t # ts"
  shows "netdev_receive (Some dev) (Some b) k ms (w\<lparr>w_clock := ts\<rparr>) \<noteq> Waiting"
    and "netdev_receive (Some dev) (Some b) k ms (w\<lparr>w_clock := ts\<rparr>) = Outcome x w' \<Longrightarrow> fed d n w' \<and> w_clock w' = ts"
proof -
  obtain e es where e: "poll_uninterrupted (w_polls w) = Some (e, es)"
    using assms(1) poll_uninterrupted_None [of "w_polls w"] by (cases "poll_uninterrupted (w_polls w)") (auto simp: fed_def)
  then have es: "live_polls (w_polls w) = e # live_polls es" by (rule poll_uninterrupted_rest)
  have f: "fed d n (w\<lparr>w_clock := ts\<rparr>)" "fed d n (w\<lparr>w_clock := ts, w_polls := es\<rparr>)"
    using assms spaced_Cons [of d t ts] es by (auto simp: fed_def)
  show "netdev_receive (Some dev) (Some b) k ms (w\<lparr>w_clock := ts\<rparr>) \<noteq> Waiting"
    using e by (auto simp: netdev_receive_def Let_def split: poll_event.splits option.splits)
  show "fed d n w' \<and> w_clock w' = ts" if "netdev_receive (Some dev) (Some b) k ms (w\<lparr>w_clock := ts\<rparr>) = Outcome x w'"
    using that e f by (auto simp: netdev_receive_def Let_def split: poll_event.splits option.splits if_splits)
qed

lemma wait_turns:
  assumes "0 < d" and "after d k start (w_clock w)" and "T * 10 ^ 6 < int (k + Suc c) * d" and "fed d (n + Suc c) w"
  shows "wait_loop T stop dev accept start b w \<noteq> Waiting
    \<and> (\<forall>x w'. wait_loop T stop dev accept start b w = Outcome x w' \<longrightarrow> fed d n w' \<and> later w w')"
  using assms(2-)
proof (induction c arbitrary: k b w)
  case (0 k b w)
  then obtain t ts where t: "w_clock w = t # ts" by (cases "w_clock w") (auto simp: fed_def)
  have "T * 10 ^ 6 < elapsed_ns start s" if "t = Some s" for s
    using 0 t that by (auto simp: after_def dest!: spec [of _ 0])
  moreover have "fed d n (w\<lparr>w_clock := ts\<rparr>)" using 0 t spaced_Cons [of d t ts] by (auto simp: fed_def)
  moreover have "later w (w\<lparr>w_clock := ts\<rparr>)" using t by (auto simp: later_def intro: exI [of _ 1])
  ultimately show ?case using t by (subst (1 2) wait_loop.simps) (auto simp: clock_gettime_def split: option.splits)
next
  case (Suc c k b w)
  then obtain t ts where t: "w_clock w = t # ts" by (cases "w_clock w") (auto simp: fed_def)
  have fd: "fed d (Suc (n + Suc c)) w" using Suc.prems(3) by simp
  note rc = receive_costs [OF fd t]
  have l: "later w w'" if "w_clock w' = ts" for w' using t that by (auto simp: later_def intro: exI [of _ 1])
  have a: "after d (Suc k) start ts" using after_drop [OF assms(1) Suc.prems(1), of "Suc k" 1] t by simp
  have ih: "wait_loop T stop dev accept start b' w1 \<noteq> Waiting
      \<and> (\<forall>x w'. wait_loop T stop dev accept start b' w1 = Outcome x w' \<longrightarrow> fed d n w' \<and> later w w')"
    if "fed d (n + Suc c) w1" "w_clock w1 = ts" for b' w1
    using Suc.IH [of "Suc k" w1 b'] a that Suc.prems(2) l [OF that(2)] by (auto intro: later_trans)
  have here: "fed d n (w\<lparr>w_clock := ts\<rparr>)" using Suc.prems(3) t spaced_Cons [of d t ts] by (auto simp: fed_def)
  have less: "fed d n w1" if "fed d (n + Suc c) w1" for w1 using fed_mono [OF that] by simp
  have clk: "clock_gettime w = Outcome t (w\<lparr>w_clock := ts\<rparr>)" using t by (simp add: clock_gettime_def)
  show ?case
  proof (cases t)
    case None
    then show ?thesis using clk here l by (subst (1 2) wait_loop.simps) auto
  next
    case (Some now)
    note step = wait_loop.simps [of T stop dev accept start b w, unfolded clk Some outcome.case option.case]
    show ?thesis
    proof (cases "netdev_receive (Some dev) (Some b) RECEIVE_BUFFER_SIZE 250 (w\<lparr>w_clock := ts\<rparr>)")
      case (Outcome x w1)
      obtain received ob where x: "x = (received, ob)" by (cases x)
      note w1 = rc(2) [OF Outcome]
      note ih1 = ih [OF conjunct1 [OF w1] conjunct2 [OF w1]]
      show ?thesis
        unfolding step Outcome x using here l less w1 ih1 by (simp split: option.split)
    qed (use rc(1) step here l in simp_all)
  qed
qed

lemma costs_wait:
  assumes "(start, 0) \<in> J"
  shows "costs d J (turns d T) (wait_loop T stop dev accept start b) (\<lambda>_. True)"
proof (rule costsI)
  fix n w
  assume s: "since d J w" and fd: "fed d (n + turns d T) w"
  then have d: "0 < d" and a: "after d 0 start (w_clock w)" using assms by (auto simp: since_def)
  obtain c where c: "turns d T = Suc c" by (simp add: turns_def)
  have T: "T * 10 ^ 6 < int (0 + Suc c) * d" using turns_enough [OF d, of T] c by simp
  note r = wait_turns [OF d a T fd [unfolded c]]
  show "wait_loop T stop dev accept start b w \<noteq> Waiting" using r by blast
  show "fed d n w' \<and> later w w' \<and> True" if "wait_loop T stop dev accept start b w = Outcome x w'" for x w' using r that by blast
qed

section \<open>The tools' common steps\<close>

lemma costs_exchange: "costs d J (3 + turns d T) (exchange T dev built accept) (\<lambda>_. True)"
proof -
  have last: "costs d J 1 (case r of Got x \<Rightarrow> io_bind clock_gettime (\<lambda>end_time. io_return (case end_time of None \<Rightarrow> None | Some _ \<Rightarrow> Some x))
      | _ \<Rightarrow> io_return None) (\<lambda>_. True)" for J and r :: "'a waited"
    by (cases r) (auto intro!: cost_rules costs_clock_return [unfolded One_nat_def])
  note wait = costs_bind [OF costs_wait [where T = T] last]
  have "costs d J (1 + (1 + (turns d T + 1))) (exchange T dev built accept) (\<lambda>_. True)"
    unfolding exchange_def
    by (intro costs_lift_bind costs_option costs_prod costs_clock_start costs_bind [OF costs_send] costs_if cost_rules wait) auto
  then show ?thesis by (rule costs_mono) simp_all
qed

lemma costs_resolve: "costs d J (2 + turns d ARP_TIMEOUT_MS) (resolve_arp_with stop check dev hop mac) (\<lambda>_. True)"
proof -
  have last: "costs d J 0 (case r of Got mac \<Rightarrow> io_bind (io_lift (memcpy old 0 mac 0 ETHERNET_ADDR_LEN)) (\<lambda>m. io_return (0, m))
      | _ \<Rightarrow> io_return (-1, old)) (\<lambda>_. True)" for J r old
    by (cases r) (auto intro!: cost_rules)
  note wait = costs_bind [OF costs_wait [where T = ARP_TIMEOUT_MS] last]
  have "costs d J (1 + (1 + (turns d ARP_TIMEOUT_MS + 0))) (resolve_arp_with stop check dev hop mac) (\<lambda>_. True)"
    unfolding resolve_arp_with_def
    by (intro costs_bind [OF costs_send_built] costs_if costs_clock_start cost_rules wait) auto
  then show ?thesis by (rule costs_mono) simp_all
qed

lemma costs_io_closed: "costs d J 0 (io_closed fds) (\<lambda>_. True)"
  by (auto simp: costs_def io_closed_def fed_def later_def intro: exI [of _ 0])

lemma costs_closed: "costs d J c (f ()) R \<Longrightarrow> costs d J c (io_bind (io_closed fds) f) R"
  using costs_bind [OF costs_io_closed, of d J c f R fds] by simp

lemma costs_close: "costs d J c (tool_close dev status) (\<lambda>_. True)"
  unfolding tool_close_def Let_def by (intro costs_prod costs_closed cost_rules) simp

lemma costs_session:
  assumes "\<And>dev hop mac. costs d {} a (resolve dev hop mac) (\<lambda>_. True)" and "\<And>dev tip mac. costs d {} b (run dev tip mac) (\<lambda>_. True)"
  shows "costs d {} (a + b) (tool_session resolve run k name tip) (\<lambda>_. True)"
proof -
  have run: "costs d {} b (io_bind (run dev tip mac) (\<lambda>result. tool_close dev (if result = 0 then 0 else 1))) (\<lambda>_. True)" for dev mac
    using costs_bind [OF assms(2) costs_close [where c = 0], of dev tip mac] by simp
  show ?thesis
    unfolding tool_session_def
    by (intro costs_lift_bind costs_prod costs_closed costs_if costs_option costs_bind [OF assms(1)] cost_rules costs_close run) auto
qed

end
