(* ===== verification/HttpTime.thy ===== *)
theory HttpTime
  imports HttpSession ToolTime
begin

text \<open>
  The HTTP tool returns: its two loops end on a deadline, and each turn makes a bounded number of system
  calls because the receive buffer of the engine is bounded.
\<close>

section \<open>Loops with a deadline\<close>

text \<open>
  A loop that reads the clock in every turn and leaves when \<open>T\<close> milliseconds have passed since \<open>start\<close>;
  \<open>again\<close> tells from the result of a turn whether there is another one.
\<close>

lemma deadline_turns:
  fixes step :: "'s \<Rightarrow> 'y io" and loop :: "'s \<Rightarrow> 'r io"
  assumes unfold: "\<And>x w. loop x w = (case step x w of Undefined \<Rightarrow> Undefined | Waiting \<Rightarrow> Waiting
      | Outcome y w' \<Rightarrow> (case again y of Some x' \<Rightarrow> loop x' w' | None \<Rightarrow> Outcome (res y) w'))"
    and step: "\<And>x. P x \<Longrightarrow> costs d J c (step x) (\<lambda>y. (\<forall>x'. again y = Some x' \<longrightarrow> P x') \<and> (again y = None \<longrightarrow> Q (res y)))"
    and clock: "\<And>x w y w'. step x w = Outcome y w' \<Longrightarrow> length (w_clock w') < length (w_clock w)"
    and leave: "\<And>x w y w' x'. step x w = Outcome y w' \<Longrightarrow> again y = Some x' \<Longrightarrow>
      \<exists>now ts. w_clock w = Some now # ts \<and> elapsed_ns start now \<le> T * 10 ^ 6"
    and "P x" and "since d J w" and "after d k start (w_clock w)" and "T * 10 ^ 6 < int (k + Suc m) * d" and "fed d (n + Suc m * c) w"
  shows "loop x w \<noteq> Waiting \<and> (\<forall>r w'. loop x w = Outcome r w' \<longrightarrow> fed d n w' \<and> later w w' \<and> Q r)"
  using assms(5-)
proof (induction m arbitrary: k x w)
  case (0 k x w)
  note st = costsD [OF step [OF "0.prems"(1)] "0.prems"(2), of n]
  have "again y = None" if "step x w = Outcome y w'" for y w'
  proof (rule ccontr)
    assume "again y \<noteq> None"
    then obtain x' where "again y = Some x'" by auto
    from leave [OF that this] "0.prems"(3,4) show False by (auto simp: after_def dest!: spec [of _ 0])
  qed
  then show ?case using "0.prems"(5) st by (subst (1 2) unfold) (auto split: outcome.splits)
next
  case (Suc m k x w)
  have fd: "fed d (n + Suc m * c + c) w" using Suc.prems(5) by (simp add: ac_simps)
  note st = costsD [OF step [OF Suc.prems(1)] Suc.prems(2) fd]
  have less: "fed d n w'" if "fed d (n + Suc m * c) w'" for w' by (rule fed_mono [OF that]) simp
  have ih: "loop x' w1 \<noteq> Waiting \<and> (\<forall>r w'. loop x' w1 = Outcome r w' \<longrightarrow> fed d n w' \<and> later w w' \<and> Q r)"
    if "step x w = Outcome y w1" and "again y = Some x'" for y w1 x'
  proof -
    note w1 = st(2) [OF that(1)]
    obtain j where j: "w_clock w1 = drop j (w_clock w)" using w1 by (auto simp: later_def)
    then have "Suc k \<le> k + j" using clock [OF that(1)] by (cases j) simp_all
    then have "after d (Suc k) start (w_clock w1)"
      using after_drop Suc.prems(2,3) j unfolding since_def by metis
    then show ?thesis
      using Suc.IH [of x' w1 "Suc k"] Suc.prems(4) w1 that(2) since_later [OF Suc.prems(2)] by (auto intro: later_trans)
  qed
  show ?case
    using st ih less by (subst (1 2) unfold) (auto split: outcome.splits option.splits)
qed

lemma costs_deadline_loop:
  fixes step :: "'s \<Rightarrow> 'y io" and loop :: "'s \<Rightarrow> 'r io"
  assumes "\<And>x w. loop x w = (case step x w of Undefined \<Rightarrow> Undefined | Waiting \<Rightarrow> Waiting
      | Outcome y w' \<Rightarrow> (case again y of Some x' \<Rightarrow> loop x' w' | None \<Rightarrow> Outcome (res y) w'))"
    and "\<And>x. P x \<Longrightarrow> costs d J c (step x) (\<lambda>y. (\<forall>x'. again y = Some x' \<longrightarrow> P x') \<and> (again y = None \<longrightarrow> Q (res y)))"
    and "\<And>x w y w'. step x w = Outcome y w' \<Longrightarrow> length (w_clock w') < length (w_clock w)"
    and "\<And>x w y w' x'. step x w = Outcome y w' \<Longrightarrow> again y = Some x' \<Longrightarrow>
      \<exists>now ts. w_clock w = Some now # ts \<and> elapsed_ns start now \<le> T * 10 ^ 6"
    and "P x" and "(start, 0) \<in> J"
  shows "costs d J (turns d T * c) (loop x) Q"
proof -
  obtain m where m: "turns d T = Suc m" by (simp add: turns_def)
  have "loop x w \<noteq> Waiting \<and> (\<forall>r w'. loop x w = Outcome r w' \<longrightarrow> fed d n w' \<and> later w w' \<and> Q r)"
    if s: "since d J w" and fd: "fed d (n + turns d T * c) w" for n w
  proof (rule deadline_turns [OF assms(1-5) s])
    show "after d 0 start (w_clock w)" "T * 10 ^ 6 < int (0 + Suc m) * d"
      using s assms(6) turns_enough [of d T] m by (auto simp: since_def)
  qed (use fd m in simp_all)
  then show ?thesis by (auto simp: costs_def)
qed

section \<open>The receive buffer is bounded\<close>

definition ready_ok :: "tcp_connection \<Rightarrow> bool" where
  "ready_ok c \<longleftrightarrow> conn_receive_ready_len c \<le> TCP_RECEIVE_READY_CAPACITY"

lemma ready_append_bound: "ready_append c b off n = Some (rc, c') \<Longrightarrow> ready_ok c \<Longrightarrow> ready_ok c'"
  by (auto simp: ready_append_def ready_ok_def split: if_splits bind_splits)

lemma remove_slot_bound: "remove_reassembly_slot c i = Some c' \<Longrightarrow> ready_ok c' = ready_ok c"
  by (auto simp: remove_reassembly_slot_def ready_ok_def Let_def split: if_splits bind_splits)

lemma ready_ok_update [simp]:
  "ready_ok (c\<lparr>conn_receive_next := q\<rparr>) = ready_ok c" "ready_ok (c\<lparr>conn_remote_window := v\<rparr>) = ready_ok c"
  "ready_ok (fin_transition c) = ready_ok c" "ready_ok (consume_pending_fin c) = ready_ok c"
  "ready_ok (process_fin c s) = ready_ok c" "ready_ok (on_fin_acked c) = ready_ok c" "ready_ok (on_ack c s) = ready_ok c"
  by (simp_all add: ready_ok_def fin_transition_def consume_pending_fin_def process_fin_def on_fin_acked_def Let_def)

lemma promote_slot_bound: "promote_slot c i = Some (c', p) \<Longrightarrow> ready_ok c \<Longrightarrow> ready_ok c'"
  by (auto simp: promote_slot_def Let_def remove_slot_bound split: if_splits bind_splits dest: ready_append_bound)

lemma promote_scan_bound: "promote_scan c i q = Some (c', p) \<Longrightarrow> ready_ok c \<Longrightarrow> ready_ok c'"
proof (induction c i q rule: promote_scan.induct)
  case (1 c i q)
  show ?case
    using "1.prems" promote_slot_bound "1.IH"
    by (subst (asm) promote_scan.simps) (fastforce split: option.splits prod.splits if_splits)
qed

lemma promote_loop_bound: "promote_loop c = Some (rc, c') \<Longrightarrow> ready_ok c \<Longrightarrow> ready_ok c'"
proof (induction c rule: promote_loop.induct)
  case (1 c)
  show ?case
    using "1.prems" promote_scan_bound "1.IH"
    by (subst (asm) promote_loop.simps) (fastforce split: option.splits prod.splits if_splits)
qed

lemma process_payload_bound: "process_payload c s = Some (rc, c') \<Longrightarrow> ready_ok c \<Longrightarrow> ready_ok c'"
proof -
  have buf: "buffer_future_payload c a b n = Some (rc, c') \<Longrightarrow> ready_ok c' = ready_ok c" for a b n rc c'
    by (auto simp: buffer_future_payload_def ready_ok_def split: if_splits bind_splits)
  have pro: "promote_reassembly c = Some (rc, c') \<Longrightarrow> ready_ok c \<Longrightarrow> ready_ok c'" for c rc c'
    using promote_loop_bound [of c] by (auto simp: promote_reassembly_def split: if_splits bind_splits)
  assume "process_payload c s = Some (rc, c')" and "ready_ok c"
  then show ?thesis
    by (auto simp: process_payload_def Let_def buf split: if_splits bind_splits dest!: ready_append_bound pro)
qed

lemma on_segment_bound:
  assumes "tcp_connection_on_segment (Some c) (Some s) = Some (rc, Some c')" and "ready_ok c"
  shows "ready_ok c'"
proof -
  have rst: "ready_ok (on_rst c)" by (simp add: on_rst_def clear_reassembly_def ready_ok_def)
  show ?thesis
    using assms rst process_payload_bound [of "(on_ack c s)\<lparr>conn_remote_window := tcp_window_size s\<rparr>" s]
    by (auto simp: tcp_connection_on_segment_def Let_def on_syn_sent_def split: if_splits bind_splits)
      (auto simp: ready_ok_def)
qed

section \<open>Costs\<close>

lemma costs_alloc: "costs d J 1 heap_alloc (\<lambda>_. True)"
  by (auto simp: costs_def heap_alloc_def fed_def later_def intro: exI [of _ 0] split: list.splits)

lemma costs_segment: "costs d J 1 (send_tcp_segment dev ip mac s) (\<lambda>_. True)"
  unfolding send_tcp_segment_def
  by (auto intro: costs_send_built [unfolded One_nat_def] costs_return split: option.split)

lemma costs_ack: "costs d J 1 (send_connection_ack dev ip mac c) (\<lambda>_. True)"
  unfolding send_connection_ack_def by (intro cost_rules costs_segment) auto

lemma costs_receive: "costs d J (1 + turns d T) (receive_tcp_segment dev ip s T) (\<lambda>_. True)"
proof -
  have "costs d J (1 + (turns d T + 0)) (receive_tcp_segment dev ip s T) (\<lambda>_. True)"
    unfolding receive_tcp_segment_def
    by (intro costs_clock_start costs_bind [OF costs_wait] cost_rules) auto
  then show ?thesis by simp
qed

lemma costs_append: "costs d J 1 (append_response b n cap bs k) (\<lambda>_. True)"
proof -
  have room: "costs d J 1 (response_room b cap r) (\<lambda>_. True)" for b cap r
    unfolding response_room_def
    using costs_bind [OF costs_alloc, of d J 0 "\<lambda>ok. io_return (if ok then Some (c_realloc b new_capacity, new_capacity) else None)" "\<lambda>_. True" for new_capacity]
    by (intro cost_rules) (auto intro: cost_rules)
  have full: "costs d J (1 + 0) (io_bind (response_room b cap r) (\<lambda>room. case room of None \<Rightarrow> io_return x
      | Some (b, cap) \<Rightarrow> io_bind (io_lift (g b)) (\<lambda>b. io_return (h b cap)))) (\<lambda>_. True)"
    for b cap r x g and h :: "string \<Rightarrow> nat \<Rightarrow> int \<times> string ptr \<times> nat ptr \<times> nat ptr"
    by (intro costs_bind [OF room] cost_rules) auto
  show ?thesis
    unfolding append_response_def using full
    by (auto intro!: costs_return split: option.split)
qed

lemma read_bound:
  assumes "tcp_connection_read (Some c) (Some b) 4096 = Some (k, Some c', b')" and "k \<noteq> 0"
  shows "(conn_receive_ready_len c' + 4095) div 4096 + 1 = (conn_receive_ready_len c + 4095) div 4096
    \<and> conn_receive_ready_len c' < conn_receive_ready_len c"
proof -
  have "conn_receive_ready_len c' = conn_receive_ready_len c - k" "k = min 4096 (conn_receive_ready_len c)"
    using assms by (auto simp: tcp_connection_read_def Let_def bind_eq_Some_conv split: if_splits)
  then show ?thesis using assms(2) by (auto simp: min_def)
qed

lemma drain_loop_bind:
  "drain_loop hs b =
    (if conn_receive_ready_len (hs_connection hs) = 0 then io_return (0, hs)
     else case tcp_connection_read (Some (hs_connection hs)) (Some b) 4096 of
         Some (k, Some c, Some b') \<Rightarrow>
           if k = 0 then io_return (0, hs\<lparr>hs_connection := c\<rparr>)
           else io_bind (append_response (Some (hs_data hs)) (Some (hs_len hs)) (Some (hs_capacity hs)) (Some b') k) (\<lambda>x.
             case x of
               (rc, Some data, Some len, Some capacity) \<Rightarrow>
                 let hs = \<lparr> hs_connection = c, hs_data = data, hs_len = len, hs_capacity = capacity \<rparr> in
                 if rc \<noteq> 0 then io_return (-1, hs) else drain_loop hs b'
             | _ \<Rightarrow> io_lift None)
       | _ \<Rightarrow> io_lift None)"
  by (rule ext, subst drain_loop.simps)
    (auto simp: io_bind_def io_lift_def tcp_connection_readable_def TCP_APP_READ_BUFFER_def Let_def
      split: option.splits prod.splits outcome.splits)

lemma costs_drain_loop:
  "costs d J ((conn_receive_ready_len (hs_connection hs) + 4095) div 4096) (drain_loop hs b)
    (\<lambda>(rc, hs'). conn_receive_ready_len (hs_connection hs') \<le> conn_receive_ready_len (hs_connection hs))"
proof (induction "conn_receive_ready_len (hs_connection hs)" arbitrary: hs b rule: less_induct)
  case less
  let ?n = "conn_receive_ready_len (hs_connection hs)"
  let ?R = "\<lambda>(rc :: int, hs'). conn_receive_ready_len (hs_connection hs') \<le> ?n"
  have more: "costs d J ((?n + 4095) div 4096) (io_bind (append_response p1 p2 p3 p4 k) (\<lambda>x. case x of
      (rc, Some data, Some len, Some capacity) \<Rightarrow>
        let hs = \<lparr> hs_connection = c, hs_data = data, hs_len = len, hs_capacity = capacity \<rparr> in
        if rc \<noteq> 0 then io_return (-1, hs) else drain_loop hs b'
      | _ \<Rightarrow> io_lift None)) ?R"
    if rd: "tcp_connection_read (Some (hs_connection hs)) (Some b) 4096 = Some (k, Some c, Some b')" and k: "k \<noteq> 0" for k c b' p1 p2 p3 p4
  proof -
    note bd = read_bound [OF rd k]
    have "costs d J ((conn_receive_ready_len c + 4095) div 4096) (drain_loop hs' b') ?R" if "hs_connection hs' = c" for hs'
      using less [of hs' b'] that bd by (auto intro: costs_mono)
    then have "costs d J (1 + (conn_receive_ready_len c + 4095) div 4096) (io_bind (append_response p1 p2 p3 p4 k) (\<lambda>x. case x of
      (rc, Some data, Some len, Some capacity) \<Rightarrow>
        let hs = \<lparr> hs_connection = c, hs_data = data, hs_len = len, hs_capacity = capacity \<rparr> in
        if rc \<noteq> 0 then io_return (-1, hs) else drain_loop hs b'
      | _ \<Rightarrow> io_lift None)) ?R"
      using bd by (intro costs_bind [OF costs_append]) (auto intro!: costs_return costs_lift simp: Let_def split: option.split)
    then show ?thesis using bd by simp
  qed
  have zero: "conn_receive_ready_len c \<le> ?n" if "tcp_connection_read (Some (hs_connection hs)) (Some b) 4096 = Some (k, Some c, b')" for k c b'
    using that by (auto simp: tcp_connection_read_def Let_def bind_eq_Some_conv split: if_splits)
  show ?case
    by (subst drain_loop_bind) (auto intro!: costs_return costs_lift more dest: zero split: option.split)
qed

lemma costs_drain:
  assumes "ready_ok (hs_connection hs)"
  shows "costs d J 8 (drain_tcp_application_data hs) (\<lambda>(rc, hs'). ready_ok (hs_connection hs'))"
proof -
  have "(conn_receive_ready_len (hs_connection hs) + 4095) div 4096 \<le> 8" using assms by (simp add: ready_ok_def const_defs)
  then show ?thesis
    unfolding drain_tcp_application_data_def
    by (rule costs_mono [OF costs_drain_loop]) (use assms in \<open>auto simp: ready_ok_def\<close>)
qed

lemma costs_client_tick:
  assumes "ready_ok c"
  shows "costs d J 1 (client_tick dev ip mac c) (\<lambda>(ok, c'). ready_ok c')"
proof -
  have "\<exists>rc c' s. tcp_connection_tick (Some c) (of_int TCP_POLL_MS) (Some undefined) = (rc, Some c', s)
      \<and> conn_receive_ready_len c' = conn_receive_ready_len c"
    by (simp add: tcp_connection_tick_def Let_def)
  then obtain rc c' s where t: "tcp_connection_tick (Some c) (of_int TCP_POLL_MS) (Some undefined) = (rc, Some c', s)"
    and "conn_receive_ready_len c' = conn_receive_ready_len c" by blast
  then have r: "ready_ok c'" using assms by (simp add: ready_ok_def)
  have "costs d J (1 + 0) (io_bind (send_tcp_segment a b e s) (\<lambda>rc. io_return (rc = 0, c'))) (\<lambda>(ok, c'). ready_ok c')" for a b e
    using r by (intro costs_bind [OF costs_segment] costs_return) simp
  then show ?thesis
    unfolding client_tick_def t using r by (auto intro!: costs_return)
qed

definition turn_bound :: "connect_turn \<Rightarrow> bool" where
  "turn_bound r = (case r of Inl c \<Rightarrow> ready_ok c | Inr (rc, c) \<Rightarrow> ready_ok c)"

lemma costs_connect_tick:
  assumes "ready_ok c"
  shows "costs d J 1 (connect_tick dev ip mac c) turn_bound"
proof -
  have "costs d J (1 + 0) (connect_tick dev ip mac c) turn_bound"
    unfolding connect_tick_def
    by (rule costs_bind [OF costs_client_tick [OF assms]]) (auto intro!: costs_return simp: turn_bound_def)
  then show ?thesis by simp
qed

lemma costs_connect_segment:
  assumes "ready_ok c"
  shows "costs d J 1 (connect_segment dev ip mac c s) turn_bound"
proof -
  have ack: "costs d J (1 + 0) (io_bind (send_connection_ack dev ip mac c') (\<lambda>rc. io_return (Inr (if rc \<noteq> 0 then -1 else 0, c')))) turn_bound"
    if "ready_ok c'" for c'
    using that by (intro costs_bind [OF costs_ack] costs_return) (simp add: turn_bound_def)
  show ?thesis
    unfolding connect_segment_def
    using assms ack by (auto simp: turn_bound_def intro!: cost_rules costs_connect_tick [unfolded One_nat_def] dest: on_segment_bound)
qed

lemma costs_connect_step:
  assumes "ready_ok c"
  shows "costs d J (3 + turns d 250) (connect_step dev ip mac start c) turn_bound"
proof -
  have "costs d J (1 + ((1 + turns d 250) + 1)) (connect_step dev ip mac start c) turn_bound"
    unfolding connect_step_def TCP_POLL_MS_def
    using assms
    by (intro costs_clock_start costs_if costs_bind [OF costs_receive] cost_rules costs_connect_tick costs_connect_segment)
      (auto simp: turn_bound_def)
  then show ?thesis by (rule costs_mono) simp_all
qed

lemma costs_connect_loop:
  assumes "ready_ok c" and "(start, 0) \<in> J"
  shows "costs d J (turns d 10000 * (3 + turns d 250)) (connect_loop dev ip mac start c) (\<lambda>(rc, c'). ready_ok c')"
proof (rule costs_deadline_loop [where step = "connect_step dev ip mac start" and start = start and P = ready_ok
      and again = "\<lambda>y. case y of Inl c \<Rightarrow> Some c | Inr _ \<Rightarrow> None" and res = "\<lambda>y. case y of Inr r \<Rightarrow> r | Inl _ \<Rightarrow> undefined"])
  show "connect_loop dev ip mac start x w = (case connect_step dev ip mac start x w of Undefined \<Rightarrow> Undefined | Waiting \<Rightarrow> Waiting
      | Outcome y w' \<Rightarrow> (case case y of Inl c \<Rightarrow> Some c | Inr _ \<Rightarrow> None of Some x' \<Rightarrow> connect_loop dev ip mac start x' w'
        | None \<Rightarrow> Outcome (case y of Inr r \<Rightarrow> r | Inl _ \<Rightarrow> undefined) w'))" for x w
    by (subst connect_loop.simps) (auto split: outcome.splits sum.splits)
  show "\<exists>now ts. w_clock w = Some now # ts \<and> elapsed_ns start now \<le> 10000 * 10 ^ 6"
    if "connect_step dev ip mac start x w = Outcome y w'" "(case y of Inl c \<Rightarrow> Some c | Inr _ \<Rightarrow> None) = Some x'" for x w y w' x'
    using that by (auto simp: connect_step_def io_bind_def clock_gettime_def const_defs split: list.splits option.splits if_splits sum.splits)
qed (use assms connect_step_clock in \<open>auto intro!: costs_mono [OF costs_connect_step] simp: turn_bound_def split: sum.splits\<close>)

lemma costs_connect_tcp:
  assumes "ready_ok c"
  shows "costs d J (2 + turns d 10000 * (3 + turns d 250)) (connect_tcp dev ip mac c) (\<lambda>(rc, c'). ready_ok c')"
proof -
  have syn: "ready_ok c'" if "tcp_connection_build_syn (Some c) s v = Some (rc, Some c', s')" for s v rc c' s'
    using that assms by (cases s) (auto simp: tcp_connection_build_syn_def ready_ok_def remember_for_retransmission_def Let_def bind_eq_Some_conv split: if_splits)
  have "costs d J (1 + (1 + turns d 10000 * (3 + turns d 250))) (connect_tcp dev ip mac c) (\<lambda>(rc, c'). ready_ok c')"
    unfolding connect_tcp_def
    by (intro cost_rules costs_bind [OF costs_segment] costs_clock_start costs_connect_loop) (auto dest: syn)
  then show ?thesis by (rule costs_mono) simp_all
qed

definition session_bound :: "http_turn \<Rightarrow> bool" where
  "session_bound t = (case t of Turn hs \<Rightarrow> ready_ok (hs_connection hs) | Leave hs \<Rightarrow> ready_ok (hs_connection hs) | Give_Up \<Rightarrow> True)"

lemma costs_http_segment:
  assumes "ready_ok (hs_connection hs)"
  shows "costs d J 9 (http_segment dev ip mac hs s) session_bound"
proof -
  have ack: "costs d J 1 (if p then send_connection_ack dev ip mac c else io_return 0) (\<lambda>_. True)" for p c
    by (auto intro!: costs_ack [unfolded One_nat_def] costs_return)
  have "costs d J (8 + (1 + 0)) (http_segment dev ip mac hs s) session_bound"
    unfolding http_segment_def Let_def
    using assms
    by (intro cost_rules costs_bind [OF costs_drain] costs_bind [OF ack]) (auto simp: session_bound_def dest: on_segment_bound)
  then show ?thesis by simp
qed

lemma costs_http_step:
  assumes "ready_ok (hs_connection hs)"
  shows "costs d J (11 + turns d 250) (http_step dev ip mac start hs) session_bound"
proof -
  have tick: "costs d J (1 + 8) (io_bind (client_tick dev ip mac (hs_connection hs)) (\<lambda>(ok, c).
      io_return (if ok then Turn (hs\<lparr>hs_connection := c\<rparr>) else Give_Up))) session_bound" for J
    using assms by (intro costs_bind [OF costs_client_tick] cost_rules) (auto simp: session_bound_def)
  have "costs d J (1 + ((1 + turns d 250) + 9)) (http_step dev ip mac start hs) session_bound"
    unfolding http_step_def TCP_POLL_MS_def
    using assms tick
    by (intro costs_clock_start costs_if costs_bind [OF costs_receive] cost_rules costs_http_segment) (auto simp: session_bound_def)
  then show ?thesis by (rule costs_mono) simp_all
qed

lemma costs_http_loop:
  assumes "ready_ok (hs_connection hs)" and "(start, 0) \<in> J"
  shows "costs d J (turns d 15000 * (11 + turns d 250)) (http_loop dev ip mac start hs)
    (\<lambda>r. \<forall>hs'. r = Some hs' \<longrightarrow> ready_ok (hs_connection hs'))"
proof (rule costs_deadline_loop [where step = "http_step dev ip mac start" and start = start and P = "\<lambda>hs. ready_ok (hs_connection hs)"
      and again = "\<lambda>y. case y of Turn hs \<Rightarrow> Some hs | _ \<Rightarrow> None" and res = "\<lambda>y. case y of Leave hs \<Rightarrow> Some hs | _ \<Rightarrow> None"])
  show "http_loop dev ip mac start x w = (case http_step dev ip mac start x w of Undefined \<Rightarrow> Undefined | Waiting \<Rightarrow> Waiting
      | Outcome y w' \<Rightarrow> (case case y of Turn hs \<Rightarrow> Some hs | _ \<Rightarrow> None of Some x' \<Rightarrow> http_loop dev ip mac start x' w'
        | None \<Rightarrow> Outcome (case y of Leave hs \<Rightarrow> Some hs | _ \<Rightarrow> None) w'))" for x w
    by (subst http_loop.simps) (auto split: outcome.splits http_turn.splits)
  show "\<exists>now ts. w_clock w = Some now # ts \<and> elapsed_ns start now \<le> 15000 * 10 ^ 6"
    if "http_step dev ip mac start x w = Outcome y w'" "(case y of Turn hs \<Rightarrow> Some hs | _ \<Rightarrow> None) = Some x'" for x w y w' x'
    using that by (auto simp: http_step_def io_bind_def clock_gettime_def const_defs split: list.splits option.splits if_splits http_turn.splits)
qed (use assms http_step_clock in \<open>auto intro!: costs_mono [OF costs_http_step] simp: session_bound_def split: http_turn.splits\<close>)

lemma costs_write: "costs d J 0 (c_fwrite t off n) (\<lambda>_. True)"
  unfolding c_fwrite_def
  by (rule costs_lift_bind) (auto simp: costs_def fed_def later_def intro: exI [of _ 0])

lemma costs_print: "costs d J 1 (print_http_response t n) (\<lambda>_. True)"
proof -
  have emit: "costs d J 0 (if p then c_fwrite a b k else io_return ()) (\<lambda>_. True)" for p a b k
    by (auto intro!: costs_write costs_return)
  have plain: "costs d J 1 (print_plain_body t r) (\<lambda>_. True)" for r
  proof -
    have "costs d J 0 (if p then io_bind (io_lift m) (\<lambda>a. c_fwrite t a k) else io_return ()) (\<lambda>_. True)" for p m k
      by (auto intro!: costs_write cost_rules)
    then have "costs d J (0 + 1) (print_plain_body t r) (\<lambda>_. True)"
      unfolding print_plain_body_def by (rule costs_bind) (auto intro!: costs_return)
    then show ?thesis by simp
  qed
  have "costs d J (1 + (0 + 0)) (print_chunked_body t r) (\<lambda>_. True)" for r
    unfolding print_chunked_body_def Let_def
    by (intro costs_bind [OF costs_alloc] cost_rules costs_bind [OF emit]) auto
  then have chunked: "costs d J 1 (print_chunked_body t r) (\<lambda>_. True)" for r by simp
  have "costs d J (0 + 1) (print_http_response t n) (\<lambda>_. True)"
    unfolding print_http_response_def
    by (intro cost_rules costs_bind [OF costs_write] plain chunked) auto
  then show ?thesis by simp
qed

lemma costs_http_finish:
  assumes "ready_ok (hs_connection hs)"
  shows "costs d J 10 (http_finish dev ip mac hs) (\<lambda>_. True)"
proof -
  have fin: "costs d J 1 (if p then send_tcp_segment a b c s else io_return 0) (\<lambda>_. True)" for p a b c s
    by (auto intro!: costs_segment [unfolded One_nat_def] costs_return)
  have "costs d J (8 + (1 + (1 + 0))) (http_finish dev ip mac hs) (\<lambda>_. True)"
    unfolding http_finish_def
    using assms by (intro costs_bind [OF costs_drain] costs_bind [OF costs_print] costs_bind [OF fin] cost_rules) auto
  then show ?thesis by simp
qed

lemma costs_http_request:
  assumes "ready_ok c"
  shows "costs d J (13 + turns d 15000 * (11 + turns d 250)) (http_request dev ip mac host path c) (\<lambda>_. True)"
proof -
  have data: "ready_ok c'" if "tcp_connection_build_data (Some c) s p n v = Some (rc, Some c', s')" for s p n v rc c' s'
    using that assms by (cases s; cases p)
      (auto simp: tcp_connection_build_data_def ready_ok_def remember_for_retransmission_def Let_def bind_eq_Some_conv split: if_splits)
  have "costs d J (1 + (1 + (1 + (turns d 15000 * (11 + turns d 250) + 10)))) (http_request dev ip mac host path c) (\<lambda>_. True)"
    unfolding http_request_def
    by (intro cost_rules costs_bind [OF costs_segment] costs_bind [OF costs_alloc] costs_clock_start costs_bind [OF costs_http_loop]
        costs_http_finish) (auto simp: bind_eq_Some_conv dest: data)
  then show ?thesis by (rule costs_mono) simp_all
qed

definition http_calls :: "int \<Rightarrow> nat" where
  "http_calls d = 16 + turns d 10000 * (3 + turns d 250) + turns d 15000 * (11 + turns d 250)"

lemma costs_run_http: "costs d J (http_calls d) (run_http dev ip mac host path) (\<lambda>_. True)"
proof -
  have init: "ready_ok c" if "tcp_connection_init p a b i = Some c" for p a b i c
    using that by (auto simp: tcp_connection_init_def clear_reassembly_def ready_ok_def split: option.splits)
  have isn: "costs d J 1 http_generate_isn (\<lambda>_. True)"
    unfolding http_generate_isn_def by (rule costs_clock_return)
  have "costs d J (1 + ((2 + turns d 10000 * (3 + turns d 250)) + (13 + turns d 15000 * (11 + turns d 250))))
      (run_http dev ip mac host path) (\<lambda>_. True)"
    unfolding run_http_def
    by (intro costs_bind [OF isn] cost_rules costs_bind [OF costs_connect_tcp] costs_http_request) (auto dest: init)
  then show ?thesis by (rule costs_mono) (simp_all add: http_calls_def)
qed

end
