(* ===== verification/Ping.thy ===== *)
theory Ping
  imports ToolSession Icmp
begin

text \<open>
  \<^verbatim>\<open>src/tools/netstack_ping.c\<close>: one echo request and its reply. The lines printed for the user are left out.
  The kernel and \<^verbatim>\<open>inet_pton\<close> are parameters of \<^verbatim>\<open>main\<close>; an argument is the character array with its
  terminator.
\<close>

section \<open>Model\<close>

definition ICMP_TIMEOUT_MS :: int where [const_defs]: "ICMP_TIMEOUT_MS = 5000"

definition ping_payload :: bytes where
  "ping_payload = map of_char ''BLACKTERM // NETSTACK'' @ [0]"

definition echo_request_frame :: "netdev \<Rightarrow> bytes \<Rightarrow> bytes \<Rightarrow> u16 \<Rightarrow> u16 \<Rightarrow> built_frame option" where
  "echo_request_frame dev target_ip next_hop_mac identifier seq = do {
     (rc, icmp) \<leftarrow> icmp_build_echo_request (Some undefined) identifier seq (Some ping_payload) (length ping_payload - 1);
     if rc \<noteq> 0 then Some None
     else do {
       (icmp_len, icmp_bytes) \<leftarrow> icmp_serialize icmp (Some (uninit ICMP_MAX_PACKET_LEN)) ICMP_MAX_PACKET_LEN;
       if icmp_len = 0 then Some None
       else do {
         icmp_bytes \<leftarrow> icmp_bytes;
         ip_frame dev target_ip next_hop_mac IPV4_PROTOCOL_ICMP icmp_bytes icmp_len 0x1337 } } }"

definition echo_reply_from :: "netdev \<Rightarrow> bytes \<Rightarrow> u16 \<Rightarrow> u16 \<Rightarrow> bytes \<Rightarrow> nat \<Rightarrow> icmp_packet option option" where
  "echo_reply_from dev target_ip identifier seq buffer received = do {
     ip \<leftarrow> ip_from_peer IPV4_PROTOCOL_ICMP dev target_ip buffer received;
     (case ip of
        None \<Rightarrow> Some None
      | Some ip \<Rightarrow> do {
          (rc, icmp) \<leftarrow> icmp_parse (Some (ip_payload ip)) (ip_payload_len ip) (Some undefined);
          if rc \<noteq> 0 then Some None
          else do {
            icmp \<leftarrow> icmp;
            if icmp_type icmp \<noteq> ICMP_TYPE_ECHO_REPLY then Some None
            else if icmp_identifier icmp \<noteq> identifier \<or> icmp_sequence icmp \<noteq> seq then Some None
            else Some (Some icmp) } }) }"

definition send_ping :: "netdev \<Rightarrow> bytes \<Rightarrow> bytes \<Rightarrow> int io" where
  "send_ping dev target_ip next_hop_mac =
    (let identifier = 0x4242; seq = 1 in
     io_bind (exchange ICMP_TIMEOUT_MS dev (echo_request_frame dev target_ip next_hop_mac identifier seq)
         (echo_reply_from dev target_ip identifier seq)) (\<lambda>reply.
       io_return (case reply of None \<Rightarrow> -1 | Some _ \<Rightarrow> 0)))"

definition ping_main :: "(string \<Rightarrow> bytes option) \<Rightarrow> kernel \<Rightarrow> string list \<Rightarrow> int io" where
  "ping_main inet_pton k argv =
    (if length argv \<noteq> 3 then io_return 1
     else case inet_pton (argv ! 2) of
         None \<Rightarrow> io_return 1
       | Some target_addr \<Rightarrow>
           io_bind (io_lift (memcpy (uninit IPV4_ADDR_LEN) 0 target_addr 0 IPV4_ADDR_LEN)) (\<lambda>target_ip.
             tool_session ping_resolve_arp send_ping k (argv ! 1) target_ip))"

section \<open>The request\<close>

definition echo_request :: "u16 \<Rightarrow> u16 \<Rightarrow> icmp_packet" where
  "echo_request identifier seq = icmp_built 8 identifier seq (map of_char ''BLACKTERM // NETSTACK'')"

lemma echo_request_valid: "icmp_valid (echo_request i s)" "length (icmp_wire (echo_request i s)) = 29"
proof -
  show v: "icmp_valid (echo_request i s)" unfolding echo_request_def by (rule icmp_built_valid) simp_all
  show "length (icmp_wire (echo_request i s)) = 29" using length_icmp_wire [OF v] by (simp add: echo_request_def icmp_built_def)
qed

lemma echo_request_built:
  assumes "link_ok dev tip mac"
  shows "frame_built (echo_request_frame dev tip mac i s) (ip_image dev tip mac IPV4_PROTOCOL_ICMP (icmp_wire (echo_request i s)) 0x1337)"
proof -
  let ?p = "echo_request i s"
  note v = echo_request_valid [of i s]
  have b: "icmp_build_echo_request (Some undefined) i s (Some ping_payload) (length ping_payload - 1) = Some (0, Some ?p)"
    unfolding icmp_build_echo_request_def
    by (subst icmp_build_echo_ok) (simp_all add: ping_payload_def echo_request_def const_defs)
  have s: "icmp_serialize (Some ?p) (Some (uninit ICMP_MAX_PACKET_LEN)) ICMP_MAX_PACKET_LEN =
      Some (29, Some (icmp_wire ?p @ drop 29 (uninit ICMP_MAX_PACKET_LEN)))"
    using icmp_serialize_wire [OF v(1), of 65535 "uninit 65535"] v(2) by (simp add: const_defs)
  show ?thesis
    using ip_frame_built [OF assms, of 29 "icmp_wire ?p @ drop 29 (uninit ICMP_MAX_PACKET_LEN)" IPV4_PROTOCOL_ICMP "0x1337"] v(2)
    unfolding echo_request_frame_def b by (simp add: s)
qed

section \<open>The reply\<close>

definition echo_verdict :: "netdev \<Rightarrow> bytes \<Rightarrow> u16 \<Rightarrow> u16 \<Rightarrow> bytes \<Rightarrow> icmp_packet option" where
  "echo_verdict dev peer identifier seq f = do {
     ip \<leftarrow> ip_verdict IPV4_PROTOCOL_ICMP dev peer f;
     let d = ip_payload ip; n = ip_payload_len ip; p = icmp_decode d n in
     if icmp_accepts d n \<and> icmp_type p = 0 \<and> icmp_identifier p = identifier \<and> icmp_sequence p = seq
     then Some p else None }"

lemma echo_reply_from_eq:
  assumes "netdev_wf dev" and "length peer = 4" and "0 < n" and "n \<le> length b"
  shows "echo_reply_from dev peer i s b n = Some (echo_verdict dev peer i s (take n b))"
proof (cases "ip_verdict IPV4_PROTOCOL_ICMP dev peer (take n b)")
  case None
  then show ?thesis by (simp add: echo_reply_from_def echo_verdict_def ip_from_peer_eq [OF assms])
next
  case (Some ip)
  let ?d = "ip_payload ip" and ?n = "ip_payload_len ip"
  have n: "?n \<le> length ?d" using ip_verdict_facts(3,4) [OF Some] by simp
  show ?thesis
  proof (cases "icmp_accepts ?d ?n")
    case True
    then show ?thesis
      using Some icmp_parse_ok [OF n True, of undefined]
      by (simp add: echo_reply_from_def echo_verdict_def ip_from_peer_eq [OF assms] Let_def ICMP_TYPE_ECHO_REPLY_def)
  next
    case False
    then obtain rc where "rc \<noteq> 0" "icmp_parse (Some ?d) ?n (Some undefined) = Some (rc, Some undefined)"
      using icmp_parse_reject [OF n False, of undefined] by auto
    then show ?thesis
      using False Some by (simp add: echo_reply_from_def echo_verdict_def ip_from_peer_eq [OF assms] Let_def)
  qed
qed

interpretation echof: frame_test "echo_reply_from dev peer i s" "echo_verdict dev peer i s" "netdev_wf dev \<and> length peer = 4"
  for dev peer i s
  by unfold_locales (simp add: echo_reply_from_eq)

text \<open>The reply of the peer, in any IPv4 packet and possibly padded by the link.\<close>

lemma echo_verdict_carried:
  assumes c: "ip_carries ip IPV4_PROTOCOL_ICMP peer (nd_ipv4 dev) (icmp_wire p)"
    and "length d = 6" and "length s = 6" and "length (ipv4_wire ip) + length pad \<le> 1500"
    and v: "icmp_valid p" and "icmp_type p = 0"
  shows "echo_verdict dev peer (icmp_identifier p) (icmp_sequence p)
      (eth_image d s ETHERNET_TYPE_IPV4 (ipv4_wire ip @ pad)) = Some (icmp_norm p)"
proof -
  obtain q where q: "ip_verdict IPV4_PROTOCOL_ICMP dev peer (eth_image d s ETHERNET_TYPE_IPV4 (ipv4_wire ip @ pad)) = Some q"
    "ip_payload q = icmp_wire p @ replicate (65515 - length (icmp_wire p)) 0" "ip_payload_len q = length (icmp_wire p)"
    using ip_carries_verdict [OF assms(1-4)] by metis
  show ?thesis
    using q icmp_accepts_wire [OF v] icmp_decode_wire [OF v] assms(6)
    by (simp add: echo_verdict_def Let_def) (simp add: icmp_norm_def)
qed

lemma echo_poll_verdict:
  "echof.poll_verdict dev peer i s e = Some x \<longleftrightarrow> (\<exists>f. e = Recv_Frame f \<and> echo_verdict dev peer i s (take 2048 f) = Some x)"
  by (cases e) (auto simp: echof.poll_verdict_def echo_verdict_def ip_verdict_def eth_payload_of_def)

lemma send_ping_ok:
  assumes "link_ok dev tip mac"
  shows "io_ok (calm out closed net clk) (send_ping dev tip mac) (\<lambda>rc w. calm out closed net clk w
    \<and> (rc = -1 \<or> rc = 0 \<and> (\<exists>e \<in> net. \<exists>p. echof.poll_verdict dev tip 0x4242 1 e = Some p)))"
  unfolding send_ping_def Let_def
proof (rule io_ok_bind [OF echof.exchange_ok [OF _ _ disjI2 [OF echo_request_built [OF assms]]]], goal_cases)
  case (3 x)
  show ?case by (cases x) (auto simp: io_ok_def)
qed (use assms in \<open>simp_all add: link_ok_def\<close>)

interpretation ping: tool ping_resolve_arp send_ping True
proof unfold_locales
  show "io_ok (holding closed) (send_ping dev tip mac) (\<lambda>_ w. holding closed w)" if "link_ok dev tip mac" for dev tip mac closed
  proof -
    have "io_ok (calm out closed net clk) (send_ping dev tip mac) (\<lambda>rc w. w_closed w = closed \<and> True)" for out net clk
      by (rule io_ok_weaken [OF send_ping_ok [OF that]]) (auto dest: calm_closed)
    from io_ok_holding [OF this] show ?thesis by simp
  qed
qed (simp add: ping_resolve_arp_def resolve_arp_ok)

section \<open>Properties\<close>

text \<open>
  (C14) Pinging is sound: it has no undefined behaviour whatever arrives, and it reports success only when a
  frame arrived that carries, with both checksums right, an echo reply of the target to this host with
  the identifier and the sequence number of the request.
\<close>

theorem ping_sound:
  assumes "link_ok dev tip mac"
  shows "send_ping dev tip mac w \<noteq> Undefined
    \<and> (\<forall>rc w'. send_ping dev tip mac w = Outcome rc w' \<longrightarrow> rc = -1 \<or> rc = 0
        \<and> (\<exists>f p. Recv_Frame f \<in> set (w_polls w) \<and> echo_verdict dev tip 0x4242 1 (take 2048 f) = Some p))"
proof -
  note ok = io_okD [OF send_ping_ok [OF assms] calm_self]
  show ?thesis using ok by (fastforce simp: echo_poll_verdict)
qed

text \<open>
  (C13) Pinging completes: one frame leaves, the echo request in IPv4 in Ethernet, and when the target's
  reply arrives before five seconds have passed, behind any other frames, the result is success. The
  reply is any echo reply with the identifier and the sequence number of the request, with any
  payload, in any valid IPv4 packet from the target to this host, whatever its time to live, its
  options and its other fields, in one frame from any link address and with any padding.
\<close>

theorem ping_completes:
  assumes "link_ok here target mac" and "length d = 6" and "length s = 6"
    and "ip_carries ip IPV4_PROTOCOL_ICMP target (nd_ipv4 here) (icmp_wire p)"
    and "icmp_valid p" and "icmp_type p = 0" and "icmp_identifier p = 0x4242" and "icmp_sequence p = 1"
    and "length (ipv4_wire ip) + length pad \<le> 1500"
    and "w_clock w = Some start # map Some (ts @ [t]) @ Some stop # cs" and "w_sends w = k # ks" and "0 \<le> k"
    and "w_polls w = map Recv_Frame fs @ Recv_Frame (eth_image d s ETHERNET_TYPE_IPV4 (ipv4_wire ip @ pad)) # ps"
    and "\<forall>f \<in> set fs. echo_verdict here target 0x4242 1 (take 2048 f) = None"
    and "length ts = length fs" and "\<forall>now \<in> set (t # ts). elapsed_ns start now \<le> 5000000000"
  shows "send_ping here target mac w = Outcome 0 (w\<lparr>w_clock := cs, w_sends := ks, w_polls := ps,
    w_sent := w_sent w @ [ip_image here target mac IPV4_PROTOCOL_ICMP (icmp_wire (echo_request 0x4242 1)) 0x1337]\<rparr>)"
proof -
  let ?f = "eth_image d s ETHERNET_TYPE_IPV4 (ipv4_wire ip @ pad)"
  have vd: "echo_verdict here target 0x4242 1 ?f = Some (icmp_norm p)"
    using echo_verdict_carried [OF assms(4,2,3,9,5,6)] assms(7,8) by simp
  have "length ?f \<le> 2048" using assms(2,3,9) by (simp add: eth_image_def)
  then have e: "echof.poll_verdict here target 0x4242 1 (Recv_Frame ?f) = Some (icmp_norm p)"
    using vd by (subst echo_poll_verdict) (simp add: take_all)
  have others: "list_all (\<lambda>e. e \<in> range Recv_Frame \<and> echof.poll_verdict here target 0x4242 1 e = None) (map Recv_Frame fs)"
    using assms(14) by (auto simp: list_all_iff echof.poll_verdict_def)
  have "exchange ICMP_TIMEOUT_MS here (echo_request_frame here target mac 0x4242 1) (echo_reply_from here target 0x4242 1) w =
      Outcome (Some (icmp_norm p)) (w\<lparr>w_clock := cs, w_sends := ks, w_polls := ps, w_sent := w_sent w @
        [ip_image here target mac IPV4_PROTOCOL_ICMP (icmp_wire (echo_request 0x4242 1)) 0x1337]\<rparr>)"
    using assms others e
    by (intro echof.exchange_finds [OF _ _ echo_request_built, where start = start and ts = ts and t = t and k = k])
      (auto simp: link_ok_def const_defs list_all_iff)
  then show ?thesis by (simp add: send_ping_def io_bind_def)
qed

theorem ping_sound_witness:
  "send_ping example_device [10, 0, 0, 1] [2, 0, 0, 0, 0, 1] example_world \<noteq> Undefined"
proof -
  have "link_ok example_device [10, 0, 0, 1] [2, 0, 0, 0, 0, 1]" using example_devices by (simp add: link_ok_def)
  from ping_sound [OF this, of example_world] show ?thesis by simp
qed

definition example_echo_packet :: ipv4_packet where
  "example_echo_packet = ipv4_built [10, 0, 0, 1] (nd_ipv4 example_device) IPV4_PROTOCOL_ICMP
     (icmp_wire (icmp_built 0 0x4242 1 [1, 2, 3])) 250 9"

definition example_echo_reply :: bytes where
  "example_echo_reply = eth_image (nd_mac example_device) [2, 0, 0, 0, 0, 1] ETHERNET_TYPE_IPV4
     (ipv4_wire example_echo_packet @ [0, 0])"

definition example_echo_world :: world where
  "example_echo_world = \<lparr> w_clock = replicate 5 (Some \<lparr> tv_sec = 7, tv_nsec = 0 \<rparr>),
     w_polls = [Recv_Frame [1, 2, 3], Recv_Frame example_echo_reply], w_sends = [63], w_allocs = [],
     w_sent = [], w_stdout = [], w_closed = [] \<rparr>"

theorem ping_completes_witness:
  "\<exists>w'. send_ping example_device [10, 0, 0, 1] [2, 0, 0, 0, 0, 1] example_echo_world = Outcome 0 w' \<and> length (w_sent w') = 1"
proof -
  let ?c = "\<lparr> tv_sec = 7, tv_nsec = 0 \<rparr>" and ?p = "icmp_built 0 0x4242 1 [1, 2, 3]"
  have link: "link_ok example_device [10, 0, 0, 1] [2, 0, 0, 0, 0, 1]" "length (nd_mac example_device) = 6" "length (nd_ipv4 example_device) = 4"
    using example_devices by (simp_all add: link_ok_def netdev_wf_def)
  have v: "icmp_valid ?p" by (rule icmp_built_valid) simp_all
  have p: "icmp_type ?p = 0" "icmp_identifier ?p = 0x4242" "icmp_sequence ?p = 1" by (simp_all add: icmp_built_def)
  have r: "replicate 5 (Some ?c) = [Some ?c, Some ?c, Some ?c, Some ?c, Some ?c]" by (simp add: numeral_eq_Suc)
  from v have l: "length (icmp_wire ?p) = 11" by (simp add: length_icmp_wire icmp_built_def)
  have c: "ip_carries example_echo_packet IPV4_PROTOCOL_ICMP [10, 0, 0, 1] (nd_ipv4 example_device) (icmp_wire ?p)"
    unfolding example_echo_packet_def using link(3) l by (intro ip_carries_built) simp_all
  have w: "length (ipv4_wire example_echo_packet) = 31"
    using c l length_ipv4_wire [of example_echo_packet] by (simp add: ip_carries_def example_echo_packet_def ipv4_built_def)
  have "echo_verdict example_device [10, 0, 0, 1] 0x4242 1 [1, 2, 3] = None"
    by (simp add: echo_verdict_def ip_verdict_def eth_payload_of_def)
  then show ?thesis
    using ping_completes [OF link(1,2) _ c v, where pad = "[0, 0]" and w = example_echo_world and start = ?c and ts = "[?c]" and t = ?c
        and stop = ?c and cs = "[Some ?c]" and k = 63 and ks = "[]" and fs = "[[1, 2, 3]]" and ps = "[]" and s = "[2, 0, 0, 0, 0, 1]"] w p
    by (simp add: example_echo_world_def example_echo_reply_def r elapsed_ns_def)
qed

end
