(* ===== verification/DnsTool.thy ===== *)
theory DnsTool
  imports ToolSession Udp Dns
begin

text \<open>
  \<^verbatim>\<open>src/tools/netstack_dns.c\<close>: one DNS query over UDP and the printing of its answers. Of what the tool
  prints the model keeps the lines of the address records; the host name is the character array of
  the argument with its terminator.
\<close>

section \<open>Model\<close>

definition DNS_TIMEOUT_MS :: int where [const_defs]: "DNS_TIMEOUT_MS = 5000"
definition DNS_DESTINATION_PORT :: u16 where [const_defs]: "DNS_DESTINATION_PORT = 53"
definition DNS_SOURCE_PORT :: u16 where [const_defs]: "DNS_SOURCE_PORT = 53000"
definition DNS_TRANSACTION_ID :: u16 where [const_defs]: "DNS_TRANSACTION_ID = 0x4242"
definition DNS_MAX_PACKET_LEN :: nat where [const_defs]: "DNS_MAX_PACKET_LEN = 512"

definition dns_query_frame :: "netdev \<Rightarrow> bytes \<Rightarrow> bytes \<Rightarrow> string \<Rightarrow> built_frame option" where
  "dns_query_frame dev server_ip next_hop_mac hostname = do {
     (dns_len, dns_bytes) \<leftarrow> dns_build_a_query (Some (uninit DNS_MAX_PACKET_LEN)) DNS_MAX_PACKET_LEN DNS_TRANSACTION_ID
       (Some (map of_char hostname));
     if dns_len = 0 then Some None
     else do {
       (rc, udp) \<leftarrow> udp_build (Some undefined) DNS_SOURCE_PORT DNS_DESTINATION_PORT dns_bytes dns_len;
       if rc \<noteq> 0 then Some None
       else do {
         (udp_len, udp_bytes) \<leftarrow> udp_serialize_ipv4 udp (Some (nd_ipv4 dev)) (Some server_ip)
           (Some (uninit UDP_MAX_PACKET_LEN)) UDP_MAX_PACKET_LEN;
         if udp_len = 0 then Some None
         else do {
           udp_bytes \<leftarrow> udp_bytes;
           ip_frame dev server_ip next_hop_mac IPV4_PROTOCOL_UDP udp_bytes udp_len 0x444E } } } }"

definition dns_answer_from :: "netdev \<Rightarrow> bytes \<Rightarrow> bytes \<Rightarrow> nat \<Rightarrow> dns_response option option" where
  "dns_answer_from dev server_ip buffer received = do {
     ip \<leftarrow> ip_from_peer IPV4_PROTOCOL_UDP dev server_ip buffer received;
     (case ip of
        None \<Rightarrow> Some None
      | Some ip \<Rightarrow> do {
          intact \<leftarrow> udp_checksum_ipv4_valid (Some (ip_source_ip ip)) (Some (ip_destination_ip ip))
            (Some (ip_payload ip)) (ip_payload_len ip);
          if \<not> intact then Some None
          else do {
            (rc, udp) \<leftarrow> udp_parse (Some (ip_payload ip)) (ip_payload_len ip) (Some undefined);
            if rc \<noteq> 0 then Some None
            else do {
              udp \<leftarrow> udp;
              if udp_source_port udp \<noteq> DNS_DESTINATION_PORT then Some None
              else if udp_destination_port udp \<noteq> DNS_SOURCE_PORT then Some None
              else do {
                (dns_result, response) \<leftarrow> dns_parse_response (Some (udp_payload udp)) (udp_payload_len udp)
                  DNS_TRANSACTION_ID (Some undefined);
                if dns_result \<noteq> 0 then Some None
                else do { response \<leftarrow> response; Some (Some response) } } } } }) }"

definition answer_line :: "string \<Rightarrow> dns_a_record \<Rightarrow> string" where
  "answer_line host a = ''A    '' @ host @ ''    '' @ ip_text (dns_address a) @ ''    ttl='' @ fmt_u (unat (dns_ttl a)) @ [LF]"

text \<open>The printing loop, from record \<open>i\<close> on with \<open>n\<close> records left.\<close>

fun print_answers :: "string \<Rightarrow> dns_response \<Rightarrow> nat \<Rightarrow> nat \<Rightarrow> unit io" where
  "print_answers hostname response i 0 = io_return ()"
| "print_answers hostname response i (Suc n) =
    io_bind (io_lift (do {
      a \<leftarrow> rd (dns_answers response) i;
      _ \<leftarrow> mem_read (dns_address a) 0 4;
      host \<leftarrow> c_text hostname;
      Some (answer_line host a) })) (\<lambda>line.
    io_bind (\<lambda>w. Outcome () (w\<lparr>w_stdout := w_stdout w @ [line]\<rparr>)) (\<lambda>_.
      print_answers hostname response (i + 1) n))"

definition send_dns_query :: "netdev \<Rightarrow> bytes \<Rightarrow> bytes \<Rightarrow> string \<Rightarrow> int io" where
  "send_dns_query dev server_ip next_hop_mac hostname =
    io_bind (exchange DNS_TIMEOUT_MS dev (dns_query_frame dev server_ip next_hop_mac hostname) (dns_answer_from dev server_ip))
      (\<lambda>answer.
        case answer of
          None \<Rightarrow> io_return (-1)
        | Some response \<Rightarrow>
            if dns_response_code response \<noteq> 0 then io_return 1
            else if dns_answer_count response = 0 then io_return 0
            else io_bind (print_answers hostname response 0 (dns_answer_count response)) (\<lambda>_. io_return 0))"

definition dns_main :: "(string \<Rightarrow> bytes option) \<Rightarrow> kernel \<Rightarrow> string list \<Rightarrow> int io" where
  "dns_main inet_pton k argv =
    (if length argv \<noteq> 4 then io_return 1
     else case inet_pton (argv ! 2) of
         None \<Rightarrow> io_return 1
       | Some server_addr \<Rightarrow>
           io_bind (io_lift (memcpy (uninit 4) 0 server_addr 0 4)) (\<lambda>server_ip.
             tool_session dns_resolve_arp (\<lambda>dev ip mac. send_dns_query dev ip mac (argv ! 3)) k (argv ! 1) server_ip))"

section \<open>The query\<close>

text \<open>Whatever the host name, the query stays inside its buffer.\<close>

lemma dns_label_loop_safe:
  assumes "n \<le> length b" and "st \<le> cur" and "0 \<in> set (drop cur host)"
  shows "\<exists>b' r. dns_label_loop b n host off st cur = Some (b', r) \<and> length b' = length b \<and> (\<forall>k. r = Some k \<longrightarrow> k \<le> n)"
  using assms
proof (induction b n host off st cur rule: dns_label_loop.induct)
  case (1 b n host off st cur)
  have cur: "cur < length host" using "1.prems"(3) by (cases "cur < length host") simp_all
  then have rd: "rd host cur = Some (host ! cur)" by (simp add: rd_def)
  have dr: "drop cur host = host ! cur # drop (cur + 1) host" using cur by (simp add: Cons_nth_drop_Suc)
  show ?case
  proof (cases "host ! cur = 46 \<or> host ! cur = 0")
    case False
    then have "0 \<in> set (drop (cur + 1) host)" using "1.prems"(3) dr by simp
    then show ?thesis
      using "1.IH"(2) [OF rd False "1.prems"(1)] "1.prems"(2) rd False by (subst dns_label_loop.simps) simp
  next
    case True
    define l where "l = cur - st"
    have l: "st + l \<le> length host" using cur "1.prems"(2) by (simp add: l_def)
    show ?thesis
    proof (cases "l = 0 \<or> 63 < l \<or> n < off + 1 + l")
      case bad: True
      then show ?thesis using rd True by (subst dns_label_loop.simps) (auto simp: Let_def simp flip: l_def)
    next
      case ok: False
      let ?b1 = "blit off [of_nat l] b" and ?b2 = "blit (off + 1) (take l (drop st host)) (blit off [of_nat l] b)"
      have n: "off + 1 + l \<le> length b" using ok "1.prems"(1) by simp
      then have b1: "length ?b1 = length b" by simp
      have w: "wr b off (of_nat l) = Some ?b1" using n by (simp add: wr_Some)
      have m: "memcpy ?b1 (off + 1) host st l = Some ?b2" using n l b1 by (simp add: memcpy_Some)
      have len: "length ?b2 = length b" using n l b1 by simp
      show ?thesis
      proof (cases "host ! cur = 0")
        case fin: True
        then show ?thesis using rd True ok w m len by (subst dns_label_loop.simps) (auto simp: Let_def simp flip: l_def)
      next
        case dot: False
        then have "0 \<in> set (drop (cur + 1) host)" using "1.prems"(3) dr by simp
        then show ?thesis
          using "1.IH"(1) [OF rd True l_def _ _ w m refl dot] rd True ok w m len dot "1.prems"(1)
          by (subst dns_label_loop.simps) (auto simp: Let_def simp flip: l_def)
      qed
    qed
  qed
qed

lemma c_strlen_found: "0 \<in> set host \<Longrightarrow> \<exists>k. c_strlen host = Some k"
  by (induction host) auto

lemma dns_build_a_query_safe:
  assumes "0 \<in> set host" and n: "n \<le> length buf"
  shows "\<exists>k b. dns_build_a_query (Some buf) n tid (Some host) = Some (k, Some b) \<and> k \<le> n \<and> length b = length buf"
proof (cases "host ! 0 = 0 \<or> n < 12")
  case True
  then show ?thesis using assms by (cases host) (auto simp: dns_build_a_query_def rd_def const_defs)
next
  case False
  then have n12: "12 \<le> n" by simp
  obtain k where k: "c_strlen host = Some k" using c_strlen_found [OF assms(1)] by blast
  have h0: "rd host 0 = Some (host ! 0)" using assms(1) by (cases host) (simp_all add: rd_def)
  let ?b = "dns_query_head tid @ replicate (n - 12) 0 @ drop n buf"
  have lb: "length ?b = length buf" using n n12 by simp
  obtain b' r where loop: "dns_label_loop ?b n host 12 0 0 = Some (b', r)" "length b' = length buf" "\<forall>j. r = Some j \<longrightarrow> j \<le> n"
    using dns_label_loop_safe [of n ?b 0 0 host 12] assms lb by auto
  show ?thesis
  proof (cases "k = 0 \<or> 253 < k")
    case True
    then show ?thesis using False h0 k by (auto simp: dns_build_a_query_def const_defs)
  next
    case k_ok: False
    have build: "dns_build_a_query (Some buf) n tid (Some host) = do {
        (b, r) \<leftarrow> dns_label_loop ?b n host 12 0 0;
        (case r of None \<Rightarrow> Some (0, Some b)
         | Some offset \<Rightarrow> if offset + 1 + 4 > n then Some (0, Some b)
             else do { b \<leftarrow> wr b offset 0; b \<leftarrow> write_u16_be b (offset + 1) DNS_TYPE_A;
               b \<leftarrow> write_u16_be b (offset + 3) DNS_CLASS_IN; Some (offset + 5, Some b) }) }"
      using False h0 k k_ok dns_build_header [OF n12 n]
      by (simp add: dns_build_a_query_def DNS_HEADER_LEN_def cong: option.case_cong)
    show ?thesis
      using loop n by (auto simp: build wr_Some write_u16_be_Some split: option.splits)
  qed
qed

definition dns_datagram :: "netdev \<Rightarrow> bytes \<Rightarrow> bytes \<Rightarrow> bytes" where
  "dns_datagram dev server_ip query = udp_wire (udp_sealed (nd_ipv4 dev) server_ip (udp_built 53000 53 query))"

lemma length_dns_datagram: "length q \<le> 512 \<Longrightarrow> length (dns_datagram dev ip q) = 8 + length q"
  unfolding dns_datagram_def
  by (subst length_udp_wire) (simp_all add: udp_built_valid, simp add: udp_sealed_def udp_built_def)

lemma dns_query_frame_built:
  assumes link: "link_ok dev ip mac" and q: "dns_build_a_query (Some (uninit 512)) 512 DNS_TRANSACTION_ID (Some (map of_char host)) = Some (k, Some b)"
    and k: "0 < k" "k \<le> 512" and b: "length b = 512"
  shows "frame_built (dns_query_frame dev ip mac host) (ip_image dev ip mac IPV4_PROTOCOL_UDP (dns_datagram dev ip (take k b)) 0x444E)"
proof -
  let ?u = "udp_built 53000 53 (take k b)" and ?w = "dns_datagram dev ip (take k b)"
  have v: "udp_valid ?u" using k b by (intro udp_built_valid) simp
  have u: "udp_build (Some undefined) DNS_SOURCE_PORT DNS_DESTINATION_PORT (Some b) k = Some (0, Some ?u)"
    using udp_build_ok [of k b undefined 53000 53] k b by (simp add: const_defs)
  have s: "udp_serialize_ipv4 (Some ?u) (Some (nd_ipv4 dev)) (Some ip) (Some (uninit UDP_MAX_PACKET_LEN)) UDP_MAX_PACKET_LEN =
      Some (8 + k, Some (?w @ drop (8 + k) (uninit UDP_MAX_PACKET_LEN)))"
    using udp_serialize_ipv4_wire [of "nd_ipv4 dev" ip ?u 65535 "uninit 65535"] v k b link
    by (simp add: udp_built_def dns_datagram_def const_defs link_ok_def netdev_wf_def)
  have l: "length ?w = 8 + k" using length_dns_datagram [of "take k b"] k b by simp
  show ?thesis
    using ip_frame_built [OF link, of "8 + k" "?w @ drop (8 + k) (uninit UDP_MAX_PACKET_LEN)" IPV4_PROTOCOL_UDP "0x444E"] l k q u
    unfolding dns_query_frame_def by (simp add: s DNS_MAX_PACKET_LEN_def)
qed

lemma dns_query_frame_safe:
  assumes "link_ok dev ip mac" and "NUL \<in> set host"
  obtains "dns_query_frame dev ip mac host = Some None" | img where "frame_built (dns_query_frame dev ip mac host) img"
proof -
  have "(0 :: u8) \<in> set (map of_char host)" using assms(2) by (auto simp: NUL_def intro!: rev_image_eqI [of NUL])
  from dns_build_a_query_safe [OF this, of 512 "uninit 512" DNS_TRANSACTION_ID] obtain k b where
    q: "dns_build_a_query (Some (uninit 512)) 512 DNS_TRANSACTION_ID (Some (map of_char host)) = Some (k, Some b)" "k \<le> 512" "length b = 512"
    by auto
  show thesis
  proof (cases "k = 0")
    case True
    then show ?thesis using that(1) q by (simp add: dns_query_frame_def DNS_MAX_PACKET_LEN_def)
  next
    case False
    then show ?thesis using that(2) dns_query_frame_built [OF assms(1) q(1) _ q(2,3)] by blast
  qed
qed

lemma dns_query_frame_host:
  assumes "link_ok dev ip mac" and "map of_char hostname = dns_host ls @ post"
    and ls: "list_all dns_label_ok ls" "ls \<noteq> []" "length (dns_labels ls) \<le> 254"
  shows "frame_built (dns_query_frame dev ip mac hostname)
    (ip_image dev ip mac IPV4_PROTOCOL_UDP (dns_datagram dev ip (dns_query 0x4242 ls)) 0x444E)"
proof -
  have "dns_build_a_query (Some (uninit 512)) 512 DNS_TRANSACTION_ID (Some (map of_char hostname)) =
      Some (17 + length (dns_labels ls), Some (dns_query 0x4242 ls @ replicate (512 - (17 + length (dns_labels ls))) 0))"
    using dns_build_a_query_eq [OF ls, of 512 "uninit 512" "0x4242" post] assms(2) ls(3) by (simp add: DNS_TRANSACTION_ID_def)
  moreover have "length (dns_query 0x4242 ls) = 17 + length (dns_labels ls)" by (simp add: dns_query_def)
  ultimately show ?thesis using dns_query_frame_built [OF assms(1)] ls(3) by fastforce
qed

section \<open>The answer\<close>

definition dns_verdict :: "netdev \<Rightarrow> bytes \<Rightarrow> bytes \<Rightarrow> dns_response option" where
  "dns_verdict dev server f = do {
     ip \<leftarrow> ip_verdict IPV4_PROTOCOL_UDP dev server f;
     let d = ip_payload ip; n = ip_payload_len ip; u = udp_decode d in
     if udp_accepts d n \<and> (be16 (d ! 6) (d ! 7) = 0 \<or> transport_checksum server (nd_ipv4 dev) 17 (take n d) = 0)
        \<and> udp_source_port u = 53 \<and> udp_destination_port u = 53000
     then (case dns_parse_response (Some (udp_payload u)) (udp_payload_len u) DNS_TRANSACTION_ID (Some undefined) of
         Some (rc, Some r) \<Rightarrow> if rc = 0 then Some r else None
       | _ \<Rightarrow> None)
     else None }"

lemma dns_answer_from_eq:
  assumes "netdev_wf dev" and "length server = 4" and "0 < n" and "n \<le> length b"
  shows "dns_answer_from dev server b n = Some (dns_verdict dev server (take n b))"
proof (cases "ip_verdict IPV4_PROTOCOL_UDP dev server (take n b)")
  case None
  then show ?thesis by (simp add: dns_answer_from_def dns_verdict_def ip_from_peer_eq [OF assms])
next
  case (Some ip)
  note f = ip_verdict_facts [OF Some]
  let ?d = "ip_payload ip" and ?n = "ip_payload_len ip"
  have n: "?n \<le> length ?d" using f by simp
  note defs = dns_answer_from_def dns_verdict_def ip_from_peer_eq [OF assms] Let_def Some f(1,2)
  show ?thesis
  proof (cases "udp_accepts ?d ?n")
    case True
    then have "8 \<le> ?n" by (simp add: udp_accepts_def)
    then have ck: "udp_checksum_ipv4_valid (Some server) (Some (nd_ipv4 dev)) (Some ?d) ?n =
        Some (be16 (?d ! 6) (?d ! 7) = 0 \<or> transport_checksum server (nd_ipv4 dev) 17 (take ?n ?d) = 0)"
      using udp_checksum_ipv4_valid_eq [of server "nd_ipv4 dev" ?n ?d] assms n by (simp add: netdev_wf_def)
    let ?u = "udp_decode ?d"
    have "udp_payload_len ?u \<le> length (udp_payload ?u)" using udp_valid_lengths [OF udp_decode_valid [OF n True]] by simp
    from dns_parse_response_safe [OF this, of DNS_TRANSACTION_ID undefined] obtain rc r where
      r: "dns_parse_response (Some (udp_payload ?u)) (udp_payload_len ?u) DNS_TRANSACTION_ID (Some undefined) = Some (rc, Some r)" by blast
    show ?thesis
      using True ck r udp_parse_ok [OF n True, of undefined]
      by (simp add: defs DNS_SOURCE_PORT_def DNS_DESTINATION_PORT_def)
  next
    case False
    then obtain rc where rc: "rc \<noteq> 0" "udp_parse (Some ?d) ?n (Some undefined) = Some (rc, Some undefined)"
      using udp_parse_reject [OF n False, of undefined] by auto
    obtain ok where "udp_checksum_ipv4_valid (Some server) (Some (nd_ipv4 dev)) (Some ?d) ?n = Some ok"
      using udp_checksum_ipv4_valid_eq [of server "nd_ipv4 dev" ?n ?d] assms n
      by (cases "8 \<le> ?n") (auto simp: netdev_wf_def udp_checksum_ipv4_valid_def const_defs)
    then show ?thesis using False rc by (simp add: defs)
  qed
qed

interpretation dnsf: frame_test "dns_answer_from dev server" "dns_verdict dev server" "netdev_wf dev \<and> length server = 4"
  for dev server
  by unfold_locales (simp add: dns_answer_from_eq)

lemma dns_poll_verdict:
  "dnsf.poll_verdict dev server e = Some x \<longleftrightarrow> (\<exists>f. e = Recv_Frame f \<and> dns_verdict dev server (take 2048 f) = Some x)"
  by (cases e) (auto simp: dnsf.poll_verdict_def dns_verdict_def ip_verdict_def eth_payload_of_def)

lemma dns_verdict_wf:
  assumes "dns_verdict dev server f = Some r"
  shows "dns_response_wf r"
proof -
  from assms obtain ip where ip: "ip_verdict IPV4_PROTOCOL_UDP dev server f = Some ip" and acc: "udp_accepts (ip_payload ip) (ip_payload_len ip)"
    and p: "dns_parse_response (Some (udp_payload (udp_decode (ip_payload ip)))) (udp_payload_len (udp_decode (ip_payload ip)))
        DNS_TRANSACTION_ID (Some undefined) = Some (0, Some r)"
    by (auto simp: dns_verdict_def bind_eq_Some_conv Let_def split: if_splits option.splits prod.splits)
  have n: "ip_payload_len ip \<le> length (ip_payload ip)" using ip_verdict_facts [OF ip] by simp
  note l = udp_valid_lengths [OF udp_decode_valid [OF n acc]]
  show ?thesis
    using dns_parse_response_safe [of "udp_payload_len (udp_decode (ip_payload ip))" "udp_payload (udp_decode (ip_payload ip))"
        DNS_TRANSACTION_ID undefined] l p by auto
qed

lemma print_answers_eq:
  assumes "dns_response_wf r" and "c_text hostname = Some host" and "i + n \<le> 16"
  shows "print_answers hostname r i n w = Outcome () (w\<lparr>w_stdout := w_stdout w @ map (answer_line host) (take n (drop i (dns_answers r)))\<rparr>)"
  using assms(3)
proof (induction n arbitrary: i w)
  case (Suc n)
  have i: "i < length (dns_answers r)" "length (dns_address (dns_answers r ! i)) = 4"
    using assms(1) Suc.prems by (auto simp: dns_response_wf_def list_all_length)
  then have "take (Suc n) (drop i (dns_answers r)) = dns_answers r ! i # take n (drop (i + 1) (dns_answers r))"
    by (simp add: Cons_nth_drop_Suc [symmetric])
  moreover have "print_answers hostname r i (Suc n) w =
      print_answers hostname r (i + 1) n (w\<lparr>w_stdout := w_stdout w @ [answer_line host (dns_answers r ! i)]\<rparr>)"
    using i assms(2) by (simp add: rd_def mem_read_Some io_bind_def)
  ultimately show ?case using Suc.IH [of "i + 1"] Suc.prems by simp
qed simp

text \<open>The lines the tool prints, and its result, from the response.\<close>

definition dns_outcome :: "string \<Rightarrow> dns_response \<Rightarrow> int \<times> string list" where
  "dns_outcome host r = (if dns_response_code r \<noteq> 0 then (1, [])
     else (0, map (answer_line host) (take (dns_answer_count r) (dns_answers r))))"

lemma dns_report_eq:
  assumes "dns_response_wf r" and "c_text hostname = Some host"
  shows "(if dns_response_code r \<noteq> 0 then io_return 1
      else if dns_answer_count r = 0 then io_return 0
      else io_bind (print_answers hostname r 0 (dns_answer_count r)) (\<lambda>_. io_return 0)) w =
    Outcome (fst (dns_outcome host r)) (w\<lparr>w_stdout := w_stdout w @ snd (dns_outcome host r)\<rparr>)"
  using print_answers_eq [OF assms, of 0 "dns_answer_count r" w] assms(1)
  by (simp add: dns_outcome_def io_bind_def dns_response_wf_def)

lemma send_dns_query_ok:
  assumes link: "link_ok dev ip mac" and host: "NUL \<in> set hostname" "c_text hostname = Some host"
  shows "io_ok (calm out closed net clk) (send_dns_query dev ip mac hostname) (\<lambda>rc w. w_closed w = closed
    \<and> (rc = -1 \<and> w_stdout w = out \<or> (\<exists>e \<in> net. \<exists>r. dnsf.poll_verdict dev ip e = Some r
        \<and> rc = fst (dns_outcome host r) \<and> w_stdout w = out @ snd (dns_outcome host r))))"
proof -
  obtain img where b: "dns_query_frame dev ip mac hostname = Some None \<or> frame_built (dns_query_frame dev ip mac hostname) img"
    using dns_query_frame_safe [OF link host(1)] by metis
  have "netdev_wf dev \<and> length ip = 4" "0 \<le> nd_fd dev" using link by (simp_all add: link_ok_def)
  note ex = dnsf.exchange_ok [OF this b]
  show ?thesis
    unfolding send_dns_query_def
  proof (rule io_ok_bind [OF ex], goal_cases)
    case (1 x)
    show ?case
    proof (cases "\<exists>r. x = Some r \<and> (\<exists>e \<in> net. dnsf.poll_verdict dev ip e = Some r)")
      case True
      then obtain r e where r: "x = Some r" "e \<in> net" "dnsf.poll_verdict dev ip e = Some r" by blast
      then have "dns_response_wf r" by (auto simp: dns_poll_verdict dest: dns_verdict_wf)
      note report = dns_report_eq [OF this host(2)]
      have "io_ok (calm out closed net clk) (\<lambda>w. Outcome (fst (dns_outcome host r)) (w\<lparr>w_stdout := w_stdout w @ snd (dns_outcome host r)\<rparr>))
          (\<lambda>rc w. w_closed w = closed \<and> (rc = -1 \<and> w_stdout w = out \<or> (\<exists>e \<in> net. \<exists>r. dnsf.poll_verdict dev ip e = Some r
            \<and> rc = fst (dns_outcome host r) \<and> w_stdout w = out @ snd (dns_outcome host r))))"
        using r by (auto simp: io_ok_def calm_def)
      then show ?thesis unfolding r(1) option.case report by (rule io_ok_weaken) auto
    next
      case False
      then show ?thesis by (cases x) (auto simp: io_ok_def calm_def)
    qed
  qed
qed

interpretation dns_tool: tool dns_resolve_arp "\<lambda>dev ip mac. send_dns_query dev ip mac hostname" "NUL \<in> set hostname"
  for hostname
proof unfold_locales
  show "io_ok (holding closed) (send_dns_query dev tip mac hostname) (\<lambda>_ w. holding closed w)"
    if nul: "NUL \<in> set hostname" and link: "link_ok dev tip mac" for dev tip mac closed
  proof -
    obtain host where "c_text hostname = Some host" using c_text_terminator [of 0 hostname] nul by auto
    note ok = send_dns_query_ok [OF link nul this]
    have "io_ok (calm out closed net clk) (send_dns_query dev tip mac hostname) (\<lambda>rc w. w_closed w = closed \<and> True)" for out net clk
      by (rule io_ok_weaken [OF ok]) auto
    from io_ok_holding [OF this] show ?thesis by simp
  qed
qed (simp add: dns_resolve_arp_def resolve_arp_ok)

text \<open>
  The reply of the server: its message in a UDP datagram whose checksum is right or absent, in any IPv4
  packet, possibly padded by the link.
\<close>

definition reply_datagram :: "u16 \<Rightarrow> bytes \<Rightarrow> bytes" where
  "reply_datagram c message = udp_wire ((udp_built 53 53000 message)\<lparr>udp_checksum := c\<rparr>)"

lemma dns_verdict_carried:
  assumes m: "m = dns_reply 0x4242 flags qs rrs ns ar rest"
    and c: "ip_carries ip IPV4_PROTOCOL_UDP server (nd_ipv4 dev) (reply_datagram c m)"
    and "length d = 6" and "length s = 6" and n: "length (ipv4_wire ip) + length pad \<le> 1500"
    and ck: "c = 0 \<or> transport_checksum server (nd_ipv4 dev) 17 (reply_datagram c m) = 0"
    and msg: "flags AND 0x8000 \<noteq> 0" "list_all dns_question_ok qs" "length qs < 65536" "list_all dns_rr_ok rrs" "length rrs < 65536"
  shows "dns_verdict dev server (eth_image d s ETHERNET_TYPE_IPV4 (ipv4_wire ip @ pad)) =
    Some (dns_keep (dns_a_records rrs) (dns_header_response 0x4242 flags))"
proof -
  let ?u = "(udp_built 53 53000 m)\<lparr>udp_checksum := c\<rparr>"
  have "length (reply_datagram c m) \<le> 1480" using ip_carries_length [OF c] n by simp
  then have v: "udp_valid ?u" by (simp add: reply_datagram_def udp_wire_def udp_built_def udp_valid_def udp_wf_def const_defs)
  have w: "reply_datagram c m = udp_wire ?u" by (simp add: reply_datagram_def)
  obtain q where q: "ip_verdict IPV4_PROTOCOL_UDP dev server (eth_image d s ETHERNET_TYPE_IPV4 (ipv4_wire ip @ pad)) = Some q"
    "ip_payload q = udp_wire ?u @ replicate (65515 - length (udp_wire ?u)) 0" "ip_payload_len q = length (udp_wire ?u)"
    using ip_carries_verdict [OF c assms(3,4) n] unfolding w by metis
  have norm: "udp_payload (udp_norm ?u) = m @ replicate (65527 - length m) 0" "udp_payload_len (udp_norm ?u) = length m"
    "udp_source_port (udp_norm ?u) = 53" "udp_destination_port (udp_norm ?u) = 53000"
    by (simp_all add: udp_norm_def udp_built_def)
  have "be16 (ip_payload q ! 6) (ip_payload q ! 7) = c"
    unfolding q(2) by (simp add: udp_wire_def u16_bytes_def)
  then show ?thesis
    using q ck udp_decode_wire [OF v] norm dns_parse_reply [OF msg, of "0x4242" ns ar rest]
    by (simp add: dns_verdict_def Let_def DNS_TRANSACTION_ID_def w flip: m)
qed

section \<open>Properties\<close>

text \<open>
  (C12) A DNS lookup is sound: whatever the host name and whatever arrives, it has no undefined behaviour; it
  prints nothing and fails, or what it prints, and its result, is that of a response that
  arrived: from the server's address and port, with the checksums right, with the transaction number of
  the query, and well-formed.
\<close>

theorem dns_lookup_sound:
  assumes "link_ok dev ip mac" and "NUL \<in> set hostname" and "c_text hostname = Some host"
  shows "send_dns_query dev ip mac hostname w \<noteq> Undefined
    \<and> (\<forall>rc w'. send_dns_query dev ip mac hostname w = Outcome rc w' \<longrightarrow> rc = -1 \<and> w_stdout w' = w_stdout w
        \<or> (\<exists>f r. Recv_Frame f \<in> set (w_polls w) \<and> dns_verdict dev ip (take 2048 f) = Some r
            \<and> rc = fst (dns_outcome host r) \<and> w_stdout w' = w_stdout w @ snd (dns_outcome host r)))"
proof -
  note ok = io_okD [OF send_dns_query_ok [OF assms] calm_self]
  show ?thesis using ok by (fastforce simp: dns_poll_verdict)
qed

text \<open>
  (C11) A DNS lookup completes: for a host name of valid labels one frame leaves, with the query for its
  address in UDP, IPv4 and Ethernet; and when a response with response code 0 arrives from the server
  before five seconds have passed, behind any other frames, the tool prints the address and the time to
  live of the first 16 address records, in order, and returns 0. The response may have any
  questions, records, authority and additional sections; its UDP checksum is right or absent; and it
  comes in any valid IPv4 packet from the server to this host, whatever its time to live, its options
  and its other fields, in one frame from any link address and with any padding.
\<close>

theorem dns_lookup_completes:
  assumes m: "m = dns_reply 0x4242 flags qs rrs ns ar rest"
    and link: "link_ok here server mac" and frame: "length d = 6" "length s = 6" "length (ipv4_wire ip) + length pad \<le> 1500"
    and host: "map of_char hostname = dns_host ls @ post" "c_text hostname = Some host"
      "list_all dns_label_ok ls" "ls \<noteq> []" "length (dns_labels ls) \<le> 254"
    and msg: "flags AND 0x8000 \<noteq> 0" "list_all dns_question_ok qs" "length qs < 65536" "list_all dns_rr_ok rrs" "length rrs < 65536"
    and code: "flags AND 0x000F = 0"
    and c: "ip_carries ip IPV4_PROTOCOL_UDP server (nd_ipv4 here) (reply_datagram c m)"
      "c = 0 \<or> transport_checksum server (nd_ipv4 here) 17 (reply_datagram c m) = 0"
    and w: "w_clock w = Some start # map Some (ts @ [t]) @ Some stop # cs" "w_sends w = k # ks" "0 \<le> k"
      "w_polls w = map Recv_Frame fs @ Recv_Frame (eth_image d s ETHERNET_TYPE_IPV4 (ipv4_wire ip @ pad)) # ps"
      "\<forall>f \<in> set fs. dns_verdict here server (take 2048 f) = None"
      "length ts = length fs" "\<forall>now \<in> set (t # ts). elapsed_ns start now \<le> 5000000000"
  shows "send_dns_query here server mac hostname w = Outcome 0 (w\<lparr>w_clock := cs, w_sends := ks, w_polls := ps,
    w_sent := w_sent w @ [ip_image here server mac IPV4_PROTOCOL_UDP
      (dns_datagram here server (dns_query 0x4242 ls)) 0x444E],
    w_stdout := w_stdout w @ map (answer_line host) (take 16 (dns_a_records rrs))\<rparr>)"
proof -
  let ?r = "dns_keep (dns_a_records rrs) (dns_header_response 0x4242 flags)"
  let ?f = "eth_image d s ETHERNET_TYPE_IPV4 (ipv4_wire ip @ pad)"
  have v: "dns_verdict here server ?f = Some ?r"
    using dns_verdict_carried [OF m c(1) frame c(2) msg] .
  have "length ?f \<le> 2048" using frame by (simp add: eth_image_def)
  then have e: "dnsf.poll_verdict here server (Recv_Frame ?f) = Some ?r"
    using v by (subst dns_poll_verdict) (simp add: take_all)
  have others: "list_all (\<lambda>e. e \<in> range Recv_Frame \<and> dnsf.poll_verdict here server e = None) (map Recv_Frame fs)"
    using w(5) by (auto simp: list_all_iff dnsf.poll_verdict_def)
  have b: "frame_built (dns_query_frame here server mac hostname) (ip_image here server mac IPV4_PROTOCOL_UDP
      (dns_datagram here server (dns_query 0x4242 ls)) 0x444E)"
    by (rule dns_query_frame_host [OF link host(1,3-5)])
  have x: "exchange DNS_TIMEOUT_MS here (dns_query_frame here server mac hostname) (dns_answer_from here server) w =
      Outcome (Some ?r) (w\<lparr>w_clock := cs, w_sends := ks, w_polls := ps, w_sent := w_sent w @
        [ip_image here server mac IPV4_PROTOCOL_UDP (dns_datagram here server (dns_query 0x4242 ls)) 0x444E]\<rparr>)"
    using link w others e
    by (intro dnsf.exchange_finds [OF _ _ b, where start = start and ts = ts and t = t and k = k])
      (auto simp: link_ok_def const_defs list_all_iff)
  have "dns_response_wf ?r" using v by (rule dns_verdict_wf)
  from dns_report_eq [OF this host(2)] x show ?thesis
    using code by (simp add: send_dns_query_def io_bind_def dns_outcome_def dns_kept_answers)
qed

theorem dns_lookup_sound_witness:
  "send_dns_query example_device [10, 0, 0, 1] [2, 0, 0, 0, 0, 1] (''..'' @ [NUL]) example_world \<noteq> Undefined"
proof -
  have "link_ok example_device [10, 0, 0, 1] [2, 0, 0, 0, 0, 1]" using example_devices by (simp add: link_ok_def)
  moreover have "c_text (''..'' @ [NUL]) = Some ''..''" by (simp add: c_text_def NUL_def)
  ultimately show ?thesis using dns_lookup_sound [of example_device "[10, 0, 0, 1]" _ "''..'' @ [NUL]" "''..''" example_world] by simp
qed

definition example_dns_message :: bytes where
  "example_dns_message = dns_reply 0x4242 0x8180 dns_example_questions dns_example_records 0 1 dns_example_additional"

definition example_dns_packet :: ipv4_packet where
  "example_dns_packet = ipv4_built [10, 0, 0, 1] (nd_ipv4 example_device) IPV4_PROTOCOL_UDP (reply_datagram 0 example_dns_message) 57 9"

definition example_dns_world :: world where
  "example_dns_world = \<lparr> w_clock = (let c = Some \<lparr> tv_sec = 7, tv_nsec = 0 \<rparr> in [c, c, c, c, c]),
     w_polls = [Recv_Frame [1, 2, 3],
       Recv_Frame (eth_image (nd_mac example_device) [2, 0, 0, 0, 0, 1] ETHERNET_TYPE_IPV4 (ipv4_wire example_dns_packet @ []))],
     w_sends = [63], w_allocs = [], w_sent = [], w_stdout = [], w_closed = [] \<rparr>"

lemma example_dns_carried:
  "ip_carries example_dns_packet IPV4_PROTOCOL_UDP [10, 0, 0, 1] (nd_ipv4 example_device) (reply_datagram 0 example_dns_message)
    \<and> length (ipv4_wire example_dns_packet) \<le> 1500"
proof -
  have "length example_dns_message \<le> 100"
    by (simp add: example_dns_message_def dns_example_questions_def dns_example_records_def dns_example_additional_def
        dns_reply_def dns_question_bytes_def dns_rr_bytes_def)
  then have l: "length (reply_datagram 0 example_dns_message) \<le> 108"
    by (simp add: reply_datagram_def udp_wire_def udp_built_def)
  have c: "ip_carries example_dns_packet IPV4_PROTOCOL_UDP [10, 0, 0, 1] (nd_ipv4 example_device) (reply_datagram 0 example_dns_message)"
    unfolding example_dns_packet_def using example_devices l by (intro ip_carries_built) (simp_all add: netdev_wf_def)
  then have "ipv4_valid example_dns_packet" by (simp add: ip_carries_def)
  then have "length (ipv4_wire example_dns_packet) \<le> 1500"
    using l by (simp add: length_ipv4_wire) (simp add: example_dns_packet_def ipv4_built_def)
  with c show ?thesis by simp
qed

theorem dns_lookup_completes_witness:
  "\<exists>w'. send_dns_query example_device [10, 0, 0, 1] [2, 0, 0, 0, 0, 1] (''ab.c'' @ [NUL]) example_dns_world = Outcome 0 w'
    \<and> w_stdout w' = [''A    ab.c    10.0.0.1    ttl=60'' @ [LF]]"
proof -
  let ?c = "\<lparr> tv_sec = 7, tv_nsec = 0 \<rparr>"
  have link: "link_ok example_device [10, 0, 0, 1] [2, 0, 0, 0, 0, 1]" "length (nd_mac example_device) = 6"
    using example_devices by (simp_all add: link_ok_def netdev_wf_def)
  have host: "map of_char (''ab.c'' @ [NUL]) = dns_host [[97, 98], [99]] @ []" "c_text (''ab.c'' @ [NUL]) = Some ''ab.c''"
    "list_all dns_label_ok [[97, 98], [99 :: u8]]" "[[97, 98], [99 :: u8]] \<noteq> []" "length (dns_labels [[97, 98], [99]]) \<le> 254"
    by (simp_all add: NUL_def c_text_def dns_label_ok_def dns_labels_def)
  have msg: "(0x8180 :: u16) AND 0x8000 \<noteq> 0" "list_all dns_question_ok dns_example_questions" "length dns_example_questions < 65536"
    "list_all dns_rr_ok dns_example_records" "length dns_example_records < 65536" "(0x8180 :: u16) AND 0x000F = 0"
    and a: "dns_a_records dns_example_records = [\<lparr> dns_address = [10, 0, 0, 1], dns_ttl = 60 \<rparr>]"
    by (simp_all add: dns_example_questions_def dns_example_records_def dns_question_ok_def dns_rr_ok_def
        dns_name_ok_def dns_tail_ok_def dns_a_records_def dns_rr_is_a_def)
  have no: "dns_verdict example_device [10, 0, 0, 1] [1, 2, 3] = None"
    by (simp add: dns_verdict_def ip_verdict_def eth_payload_of_def)
  have line: "answer_line ''ab.c'' \<lparr> dns_address = [10, 0, 0, 1], dns_ttl = 60 \<rparr> = ''A    ab.c    10.0.0.1    ttl=60'' @ [LF]"
    by code_simp
  show ?thesis
    using dns_lookup_completes [OF example_dns_message_def link(1,2) _ _ host msg example_dns_carried [THEN conjunct1], where pad = "[]"
        and w = example_dns_world and start = ?c and ts = "[?c]" and t = ?c and stop = ?c and cs = "[Some ?c]" and k = 63 and ks = "[]"
        and fs = "[[1, 2, 3]]" and ps = "[]" and s = "[2, 0, 0, 0, 0, 1]"]
      example_dns_carried no line a
    by (simp add: example_dns_world_def elapsed_ns_def Let_def)
qed

end
