(* ===== verification/TcpProbe.thy ===== *)
theory TcpProbe
  imports TcpFrames TcpHandshake
begin

text \<open>
  \<^verbatim>\<open>src/tools/netstack_tcp.c\<close>: a three-way handshake with a port, ended with a reset. The tool keeps its own
  sequence numbers and does not use the connection engine.
\<close>

section \<open>Model\<close>

definition TCP_TIMEOUT_MS :: int where [const_defs]: "TCP_TIMEOUT_MS = 5000"
definition TCP_SOURCE_PORT :: u16 where [const_defs]: "TCP_SOURCE_PORT = 40000"
definition TCP_PROBE_WINDOW_SIZE :: u16 where [const_defs]: "TCP_PROBE_WINDOW_SIZE = 64240"

text \<open>The tests of the receive loop; a reset leaves it with the return code -1, here \<open>None\<close>.\<close>

definition syn_ack_from :: "netdev \<Rightarrow> bytes \<Rightarrow> u16 \<Rightarrow> u32 \<Rightarrow> bytes \<Rightarrow> nat \<Rightarrow> tcp_segment option option option" where
  "syn_ack_from dev target_ip target_port client_isn buffer n = do {
     tcp \<leftarrow> tcp_from_peer dev target_ip target_port TCP_SOURCE_PORT buffer n;
     (case tcp of
        None \<Rightarrow> Some None
      | Some tcp \<Rightarrow>
          if tcp_flags tcp AND TCP_FLAG_RST \<noteq> 0 then Some (Some None)
          else if tcp_flags tcp AND (TCP_FLAG_SYN OR TCP_FLAG_ACK) \<noteq> TCP_FLAG_SYN OR TCP_FLAG_ACK then Some None
          else if tcp_acknowledgment_number tcp \<noteq> client_isn + 1 then Some None
          else Some (Some (Some tcp))) }"

text \<open>The result is the return code and the segment \<^verbatim>\<open>*reply\<close>.\<close>

definition wait_for_syn_ack :: "netdev \<Rightarrow> bytes \<Rightarrow> u16 \<Rightarrow> u32 \<Rightarrow> tcp_segment \<Rightarrow> (int \<times> tcp_segment) io" where
  "wait_for_syn_ack dev target_ip target_port client_isn reply = io_bind clock_gettime (\<lambda>start.
     case start of
       None \<Rightarrow> io_return (-1, reply)
     | Some start \<Rightarrow>
         io_bind (wait_loop TCP_TIMEOUT_MS False dev (syn_ack_from dev target_ip target_port client_isn) start
             (uninit RECEIVE_BUFFER_SIZE)) (\<lambda>answer.
           case answer of
             Got (Some tcp) \<Rightarrow> io_bind clock_gettime (\<lambda>end_time.
               io_return (case end_time of None \<Rightarrow> (-1, reply) | Some _ \<Rightarrow> (0, tcp)))
           | _ \<Rightarrow> io_return (-1, reply)))"

text \<open>\<^verbatim>\<open>tcp_build\<close> of a segment without data, and \<^verbatim>\<open>send_tcp_frame\<close>.\<close>

definition send_control :: "netdev \<Rightarrow> bytes \<Rightarrow> bytes \<Rightarrow> u16 \<Rightarrow> u32 \<Rightarrow> u32 \<Rightarrow> u8 \<Rightarrow> u16 \<Rightarrow> int io" where
  "send_control dev target_ip next_hop_mac target_port seq ack flags window =
    io_bind (io_lift (tcp_build (Some undefined) TCP_SOURCE_PORT target_port seq ack flags window None 0)) (\<lambda>(rc, segment).
      if rc \<noteq> 0 then io_return (-1)
      else io_bind (io_lift segment) (\<lambda>segment. send_tcp_frame dev target_ip next_hop_mac segment))"

text \<open>The ACK and the reset, after the SYN-ACK.\<close>

definition finish_handshake :: "netdev \<Rightarrow> bytes \<Rightarrow> u16 \<Rightarrow> bytes \<Rightarrow> u32 \<Rightarrow> tcp_segment \<Rightarrow> int io" where
  "finish_handshake dev target_ip target_port next_hop_mac client_isn syn_ack =
    (let client_seq = client_isn + 1; server_next_seq = tcp_sequence_number syn_ack + 1 in
     io_bind (send_control dev target_ip next_hop_mac target_port client_seq server_next_seq TCP_FLAG_ACK TCP_PROBE_WINDOW_SIZE)
       (\<lambda>rc.
         if rc \<noteq> 0 then io_return (-1)
         else io_bind (send_control dev target_ip next_hop_mac target_port client_seq server_next_seq
             (TCP_FLAG_RST OR TCP_FLAG_ACK) 0) (\<lambda>_. io_return 0)))"

definition perform_handshake :: "netdev \<Rightarrow> bytes \<Rightarrow> u16 \<Rightarrow> bytes \<Rightarrow> int io" where
  "perform_handshake dev target_ip target_port next_hop_mac = io_bind tcp_generate_isn (\<lambda>client_isn.
     io_bind (send_control dev target_ip next_hop_mac target_port client_isn 0 TCP_FLAG_SYN TCP_PROBE_WINDOW_SIZE) (\<lambda>rc.
       if rc \<noteq> 0 then io_return (-1)
       else io_bind (wait_for_syn_ack dev target_ip target_port client_isn undefined) (\<lambda>(rc, syn_ack).
         if rc \<noteq> 0 then io_return (-1)
         else finish_handshake dev target_ip target_port next_hop_mac client_isn syn_ack)))"

text \<open>
  \<^verbatim>\<open>strtoul(text, &end, 10)\<close> on a 64-bit \<^verbatim>\<open>unsigned long\<close>: as \<^verbatim>\<open>strtol\<close>, but saturating at the largest value and
  with a minus sign negating modulo $2^{64}$.
\<close>

definition c_strtoul :: "string \<Rightarrow> (nat \<times> nat) option" where
  "c_strtoul mem = do {
     t \<leftarrow> c_text mem;
     let spaces = length (takeWhile c_isspace t);
     let t = drop spaces t;
     let signs = (if t \<noteq> [] \<and> (hd t = CHR ''-'' \<or> hd t = CHR ''+'') then 1 else 0);
     let negative = (t \<noteq> [] \<and> hd t = CHR ''-'');
     let digits = takeWhile c_isdigit (drop signs t);
     let value = dec_number digits;
     Some (if digits = [] then (0, 0)
           else (if value \<ge> 2 ^ 64 then 2 ^ 64 - 1 else if negative \<and> value \<noteq> 0 then 2 ^ 64 - value else value,
             spaces + signs + length digits)) }"

definition parse_port :: "string \<Rightarrow> u16 option option" where
  "parse_port text = do {
     (port_value, port_end) \<leftarrow> c_strtoul text;
     c \<leftarrow> rd text port_end;
     Some (if port_end = 0 \<or> c \<noteq> NUL \<or> port_value = 0 \<or> port_value > 65535 then None
           else Some (of_nat port_value)) }"

definition tcp_main :: "(string \<Rightarrow> bytes option) \<Rightarrow> kernel \<Rightarrow> string list \<Rightarrow> int io" where
  "tcp_main inet_pton k argv =
    (if length argv \<noteq> 4 then io_return 1
     else io_bind (io_lift (parse_port (argv ! 3))) (\<lambda>port.
       case port of
         None \<Rightarrow> io_return 1
       | Some target_port \<Rightarrow>
           (case inet_pton (argv ! 2) of
              None \<Rightarrow> io_return 1
            | Some addr \<Rightarrow>
                io_bind (io_lift (memcpy (uninit 4) 0 addr 0 4)) (\<lambda>target_ip.
                  tool_session tcp_resolve_arp (\<lambda>dev ip mac. perform_handshake dev ip target_port mac) k (argv ! 1) target_ip))))"

section \<open>The answer\<close>

definition syn_ack_verdict :: "netdev \<Rightarrow> bytes \<Rightarrow> u16 \<Rightarrow> u32 \<Rightarrow> bytes \<Rightarrow> tcp_segment option option" where
  "syn_ack_verdict dev peer port isn f = do {
     s \<leftarrow> tcp_verdict dev peer port 40000 f;
     if tcp_flags s AND TCP_FLAG_RST \<noteq> 0 then Some None
     else if handshake_ok 40000 port isn s then Some (Some s) else None }"

lemma syn_ack_from_eq:
  assumes "netdev_wf dev" and "length peer = 4" and "0 < n" and "n \<le> length b"
  shows "syn_ack_from dev peer port isn b n = Some (syn_ack_verdict dev peer port isn (take n b))"
proof (cases "tcp_verdict dev peer port 40000 (take n b)")
  case None
  then show ?thesis by (simp add: syn_ack_from_def syn_ack_verdict_def tcp_from_peer_eq [OF assms] TCP_SOURCE_PORT_def)
next
  case (Some s)
  note p = tcp_verdict_facts(2,3) [OF Some]
  show ?thesis
    unfolding syn_ack_from_def syn_ack_verdict_def tcp_from_peer_eq [OF assms] TCP_SOURCE_PORT_def syn_ack_flags handshake_ok_def
    using Some p by simp
qed

interpretation probef: frame_test "syn_ack_from dev peer port isn" "syn_ack_verdict dev peer port isn" "netdev_wf dev \<and> length peer = 4"
  for dev peer port isn
  by unfold_locales (simp add: syn_ack_from_eq)

lemma probe_poll_verdict:
  "probef.poll_verdict dev peer port isn e = Some x \<longleftrightarrow> (\<exists>f. e = Recv_Frame f \<and> syn_ack_verdict dev peer port isn (take 2048 f) = Some x)"
  by (cases e) (auto simp: probef.poll_verdict_def syn_ack_verdict_def tcp_verdict_def ip_verdict_def eth_payload_of_def)

section \<open>The handshake\<close>

lemma send_control_eq:
  assumes "link_ok dev tip mac"
  shows "send_control dev tip mac port seq ack fl win w =
    (case w_sends w of [] \<Rightarrow> Waiting
     | sent # rest \<Rightarrow> if sent < 0 then Outcome (-1) (w\<lparr>w_sends := rest\<rparr>)
         else Outcome 0 (w\<lparr>w_sends := rest, w_sent := w_sent w @ [tcp_image 0x5443 dev tip mac (tcp_built 40000 port seq ack fl win [])]\<rparr>))"
proof -
  have v: "tcp_valid (tcp_built 40000 port seq ack fl win [])" by (rule tcp_built_valid) simp
  have l: "length (tcp_wire (tcp_built 40000 port seq ack fl win [])) \<le> 1480" using length_tcp_wire [OF v] by (simp add: tcp_built_def)
  show ?thesis
    using tcp_send [OF _ _ _ _ v l, of dev tip mac "0x5443" w] assms
    by (simp add: send_control_def send_tcp_frame_def tcp_build_empty TCP_SOURCE_PORT_def link_ok_def)
qed

definition probe_segment :: "netdev \<Rightarrow> bytes \<Rightarrow> bytes \<Rightarrow> u16 \<Rightarrow> u32 \<Rightarrow> u32 \<Rightarrow> u8 \<Rightarrow> u16 \<Rightarrow> bytes" where
  "probe_segment dev tip mac port seq ack fl win = tcp_image 0x5443 dev tip mac (tcp_built 40000 port seq ack fl win [])"

text \<open>The answer comes from a frame that arrived, and waiting for it sends nothing.\<close>

lemma wait_for_syn_ack_result:
  assumes "link_ok dev tip mac"
  shows "wait_for_syn_ack dev tip port isn r w \<noteq> Undefined"
    and "wait_for_syn_ack dev tip port isn r w = Outcome (rc, s) w' \<Longrightarrow> only_input w w'
      \<and> (rc = -1 \<or> rc = 0 \<and> (\<exists>f. Recv_Frame f \<in> set (w_polls w) \<and> syn_ack_verdict dev tip port isn (take 2048 f) = Some (Some s)))"
proof -
  let ?wait = "\<lambda>start. wait_loop TCP_TIMEOUT_MS False dev (syn_ack_from dev tip port isn) start (uninit RECEIVE_BUFFER_SIZE)"
  have ready: "netdev_wf dev \<and> length tip = 4" "0 \<le> nd_fd dev" and len: "length (uninit RECEIVE_BUFFER_SIZE) = 2048"
    using assms by (simp_all add: link_ok_def const_defs)
  note safe = probef.wait_safe [OF ready len] and frame = probef.wait_frame [OF ready len]
  show "wait_for_syn_ack dev tip port isn r w \<noteq> Undefined"
    using safe by (auto simp: wait_for_syn_ack_def io_bind_def clock_gettime_def split: list.splits option.splits outcome.splits waited.splits)
  assume o: "wait_for_syn_ack dev tip port isn r w = Outcome (rc, s) w'"
  show "only_input w w' \<and> (rc = -1 \<or> rc = 0 \<and> (\<exists>f. Recv_Frame f \<in> set (w_polls w) \<and> syn_ack_verdict dev tip port isn (take 2048 f) = Some (Some s)))"
  proof (cases "w_clock w = [] \<or> hd (w_clock w) = None")
    case True
    then show ?thesis
      using o by (cases "w_clock w") (auto simp: wait_for_syn_ack_def io_bind_def clock_gettime_def only_input_def)
  next
    case False
    then obtain start ts where c: "w_clock w = Some start # ts" by (cases "w_clock w") auto
    obtain a v where a: "?wait start (w\<lparr>w_clock := ts\<rparr>) = Outcome a v"
      using o c by (auto simp: wait_for_syn_ack_def io_bind_def clock_gettime_def split: outcome.splits)
    note f = frame [OF a]
    show ?thesis
    proof (cases "\<exists>t. a = Got (Some t)")
      case True
      then obtain t where t: "a = Got (Some t)" by blast
      then obtain e where "e \<in> set (w_polls w)" "probef.poll_verdict dev tip port isn e = Some (Some t)" using f by auto
      then have "\<exists>f. Recv_Frame f \<in> set (w_polls w) \<and> syn_ack_verdict dev tip port isn (take 2048 f) = Some (Some t)"
        by (auto simp: probe_poll_verdict)
      then show ?thesis
        using o c a t f by (auto simp: wait_for_syn_ack_def io_bind_def clock_gettime_def only_input_def split: list.splits option.splits)
    next
      case False
      then show ?thesis
        using o c a f by (auto simp: wait_for_syn_ack_def io_bind_def clock_gettime_def only_input_def split: waited.splits option.splits)
    qed
  qed
qed

text \<open>
  What a successful handshake sent: the SYN, an ACK of the answer, and a reset if the third send
  succeeded. The first two sends succeeded.
\<close>

definition handshake_sent :: "netdev \<Rightarrow> bytes \<Rightarrow> u16 \<Rightarrow> bytes \<Rightarrow> u32 \<Rightarrow> tcp_segment \<Rightarrow> int list \<Rightarrow> bytes list \<Rightarrow> bool" where
  "handshake_sent dev tip port mac isn s sends sent \<longleftrightarrow> (case sends of syn # ack # rst # rest \<Rightarrow>
       0 \<le> syn \<and> 0 \<le> ack \<and> sent = [probe_segment dev tip mac port isn 0 2 64240,
          probe_segment dev tip mac port (isn + 1) (tcp_sequence_number s + 1) 16 64240]
        @ (if rst < 0 then [] else [probe_segment dev tip mac port (isn + 1) (tcp_sequence_number s + 1) 20 0])
     | _ \<Rightarrow> False)"

lemma finish_handshake_result:
  assumes link: "link_ok dev tip mac" and "w_sent v = sent @ [probe_segment dev tip mac port isn 0 2 64240]" and "0 \<le> k"
  shows "finish_handshake dev tip port mac isn s v \<noteq> Undefined"
    and "finish_handshake dev tip port mac isn s v = Outcome rc v' \<Longrightarrow> w_closed v' = w_closed v
      \<and> (rc = -1 \<or> rc = 0 \<and> (\<exists>more. w_sent v' = sent @ more \<and> handshake_sent dev tip port mac isn s (k # w_sends v) more))"
  using assms(2,3)
  by (auto simp: finish_handshake_def Let_def io_bind_def send_control_eq [OF link] probe_segment_def handshake_sent_def const_defs
      split: list.splits if_splits)

definition probe_isn :: "world \<Rightarrow> u32" where
  "probe_isn w = (case w_clock w of Some t # _ \<Rightarrow> isn_of t | _ \<Rightarrow> 0x12345678)"

lemma perform_handshake_run:
  assumes link: "link_ok dev tip mac" and w: "w_clock w = c # ts" "w_sends w = k # ks" "0 \<le> k"
  shows "perform_handshake dev tip port mac w = io_bind (wait_for_syn_ack dev tip port (probe_isn w) undefined) (\<lambda>(rc, s).
      if rc \<noteq> 0 then io_return (-1) else finish_handshake dev tip port mac (probe_isn w) s)
    (w\<lparr>w_clock := ts, w_sends := ks, w_sent := w_sent w @ [probe_segment dev tip mac port (probe_isn w) 0 2 64240]\<rparr>)"
proof -
  have "tcp_generate_isn w = Outcome (probe_isn w) (w\<lparr>w_clock := ts\<rparr>)"
    using w(1) by (simp add: tcp_generate_isn_def probe_isn_def io_bind_def clock_gettime_def split: option.split)
  then show ?thesis
    using w by (simp add: perform_handshake_def io_bind_Outcome io_bind_def [of "send_control _ _ _ _ _ _ _ _"] send_control_eq [OF link]
        probe_segment_def TCP_FLAG_SYN_def TCP_PROBE_WINDOW_SIZE_def)
qed

lemma perform_handshake_result:
  assumes link: "link_ok dev tip mac"
  shows "perform_handshake dev tip port mac w \<noteq> Undefined
    \<and> (\<forall>rc w'. perform_handshake dev tip port mac w = Outcome rc w' \<longrightarrow> w_closed w' = w_closed w \<and> (rc = -1 \<or> rc = 0
      \<and> (\<exists>f s sent. Recv_Frame f \<in> set (w_polls w) \<and> syn_ack_verdict dev tip port (probe_isn w) (take 2048 f) = Some (Some s)
          \<and> w_sent w' = w_sent w @ sent \<and> handshake_sent dev tip port mac (probe_isn w) s (w_sends w) sent)))"
proof -
  consider "w_clock w = []" | "w_sends w = []" | k ks where "w_clock w \<noteq> []" "w_sends w = k # ks" "k < 0"
    | c ts k ks where "w_clock w = c # ts" "w_sends w = k # ks" "0 \<le> k"
    by (cases "w_sends w"; cases "w_clock w") (auto simp: not_less [symmetric])
  then show ?thesis
  proof cases
    case (4 c ts k ks)
    note run = perform_handshake_run [OF link 4] and wait = wait_for_syn_ack_result [OF link]
    let ?v = "w\<lparr>w_clock := ts, w_sends := ks, w_sent := w_sent w @ [probe_segment dev tip mac port (probe_isn w) 0 2 64240]\<rparr>"
    show ?thesis
    proof (cases "wait_for_syn_ack dev tip port (probe_isn w) undefined ?v")
      case (Outcome x v)
      obtain rc s where x: "x = (rc, s)" by (cases x)
      note wr = wait(2) [OF Outcome [unfolded x]]
      then have v: "w_sent v = w_sent w @ [probe_segment dev tip mac port (probe_isn w) 0 2 64240]" "w_closed v = w_closed w"
        "w_sends v = ks"
        by (simp_all add: only_input_def)
      note fin = finish_handshake_result [OF link v(1) 4(3), where s = s]
      show ?thesis
      proof (cases "rc = 0")
        case True
        then have "perform_handshake dev tip port mac w = finish_handshake dev tip port mac (probe_isn w) s v"
          using run Outcome x by (simp add: io_bind_def)
        then show ?thesis using fin wr v(2,3) True 4(2) by auto
      next
        case False
        then show ?thesis using run Outcome x v by (simp add: io_bind_def)
      qed
    qed (use run wait(1) in \<open>simp_all add: io_bind_def\<close>)
  qed (auto simp: perform_handshake_def tcp_generate_isn_def io_bind_def clock_gettime_def send_control_eq [OF link]
      split: list.splits)
qed

interpretation probe: tool tcp_resolve_arp "\<lambda>dev ip mac. perform_handshake dev ip port mac" True
  for port
proof unfold_locales
  show "io_ok (holding closed) (perform_handshake dev tip port mac) (\<lambda>_ w. holding closed w)" if "link_ok dev tip mac" for dev tip mac closed
    using perform_handshake_result [OF that] by (auto simp: holding_def intro!: io_okI)
qed (simp add: tcp_resolve_arp_def resolve_arp_ok)

section \<open>Properties\<close>

text \<open>
  (C15) The handshake of the TCP tool is sound: it has no undefined behaviour whatever arrives; and if it
  reports success, a SYN-ACK of the target port that acknowledges the SYN arrived intact, and the tool
  made three sends: the SYN and the ACK of that very segment went out, and a reset in sequence went out
  unless its send, the third, failed.
\<close>

theorem tcp_probe_sound:
  assumes "link_ok dev tip mac"
  shows "perform_handshake dev tip port mac w \<noteq> Undefined
    \<and> (\<forall>rc w'. perform_handshake dev tip port mac w = Outcome rc w' \<longrightarrow> rc = -1 \<or> rc = 0
      \<and> (\<exists>f s sent. Recv_Frame f \<in> set (w_polls w) \<and> tcp_verdict dev tip port 40000 (take 2048 f) = Some s
          \<and> handshake_ok 40000 port (probe_isn w) s
          \<and> w_sent w' = w_sent w @ sent \<and> handshake_sent dev tip port mac (probe_isn w) s (w_sends w) sent))"
proof -
  have "tcp_verdict dev tip port 40000 f = Some s \<and> handshake_ok 40000 port isn s" if "syn_ack_verdict dev tip port isn f = Some (Some s)"
    for f s isn
    using that by (auto simp: syn_ack_verdict_def bind_eq_Some_conv split: if_splits)
  then show ?thesis using perform_handshake_result [OF assms, of port w] by fast
qed

theorem tcp_probe_sound_witness:
  "perform_handshake example_device [10, 0, 0, 1] 443 [2, 0, 0, 0, 0, 1] example_world \<noteq> Undefined"
proof -
  have "link_ok example_device [10, 0, 0, 1] [2, 0, 0, 0, 0, 1]" using example_devices by (simp add: link_ok_def)
  from tcp_probe_sound [OF this, of 443 example_world] show ?thesis by simp
qed

end
