(* ===== verification/Tools.thy ===== *)
theory Tools
  imports HttpFetch HttpTime Ping DnsTool TcpProbe
begin

text \<open>
  The four command-line tools as programs: what their \<^verbatim>\<open>main\<close> functions do with the arguments and with the
  socket. \<^verbatim>\<open>inet_pton\<close> is a parameter; the tools rely on it to store four bytes when it succeeds.
\<close>

definition pton_ok :: "(string \<Rightarrow> bytes option) \<Rightarrow> bool" where
  "pton_ok pton \<longleftrightarrow> (\<forall>s a. pton s = Some a \<longrightarrow> length a = 4)"

text \<open>
  A program that returns an exit status and, when its arguments are accepted, its interface name is
  usable and the kernel gave it a socket, has closed that socket, once; and otherwise has closed nothing.
\<close>

definition closes_socket :: "kernel \<Rightarrow> string \<Rightarrow> bool \<Rightarrow> int io \<Rightarrow> bool" where
  "closes_socket k name accepted m \<longleftrightarrow> (\<forall>w. case m w of Undefined \<Rightarrow> False | Waiting \<Rightarrow> True
     | Outcome rc w' \<Rightarrow> rc \<in> {0, 1} \<and> w_closed w' = w_closed w
         @ (if accepted \<and> (\<exists>t. interface_name_ok name t) \<and> 0 \<le> k_socket k then [k_socket k] else []))"

lemma interface_name_ok_iff: "c_text name = Some t \<Longrightarrow> (\<exists>t. interface_name_ok name t) \<longleftrightarrow> t \<noteq> [] \<and> length t < 16"
  by (auto simp: interface_name_ok_def)

text \<open>Arguments that are refused: nothing happens.\<close>

lemma closes_refused: "closes_socket k name False (io_return 1)" "closes_socket k name False (Outcome 1)"
  by (simp_all add: closes_socket_def)

context tool
begin

lemma closes_session:
  assumes ready "kernel_ok k" "kernel_route_ok k header rows" "NUL \<in> set name" "length tip = 4"
  shows "closes_socket k name True (tool_session resolve run k name tip)"
proof -
  obtain t where t: "c_text name = Some t" using c_text_terminator [of 0 name] assms(4) by auto
  note ok = session_ok [OF assms(1-3) t assms(5)]
  show ?thesis
    using io_okD [OF ok, of "w_closed w" w for w]
    by (auto simp: closes_socket_def holding_def interface_name_ok_iff [OF t] split: outcome.splits)
qed

text \<open>The common shape of the four \<^verbatim>\<open>main\<close> functions behind their argument checks.\<close>

lemma closes_main:
  assumes ready "kernel_ok k" "kernel_route_ok k header rows" "NUL \<in> set name" and pton: "pton_ok pton"
  shows "closes_socket k name (pton a \<noteq> None) (case pton a of None \<Rightarrow> io_return 1
    | Some addr \<Rightarrow> io_bind (io_lift (memcpy (uninit IPV4_ADDR_LEN) 0 addr 0 IPV4_ADDR_LEN)) (\<lambda>tip. tool_session resolve run k name tip))"
proof (cases "pton a")
  case None
  then show ?thesis using closes_refused by simp
next
  case (Some addr)
  then have "length addr = 4" using pton by (simp add: pton_ok_def)
  then show ?thesis
    using closes_session [OF assms(1-4), of addr] Some by (simp add: memcpy_Some const_defs blit_0)
qed

end

lemma c_strtoul_end:
  assumes "c_text arg = Some t" and "c_strtoul arg = Some (v, e)"
  shows "e \<le> length t"
proof -
  let ?s = "length (takeWhile c_isspace t)"
  have s: "?s \<le> length t" by (rule length_takeWhile_le)
  have d: "length (takeWhile c_isdigit (drop j (drop ?s t))) \<le> length t - ?s - j" for j
    using length_takeWhile_le [of c_isdigit "drop j (drop ?s t)"] by simp
  show ?thesis
    using assms s d(1) [of 0] d(1) [of 1] by (auto simp: c_strtoul_def Let_def split: if_splits)
qed

lemma parse_port_safe:
  assumes "NUL \<in> set arg"
  shows "\<exists>p. parse_port arg = Some p"
proof -
  obtain t r where t: "c_text arg = Some t" "arg = t @ NUL # r" using c_text_terminator [of 0 arg] assms by auto
  obtain x where x: "c_strtoul arg = Some x" using t(1) by (auto simp: c_strtoul_def Let_def)
  obtain v e where s: "c_strtoul arg = Some (v, e)" using x by (cases x) simp
  have "e < length arg" using c_strtoul_end [OF t(1) s] t(2) by simp
  then show ?thesis using s by (simp add: parse_port_def rd_def)
qed

lemma mains_close:
  assumes "kernel_ok k" and "kernel_route_ok k header rows" and "pton_ok pton" and "\<forall>a \<in> set argv. NUL \<in> set a"
  shows "closes_socket k (argv ! 1) (length argv = 5 \<and> pton (argv ! 2) \<noteq> None) (http_main pton k argv)"
    and "closes_socket k (argv ! 1) (length argv = 3 \<and> pton (argv ! 2) \<noteq> None) (ping_main pton k argv)"
    and "closes_socket k (argv ! 1) (length argv = 4 \<and> pton (argv ! 2) \<noteq> None) (dns_main pton k argv)"
    and "closes_socket k (argv ! 1) (length argv = 4 \<and> parse_port (argv ! 3) \<noteq> Some None \<and> pton (argv ! 2) \<noteq> None)
        (tcp_main pton k argv)"
proof -
  have nul: "NUL \<in> set (argv ! i)" if "i < length argv" for i using assms(4) that by simp
  have four: "IPV4_ADDR_LEN = 4" by (simp add: const_defs)
  note refused = closes_refused [of k "argv ! 1"]
  show "closes_socket k (argv ! 1) (length argv = 5 \<and> pton (argv ! 2) \<noteq> None) (http_main pton k argv)"
    using web.closes_main [OF _ assms(1,2) _ assms(3), of "argv ! 3" "argv ! 4" "argv ! 1" "argv ! 2"] nul refused
    by (cases "length argv = 5") (simp_all add: http_main_def)
  show "closes_socket k (argv ! 1) (length argv = 3 \<and> pton (argv ! 2) \<noteq> None) (ping_main pton k argv)"
    using ping.closes_main [OF _ assms(1,2) _ assms(3), of "argv ! 1" "argv ! 2"] nul refused
    by (cases "length argv = 3") (simp_all add: ping_main_def)
  show "closes_socket k (argv ! 1) (length argv = 4 \<and> pton (argv ! 2) \<noteq> None) (dns_main pton k argv)"
    using dns_tool.closes_main [OF _ assms(1,2) _ assms(3), unfolded four, of "argv ! 3" "argv ! 1" "argv ! 2"] nul refused
    by (cases "length argv = 4") (simp_all add: dns_main_def four)
  show "closes_socket k (argv ! 1) (length argv = 4 \<and> parse_port (argv ! 3) \<noteq> Some None \<and> pton (argv ! 2) \<noteq> None) (tcp_main pton k argv)"
  proof (cases "length argv = 4")
    case True
    obtain p where p: "parse_port (argv ! 3) = Some p" using parse_port_safe nul [of 3] True by auto
    show ?thesis
      using probe.closes_main [OF _ assms(1,2) _ assms(3), unfolded four, of "argv ! 1" "argv ! 2"] nul [of 1] refused True p
      by (cases p) (simp_all add: tcp_main_def four)
  qed (use refused in \<open>simp add: tcp_main_def\<close>)
qed

section \<open>The tools return\<close>

text \<open>
  A signal interrupts \<^verbatim>\<open>poll\<close>, and \<^verbatim>\<open>netdev_receive\<close> polls again at once, with the full timeout and without
  a look at the clock. So the number of polls is bounded only if the number of signals in a row is.
  \<open>signal_runs e k ps\<close> says that it is at most \<open>e\<close>, when \<open>k\<close> of them came just before.
\<close>

fun signal_runs :: "nat \<Rightarrow> nat \<Rightarrow> poll_event list \<Rightarrow> bool" where
  "signal_runs e k [] \<longleftrightarrow> True"
| "signal_runs e k (p # ps) \<longleftrightarrow>
     (if p = Poll_Interrupted then k < e \<and> signal_runs e (k + 1) ps else signal_runs e 0 ps)"

lemma signal_runs_live:
  "signal_runs e k ps \<Longrightarrow> k \<le> e \<Longrightarrow> length ps + k \<le> length (live_polls ps) * (e + 1) + e"
proof (induction ps arbitrary: k)
  case (Cons p ps)
  show ?case
  proof (cases "p = Poll_Interrupted")
    case True
    with Cons.IH [of "k + 1"] Cons.prems show ?thesis by (simp add: live_polls_def)
  next
    case False
    with Cons.IH [of 0] Cons.prems show ?thesis by (simp add: live_polls_def)
  qed
qed (simp add: live_polls_def)

text \<open>
  The program returns an exit status when the script has \<open>n\<close> readings of the clock, sends and
  allocations and \<open>n * (e + 1)\<close> polls, of which at most \<open>e\<close> in a row are interrupted.
\<close>

definition supplied :: "int \<Rightarrow> nat \<Rightarrow> nat \<Rightarrow> world \<Rightarrow> bool" where
  "supplied d e n w \<longleftrightarrow> spaced d (w_clock w) \<and> n \<le> length (w_clock w) \<and> n \<le> length (w_sends w) \<and> n \<le> length (w_allocs w)
     \<and> n * (e + 1) \<le> length (w_polls w) \<and> signal_runs e 0 (w_polls w)"

lemma supplied_fed:
  assumes "supplied d e n w"
  shows "fed d n w"
proof -
  have "n * (e + 1) \<le> length (live_polls (w_polls w)) * (e + 1) + e"
    using assms signal_runs_live [of e 0 "w_polls w"] by (simp add: supplied_def)
  also have "\<dots> < (length (live_polls (w_polls w)) + 1) * (e + 1)" by simp
  finally have "n < length (live_polls (w_polls w)) + 1" by (rule mult_less_cancel2 [THEN iffD1, THEN conjunct2])
  with assms show ?thesis by (simp add: supplied_def fed_def)
qed

definition returns_within :: "int \<Rightarrow> nat \<Rightarrow> nat \<Rightarrow> int io \<Rightarrow> bool" where
  "returns_within d e n m \<longleftrightarrow> (\<forall>w. supplied d e n w \<longrightarrow> (\<exists>rc w'. m w = Outcome rc w' \<and> rc \<in> {0, 1}))"

lemma returns_withinI:
  assumes "0 < d" and "closes_socket k name a m" and "costs d {} n m (\<lambda>_. True)"
  shows "returns_within d e n m"
  unfolding returns_within_def
proof (intro allI impI)
  fix w
  assume "supplied d e n w"
  then have "fed d n w" by (rule supplied_fed)
  then have "m w \<noteq> Waiting" using costsD(1) [OF assms(3), of w 0] assms(1) by (simp add: since_def)
  then show "\<exists>rc w'. m w = Outcome rc w' \<and> rc \<in> {0, 1}"
    using assms(2) by (cases "m w") (auto simp: closes_socket_def dest!: spec [of _ w])
qed

lemma costs_tool:
  assumes "\<And>dev tip mac. costs d {} c (run dev tip mac) (\<lambda>_. True)"
  shows "costs d {} (2 + turns d ARP_TIMEOUT_MS + c) (tool_session (resolve_arp_with stop check) run k name tip) (\<lambda>_. True)"
  using assms by (intro costs_session costs_resolve)

lemma costs_ping: "costs d J (3 + turns d 5000) (send_ping dev tip mac) (\<lambda>_. True)"
proof -
  have "costs d J (3 + turns d 5000 + 0) (send_ping dev tip mac) (\<lambda>_. True)"
    unfolding send_ping_def Let_def ICMP_TIMEOUT_MS_def by (intro costs_bind [OF costs_exchange] costs_return) simp
  then show ?thesis by simp
qed

lemma costs_print_answers: "costs d J 0 (print_answers host r i n) (\<lambda>_. True)"
proof (induction n arbitrary: i)
  case (Suc n)
  have line: "costs d J 0 (\<lambda>w. Outcome () (w\<lparr>w_stdout := w_stdout w @ [l]\<rparr>)) (\<lambda>_. True)" for l
    by (auto simp: costs_def fed_def later_def intro: exI [of _ 0])
  show ?case using costs_bind [OF line Suc] by (auto intro!: costs_lift_bind)
qed (simp add: costs_return)

lemma costs_dns: "costs d J (3 + turns d 5000) (send_dns_query dev ip mac host) (\<lambda>_. True)"
proof -
  have print: "costs d J 0 (io_bind (print_answers host r i n) (\<lambda>_. io_return 0)) (\<lambda>_. True)" for r i n
    using costs_bind [OF costs_print_answers costs_return(1)] by fastforce
  have "costs d J (3 + turns d 5000 + 0) (send_dns_query dev ip mac host) (\<lambda>_. True)"
    unfolding send_dns_query_def DNS_TIMEOUT_MS_def by (intro costs_bind [OF costs_exchange] cost_rules print) auto
  then show ?thesis by simp
qed

lemma costs_probe: "costs d J (6 + turns d 5000) (perform_handshake dev ip port mac) (\<lambda>_. True)"
proof -
  have isn: "costs d J 1 tcp_generate_isn (\<lambda>_. True)" for J
    unfolding tcp_generate_isn_def by (rule costs_clock_return)
  have send: "costs d J 1 (send_control a b c e f g h i) (\<lambda>_. True)" for J a b c e f g h i
    unfolding send_control_def send_tcp_frame_def by (intro cost_rules costs_send_built) auto
  have fin: "costs d J 2 (finish_handshake a b c e f g) (\<lambda>_. True)" for J a b c e f g
  proof -
    have "costs d J (1 + (1 + 0)) (finish_handshake a b c e f g) (\<lambda>_. True)"
      unfolding finish_handshake_def Let_def by (intro costs_bind [OF send] cost_rules) auto
    then show ?thesis by (simp add: numeral_2_eq_2)
  qed
  have last: "costs d J 1 (case r of Got (Some tcp) \<Rightarrow> io_bind clock_gettime (\<lambda>t. io_return (case t of None \<Rightarrow> (-1, old) | Some _ \<Rightarrow> (0, tcp)))
      | _ \<Rightarrow> io_return (-1, old)) (\<lambda>_. True)" for J old and r :: "tcp_segment option waited"
    by (auto intro!: costs_return costs_clock_return [unfolded One_nat_def] split: waited.split option.split)
  have wait: "costs d J (1 + (turns d 5000 + 1)) (wait_for_syn_ack a b c e f) (\<lambda>_. True)" for J a b c e f
    unfolding wait_for_syn_ack_def TCP_TIMEOUT_MS_def
    by (intro costs_clock_start costs_bind [OF costs_wait last] cost_rules) auto
  have "costs d J (1 + (1 + ((1 + (turns d 5000 + 1)) + 2))) (perform_handshake dev ip port mac) (\<lambda>_. True)"
    unfolding perform_handshake_def
    by (intro costs_bind [OF isn] costs_bind [OF send] costs_bind [OF wait] cost_rules fin) auto
  then show ?thesis by (rule costs_mono) simp_all
qed

lemma mains_cost:
  shows "costs d {} (2 + turns d ARP_TIMEOUT_MS + http_calls d) (http_main pton k argv) (\<lambda>_. True)"
    and "costs d {} (2 + turns d ARP_TIMEOUT_MS + (3 + turns d 5000)) (ping_main pton k argv) (\<lambda>_. True)"
    and "costs d {} (2 + turns d ARP_TIMEOUT_MS + (3 + turns d 5000)) (dns_main pton k argv) (\<lambda>_. True)"
    and "costs d {} (2 + turns d ARP_TIMEOUT_MS + (6 + turns d 5000)) (tcp_main pton k argv) (\<lambda>_. True)"
  unfolding http_main_def ping_main_def dns_main_def tcp_main_def resolve_arp_defs
  by (intro cost_rules costs_tool costs_run_http costs_ping costs_dns costs_probe; simp)+

section \<open>What the argument and status parsers accept\<close>

text \<open>\<^verbatim>\<open>strtoul\<close> accepts a minus sign, so a negative number of the right size is a port.\<close>

lemma parse_port_wraps: "parse_port (''-18446744073709551535'' @ [NUL]) = Some (Some 81)"
  by (simp add: parse_port_def c_strtoul_def c_text_def NUL_def c_isspace_def c_isdigit_def dec_number_def rd_def Let_def)

text \<open>
  \<^verbatim>\<open>strtol\<close> skips line ends as it skips blanks, so the status code can come from the line after a status line
  that has none.
\<close>

lemma http_status_next_line:
  "map_option (\<lambda>(rc, r). (rc, map_option http_status_code r))
     (http_parse_response (Some (''HTTP/1.1     '' @ [CR, LF] @ ''404: x'' @ [CR, LF, CR, LF, NUL])) 25 (Some undefined)) = Some (0, Some 404)"
  by code_simp

section \<open>Properties\<close>

text \<open>
  (C8) No tool leaks its socket. On a kernel with a routing table in the documented form, whatever the
  arguments, whatever arrives and whatever fails, each of the four tools is free of undefined behaviour
  and exits with 0 or 1; when the arguments are accepted and a socket was obtained, the tool has closed
  it exactly once, on every path, and otherwise it has closed nothing.
\<close>

theorem tools_close_socket:
  assumes "kernel_ok k" and "kernel_route_ok k header rows" and "pton_ok pton" and "\<forall>a \<in> set argv. NUL \<in> set a"
  shows "closes_socket k (argv ! 1) (length argv = 5 \<and> pton (argv ! 2) \<noteq> None) (http_main pton k argv)
    \<and> closes_socket k (argv ! 1) (length argv = 3 \<and> pton (argv ! 2) \<noteq> None) (ping_main pton k argv)
    \<and> closes_socket k (argv ! 1) (length argv = 4 \<and> pton (argv ! 2) \<noteq> None) (dns_main pton k argv)
    \<and> closes_socket k (argv ! 1) (length argv = 4 \<and> parse_port (argv ! 3) \<noteq> Some None \<and> pton (argv ! 2) \<noteq> None)
        (tcp_main pton k argv)"
  using mains_close [OF assms] by blast

text \<open>
  (C6) The tools terminate. Let every reading of the clock be at least \<open>d\<close> nanoseconds later than the one before, for
  some positive \<open>d\<close>, and let at most \<open>e\<close> signals in a row interrupt \<^verbatim>\<open>poll\<close>. Then each tool returns an exit status
  once it has had a number of results of each system call that follows from the timeouts of the source, and \<open>e + 1\<close> times as
  many of \<^verbatim>\<open>poll\<close>, whatever frames arrive, how many there are and whichever calls fail: no flood of frames
  can hold it.
\<close>

theorem tools_terminate:
  assumes "0 < d" and "kernel_ok k" and "kernel_route_ok k header rows" and "pton_ok pton" and "\<forall>a \<in> set argv. NUL \<in> set a"
  shows "returns_within d e (2 + turns d ARP_TIMEOUT_MS + http_calls d) (http_main pton k argv)
    \<and> returns_within d e (5 + turns d ARP_TIMEOUT_MS + turns d 5000) (ping_main pton k argv)
    \<and> returns_within d e (5 + turns d ARP_TIMEOUT_MS + turns d 5000) (dns_main pton k argv)
    \<and> returns_within d e (8 + turns d ARP_TIMEOUT_MS + turns d 5000) (tcp_main pton k argv)"
proof -
  note close = mains_close [OF assms(2-)]
  have le: "2 + turns d ARP_TIMEOUT_MS + (3 + turns d 5000) \<le> 5 + turns d ARP_TIMEOUT_MS + turns d 5000"
    "2 + turns d ARP_TIMEOUT_MS + (6 + turns d 5000) \<le> 8 + turns d ARP_TIMEOUT_MS + turns d 5000" by simp_all
  show ?thesis
    using returns_withinI [OF assms(1) close(1) mains_cost(1)] returns_withinI [OF assms(1) close(2) costs_mono [OF mains_cost(2) le(1)]]
      returns_withinI [OF assms(1) close(3) costs_mono [OF mains_cost(3) le(1)]]
      returns_withinI [OF assms(1) close(4) costs_mono [OF mains_cost(4) le(2)]]
    by simp
qed

definition example_pton :: "string \<Rightarrow> bytes option" where
  "example_pton s = (if s = ''10.0.0.1'' @ [NUL] then Some [10, 0, 0, 1] else None)"

theorem tools_close_socket_witness:
  "closes_socket example_kernel (''eno1'' @ [NUL]) True
    (ping_main example_pton example_kernel [''ping'' @ [NUL], ''eno1'' @ [NUL], ''10.0.0.1'' @ [NUL]])"
proof -
  have "pton_ok example_pton" by (simp add: pton_ok_def example_pton_def)
  then show ?thesis
    using tools_close_socket [OF example_kernel_ok, of example_pton "[''ping'' @ [NUL], ''eno1'' @ [NUL], ''10.0.0.1'' @ [NUL]]"]
    by (simp add: example_pton_def)
qed

text \<open>
  One reading per second: with that clock the ping tool makes at most fifteen calls of each kind, and
  with a signal before every timeout it polls at most thirty times.
\<close>

definition example_script :: world where
  "example_script = \<lparr> w_clock = map (\<lambda>n. Some \<lparr> tv_sec = int n, tv_nsec = 0 \<rparr>) [0..<16],
     w_polls = concat (replicate 16 [Poll_Interrupted, Poll_Timeout]),
     w_sends = replicate 16 42, w_allocs = replicate 16 True, w_sent = [], w_stdout = [], w_closed = [] \<rparr>"

lemma example_script_supplied: "supplied (10 ^ 9) 1 15 example_script"
proof -
  have "spaced (10 ^ 9) (w_clock example_script)"
    by (auto simp: spaced_def example_script_def elapsed_ns_def of_nat_diff)
  moreover have "signal_runs 1 0 (concat (replicate n [Poll_Interrupted, Poll_Timeout]))
      \<and> length (concat (replicate n [Poll_Interrupted, Poll_Timeout])) = n * 2" for n
    by (induction n) simp_all
  ultimately show ?thesis by (simp add: supplied_def example_script_def)
qed

theorem tools_terminate_witness:
  "\<exists>rc w'. ping_main example_pton example_kernel [''ping'' @ [NUL], ''eno1'' @ [NUL], ''10.0.0.1'' @ [NUL]] example_script = Outcome rc w'"
proof -
  have p: "pton_ok example_pton" by (simp add: pton_ok_def example_pton_def)
  have n: "5 + turns (10 ^ 9) ARP_TIMEOUT_MS + turns (10 ^ 9) 5000 = 15"
    by (simp add: turns_def ARP_TIMEOUT_MS_def)
  show ?thesis
    using tools_terminate [OF _ example_kernel_ok p, of "10 ^ 9" "[''ping'' @ [NUL], ''eno1'' @ [NUL], ''10.0.0.1'' @ [NUL]]" 1]
      example_script_supplied
    unfolding n by (auto simp: returns_within_def)
qed

end
