(* ===== verification/Spec2Isabelle.thy ===== *)
theory Spec2Isabelle
  imports Parsers TcpHandshake TcpReassembly TcpPipe Dns HttpComplete Tools
begin

text \<open>
  \<^bold>\<open>A verification library for the BlackTerm network stack.\<close>

  \<^bold>\<open>The program.\<close> The repository is an IPv4 stack in C that runs in user space. Under \<^verbatim>\<open>src/src\<close> there is one file per
  protocol: \<^verbatim>\<open>ethernet.c\<close>, \<^verbatim>\<open>arp.c\<close>, \<^verbatim>\<open>ipv4.c\<close>, \<^verbatim>\<open>icmp.c\<close>, \<^verbatim>\<open>udp.c\<close> and \<^verbatim>\<open>tcp.c\<close> parse and serialize
  packets, \<^verbatim>\<open>dns.c\<close> and \<^verbatim>\<open>http.c\<close> build requests and read responses, \<^verbatim>\<open>tcp_connection.c\<close> is a TCP engine for one
  active connection, and \<^verbatim>\<open>netdev_linux.c\<close> opens a packet socket and moves frames. Under \<^verbatim>\<open>src/tools\<close> there are four
  programs on top of them: \<^verbatim>\<open>netstack_ping\<close>, \<^verbatim>\<open>netstack_dns\<close>, \<^verbatim>\<open>netstack_tcp\<close> and \<^verbatim>\<open>netstack_http\<close>. A tool opens the
  device, resolves the hardware address of the next hop by ARP, wraps its payload in IPv4 and
  Ethernet, and waits in a loop for the frame that answers it; only the HTTP tool uses the engine.

  \<^bold>\<open>How C is read.\<close> A C function is an Isabelle function of the same name. A struct is a \<^theory_text>\<open>record\<close>, an enum a \<^theory_text>\<open>datatype\<close>,
  \<^verbatim>\<open>uint8_t\<close>, \<^verbatim>\<open>uint16_t\<close> and \<^verbatim>\<open>uint32_t\<close> are words of that length, \<^verbatim>\<open>size_t\<close> is a \<open>nat\<close> with its wrap-around at
  $2^{64}$ written out where a sum can reach it. An array is a list; every access goes through the primitives of
  \<open>Netstack_Prelude\<close> (\<open>rd\<close>, \<open>wr\<close>, \<open>memcpy\<close>, ...), whose result is \<open>None\<close> outside the array. So the outer \<open>option\<close> of a function
  is undefined behaviour, and a theorem of the form \<open>f x = Some r\<close> contains memory safety. A pointer that may be \<open>NULL\<close> is an \<open>option\<close>;
  what a function writes through a pointer is returned beside its result. An uninitialised object is an
  unspecified value (\<open>undefined\<close>, \<open>uninit\<close>), so a theorem about it holds for every content.

  \<^bold>\<open>Input and output.\<close> A program of \<^verbatim>\<open>src/tools\<close> is a function on a \<open>world\<close> (theory \<open>NetIo\<close>): a script of what the coming calls of
  \<^verbatim>\<open>clock_gettime\<close>, \<^verbatim>\<open>poll\<close> and \<^verbatim>\<open>recv\<close>, \<^verbatim>\<open>send\<close> and \<^verbatim>\<open>malloc\<close> give, failures included, and a log of what was sent, written and closed. The result is
  \<open>Undefined\<close>, \<open>Waiting\<close> (the script is exhausted) or an \<open>Outcome\<close>. The system calls of \<^verbatim>\<open>netdev_open\<close> and the routing table are the
  record \<open>kernel\<close> (theory \<open>Netdev\<close>); \<^verbatim>\<open>inet_pton\<close> is a parameter. What is relied on is stated where it is used: \<open>kernel_ok\<close> and
  \<open>kernel_route_ok\<close> (the documented form of results and of \<^verbatim>\<open>/proc/net/route\<close>), \<open>pton_ok\<close> (four bytes on success).

  \<^bold>\<open>The theories.\<close>
  \<^item> Basis: \<open>Netstack_Prelude\<close> (integers, memory), \<open>Wire\<close> (big-endian fields), \<open>Checksum\<close> (the Internet checksum the four protocol
    files share, its specification as a sum of words, and that it detects every change of one byte), \<open>Codec\<close> (the locales \<open>codec\<close>
    and \<open>canonical_codec\<close>: parser, serializer and wire image, and the round trips that follow), \<open>CString\<close> (the C string functions in use).
  \<^item> Packets: \<open>Ethernet\<close>, \<open>Arp\<close>, \<open>Ipv4\<close>, \<open>Icmp\<close>, \<open>Udp\<close>, \<open>Tcp\<close>, each with every function of its file, its interpretation of the codec
    locale, exact acceptance, round trips and corruption detection; \<open>Parsers\<close> (locales \<open>typed_parser\<close> and \<open>typed_codec\<close>): what they store is well formed.
  \<^item> The TCP engine: \<open>TcpConnection\<close> is \<^verbatim>\<open>tcp_connection.c\<close>. \<open>TcpInvariant\<close> has the invariant \<open>conn_wf\<close>, \<open>TcpSafety\<close> runs of arbitrary calls and the
    locale \<open>conn_invariant\<close>, \<open>TcpMachine\<close> the state machine (\<open>conn_move\<close>: the exact move of every call), the send window and the retransmission timer, \<open>TcpStream\<close> that the
    application reads a prefix of the peer's stream whatever arrives, \<open>TcpReassembly\<close> that nothing is lost while there is
    room, \<open>TcpHandshake\<close> the opening, \<open>TcpPipe\<close> (locale \<open>conn_refinement\<close>) that the receive side refines an abstract byte pipe.
  \<^item> Applications: \<open>Dns\<close> is \<^verbatim>\<open>dns.c\<close>; \<open>Http\<close> is \<^verbatim>\<open>http.c\<close>, with \<open>HttpResponse\<close> and \<open>HttpChunked\<close> on its parsers.
  \<^item> The device and the world: \<open>Netdev\<close>, \<open>NetIo\<close> (sending, receiving, the receive loop and the locale \<open>frame_test\<close> for the tests in it),
    \<open>IoLogic\<close> (triples for programs on a world).
  \<^item> The tools: \<open>ToolFrames\<close> (frames, address resolution), \<open>ToolSession\<close> (the common part of the \<^verbatim>\<open>main\<close> functions and the locale \<open>tool\<close>), \<open>Ping\<close>,
    \<open>DnsTool\<close>, \<open>TcpFrames\<close>, \<open>TcpProbe\<close>, \<open>HttpClient\<close> (the model of \<^verbatim>\<open>netstack_http.c\<close>) with \<open>HttpSession\<close> (its data path, locale \<open>client_invariant\<close>),
    \<open>HttpPrint\<close>, \<open>HttpFetch\<close> (safety and delivery of the whole client) and \<open>HttpComplete\<close> (the exchange that succeeds); \<open>ToolTime\<close> and \<open>HttpTime\<close>
    (how many system calls a tool makes) and \<open>Tools\<close> (what holds of all four).

  \<^bold>\<open>What is shown.\<close> For the engine: end-to-end delivery, the refinement of the pipe, reassembly in any order, the state machine, the handshake and the
  bounds of retransmission. For the packets: exact acceptance, round trips, detection of corrupted bytes, well-formed results.
  For DNS and HTTP: the exact result on well-formed messages and safety on all bytes. For the tools: no undefined behaviour on
  an arbitrary network and with arbitrary failures, soundness of what they report, success when the peer answers in time, the
  socket closed exactly once, and termination. Where the code does less than it means to, the theorems say so:
  \<open>tcp_bare_ack_cancels_syn\<close>, \<open>tcp_serialize_safety\<close>, \<open>parse_port_wraps\<close>, \<open>http_status_next_line\<close>.

  \<^bold>\<open>Loops, bounds and fuel.\<close> No loop has fuel. The loops of the library recurse structurally or with a measure (positions left, slots in use,
  bytes unread); the doubling loop of the response buffer is a \<^theory_text>\<open>partial_function\<close> in the option monad and shown to
  return. The loops of the tools read the clock in every turn and recurse over the readings left in the script, so \<open>Waiting\<close> is the only way
  not to return; \<open>tools_terminate\<close> bounds the calls by the timeouts of the source when successive readings are at
  least \<open>d\<close> nanoseconds apart and at most \<open>e\<close> signals in a row interrupt a poll: \<^verbatim>\<open>netdev_receive\<close> restarts an interrupted \<^verbatim>\<open>poll\<close> with its
  full timeout and without a look at the clock, so signals that keep coming hold a tool past its deadlines. Sequence numbers are words and wrap; the theorems on streams ask for less than $2^{31} - 1$ bytes, the range in which the
  comparison of sequence numbers is meaningful. Elapsed time is compared in nanoseconds where the source uses \<^verbatim>\<open>double\<close> milliseconds, which is exact
  at that resolution.

  \<^bold>\<open>Not modelled.\<close> The text the tools print about their progress (of the output, the model keeps the response written by the HTTP tool and
  the address records of the DNS tool); \<^verbatim>\<open>free\<close>; the kernel, its drivers and the C library beyond what is used; the tests, the examples
  and the build files. The static helpers each source file has its own copy of (big-endian access, the checksum loops) are modelled once.
\<close>

end
